(* ===== verification/Prelude.thy ===== *)
theory Prelude
  imports Main "HOL-Library.Word"
begin

text \<open>
  Shared vocabulary of the development: the outcome of a fallible Rust computation
  (\<open>Ok\<close>, \<open>Err\<close> or a panic), byte buffers and the subslice operations of the standard
  library with their failures written out, big-endian integers, and the collections of
  facts the component theories use for automation.
\<close>

unbundle bit_operations_syntax

named_theorems codec_simps \<open>equations that evaluate readers and writers\<close>
named_theorems emit_intros \<open>composition rules of the writer calculus\<close>
named_theorems safe_intros \<open>rules that show a writer or reader never panics\<close>

type_synonym byte = "8 word"
type_synonym u16 = "16 word"
type_synonym u32 = "32 word"
type_synonym u64 = "64 word"
type_synonym bytes = "byte list"

text \<open>Rust strings are their UTF-8 bytes.\<close>
type_synonym str = "byte list"

text \<open>The bytes of a string literal.\<close>

definition text_of :: "string \<Rightarrow> str" where
  "text_of s = map (of_nat \<circ> of_char) s"

subsection \<open>Outcomes\<close>

datatype ('e, 'a) outcome = Ok 'a | Err 'e | Panic

fun and_then :: "('e, 'a) outcome \<Rightarrow> ('a \<Rightarrow> ('e, 'b) outcome) \<Rightarrow> ('e, 'b) outcome" where
  "and_then (Ok a) f = f a"
| "and_then (Err e) f = Err e"
| "and_then Panic f = Panic"

fun map_err :: "('e \<Rightarrow> 'f) \<Rightarrow> ('e, 'a) outcome \<Rightarrow> ('f, 'a) outcome" where
  "map_err g (Ok a) = Ok a"
| "map_err g (Err e) = Err (g e)"
| "map_err g Panic = Panic"

lemma and_then_eq_Ok:
  "and_then m f = Ok b \<longleftrightarrow> (\<exists>a. m = Ok a \<and> f a = Ok b)"
  by (cases m) auto

lemma and_then_eq_Panic:
  "and_then m f = Panic \<longleftrightarrow> m = Panic \<or> (\<exists>a. m = Ok a \<and> f a = Panic)"
  by (cases m) auto

lemma and_then_not_Panic [safe_intros]:
  "m \<noteq> Panic \<Longrightarrow> (\<And>a. m = Ok a \<Longrightarrow> f a \<noteq> Panic) \<Longrightarrow> and_then m f \<noteq> Panic"
  by (cases m) auto

subsection \<open>Slices\<close>

text \<open>\<open>buf[i]\<close> panics out of range; \<open>buf.get(i).ok_or(e)\<close> is an error there.\<close>

definition index :: "'a list \<Rightarrow> nat \<Rightarrow> ('e, 'a) outcome" where
  "index buf i = (if i < length buf then Ok (buf ! i) else Panic)"

definition get_or :: "'e \<Rightarrow> 'a list \<Rightarrow> nat \<Rightarrow> ('e, 'a) outcome" where
  "get_or e buf i = (if i < length buf then Ok (buf ! i) else Err e)"

text \<open>\<open>&buf[a..b]\<close> panics when the range is reversed or reaches past the end.\<close>

definition subslice :: "'a list \<Rightarrow> nat \<Rightarrow> nat \<Rightarrow> ('e, 'a list) outcome" where
  "subslice buf a b = (if a \<le> b \<and> b \<le> length buf then Ok (take (b - a) (drop a buf)) else Panic)"

text \<open>Overwriting the bytes at \<open>cur\<close>; used only where they fit.\<close>

definition overwrite :: "nat \<Rightarrow> 'a list \<Rightarrow> 'a list \<Rightarrow> 'a list" where
  "overwrite cur bs buf = take cur buf @ bs @ drop (cur + length bs) buf"

text \<open>\<open>buf.copy_within(a..b, dest)\<close> panics when either range leaves the subslice.\<close>

definition copy_within :: "nat \<Rightarrow> nat \<Rightarrow> nat \<Rightarrow> 'a list \<Rightarrow> ('e, 'a list) outcome" where
  "copy_within a b dest buf =
     (if a \<le> b \<and> b \<le> length buf \<and> dest + (b - a) \<le> length buf
      then Ok (overwrite dest (take (b - a) (drop a buf)) buf) else Panic)"

lemma length_overwrite [simp]:
  "cur + length bs \<le> length buf \<Longrightarrow> length (overwrite cur bs buf) = length buf"
  by (simp add: overwrite_def)

lemma overwrite_Nil [simp]: "overwrite cur [] buf = buf"
  by (simp add: overwrite_def)

lemma overwrite_overwrite:
  "cur + length xs + length ys \<le> length buf \<Longrightarrow>
   overwrite (cur + length xs) ys (overwrite cur xs buf) = overwrite cur (xs @ ys) buf"
  by (simp add: overwrite_def drop_drop take_drop ac_simps)

lemma take_overwrite [simp]: "cur \<le> length buf \<Longrightarrow> take cur (overwrite cur bs buf) = take cur buf"
  by (simp add: overwrite_def)

lemma take_overwrite_end:
  "cur \<le> length buf \<Longrightarrow> take (cur + length bs) (overwrite cur bs buf) = take cur buf @ bs"
  by (simp add: overwrite_def)

lemma list_update_overwrite: "i < length buf \<Longrightarrow> buf[i := b] = overwrite i [b] buf"
  by (simp add: overwrite_def upd_conv_take_nth_drop)

lemma index_append [codec_simps]:
  "index (pre @ b # post) (length pre) = Ok b"
  by (simp add: index_def)

lemma get_or_append [codec_simps]:
  "get_or e (pre @ b # post) (length pre) = Ok b"
  by (simp add: get_or_def)

lemma get_or_not_Panic [simp, safe_intros]: "get_or e buf i \<noteq> Panic"
  by (simp add: get_or_def)

lemma subslice_append [codec_simps]:
  "subslice (pre @ bs @ post) (length pre) (length pre + length bs) = Ok bs"
  by (simp add: subslice_def)

subsection \<open>Big-endian integers\<close>

definition to_be16 :: "u16 \<Rightarrow> bytes" where
  "to_be16 w = [ucast (drop_bit 8 w), ucast w]"

definition from_be16 :: "byte \<Rightarrow> byte \<Rightarrow> u16" where
  "from_be16 a b = push_bit 8 (ucast a) OR ucast b"

lemma length_to_be16 [simp]: "length (to_be16 w) = 2"
  by (simp add: to_be16_def)

lemma from_to_be16 [simp]: "from_be16 (ucast (drop_bit 8 w)) (ucast w) = w"
proof (rule bit_word_eqI)
  fix n assume "n < LENGTH(16)"
  then show "bit (from_be16 (ucast (drop_bit 8 w)) (ucast w)) n = bit w n"
    by (auto simp: from_be16_def bit_simps)
qed

lemma to_from_be16: "to_be16 (from_be16 a b) = [a, b]"
proof -
  have "ucast (drop_bit 8 (from_be16 a b)) = a"
    by (rule bit_word_eqI) (auto simp: from_be16_def bit_simps dest: bit_imp_le_length)
  moreover have "ucast (from_be16 a b) = b"
    by (rule bit_word_eqI) (auto simp: from_be16_def bit_simps)
  ultimately show ?thesis by (simp add: to_be16_def)
qed

lemma unat_of_nat_u16 [simp]: "n \<le> 65535 \<Longrightarrow> unat (of_nat n :: u16) = n"
  by (simp add: unat_of_nat)

subsection \<open>Bytes as numbers\<close>

lemma unat_byte_less: "unat (b :: byte) < 256"
  using unsigned_less [of b] by simp

lemma unat_u16_less: "unat (w :: u16) < 65536"
  using unsigned_less [of w] by simp

lemma and_127_unat: "unat (b AND 127 :: byte) = unat b mod 128"
proof -
  have "b AND 127 = take_bit 7 b"
    by (simp add: take_bit_eq_mask mask_eq_exp_minus_1)
  then have "unat (b AND 127) = take_bit 7 (unat b)"
    by (simp only: unsigned_take_bit_eq)
  then show ?thesis by (simp add: take_bit_eq_mod)
qed

lemma and_128_eq_0_iff: "(b AND 128 = (0 :: byte)) \<longleftrightarrow> unat b < 128"
proof -
  have "b AND 128 = 0 \<longleftrightarrow> \<not> bit b 7"
    using and_exp_eq_0_iff_not_bit [of b 7] by simp
  also have "\<dots> \<longleftrightarrow> \<not> bit (unat b) 7"
    by (simp add: bit_unsigned_iff)
  also have "\<dots> \<longleftrightarrow> even (unat b div 128)"
    by (simp add: bit_iff_odd)
  also have "\<dots> \<longleftrightarrow> unat b < 128"
    proof (cases "unat b < 128")
    case False
    then have "unat b div 128 = 1" using unat_byte_less [of b] by (intro div_nat_eqI) auto
    with False show ?thesis by simp
  qed simp
  finally show ?thesis .
qed

end
