(* ===== verification/Heapless.thy ===== *)
theory Heapless
  imports Prelude "HOL-Library.Multiset"
begin

text \<open>
  The fixed-capacity vector of the \<open>heapless\<close> crate as the sources use it: a list with
  a capacity check on \<open>push\<close>, \<open>swap_remove\<close> (the last element takes the place of the
  removed one), and the standard iterator searches \<open>position\<close> and \<open>find\<close> with an
  in-place update of the element found.
\<close>

definition vec_push :: "nat \<Rightarrow> 'a list \<Rightarrow> 'a \<Rightarrow> 'a list option" where
  "vec_push cap xs x = (if length xs < cap then Some (xs @ [x]) else None)"

text \<open>\<open>let _ = xs.push(x)\<close>\<close>

definition push_or_keep :: "nat \<Rightarrow> 'a list \<Rightarrow> 'a \<Rightarrow> 'a list" where
  "push_or_keep cap xs x = (case vec_push cap xs x of Some ys \<Rightarrow> ys | None \<Rightarrow> xs)"

definition swap_remove :: "nat \<Rightarrow> 'a list \<Rightarrow> 'a list" where
  "swap_remove i xs = butlast (xs[i := last xs])"

fun position :: "('a \<Rightarrow> bool) \<Rightarrow> 'a list \<Rightarrow> nat option" where
  "position P [] = None"
| "position P (x # xs) = (if P x then Some 0 else map_option Suc (position P xs))"

fun update_first :: "('a \<Rightarrow> bool) \<Rightarrow> ('a \<Rightarrow> 'a) \<Rightarrow> 'a list \<Rightarrow> 'a list" where
  "update_first P f [] = []"
| "update_first P f (x # xs) = (if P x then f x # xs else x # update_first P f xs)"

lemma vec_push_length: "vec_push cap xs x = Some ys \<Longrightarrow> length ys \<le> cap"
  by (auto simp: vec_push_def split: if_splits)

lemma vec_push_Some: "vec_push cap xs x = Some ys \<longleftrightarrow> length xs < cap \<and> ys = xs @ [x]"
  by (auto simp: vec_push_def)

lemma vec_push_None: "vec_push cap xs x = None \<longleftrightarrow> cap \<le> length xs"
  by (auto simp: vec_push_def)

lemma position_Some:
  "position P xs = Some i \<Longrightarrow> i < length xs \<and> P (xs ! i) \<and> (\<forall>j < i. \<not> P (xs ! j))"
proof (induction xs arbitrary: i)
  case (Cons x xs)
  show ?case
  proof (cases i)
    case 0
    with Cons.prems show ?thesis by (auto split: if_splits)
  next
    case (Suc k)
    with Cons.prems have "position P xs = Some k" "\<not> P x" by (auto split: if_splits)
    with Cons.IH Suc show ?thesis by (auto simp: less_Suc_eq_0_disj)
  qed
qed simp

lemma position_None: "position P xs = None \<longleftrightarrow> (\<forall>x \<in> set xs. \<not> P x)"
  by (induction xs) auto

lemma length_swap_remove [simp]: "length (swap_remove i xs) = length xs - 1"
  by (simp add: swap_remove_def)

lemma mset_swap_remove:
  assumes "i < length xs"
  shows "mset (swap_remove i xs) = mset xs - {#xs ! i#}"
proof (cases xs rule: rev_cases)
  case Nil
  with assms show ?thesis by simp
next
  case (snoc ys y)
  show ?thesis
  proof (cases "i < length ys")
    case True
    then have "mset (ys[i := y]) = add_mset y (mset ys - {#ys ! i#})"
      by (rule mset_update)
    moreover have "ys ! i \<in># mset ys" using True by simp
    ultimately show ?thesis
      using snoc True by (simp add: swap_remove_def list_update_append nth_append)
  next
    case False
    with snoc assms have "i = length ys" by simp
    with snoc show ?thesis by (simp add: swap_remove_def)
  qed
qed

lemma set_swap_remove_subset: "i < length xs \<Longrightarrow> set (swap_remove i xs) \<subseteq> set xs"
  using mset_swap_remove [of i xs] by (metis in_diffD set_mset_mset subsetI)

lemma mset_map_swap_remove:
  "i < length xs \<Longrightarrow> mset (map f (swap_remove i xs)) = mset (map f xs) - {#f (xs ! i)#}"
  by (simp add: mset_swap_remove image_mset_Diff)

lemma distinct_map_swap_remove:
  assumes "i < length xs" "distinct (map f xs)"
  shows "distinct (map f (swap_remove i xs))"
proof -
  have "mset (map f (swap_remove i xs)) = mset (remove1 (f (xs ! i)) (map f xs))"
    using assms(1) by (simp only: mset_map_swap_remove mset_remove1)
  moreover have "distinct (remove1 (f (xs ! i)) (map f xs))"
    using assms(2) by (rule distinct_remove1)
  ultimately show ?thesis by (metis mset_eq_imp_distinct_iff)
qed

lemma set_swap_remove:
  assumes "i < length xs" "distinct (map f xs)"
  shows "set (swap_remove i xs) = {x \<in> set xs. f x \<noteq> f (xs ! i)}"
proof -
  have d: "distinct xs" using assms(2) by (simp add: distinct_map)
  then have "set (swap_remove i xs) = set xs - {xs ! i}"
    using mset_swap_remove [OF assms(1)]
    by (metis mset_remove1 set_mset_mset set_remove1_eq)
  also have "\<dots> = {x \<in> set xs. f x \<noteq> f (xs ! i)}"
    using assms by (auto simp: distinct_map dest: inj_onD)
  finally show ?thesis .
qed

lemma length_update_first [simp]: "length (update_first P f xs) = length xs"
  by (induction xs) auto

lemma map_update_first: "(\<And>x. g (f x) = g x) \<Longrightarrow> map g (update_first P f xs) = map g xs"
  by (induction xs) auto

lemma update_first_none: "\<forall>x \<in> set xs. \<not> P x \<Longrightarrow> update_first P f xs = xs"
  by (induction xs) auto

lemma set_update_first:
  assumes "distinct (map g xs)" "x \<in> set xs" "P x" "\<And>y. P y \<Longrightarrow> g y = g x"
  shows "set (update_first P f xs) = insert (f x) (set xs - {x})"
  using assms
proof (induction xs)
  case (Cons y ys)
  show ?case
  proof (cases "P y")
    case True
    with Cons.prems have "g y = g x" by blast
    have "x \<notin> set ys"
    proof
      assume "x \<in> set ys"
      then have "g x \<in> g ` set ys" by (rule imageI)
      with Cons.prems(1) \<open>g y = g x\<close> show False by simp
    qed
    with Cons.prems(2) have "y = x" by simp
    with True \<open>x \<notin> set ys\<close> show ?thesis by auto
  next
    case False
    with Cons.prems(2,3) have "x \<in> set ys" "x \<noteq> y" by auto
    moreover have "distinct (map g ys)" and "y \<notin> set ys" using Cons.prems(1) by auto
    ultimately have "set (update_first P f ys) = insert (f x) (set ys - {x})"
      using Cons.IH Cons.prems(3,4) by blast
    with False \<open>x \<noteq> y\<close> show ?thesis by auto
  qed
qed simp

end
