(* ===== verification/Packet_Types.thy ===== *)
theory Packet_Types
  imports Heapless
begin

text \<open>
  The data of \<open>mqtt-packet\<close>: \<open>packet_types.rs\<close>, \<open>error.rs\<close> and the \<open>Property\<close> structure
  of \<open>properties.rs\<close>. Structures are records (field names carry the packet's name because
  record selectors are global), enumerations are datatypes with the source's variants, and
  the capacity 8 of every \<open>Vec<_, 8>\<close> is \<open>vec_cap\<close>.
\<close>

definition vec_cap :: nat where
  "vec_cap = 8"

datatype packet_error =
    BufferTooSmall
  | IncompletePacket
  | MalformedPacket
  | InvalidPacketType byte
  | InvalidUtf8String
  | TooManyProperties
  | BatchCapacityExceeded
  | PayloadTooLarge
  | UnsupportedQoS

datatype qos = AtMostOnce | AtLeastOnce | ExactlyOnce

fun qos_to_u8 :: "qos \<Rightarrow> byte" where
  "qos_to_u8 AtMostOnce = 0"
| "qos_to_u8 AtLeastOnce = 1"
| "qos_to_u8 ExactlyOnce = 2"

definition qos_from_u8 :: "byte \<Rightarrow> qos" where
  "qos_from_u8 val = (if val = 0 then AtMostOnce else if val = 1 then AtLeastOnce else ExactlyOnce)"

lemma qos_from_to_u8 [simp]: "qos_from_u8 (qos_to_u8 q) = q"
  by (cases q) (simp_all add: qos_from_u8_def)

lemma qos_to_u8_eq_0 [simp]: "qos_to_u8 q = 0 \<longleftrightarrow> q = AtMostOnce"
  by (cases q) simp_all

text \<open>The derived order of \<open>QoS\<close> is that of the discriminants.\<close>

lemma qos_to_u8_inject [simp]: "qos_to_u8 p = qos_to_u8 q \<longleftrightarrow> p = q"
  by (cases p; cases q) simp_all

instantiation qos :: linorder
begin

definition less_eq_qos :: "qos \<Rightarrow> qos \<Rightarrow> bool" where
  "less_eq_qos p q \<longleftrightarrow> qos_to_u8 p \<le> qos_to_u8 q"

definition less_qos :: "qos \<Rightarrow> qos \<Rightarrow> bool" where
  "less_qos p q \<longleftrightarrow> qos_to_u8 p < qos_to_u8 q"

instance
  by standard (auto simp: less_eq_qos_def less_qos_def order.strict_iff_order)

end

lemma qos_not_at_most_once: "q \<noteq> AtMostOnce \<longleftrightarrow> AtMostOnce < q"
  by (cases q) (simp_all add: less_qos_def)

datatype mqtt_version = V3_1_1 | V3 | V5

record property =
  prop_id :: byte
  prop_data :: bytes

record will =
  will_topic :: str
  will_payload :: bytes
  will_qos :: qos
  will_retain :: bool
  will_properties :: "property list"

definition will_new :: "str \<Rightarrow> bytes \<Rightarrow> qos \<Rightarrow> bool \<Rightarrow> will" where
  "will_new topic payload q retain =
     \<lparr>will_topic = topic, will_payload = payload, will_qos = q, will_retain = retain,
      will_properties = []\<rparr>"

record connect =
  conn_clean_session :: bool
  conn_keep_alive :: u16
  conn_client_id :: str
  conn_username :: "str option"
  conn_password :: "str option"
  conn_will :: "will option"
  conn_properties :: "property list"

definition connect_new :: "str \<Rightarrow> u16 \<Rightarrow> bool \<Rightarrow> connect" where
  "connect_new client_id keep_alive clean_session =
     \<lparr>conn_clean_session = clean_session, conn_keep_alive = keep_alive,
      conn_client_id = client_id, conn_username = None, conn_password = None,
      conn_will = None, conn_properties = []\<rparr>"

record connack =
  ca_session_present :: bool
  ca_reason_code :: byte
  ca_properties :: "property list"

record publish =
  pub_dup :: bool
  pub_qos :: qos
  pub_retain :: bool
  pub_topic :: str
  pub_packet_id :: "u16 option"
  pub_payload :: bytes
  pub_properties :: "property list"

definition publish_new :: "str \<Rightarrow> bytes \<Rightarrow> qos \<Rightarrow> publish" where
  "publish_new topic payload q =
     \<lparr>pub_dup = False, pub_qos = q, pub_retain = False, pub_topic = topic,
      pub_packet_id = (if q = AtMostOnce then None else Some 1),
      pub_payload = payload, pub_properties = []\<rparr>"

text \<open>
  \<open>PubAck\<close>, \<open>PubRec\<close>, \<open>PubRel\<close> and \<open>PubComp\<close> are four structures with the same fields;
  the macro \<open>impl_ack_packet!\<close> treats them alike, and so does this record. The
  constructors of \<open>mqtt_packet\<close> keep them apart.
\<close>

record ack =
  ack_packet_id :: u16
  ack_reason_code :: byte
  ack_properties :: "property list"

definition ack_new :: "u16 \<Rightarrow> ack" where
  "ack_new packet_id = \<lparr>ack_packet_id = packet_id, ack_reason_code = 0, ack_properties = []\<rparr>"

record subscribe =
  sub_packet_id :: u16
  sub_topics :: "(str \<times> qos) list"
  sub_properties :: "property list"

definition subscribe_new :: "u16 \<Rightarrow> subscribe" where
  "subscribe_new packet_id = \<lparr>sub_packet_id = packet_id, sub_topics = [], sub_properties = []\<rparr>"

definition subscribe_add_topic ::
  "subscribe \<Rightarrow> str \<Rightarrow> qos \<Rightarrow> (packet_error, subscribe) outcome" where
  "subscribe_add_topic s topic q =
     (case vec_push vec_cap (sub_topics s) (topic, q) of
        Some ts \<Rightarrow> Ok (s\<lparr>sub_topics := ts\<rparr>)
      | None \<Rightarrow> Err BatchCapacityExceeded)"

text \<open>\<open>SubAck\<close> and \<open>UnsubAck\<close> have the same fields.\<close>

record suback =
  sa_packet_id :: u16
  sa_reason_codes :: bytes
  sa_properties :: "property list"

record unsubscribe =
  unsub_packet_id :: u16
  unsub_topics :: "str list"
  unsub_properties :: "property list"

definition unsubscribe_new :: "u16 \<Rightarrow> unsubscribe" where
  "unsubscribe_new packet_id =
     \<lparr>unsub_packet_id = packet_id, unsub_topics = [], unsub_properties = []\<rparr>"

definition unsubscribe_add_topic ::
  "unsubscribe \<Rightarrow> str \<Rightarrow> (packet_error, unsubscribe) outcome" where
  "unsubscribe_add_topic s topic =
     (case vec_push vec_cap (unsub_topics s) topic of
        Some ts \<Rightarrow> Ok (s\<lparr>unsub_topics := ts\<rparr>)
      | None \<Rightarrow> Err BatchCapacityExceeded)"

record unsuback =
  ua_packet_id :: u16
  ua_reason_codes :: bytes
  ua_properties :: "property list"

record disconnect =
  disc_reason_code :: byte
  disc_properties :: "property list"

definition disconnect_new :: disconnect where
  "disconnect_new = \<lparr>disc_reason_code = 0, disc_properties = []\<rparr>"

datatype mqtt_packet =
    Connect connect
  | ConnAck connack
  | Publish publish
  | PubAck ack
  | PubRec ack
  | PubRel ack
  | PubComp ack
  | Subscribe subscribe
  | SubAck suback
  | Unsubscribe unsubscribe
  | UnsubAck unsuback
  | PingReq
  | PingResp
  | Disconnect disconnect

lemma subscribe_add_topic_Ok:
  "subscribe_add_topic s t q = Ok s' \<longleftrightarrow>
     length (sub_topics s) < 8 \<and> s' = s\<lparr>sub_topics := sub_topics s @ [(t, q)]\<rparr>"
  by (auto simp: subscribe_add_topic_def vec_push_def vec_cap_def)

lemma unsubscribe_add_topic_Ok:
  "unsubscribe_add_topic s t = Ok s' \<longleftrightarrow>
     length (unsub_topics s) < 8 \<and> s' = s\<lparr>unsub_topics := unsub_topics s @ [t]\<rparr>"
  by (auto simp: unsubscribe_add_topic_def vec_push_def vec_cap_def)

end
