(* ===== verification/Writer.thy ===== *)
theory Writer
  imports Packet_Types
begin

text \<open>
  The encoders write through a cursor into a mutable buffer and stop at the first error.
  A writer is that computation with the state (cursor, buffer) passed explicitly; the
  state is returned on an error too, because the bytes written before it stay in the
  caller's buffer. \<open>emits m bs\<close> is the contract of a writer that appends exactly
  \<open>bs\<close>, \<open>overflows\<close> that it reports a cursor already past the end, \<open>writer_safe\<close>
  that it never panics and never changes the buffer's length.
\<close>

type_synonym wstate = "nat \<times> bytes"
type_synonym writer = "wstate \<Rightarrow> (packet_error, unit) outcome \<times> wstate"

primrec run_all :: "writer list \<Rightarrow> writer" where
  "run_all [] s = (Ok (), s)"
| "run_all (m # ms) s =
     (case m s of
        (Ok _, s') \<Rightarrow> run_all ms s'
      | (Err e, s') \<Rightarrow> (Err e, s')
      | (Panic, s') \<Rightarrow> (Panic, s'))"

text \<open>\<open>*buf.get_mut(cursor).ok_or(BufferTooSmall)? = b; cursor += 1\<close>\<close>

definition put_byte :: "byte \<Rightarrow> writer" where
  "put_byte b = (\<lambda>(cur, buf).
     if cur < length buf then (Ok (), (cur + 1, buf[cur := b])) else (Err BufferTooSmall, (cur, buf)))"

text \<open>\<open>buf.get_mut(cursor..cursor + n).ok_or(BufferTooSmall)?.copy_from_slice(bs); cursor += n\<close>\<close>

definition put_slice :: "bytes \<Rightarrow> writer" where
  "put_slice bs = (\<lambda>(cur, buf).
     if cur + length bs \<le> length buf then (Ok (), (cur + length bs, overwrite cur bs buf))
     else (Err BufferTooSmall, (cur, buf)))"

definition put_u16 :: "u16 \<Rightarrow> writer" where
  "put_u16 w = put_slice (to_be16 w)"

text \<open>\<open>cursor += f(buf.get_mut(cursor..).ok_or(BufferTooSmall)?)?\<close>\<close>

definition advance_by :: "(bytes \<Rightarrow> (packet_error, nat) outcome \<times> bytes) \<Rightarrow> writer" where
  "advance_by f = (\<lambda>(cur, buf).
     if cur \<le> length buf then
       (case f (drop cur buf) of
          (Ok n, sub) \<Rightarrow> (Ok (), (cur + n, take cur buf @ sub))
        | (Err e, sub) \<Rightarrow> (Err e, (cur, take cur buf @ sub))
        | (Panic, sub) \<Rightarrow> (Panic, (cur, take cur buf @ sub)))
     else (Err BufferTooSmall, (cur, buf)))"

subsection \<open>Contracts of writers\<close>

definition emits :: "writer \<Rightarrow> bytes \<Rightarrow> bool" where
  "emits m bs \<longleftrightarrow> (\<forall>cur buf. cur \<le> length buf \<longrightarrow>
     (if cur + length bs \<le> length buf then m (cur, buf) = (Ok (), (cur + length bs, overwrite cur bs buf))
      else fst (m (cur, buf)) = Err BufferTooSmall \<and> length (snd (snd (m (cur, buf)))) = length buf))"

definition overflows :: "writer \<Rightarrow> bool" where
  "overflows m \<longleftrightarrow> (\<forall>cur buf. length buf < cur \<longrightarrow>
     fst (m (cur, buf)) = Err BufferTooSmall \<and> length (snd (snd (m (cur, buf)))) = length buf)"

definition writer_safe :: "writer \<Rightarrow> bool" where
  "writer_safe m \<longleftrightarrow> (\<forall>cur buf. cur \<le> length buf \<longrightarrow>
     fst (m (cur, buf)) \<noteq> Panic \<and> length (snd (snd (m (cur, buf)))) = length buf \<and>
     (fst (m (cur, buf)) = Ok () \<longrightarrow>
        cur \<le> fst (snd (m (cur, buf))) \<and> fst (snd (m (cur, buf))) \<le> length buf))"

lemma emitsI:
  assumes "\<And>cur buf. cur + length bs \<le> length buf \<Longrightarrow>
      m (cur, buf) = (Ok (), (cur + length bs, overwrite cur bs buf))"
    and "\<And>cur buf. cur \<le> length buf \<Longrightarrow> length buf < cur + length bs \<Longrightarrow>
      fst (m (cur, buf)) = Err BufferTooSmall \<and> length (snd (snd (m (cur, buf)))) = length buf"
  shows "emits m bs"
  using assms by (auto simp: emits_def not_le)

lemma emits_Ok:
  "emits m bs \<Longrightarrow> cur + length bs \<le> length buf \<Longrightarrow>
   m (cur, buf) = (Ok (), (cur + length bs, overwrite cur bs buf))"
  by (auto simp: emits_def)

lemma emits_Err:
  "emits m bs \<Longrightarrow> cur \<le> length buf \<Longrightarrow> length buf < cur + length bs \<Longrightarrow>
   fst (m (cur, buf)) = Err BufferTooSmall \<and> length (snd (snd (m (cur, buf)))) = length buf"
  by (auto simp: emits_def)

lemma emits_safe: "emits m bs \<Longrightarrow> writer_safe m"
  unfolding writer_safe_def
proof (intro allI impI)
  fix cur and buf :: bytes
  assume m: "emits m bs" and c: "cur \<le> length buf"
  show "fst (m (cur, buf)) \<noteq> Panic \<and> length (snd (snd (m (cur, buf)))) = length buf \<and>
     (fst (m (cur, buf)) = Ok () \<longrightarrow>
        cur \<le> fst (snd (m (cur, buf))) \<and> fst (snd (m (cur, buf))) \<le> length buf)"
  proof (cases "cur + length bs \<le> length buf")
    case True
    with emits_Ok [OF m True] show ?thesis by simp
  next
    case False
    with emits_Err [OF m c] show ?thesis by simp
  qed
qed

lemma emits_run_Nil [emit_intros]: "emits (run_all []) []"
  by (simp add: emits_def)

lemma emits_run_Cons [emit_intros]:
  assumes m: "emits m bs" and ms: "emits (run_all ms) cs"
  shows "emits (run_all (m # ms)) (bs @ cs)"
proof (rule emitsI)
  fix cur and buf :: bytes
  assume fits: "cur + length (bs @ cs) \<le> length buf"
  then have "run_all ms (cur + length bs, overwrite cur bs buf) =
      (Ok (), (cur + length bs + length cs, overwrite (cur + length bs) cs (overwrite cur bs buf)))"
    by (intro emits_Ok [OF ms]) simp
  with fits emits_Ok [OF m, of cur buf]
  show "run_all (m # ms) (cur, buf) = (Ok (), (cur + length (bs @ cs), overwrite cur (bs @ cs) buf))"
    by (simp add: overwrite_overwrite add.assoc)
next
  fix cur and buf :: bytes
  assume c: "cur \<le> length buf" and over: "length buf < cur + length (bs @ cs)"
  show "fst (run_all (m # ms) (cur, buf)) = Err BufferTooSmall \<and>
      length (snd (snd (run_all (m # ms) (cur, buf)))) = length buf"
  proof (cases "cur + length bs \<le> length buf")
    case True
    with emits_Ok [OF m True] over emits_Err [OF ms, of "cur + length bs" "overwrite cur bs buf"]
    show ?thesis by simp
  next
    case False
    with emits_Err [OF m c] show ?thesis by (auto split: outcome.splits prod.splits)
  qed
qed

lemma run_all_append:
  "run_all (ms @ ns) s =
     (case run_all ms s of (Ok _, s') \<Rightarrow> run_all ns s' | (Err e, s') \<Rightarrow> (Err e, s') | (Panic, s') \<Rightarrow> (Panic, s'))"
  by (induction ms arbitrary: s) (auto split: outcome.splits prod.splits)

lemma emits_run_append [emit_intros]:
  "emits (run_all ms) bs \<Longrightarrow> emits (run_all ns) cs \<Longrightarrow> emits (run_all (ms @ ns)) (bs @ cs)"
proof -
  have "run_all (ms @ ns) = run_all [run_all ms, run_all ns]"
    by (rule ext) (auto simp: run_all_append split: outcome.splits prod.splits)
  then show "emits (run_all ms) bs \<Longrightarrow> emits (run_all ns) cs \<Longrightarrow> ?thesis"
    using emits_run_Cons [OF _ emits_run_Cons [OF _ emits_run_Nil], of "run_all ms" bs "run_all ns" cs]
    by simp
qed

lemma emits_put_byte [emit_intros]: "emits (put_byte b) [b]"
  by (rule emitsI) (auto simp: put_byte_def list_update_overwrite)

lemma emits_put_slice [emit_intros]: "emits (put_slice bs) bs"
  by (rule emitsI) (auto simp: put_slice_def)

lemma emits_put_u16 [emit_intros]: "emits (put_u16 w) (to_be16 w)"
  by (simp add: put_u16_def emits_put_slice)

lemma overflows_put_byte [emit_intros]: "overflows (put_byte b)"
  by (simp add: overflows_def put_byte_def)

lemma overflows_put_slice [emit_intros]: "overflows (put_slice bs)"
  by (simp add: overflows_def put_slice_def)

lemma overflows_put_u16 [emit_intros]: "overflows (put_u16 w)"
  by (simp add: put_u16_def overflows_put_slice)

lemma overflows_advance_by [emit_intros]: "overflows (advance_by f)"
  by (simp add: overflows_def advance_by_def)

lemma run_all_Cons_Err: "fst (m s) = Err e \<Longrightarrow> run_all (m # ms) s = (Err e, snd (m s))"
  by (cases "m s") auto

lemma overflows_run_Cons [emit_intros]: "overflows m \<Longrightarrow> overflows (run_all (m # ms))"
  unfolding overflows_def by (auto simp: run_all_Cons_Err simp del: run_all.simps)

lemma writer_safe_Nil [safe_intros]: "writer_safe (run_all [])"
  by (simp add: writer_safe_def)

lemma writer_safe_Cons [safe_intros]:
  assumes m: "writer_safe m" and ms: "writer_safe (run_all ms)"
  shows "writer_safe (run_all (m # ms))"
  unfolding writer_safe_def
proof (intro allI impI)
  fix cur and buf :: bytes
  assume c: "cur \<le> length buf"
  obtain r cur' buf' where step: "m (cur, buf) = (r, (cur', buf'))" by (metis surj_pair)
  have 1: "r \<noteq> Panic" "length buf' = length buf" "r = Ok () \<Longrightarrow> cur \<le> cur' \<and> cur' \<le> length buf"
    using m c step unfolding writer_safe_def by fastforce+
  show "fst (run_all (m # ms) (cur, buf)) \<noteq> Panic \<and>
      length (snd (snd (run_all (m # ms) (cur, buf)))) = length buf \<and>
      (fst (run_all (m # ms) (cur, buf)) = Ok () \<longrightarrow>
        cur \<le> fst (snd (run_all (m # ms) (cur, buf))) \<and> fst (snd (run_all (m # ms) (cur, buf))) \<le> length buf)"
  proof (cases r)
    case (Ok u)
    with 1 have "cur' \<le> length buf'" and le: "cur \<le> cur'" by auto
    then have "fst (run_all ms (cur', buf')) \<noteq> Panic \<and>
        length (snd (snd (run_all ms (cur', buf')))) = length buf' \<and>
        (fst (run_all ms (cur', buf')) = Ok () \<longrightarrow>
          cur' \<le> fst (snd (run_all ms (cur', buf'))) \<and> fst (snd (run_all ms (cur', buf'))) \<le> length buf')"
      using ms unfolding writer_safe_def by blast
    with Ok step 1(2) le show ?thesis by auto
  qed (use step 1 in auto)
qed

lemma writer_safe_append [safe_intros]:
  "writer_safe (run_all ms) \<Longrightarrow> writer_safe (run_all ns) \<Longrightarrow> writer_safe (run_all (ms @ ns))"
proof -
  have "run_all (ms @ ns) = run_all [run_all ms, run_all ns]"
    by (rule ext) (auto simp: run_all_append split: outcome.splits prod.splits)
  then show "writer_safe (run_all ms) \<Longrightarrow> writer_safe (run_all ns) \<Longrightarrow> ?thesis"
    using writer_safe_Cons [OF _ writer_safe_Cons [OF _ writer_safe_Nil], of "run_all ms" "run_all ns"]
    by simp
qed

lemma writer_safe_leaf [safe_intros]:
  "writer_safe (put_byte b)" "writer_safe (put_slice bs)" "writer_safe (put_u16 w)"
  by (rule emits_safe, rule emit_intros)+

end
