(* ===== verification/Utf8.thy ===== *)
theory Utf8
  imports Prelude
begin

text \<open>
  \<open>core::str::from_utf8\<close> accepts exactly the well-formed UTF-8 byte sequences of the
  Unicode standard (no overlong forms, no surrogates, nothing above U+10FFFF).
\<close>

definition utf8_cont :: "byte \<Rightarrow> bool" where
  "utf8_cont b \<longleftrightarrow> 0x80 \<le> b \<and> b \<le> 0xBF"

definition utf8_second_3 :: "byte \<Rightarrow> byte \<Rightarrow> bool" where
  "utf8_second_3 b0 b1 \<longleftrightarrow>
     (if b0 = 0xE0 then 0xA0 \<le> b1 \<and> b1 \<le> 0xBF
      else if b0 = 0xED then 0x80 \<le> b1 \<and> b1 \<le> 0x9F
      else utf8_cont b1)"

definition utf8_second_4 :: "byte \<Rightarrow> byte \<Rightarrow> bool" where
  "utf8_second_4 b0 b1 \<longleftrightarrow>
     (if b0 = 0xF0 then 0x90 \<le> b1 \<and> b1 \<le> 0xBF
      else if b0 = 0xF4 then 0x80 \<le> b1 \<and> b1 \<le> 0x8F
      else utf8_cont b1)"

fun valid_utf8 :: "bytes \<Rightarrow> bool" where
  "valid_utf8 [] = True"
| "valid_utf8 (b0 # bs) =
     (if b0 < 0x80 then valid_utf8 bs
      else if 0xC2 \<le> b0 \<and> b0 \<le> 0xDF then
        (case bs of b1 # rest \<Rightarrow> utf8_cont b1 \<and> valid_utf8 rest | _ \<Rightarrow> False)
      else if 0xE0 \<le> b0 \<and> b0 \<le> 0xEF then
        (case bs of b1 # b2 # rest \<Rightarrow> utf8_second_3 b0 b1 \<and> utf8_cont b2 \<and> valid_utf8 rest
         | _ \<Rightarrow> False)
      else if 0xF0 \<le> b0 \<and> b0 \<le> 0xF4 then
        (case bs of b1 # b2 # b3 # rest \<Rightarrow>
            utf8_second_4 b0 b1 \<and> utf8_cont b2 \<and> utf8_cont b3 \<and> valid_utf8 rest
         | _ \<Rightarrow> False)
      else False)"

definition from_utf8 :: "'e \<Rightarrow> bytes \<Rightarrow> ('e, str) outcome" where
  "from_utf8 e bs = (if valid_utf8 bs then Ok bs else Err e)"

lemma from_utf8_not_Panic [simp, safe_intros]: "from_utf8 e bs \<noteq> Panic"
  by (simp add: from_utf8_def)

lemma valid_utf8_ascii: "\<forall>b \<in> set bs. b < 0x80 \<Longrightarrow> valid_utf8 bs"
  by (induction bs) auto

end
