(* ===== verification/Varint.thy ===== *)
theory Varint
  imports Writer Utf8
begin

text \<open>
  \<open>varint.rs\<close>: variable byte integers (one to four bytes, seven bits each, least
  significant group first) and the length-prefixed strings and binary data of MQTT.
  \<open>vbi\<close> and \<open>prefixed\<close> are the wire formats as functions; the lemmas show that the
  loops of the source write exactly these bytes and read them back.
\<close>

subsection \<open>Reading\<close>

function read_vbi_loop ::
  "bytes \<Rightarrow> nat \<Rightarrow> nat \<Rightarrow> nat \<Rightarrow> nat \<Rightarrow> (packet_error, nat \<times> nat) outcome" where
  "read_vbi_loop buf cursor i multiplier value =
     (case get_or IncompletePacket buf (cursor + i) of
        Ok b \<Rightarrow>
          (let value' = value + unat (b AND 127) * multiplier in
           if b AND 128 = 0 then Ok (value', i)
           else if 4 \<le> i + 1 then Err MalformedPacket
           else read_vbi_loop buf cursor (i + 1) (multiplier * 128) value')
      | Err e \<Rightarrow> Err e
      | Panic \<Rightarrow> Panic)"
  by pat_completeness auto
termination
  by (relation "measure (\<lambda>(buf, cursor, i, m, v). 4 - i)") auto

declare read_vbi_loop.simps [simp del]

text \<open>Returns the value and the advanced cursor.\<close>

definition read_variable_byte_integer :: "nat \<Rightarrow> bytes \<Rightarrow> (packet_error, nat \<times> nat) outcome" where
  "read_variable_byte_integer cursor buf =
     and_then (read_vbi_loop buf cursor 0 1 0) (\<lambda>(value, i). Ok (value, cursor + (i + 1)))"

definition peek_variable_byte_integer :: "bytes \<Rightarrow> (packet_error, nat \<times> nat) outcome" where
  "peek_variable_byte_integer buf =
     and_then (read_vbi_loop buf 0 0 1 0) (\<lambda>(value, i). Ok (value, i + 1))"

definition read_utf8_string :: "nat \<Rightarrow> bytes \<Rightarrow> (packet_error, str \<times> nat) outcome" where
  "read_utf8_string cursor buf =
     (if length buf < cursor + 2 then Err IncompletePacket
      else and_then (index buf cursor) (\<lambda>b0. and_then (index buf (cursor + 1)) (\<lambda>b1.
        let len = unat (from_be16 b0 b1); cursor = cursor + 2 in
        if length buf < cursor + len then Err IncompletePacket
        else and_then (subslice buf cursor (cursor + len)) (\<lambda>raw.
          and_then (from_utf8 InvalidUtf8String raw) (\<lambda>s. Ok (s, cursor + len))))))"

definition read_binary_data :: "nat \<Rightarrow> bytes \<Rightarrow> (packet_error, bytes \<times> nat) outcome" where
  "read_binary_data cursor buf =
     (if length buf < cursor + 2 then Err IncompletePacket
      else and_then (index buf cursor) (\<lambda>b0. and_then (index buf (cursor + 1)) (\<lambda>b1.
        let len = unat (from_be16 b0 b1); cursor = cursor + 2 in
        if length buf < cursor + len then Err IncompletePacket
        else and_then (subslice buf cursor (cursor + len)) (\<lambda>data. Ok (data, cursor + len)))))"

subsection \<open>Writing\<close>

text \<open>
  The loop of \<open>write_variable_byte_integer\<close> and, with the cursor starting at 0, of
  \<open>write_variable_byte_integer_len\<close>: the two loops of the source differ only in the
  name of the index.
\<close>

function write_vbi_loop :: "nat \<Rightarrow> wstate \<Rightarrow> (packet_error, unit) outcome \<times> wstate" where
  "write_vbi_loop val (cursor, buf) =
     (let encoded_byte = of_nat (val mod 128);
          val' = val div 128;
          encoded_byte = (if 0 < val' then encoded_byte OR 128 else encoded_byte) in
      if cursor < length buf then
        (let buf' = buf[cursor := encoded_byte] in
         if val' = 0 then (Ok (), (cursor + 1, buf')) else write_vbi_loop val' (cursor + 1, buf'))
      else (Err BufferTooSmall, (cursor, buf)))"
  by pat_completeness auto
termination
  by (relation "measure fst") auto

declare write_vbi_loop.simps [simp del]

definition write_variable_byte_integer :: "nat \<Rightarrow> writer" where
  "write_variable_byte_integer val = write_vbi_loop val"

definition write_variable_byte_integer_len :: "bytes \<Rightarrow> nat \<Rightarrow> (packet_error, nat) outcome \<times> bytes" where
  "write_variable_byte_integer_len buf val =
     (case write_vbi_loop val (0, buf) of
        (Ok _, (i, buf')) \<Rightarrow> (Ok i, buf')
      | (Err e, (_, buf')) \<Rightarrow> (Err e, buf')
      | (Panic, (_, buf')) \<Rightarrow> (Panic, buf'))"

definition write_utf8_string :: "str \<Rightarrow> bytes \<Rightarrow> (packet_error, nat) outcome \<times> bytes" where
  "write_utf8_string s buf =
     (let len = length s in
      if 65535 < len then (Err PayloadTooLarge, buf)
      else if 2 + len \<le> length buf then
        (Ok (2 + len), overwrite 0 (to_be16 (of_nat len) @ s) buf)
      else (Err BufferTooSmall, buf))"

definition write_binary_data :: "bytes \<Rightarrow> bytes \<Rightarrow> (packet_error, nat) outcome \<times> bytes" where
  "write_binary_data data buf =
     (let len = length data in
      if 65535 < len then (Err PayloadTooLarge, buf)
      else if 2 + len \<le> length buf then
        (Ok (2 + len), overwrite 0 (to_be16 (of_nat len) @ data) buf)
      else (Err BufferTooSmall, buf))"

subsection \<open>The wire formats\<close>

fun vbi :: "nat \<Rightarrow> bytes" where
  "vbi v = (if v < 128 then [of_nat v] else (of_nat (v mod 128) OR 128) # vbi (v div 128))"

declare vbi.simps [simp del]

definition prefixed :: "bytes \<Rightarrow> bytes" where
  "prefixed bs = to_be16 (of_nat (length bs)) @ bs"

lemma length_prefixed [simp]: "length (prefixed bs) = 2 + length bs"
  by (simp add: prefixed_def)

lemma vbi_nonempty [simp]: "vbi v \<noteq> []"
  by (subst vbi.simps) simp

lemma length_vbi_pos [simp]: "0 < length (vbi v)"
  by simp

lemma write_vbi_loop_safe:
  "cur \<le> length buf \<Longrightarrow> fst (write_vbi_loop v (cur, buf)) \<noteq> Panic \<and>
     length (snd (snd (write_vbi_loop v (cur, buf)))) = length buf"
proof (induction v "(cur, buf)" arbitrary: cur buf rule: write_vbi_loop.induct)
  case (1 val cur buf)
  show ?case
    using "1.hyps" "1.prems" by (subst (1 2) write_vbi_loop.simps) (auto simp: Let_def)
qed

lemma emits_write_vbi: "emits (write_variable_byte_integer v) (vbi v)"
proof -
  have ok: "write_vbi_loop v (cur, buf) = (Ok (), (cur + length (vbi v), overwrite cur (vbi v) buf))"
    if "cur + length (vbi v) \<le> length buf" for cur buf
    using that
  proof (induction v arbitrary: cur buf rule: vbi.induct)
    case (1 v)
    show ?case
    proof (cases "v < 128")
      case True
      with "1.prems" show ?thesis
        by (simp add: vbi.simps [of v] write_vbi_loop.simps [of v] list_update_overwrite)
    next
      case False
      let ?b = "of_nat (v mod 128) OR 128 :: byte"
      from False "1.prems" have fits: "cur + 1 + length (vbi (v div 128)) \<le> length buf"
        by (simp add: vbi.simps [of v])
      with False have "write_vbi_loop v (cur, buf) = write_vbi_loop (v div 128) (cur + 1, buf[cur := ?b])"
        by (simp add: write_vbi_loop.simps [of v] Let_def div_eq_0_iff)
      also have "\<dots> = (Ok (), (cur + 1 + length (vbi (v div 128)),
          overwrite (cur + 1) (vbi (v div 128)) (buf[cur := ?b])))"
        using False fits by (intro "1.IH") simp_all
      finally show ?thesis
        using False fits overwrite_overwrite [of cur "[?b]" "vbi (v div 128)" buf]
        by (simp add: vbi.simps [of v] list_update_overwrite)
    qed
  qed
  have err: "fst (write_vbi_loop v (cur, buf)) = Err BufferTooSmall"
    if "cur \<le> length buf" "length buf < cur + length (vbi v)" for cur buf
    using that
  proof (induction v arbitrary: cur buf rule: vbi.induct)
    case (1 v)
    show ?case
    proof (cases "v < 128 \<or> cur = length buf")
      case True
      with "1.prems" show ?thesis
        by (auto simp: vbi.simps [of v] write_vbi_loop.simps [of v] Let_def)
    next
      case False
      with "1.prems" have "cur + 1 \<le> length buf" "length buf < cur + 1 + length (vbi (v div 128))"
        by (auto simp: vbi.simps [of v])
      with False "1.prems" "1.IH" show ?thesis
        by (simp add: write_vbi_loop.simps [of v] Let_def div_eq_0_iff)
    qed
  qed
  from ok err show ?thesis
    unfolding write_variable_byte_integer_def
    by (intro emitsI) (simp_all add: write_vbi_loop_safe)
qed

lemma write_vbi_len:
  assumes "length (vbi v) \<le> length buf"
  shows "write_variable_byte_integer_len buf v = (Ok (length (vbi v)), overwrite 0 (vbi v) buf)"
  using emits_Ok [OF emits_write_vbi, of 0 v buf] assms
  by (simp add: write_variable_byte_integer_len_def write_variable_byte_integer_def)

lemma write_vbi_len_Err:
  assumes "length buf < length (vbi v)"
  shows "fst (write_variable_byte_integer_len buf v) = Err BufferTooSmall \<and>
         length (snd (write_variable_byte_integer_len buf v)) = length buf"
  using emits_Err [OF emits_write_vbi, of 0 buf v] assms
  by (auto simp: write_variable_byte_integer_len_def write_variable_byte_integer_def
      split: outcome.splits prod.splits)

lemma emits_advance_prefixed:
  assumes f: "\<And>buf. f buf = (if 2 + length bs \<le> length buf
      then (Ok (2 + length bs), overwrite 0 (prefixed bs) buf) else (Err BufferTooSmall, buf))"
  shows "emits (advance_by f) (prefixed bs)"
  by (rule emitsI) (auto simp: advance_by_def f overwrite_def drop_drop ac_simps)

lemma emits_write_utf8_string [emit_intros]:
  "length s \<le> 65535 \<Longrightarrow> emits (advance_by (write_utf8_string s)) (prefixed s)"
  by (rule emits_advance_prefixed) (simp add: write_utf8_string_def prefixed_def Let_def)

lemma emits_write_binary_data [emit_intros]:
  "length s \<le> 65535 \<Longrightarrow> emits (advance_by (write_binary_data s)) (prefixed s)"
  by (rule emits_advance_prefixed) (simp add: write_binary_data_def prefixed_def Let_def)

lemma writer_safe_strings [safe_intros]:
  "writer_safe (advance_by (write_utf8_string s))"
  "writer_safe (advance_by (write_binary_data s))"
  by (auto simp: writer_safe_def advance_by_def write_utf8_string_def write_binary_data_def Let_def)

lemmas writer_safe_vbi [safe_intros] = emits_safe [OF emits_write_vbi]
lemmas emits_vbi [emit_intros] = emits_write_vbi

subsection \<open>Reading back\<close>

text \<open>
  \<open>reads r bs x\<close>: wherever the bytes \<open>bs\<close> lie in a buffer, the reader \<open>r\<close> started at
  their first byte returns \<open>x\<close> and leaves the cursor behind them. \<open>reader_safe\<close>: the
  reader never panics and its cursor only moves forward inside the buffer.
\<close>

definition reads :: "(nat \<Rightarrow> bytes \<Rightarrow> (packet_error, 'a \<times> nat) outcome) \<Rightarrow> bytes \<Rightarrow> 'a \<Rightarrow> bool" where
  "reads r bs x \<longleftrightarrow> (\<forall>pre post. r (length pre) (pre @ bs @ post) = Ok (x, length pre + length bs))"

definition reader_safe :: "(nat \<Rightarrow> bytes \<Rightarrow> (packet_error, 'a \<times> nat) outcome) \<Rightarrow> bool" where
  "reader_safe r \<longleftrightarrow> (\<forall>cur buf. r cur buf \<noteq> Panic \<and>
     (\<forall>x c. r cur buf = Ok (x, c) \<longrightarrow> cur \<le> c \<and> c \<le> length buf))"

lemma reads_at:
  assumes "reads r bs x" "cur \<le> length buf" "take (length bs) (drop cur buf) = bs"
  shows "r cur buf = Ok (x, cur + length bs)"
proof -
  have "buf = take cur buf @ bs @ drop (cur + length bs) buf"
    using assms(2,3) by (metis add.commute append_take_drop_id drop_drop)
  moreover have "length (take cur buf) = cur" using assms(2) by simp
  ultimately show ?thesis using assms(1) unfolding reads_def by metis
qed

lemma reader_safe_bound:
  "reader_safe r \<Longrightarrow> r cur buf = Ok (x, c) \<Longrightarrow> cur \<le> c \<and> c \<le> length buf"
  unfolding reader_safe_def by blast

lemma reader_safe_not_Panic: "reader_safe r \<Longrightarrow> r cur buf \<noteq> Panic"
  unfolding reader_safe_def by blast

lemma length_vbi_le_4:
  assumes "v < 268435456"
  shows "length (vbi v) \<le> 4"
proof -
  have "v div 128 div 128 div 128 < 128"
    using assms by (simp add: div_mult2_eq [symmetric] less_mult_imp_div_less)
  then show ?thesis
    by (simp add: vbi.simps [of v] vbi.simps [of "v div 128"] vbi.simps [of "v div 128 div 128"]
        vbi.simps [of "v div 128 div 128 div 128"])
qed

lemma vbi_byte_high: "unat ((of_nat n OR 128 :: byte) AND 127) = n mod 128 \<and> (of_nat n OR 128 :: byte) AND 128 \<noteq> 0"
proof -
  have "(of_nat n OR 128 :: byte) AND 127 = (of_nat n AND 127) OR (128 AND 127)"
    by (rule bit.conj_disj_distrib2)
  then have "(of_nat n OR 128 :: byte) AND 127 = of_nat n AND 127"
    by simp
  moreover have "(of_nat n OR 128 :: byte) AND 128 = 128"
    by (simp add: bit.conj_disj_distrib2 word_ao_absorbs)
  ultimately show ?thesis
    by (simp add: and_127_unat unat_of_nat mod_mod_cancel)
qed

lemma vbi_byte_low:
  "n < 128 \<Longrightarrow> unat ((of_nat n :: byte) AND 127) = n \<and> (of_nat n :: byte) AND 128 = 0"
  by (simp add: and_127_unat and_128_eq_0_iff unat_of_nat)

lemma read_vbi_loop_vbi:
  assumes "i + length (vbi v) \<le> 4" "length pre = cursor + i"
  shows "read_vbi_loop (pre @ vbi v @ post) cursor i m a = Ok (a + v * m, i + length (vbi v) - 1)"
  using assms
proof (induction v arbitrary: pre i m a rule: vbi.induct)
  case (1 v)
  show ?case
  proof (cases "v < 128")
    case True
    with "1.prems"(2) show ?thesis
      using get_or_append [of IncompletePacket pre "of_nat v" post] vbi_byte_low [OF True]
      by (simp add: vbi.simps [of v] read_vbi_loop.simps [of _ cursor i])
  next
    case False
    let ?b = "of_nat (v mod 128) OR 128 :: byte"
    let ?buf = "pre @ vbi v @ post"
    have collect: "a + r * m + q * (m * 128) = a + (q * 128 + r) * m" for q r
      by (simp add: algebra_simps)
    have buf: "?buf = pre @ ?b # vbi (v div 128) @ post"
      using False by (simp add: vbi.simps [of v])
    have get: "get_or IncompletePacket ?buf (cursor + i) = Ok ?b"
      using get_or_append [of IncompletePacket pre ?b] "1.prems"(2) buf by metis
    have len: "length (vbi v) = Suc (length (vbi (v div 128)))"
      using False by (simp add: vbi.simps [of v])
    with "1.prems"(1) have i: "i + 1 + length (vbi (v div 128)) \<le> 4" by simp
    moreover have "0 < length (vbi (v div 128))" by simp
    ultimately have "\<not> 4 \<le> i + 1" by linarith
    with get have "read_vbi_loop ?buf cursor i m a =
        read_vbi_loop ?buf cursor (i + 1) (m * 128) (a + v mod 128 * m)"
      using vbi_byte_high [of "v mod 128"] by (simp add: read_vbi_loop.simps [of _ cursor i])
    also have "\<dots> = read_vbi_loop ((pre @ [?b]) @ vbi (v div 128) @ post) cursor (i + 1) (m * 128) (a + v mod 128 * m)"
      by (simp add: buf)
    also have "\<dots> = Ok (a + v mod 128 * m + v div 128 * (m * 128), i + 1 + length (vbi (v div 128)) - 1)"
      using False i "1.prems"(2) by (intro "1.IH") simp_all
    also have "a + v mod 128 * m + v div 128 * (m * 128) = a + (v div 128 * 128 + v mod 128) * m"
      by (rule collect)
    also have "v div 128 * 128 + v mod 128 = v" by simp
    finally show ?thesis by (simp add: len)
  qed
qed

lemma reads_vbi:
  assumes "v < 268435456"
  shows "reads read_variable_byte_integer (vbi v) v"
  unfolding reads_def read_variable_byte_integer_def
  using read_vbi_loop_vbi [of 0 v _ _ _ 1 0] length_vbi_le_4 [OF assms] by simp

lemma peek_eq_read: "peek_variable_byte_integer buf = read_variable_byte_integer 0 buf"
  by (simp add: peek_variable_byte_integer_def read_variable_byte_integer_def)

lemma read_vbi_loop_safe:
  assumes "i < 4"
  shows "read_vbi_loop buf cursor i m a \<noteq> Panic \<and>
    (\<forall>v j. read_vbi_loop buf cursor i m a = Ok (v, j) \<longrightarrow> i \<le> j \<and> j < 4 \<and> cursor + j < length buf)"
  using assms
proof (induction buf cursor i m a rule: read_vbi_loop.induct)
  case (1 buf cursor i m a)
  show ?case
  proof (cases "cursor + i < length buf")
    case True
    then have get: "get_or IncompletePacket buf (cursor + i) = Ok (buf ! (cursor + i))"
      by (simp add: get_or_def)
    show ?thesis
    proof (cases "buf ! (cursor + i) AND 128 = 0 \<or> 4 \<le> i + 1")
      case stop: True
      with get True "1.prems" show ?thesis
        by (auto simp: read_vbi_loop.simps [of buf cursor i] Let_def)
    next
      case False
      with get "1.prems" "1.IH" [OF get refl] show ?thesis
        by (subst (1 2) read_vbi_loop.simps) (fastforce simp: Let_def)
    qed
  qed (simp add: read_vbi_loop.simps [of buf cursor i] get_or_def)
qed

lemma reader_safe_vbi [safe_intros]: "reader_safe read_variable_byte_integer"
  unfolding reader_safe_def read_variable_byte_integer_def
proof (intro allI conjI impI)
  fix cur buf x c
  note s = read_vbi_loop_safe [of 0 buf cur 1 0]
  show "and_then (read_vbi_loop buf cur 0 1 0) (\<lambda>(value, i). Ok (value, cur + (i + 1))) \<noteq> Panic"
    using s by (auto simp: and_then_eq_Panic)
  assume "and_then (read_vbi_loop buf cur 0 1 0) (\<lambda>(value, i). Ok (value, cur + (i + 1))) = Ok (x, c)"
  then show "cur \<le> c" "c \<le> length buf" using s by (fastforce simp: and_then_eq_Ok)+
qed

lemma read_vbi_pos:
  "read_variable_byte_integer cur buf = Ok (x, c) \<Longrightarrow> cur < c \<and> c \<le> cur + 4"
  using read_vbi_loop_safe [of 0 buf cur 1 0]
  by (auto simp: read_variable_byte_integer_def and_then_eq_Ok)

lemma read_prefix:
  "length s \<le> 65535 \<Longrightarrow>
   index (pre @ prefixed s @ post) (length pre) = Ok (ucast (drop_bit 8 (of_nat (length s) :: u16)))"
  "length s \<le> 65535 \<Longrightarrow>
   index (pre @ prefixed s @ post) (length pre + 1) = Ok (ucast (of_nat (length s) :: u16))"
  by (simp_all add: prefixed_def to_be16_def index_def nth_append)

lemma subslice_prefixed:
  "subslice (pre @ prefixed s @ post) (Suc (Suc (length pre))) (Suc (Suc (length pre + length s))) = Ok s"
  by (simp add: subslice_def prefixed_def to_be16_def Suc_diff_le)

lemma reads_utf8_string:
  "length s \<le> 65535 \<Longrightarrow> valid_utf8 s \<Longrightarrow> reads read_utf8_string (prefixed s) s"
  unfolding reads_def read_utf8_string_def
  by (simp add: read_prefix read_prefix(2) [simplified] subslice_prefixed from_utf8_def Let_def)

lemma reads_binary_data:
  "length s \<le> 65535 \<Longrightarrow> reads read_binary_data (prefixed s) s"
  unfolding reads_def read_binary_data_def
  by (simp add: read_prefix read_prefix(2) [simplified] subslice_prefixed Let_def)

lemma reader_safe_strings [safe_intros]:
  "reader_safe read_utf8_string" "reader_safe read_binary_data"
  by (auto simp: reader_safe_def read_utf8_string_def read_binary_data_def index_def subslice_def
      Let_def from_utf8_def split: if_splits)

text \<open>Reading from a buffer cut off somewhere.\<close>

lemma read_vbi_loop_prefix:
  "read_vbi_loop (take k d) c i m a = Err IncompletePacket \<or>
   read_vbi_loop (take k d) c i m a = read_vbi_loop d c i m a"
proof (induction d c i m a rule: read_vbi_loop.induct)
  case (1 d c i m a)
  show ?case
  proof (cases "c + i < length (take k d)")
    case True
    then have get: "get_or IncompletePacket (take k d) (c + i) = Ok (d ! (c + i))"
      "get_or IncompletePacket d (c + i) = Ok (d ! (c + i))"
      by (simp_all add: get_or_def)
    show ?thesis
    proof (cases "d ! (c + i) AND 128 = 0 \<or> 4 \<le> i + 1")
      case True
      then show ?thesis
        by (auto simp: read_vbi_loop.simps [of _ c i] get Let_def)
    next
      case False
      with "1.IH" [OF get(2) refl] show ?thesis
        by (simp add: read_vbi_loop.simps [of _ c i] get Let_def)
    qed
  next
    case False
    then have "(get_or IncompletePacket (take k d) (c + i) :: (packet_error, byte) outcome) = Err IncompletePacket"
      by (simp add: get_or_def)
    then show ?thesis by (simp add: read_vbi_loop.simps [of _ c i])
  qed
qed

end
