(* ===== verification/Properties.thy ===== *)
theory Properties
  imports Varint
begin

text \<open>
  \<open>properties.rs\<close>: the MQTT 5 property list. The reader walks the announced length and
  finds each property's extent from its identifier; \<open>property_data_len\<close> is that
  \<open>match\<close>. \<open>wf_property\<close> says that a property's data has the extent its identifier
  announces, which is what a reader needs to find the next property.
\<close>

definition read_be16 :: "packet_error \<Rightarrow> bytes \<Rightarrow> nat \<Rightarrow> (packet_error, nat) outcome" where
  "read_be16 e buf i =
     and_then (get_or e buf i) (\<lambda>b0. and_then (get_or e buf (i + 1)) (\<lambda>b1.
       Ok (unat (from_be16 b0 b1))))"

definition property_data_len :: "byte \<Rightarrow> nat \<Rightarrow> bytes \<Rightarrow> (packet_error, nat) outcome" where
  "property_data_len pid data_start buf =
     (if pid \<in> {0x01, 0x17, 0x24, 0x25, 0x28, 0x29, 0x2A} then Ok 1
      else if pid \<in> {0x13, 0x21, 0x22} then Ok 2
      else if pid \<in> {0x02, 0x11, 0x18, 0x23, 0x27} then Ok 4
      else if pid \<in> {0x03, 0x08, 0x12, 0x15, 0x1A, 0x1C, 0x1F, 0x09, 0x16} then
        and_then (read_be16 MalformedPacket buf data_start) (\<lambda>len. Ok (2 + len))
      else if pid = 0x26 then
        and_then (read_be16 MalformedPacket buf data_start) (\<lambda>key_len.
          and_then (read_be16 MalformedPacket buf (data_start + 2 + key_len)) (\<lambda>val_len.
            Ok (2 + key_len + 2 + val_len)))
      else if pid = 0x0B then
        and_then (read_variable_byte_integer data_start buf) (\<lambda>(_, temp_cursor).
          Ok (temp_cursor - data_start))
      else Ok 1)"

function read_properties_loop ::
  "bytes \<Rightarrow> nat \<Rightarrow> nat \<Rightarrow> property list \<Rightarrow> (packet_error, property list \<times> nat) outcome" where
  "read_properties_loop buf prop_end cursor properties =
     (if cursor < prop_end then
        and_then (index buf cursor) (\<lambda>pid.
        let data_start = cursor + 1 in
        and_then (property_data_len pid data_start buf) (\<lambda>data_len.
        if prop_end < data_start + data_len then Err MalformedPacket
        else and_then (subslice buf data_start (data_start + data_len)) (\<lambda>data.
          case vec_push vec_cap properties \<lparr>prop_id = pid, prop_data = data\<rparr> of
            Some properties' \<Rightarrow> read_properties_loop buf prop_end (data_start + data_len) properties'
          | None \<Rightarrow> Err TooManyProperties)))
      else Ok (properties, cursor))"
  by pat_completeness auto
termination
  by (relation "measure (\<lambda>(buf, prop_end, cursor, ps). prop_end - cursor)") auto

declare read_properties_loop.simps [simp del]

definition read_properties :: "nat \<Rightarrow> bytes \<Rightarrow> (packet_error, property list \<times> nat) outcome" where
  "read_properties cursor buf =
     and_then (read_variable_byte_integer cursor buf) (\<lambda>(prop_len, cursor).
       let prop_end = cursor + prop_len in
       if length buf < prop_end then Err IncompletePacket
       else read_properties_loop buf prop_end cursor [])"

definition write_properties :: "property list \<Rightarrow> writer" where
  "write_properties properties =
     run_all (write_variable_byte_integer (\<Sum>p\<leftarrow>properties. 1 + length (prop_data p)) #
       concat (map (\<lambda>p. [put_byte (prop_id p), put_slice (prop_data p)]) properties))"

subsection \<open>The wire format and its round trip\<close>

definition props_bytes :: "property list \<Rightarrow> bytes" where
  "props_bytes ps = concat (map (\<lambda>p. prop_id p # prop_data p) ps)"

definition properties_bytes :: "property list \<Rightarrow> bytes" where
  "properties_bytes ps = vbi (length (props_bytes ps)) @ props_bytes ps"

definition wf_property :: "property \<Rightarrow> bool" where
  "wf_property p \<longleftrightarrow> property_data_len (prop_id p) 0 (prop_data p) = Ok (length (prop_data p))"

definition wf_properties :: "property list \<Rightarrow> bool" where
  "wf_properties ps \<longleftrightarrow> length ps \<le> vec_cap \<and> (\<forall>p \<in> set ps. wf_property p) \<and>
     length (props_bytes ps) < 268435456"

lemma length_props_bytes: "length (props_bytes ps) = (\<Sum>p\<leftarrow>ps. 1 + length (prop_data p))"
  by (induction ps) (simp_all add: props_bytes_def)

lemma emits_write_properties [emit_intros]: "emits (write_properties ps) (properties_bytes ps)"
proof -
  have "emits (run_all (concat (map (\<lambda>p. [put_byte (prop_id p), put_slice (prop_data p)]) qs)))
      (props_bytes qs)" for qs
  proof (induction qs)
    case Nil
    show ?case using emits_run_Nil by (simp add: props_bytes_def del: run_all.simps)
  next
    case (Cons q qs)
    then show ?case
      using emits_run_Cons [OF emits_put_byte emits_run_Cons [OF emits_put_slice Cons]]
      by (simp add: props_bytes_def del: run_all.simps)
  qed
  from emits_run_Cons [OF emits_write_vbi this] show ?thesis
    by (simp add: write_properties_def properties_bytes_def length_props_bytes)
qed

lemmas writer_safe_properties [safe_intros] = emits_safe [OF emits_write_properties]

lemma write_vbi_loop_overflow:
  "length buf < cur \<Longrightarrow> write_vbi_loop v (cur, buf) = (Err BufferTooSmall, (cur, buf))"
  by (simp add: write_vbi_loop.simps [of v] Let_def)

lemma overflows_write_properties [emit_intros]: "overflows (write_properties ps)"
  unfolding write_properties_def
  by (rule overflows_run_Cons)
    (simp add: overflows_def write_variable_byte_integer_def write_vbi_loop_overflow)

lemma get_or_embed:
  "get_or e d i = Ok b \<Longrightarrow> get_or e (pre @ d @ post) (length pre + i) = Ok b"
  by (auto simp: get_or_def nth_append split: if_splits)

lemma read_be16_embed:
  assumes "read_be16 e d i = Ok n"
  shows "read_be16 e (pre @ d @ post) (length pre + i) = Ok n"
proof -
  from assms obtain b0 b1 where "get_or e d i = Ok b0" "get_or e d (i + 1) = Ok b1"
    and "n = unat (from_be16 b0 b1)" by (auto simp: read_be16_def and_then_eq_Ok)
  with get_or_embed [of e d i b0 pre post] get_or_embed [of e d "i + 1" b1 pre post]
  show ?thesis by (simp add: read_be16_def)
qed

lemma read_vbi_loop_embed:
  "read_vbi_loop d c i m a = Ok r \<Longrightarrow>
   read_vbi_loop (pre @ d @ post) (length pre + c) i m a = Ok r"
proof (induction d c i m a rule: read_vbi_loop.induct)
  case (1 d c i m a)
  from "1.prems" obtain b where b: "get_or IncompletePacket d (c + i) = Ok b"
    by (cases "get_or IncompletePacket d (c + i)") (simp_all add: read_vbi_loop.simps [of d])
  have b': "get_or IncompletePacket (pre @ d @ post) (length pre + c + i) = Ok b"
    using get_or_embed [OF b] by (simp add: add.assoc)
  show ?case
  proof (cases "b AND 128 = 0 \<or> 4 \<le> i + 1")
    case True
    with "1.prems" b b' show ?thesis
      by (auto simp: read_vbi_loop.simps [of _ _ i] Let_def split: if_splits)
  next
    case False
    with "1.prems" b b' "1.IH" [OF b refl] show ?thesis
      by (simp add: read_vbi_loop.simps [of _ _ i] Let_def)
  qed
qed

text \<open>The identifier alone decides which of four shapes the extent has.\<close>

lemma property_data_len_shapes:
  obtains (fixed) k where "property_data_len pid = (\<lambda>s buf. Ok k)"
  | (prefixed) "property_data_len pid =
      (\<lambda>s buf. and_then (read_be16 MalformedPacket buf s) (\<lambda>len. Ok (2 + len)))"
  | (pair) "property_data_len pid =
      (\<lambda>s buf. and_then (read_be16 MalformedPacket buf s) (\<lambda>key_len.
          and_then (read_be16 MalformedPacket buf (s + 2 + key_len)) (\<lambda>val_len.
            Ok (2 + key_len + 2 + val_len))))"
  | (varint) "property_data_len pid =
      (\<lambda>s buf. and_then (read_variable_byte_integer s buf) (\<lambda>(_, t). Ok (t - s)))"
  unfolding property_data_len_def [abs_def]
  by (cases "pid \<in> {0x01, 0x17, 0x24, 0x25, 0x28, 0x29, 0x2A}";
      cases "pid \<in> {0x13, 0x21, 0x22}"; cases "pid \<in> {0x02, 0x11, 0x18, 0x23, 0x27}";
      cases "pid \<in> {0x03, 0x08, 0x12, 0x15, 0x1A, 0x1C, 0x1F, 0x09, 0x16}";
      cases "pid = 0x26"; cases "pid = 0x0B"; simp only: if_True if_False simp_thms)

lemma property_data_len_embed:
  assumes "property_data_len pid 0 d = Ok n"
  shows "property_data_len pid (length pre) (pre @ d @ post) = Ok n"
proof -
  have be: "read_be16 MalformedPacket d i = Ok k \<Longrightarrow>
      read_be16 MalformedPacket (pre @ d @ post) (length pre + i) = Ok k" for i k
    by (rule read_be16_embed)
  show ?thesis
  proof (cases pid rule: property_data_len_shapes)
    case pair
    with assms be [of 0] be [of "Suc (Suc _)"] show ?thesis
      by (auto simp: and_then_eq_Ok add.assoc)
  next
    case varint
    with assms obtain v j where j: "read_vbi_loop d 0 0 1 0 = Ok (v, j)" and n: "n = j + 1"
      by (auto simp: read_variable_byte_integer_def and_then_eq_Ok)
    from read_vbi_loop_embed [OF j, of pre post] n varint show ?thesis
      by (simp add: read_variable_byte_integer_def)
  qed (use assms be [of 0] in \<open>auto simp: and_then_eq_Ok\<close>)
qed

lemma read_properties_loop_bytes:
  assumes "\<forall>p \<in> set ps. wf_property p" "length acc + length ps \<le> vec_cap"
    and "prop_end = length pre + length (props_bytes ps)"
  shows "read_properties_loop (pre @ props_bytes ps @ post) prop_end (length pre) acc =
    Ok (acc @ ps, prop_end)"
  using assms
proof (induction ps arbitrary: pre acc)
  case Nil
  then show ?case by (simp add: read_properties_loop.simps [of _ _ "length pre"] props_bytes_def)
next
  case (Cons p ps)
  let ?rest = "props_bytes ps @ post"
  let ?buf = "pre @ props_bytes (p # ps) @ post"
  let ?pre = "pre @ prop_id p # prop_data p"
  have buf: "?buf = (pre @ [prop_id p]) @ prop_data p @ ?rest"
    by (simp add: props_bytes_def)
  then have idx: "index ?buf (length pre) = (Ok (prop_id p) :: (packet_error, byte) outcome)"
    by (simp add: index_def nth_append)
  have "property_data_len (prop_id p) (length (pre @ [prop_id p])) ?buf = Ok (length (prop_data p))"
    unfolding buf using Cons.prems(1) by (intro property_data_len_embed) (simp add: wf_property_def)
  then have dl: "property_data_len (prop_id p) (length pre + 1) ?buf = Ok (length (prop_data p))"
    by simp
  have sl: "subslice ?buf (length pre + 1) (length pre + 1 + length (prop_data p)) =
      (Ok (prop_data p) :: (packet_error, bytes) outcome)"
    unfolding buf using subslice_append [of "pre @ [prop_id p]" "prop_data p" ?rest] by simp
  have push: "vec_push vec_cap acc \<lparr>prop_id = prop_id p, prop_data = prop_data p\<rparr> = Some (acc @ [p])"
    using Cons.prems(2) by (simp add: vec_push_def)
  have "prop_end = length ?pre + length (props_bytes ps)"
    using Cons.prems(3) by (simp add: props_bytes_def)
  moreover have "read_properties_loop ?buf prop_end (length pre) acc =
      read_properties_loop (?pre @ ?rest) prop_end (length ?pre) (acc @ [p])"
    using Cons.prems(3) idx dl sl push
    by (subst read_properties_loop.simps) (simp add: props_bytes_def)
  ultimately show ?case
    using Cons.IH [of "acc @ [p]" ?pre] Cons.prems by simp
qed

lemma reads_properties:
  assumes "wf_properties ps"
  shows "reads read_properties (properties_bytes ps) ps"
  unfolding reads_def
proof (intro allI)
  fix pre post
  let ?n = "length (props_bytes ps)"
  from assms have n: "?n < 268435456" by (simp add: wf_properties_def)
  have "read_variable_byte_integer (length pre) (pre @ vbi ?n @ props_bytes ps @ post) =
      Ok (?n, length pre + length (vbi ?n))"
    using reads_vbi [OF n] unfolding reads_def by blast
  moreover have "read_properties_loop ((pre @ vbi ?n) @ props_bytes ps @ post)
      (length (pre @ vbi ?n) + ?n) (length (pre @ vbi ?n)) [] = Ok ([] @ ps, length (pre @ vbi ?n) + ?n)"
    using assms by (intro read_properties_loop_bytes) (simp_all add: wf_properties_def)
  ultimately show "read_properties (length pre) (pre @ properties_bytes ps @ post) =
      Ok (ps, length pre + length (properties_bytes ps))"
    by (simp add: read_properties_def properties_bytes_def)
qed

subsection \<open>Safety\<close>

lemma read_be16_not_Panic [safe_intros]: "read_be16 e buf i \<noteq> Panic"
  by (auto simp: read_be16_def and_then_eq_Panic)

lemma property_data_len_not_Panic [safe_intros]: "property_data_len pid s buf \<noteq> Panic"
  by (cases pid rule: property_data_len_shapes)
    (auto simp: and_then_eq_Panic read_be16_not_Panic reader_safe_not_Panic [OF reader_safe_vbi])

lemma read_properties_loop_safe:
  assumes "prop_end \<le> length buf" "cursor \<le> prop_end"
  shows "read_properties_loop buf prop_end cursor ps \<noteq> Panic \<and>
    (\<forall>qs c. read_properties_loop buf prop_end cursor ps = Ok (qs, c) \<longrightarrow>
       c = prop_end \<and> (length ps \<le> vec_cap \<longrightarrow> length qs \<le> vec_cap))"
  using assms
proof (induction buf prop_end cursor ps rule: read_properties_loop.induct)
  case (1 buf prop_end cursor ps)
  show ?case
  proof (cases "cursor < prop_end")
    case False
    with "1.prems" show ?thesis by (subst (1 2) read_properties_loop.simps) auto
  next
    case True
    with "1.prems" have idx: "index buf cursor = (Ok (buf ! cursor) :: (packet_error, byte) outcome)"
      by (simp add: index_def)
    show ?thesis
    proof (cases "property_data_len (buf ! cursor) (cursor + 1) buf")
      case (Ok n)
      show ?thesis
      proof (cases "prop_end < cursor + 1 + n")
        case False
        then have fits: "cursor + 1 + n \<le> prop_end" by simp
        with "1.prems" obtain data where sl: "subslice buf (cursor + 1) (cursor + 1 + n) = (Ok data :: (packet_error, bytes) outcome)"
          by (simp add: subslice_def)
        show ?thesis
        proof (cases "vec_push vec_cap ps \<lparr>prop_id = buf ! cursor, prop_data = data\<rparr>")
          case None
          with True idx Ok False sl show ?thesis by (subst (1 2) read_properties_loop.simps) simp
        next
          case (Some ps')
          then have "length ps' \<le> vec_cap" by (rule vec_push_length)
          with "1.IH" [OF True refl False Some] True idx Ok False sl Some "1.prems" fits
          show ?thesis by (subst (1 2) read_properties_loop.simps) simp
        qed
      qed (use True idx Ok in \<open>subst (1 2) read_properties_loop.simps, simp\<close>)
    qed (use True idx property_data_len_not_Panic in
        \<open>subst (1 2) read_properties_loop.simps, simp add: property_data_len_not_Panic\<close>)+
  qed
qed

lemma reader_safe_properties [safe_intros]: "reader_safe read_properties"
  unfolding reader_safe_def
proof (intro allI conjI impI)
  fix cur buf ps c
  show "read_properties cur buf \<noteq> Panic"
    using read_properties_loop_safe [of _ buf] reader_safe_not_Panic [OF reader_safe_vbi]
    by (auto simp: read_properties_def and_then_eq_Panic Let_def split: if_splits)
  assume "read_properties cur buf = Ok (ps, c)"
  then obtain n c' where r: "read_variable_byte_integer cur buf = Ok (n, c')"
    and fits: "c' + n \<le> length buf"
    and l: "read_properties_loop buf (c' + n) c' [] = Ok (ps, c)"
    by (auto simp: read_properties_def and_then_eq_Ok Let_def split: if_splits)
  from reader_safe_bound [OF reader_safe_vbi r] read_properties_loop_safe [OF fits, of c' "[]"] l fits
  show "cur \<le> c" "c \<le> length buf" by auto
qed

end
