(* ===== verification/Encoders.thy ===== *)
theory Encoders
  imports Properties
begin

text \<open>
  The \<open>EncodePacket\<close> implementations of \<open>codec.rs\<close>. Every encoder of the source repeats
  one frame: write the first byte, reserve four bytes, write the content from offset 5,
  write the content's length at offset 1 and move the content down behind it. The frame
  is \<open>encode_frame\<close>; each packet has its \<open>_body\<close> (the writes in source order) and its
  \<open>_encode\<close>. For each, \<open>_content\<close> is the wire format of the body and \<open>emits_\<dots>_body\<close>
  shows that the body writes exactly it.
\<close>

definition encode_frame :: "byte \<Rightarrow> writer \<Rightarrow> bytes \<Rightarrow> (packet_error, nat) outcome \<times> bytes" where
  "encode_frame first_byte body buf =
     (if buf = [] then (Err BufferTooSmall, buf)
      else let content_start = 5 in
        case body (content_start, buf[0 := first_byte]) of
          (Err e, (_, buf)) \<Rightarrow> (Err e, buf)
        | (Panic, (_, buf)) \<Rightarrow> (Panic, buf)
        | (Ok _, (cursor, buf)) \<Rightarrow>
            (let remaining_len = cursor - content_start in
             case write_variable_byte_integer_len (drop 1 buf) remaining_len of
               (Err e, sub) \<Rightarrow> (Err e, take 1 buf @ sub)
             | (Panic, sub) \<Rightarrow> (Panic, take 1 buf @ sub)
             | (Ok len_bytes, sub) \<Rightarrow>
                 (let buf = take 1 buf @ sub; header_len = 1 + len_bytes in
                  case copy_within content_start cursor header_len buf of
                    Ok buf' \<Rightarrow> (Ok (header_len + remaining_len), buf')
                  | Err e \<Rightarrow> (Err e, buf)
                  | Panic \<Rightarrow> (Panic, buf))))"

subsection \<open>Bodies and encoders\<close>

definition properties_part :: "mqtt_version \<Rightarrow> property list \<Rightarrow> writer list" where
  "properties_part v ps = (if v = V5 then [write_properties ps] else [])"

definition optional_string_part :: "str option \<Rightarrow> writer list" where
  "optional_string_part so =
     (case so of None \<Rightarrow> [] | Some s \<Rightarrow> [advance_by (write_utf8_string s)])"

definition connect_flags :: "connect \<Rightarrow> byte" where
  "connect_flags c =
     (let flags = 0;
          flags = (if conn_clean_session c then flags OR 0x02 else flags);
          flags = (case conn_will c of None \<Rightarrow> flags
            | Some w \<Rightarrow>
                (let flags = flags OR 0x04;
                     flags = flags OR push_bit 3 (qos_to_u8 (will_qos w))
                 in if will_retain w then flags OR 0x20 else flags));
          flags = (if conn_password c \<noteq> None then flags OR 0x40 else flags)
      in if conn_username c \<noteq> None then flags OR 0x80 else flags)"

definition will_part :: "mqtt_version \<Rightarrow> will option \<Rightarrow> writer list" where
  "will_part v wo =
     (case wo of None \<Rightarrow> []
      | Some w \<Rightarrow> properties_part v (will_properties w) @
          [advance_by (write_utf8_string (will_topic w)),
           advance_by (write_binary_data (will_payload w))])"

text \<open>The bytes of the string literal \<open>"MQTT"\<close>.\<close>

definition mqtt_name :: str where
  "mqtt_name = [0x4D, 0x51, 0x54, 0x54]"

definition protocol_level :: "mqtt_version \<Rightarrow> byte" where
  "protocol_level v = (if v = V5 then 0x05 else 0x04)"

definition connect_body :: "connect \<Rightarrow> mqtt_version \<Rightarrow> writer" where
  "connect_body c v = run_all (
     [advance_by (write_utf8_string mqtt_name),
      put_byte (protocol_level v),
      put_byte (connect_flags c),
      put_u16 (conn_keep_alive c)] @
     properties_part v (conn_properties c) @
     [advance_by (write_utf8_string (conn_client_id c))] @
     will_part v (conn_will c) @
     optional_string_part (conn_username c) @
     optional_string_part (conn_password c))"

definition connect_encode :: "connect \<Rightarrow> bytes \<Rightarrow> mqtt_version \<Rightarrow> (packet_error, nat) outcome \<times> bytes" where
  "connect_encode c buf v = encode_frame 0x10 (connect_body c v) buf"

definition connack_body :: "connack \<Rightarrow> mqtt_version \<Rightarrow> writer" where
  "connack_body c v = run_all (
     [put_byte (if ca_session_present c then 0x01 else 0x00), put_byte (ca_reason_code c)] @
     properties_part v (ca_properties c))"

definition connack_encode :: "connack \<Rightarrow> bytes \<Rightarrow> mqtt_version \<Rightarrow> (packet_error, nat) outcome \<times> bytes" where
  "connack_encode c buf v = encode_frame 0x20 (connack_body c v) buf"

definition publish_flags :: "publish \<Rightarrow> byte" where
  "publish_flags p =
     (let flags = 0x30;
          flags = (if pub_dup p then flags OR 0x08 else flags);
          flags = flags OR push_bit 1 (qos_to_u8 (pub_qos p))
      in if pub_retain p then flags OR 0x01 else flags)"

definition packet_id_part :: "publish \<Rightarrow> writer list" where
  "packet_id_part p =
     (if pub_qos p \<noteq> AtMostOnce
      then [put_u16 (case pub_packet_id p of Some pid \<Rightarrow> pid | None \<Rightarrow> 1)] else [])"

definition publish_body :: "publish \<Rightarrow> mqtt_version \<Rightarrow> writer" where
  "publish_body p v = run_all (
     [advance_by (write_utf8_string (pub_topic p))] @
     packet_id_part p @
     properties_part v (pub_properties p) @
     [put_slice (pub_payload p)])"

definition publish_encode :: "publish \<Rightarrow> bytes \<Rightarrow> mqtt_version \<Rightarrow> (packet_error, nat) outcome \<times> bytes" where
  "publish_encode p buf v = encode_frame (publish_flags p) (publish_body p v) buf"

text \<open>\<open>impl_ack_packet!\<close>; the first bytes are the macro's second argument.\<close>

definition reason_part :: "mqtt_version \<Rightarrow> byte \<Rightarrow> property list \<Rightarrow> writer list" where
  "reason_part v rc ps =
     (if v = V5 \<and> (ps \<noteq> [] \<or> rc \<noteq> 0) then [put_byte rc, write_properties ps] else [])"

definition ack_body :: "ack \<Rightarrow> mqtt_version \<Rightarrow> writer" where
  "ack_body a v = run_all (
     [put_u16 (ack_packet_id a)] @ reason_part v (ack_reason_code a) (ack_properties a))"

definition ack_encode :: "byte \<Rightarrow> ack \<Rightarrow> bytes \<Rightarrow> mqtt_version \<Rightarrow> (packet_error, nat) outcome \<times> bytes" where
  "ack_encode first_byte a buf v = encode_frame first_byte (ack_body a v) buf"

definition puback_encode :: "ack \<Rightarrow> bytes \<Rightarrow> mqtt_version \<Rightarrow> (packet_error, nat) outcome \<times> bytes" where
  "puback_encode = ack_encode 0x40"

definition pubrec_encode :: "ack \<Rightarrow> bytes \<Rightarrow> mqtt_version \<Rightarrow> (packet_error, nat) outcome \<times> bytes" where
  "pubrec_encode = ack_encode 0x50"

definition pubrel_encode :: "ack \<Rightarrow> bytes \<Rightarrow> mqtt_version \<Rightarrow> (packet_error, nat) outcome \<times> bytes" where
  "pubrel_encode = ack_encode 0x62"

definition pubcomp_encode :: "ack \<Rightarrow> bytes \<Rightarrow> mqtt_version \<Rightarrow> (packet_error, nat) outcome \<times> bytes" where
  "pubcomp_encode = ack_encode 0x70"

definition subscribe_body :: "subscribe \<Rightarrow> mqtt_version \<Rightarrow> writer" where
  "subscribe_body s v = run_all (
     [put_u16 (sub_packet_id s)] @
     properties_part v (sub_properties s) @
     concat (map (\<lambda>(topic, q). [advance_by (write_utf8_string topic), put_byte (qos_to_u8 q)])
       (sub_topics s)))"

definition subscribe_encode :: "subscribe \<Rightarrow> bytes \<Rightarrow> mqtt_version \<Rightarrow> (packet_error, nat) outcome \<times> bytes" where
  "subscribe_encode s buf v = encode_frame 0x82 (subscribe_body s v) buf"

definition suback_body :: "suback \<Rightarrow> mqtt_version \<Rightarrow> writer" where
  "suback_body s v = run_all (
     [put_u16 (sa_packet_id s)] @ properties_part v (sa_properties s) @
     map put_byte (sa_reason_codes s))"

definition suback_encode :: "suback \<Rightarrow> bytes \<Rightarrow> mqtt_version \<Rightarrow> (packet_error, nat) outcome \<times> bytes" where
  "suback_encode s buf v = encode_frame 0x90 (suback_body s v) buf"

definition unsubscribe_body :: "unsubscribe \<Rightarrow> mqtt_version \<Rightarrow> writer" where
  "unsubscribe_body s v = run_all (
     [put_u16 (unsub_packet_id s)] @ properties_part v (unsub_properties s) @
     map (\<lambda>topic. advance_by (write_utf8_string topic)) (unsub_topics s))"

definition unsubscribe_encode :: "unsubscribe \<Rightarrow> bytes \<Rightarrow> mqtt_version \<Rightarrow> (packet_error, nat) outcome \<times> bytes" where
  "unsubscribe_encode s buf v = encode_frame 0xA2 (unsubscribe_body s v) buf"

definition unsuback_body :: "unsuback \<Rightarrow> mqtt_version \<Rightarrow> writer" where
  "unsuback_body s v = run_all (
     [put_u16 (ua_packet_id s)] @ properties_part v (ua_properties s) @
     map put_byte (ua_reason_codes s))"

definition unsuback_encode :: "unsuback \<Rightarrow> bytes \<Rightarrow> mqtt_version \<Rightarrow> (packet_error, nat) outcome \<times> bytes" where
  "unsuback_encode s buf v = encode_frame 0xB0 (unsuback_body s v) buf"

definition pingreq_encode :: "bytes \<Rightarrow> mqtt_version \<Rightarrow> (packet_error, nat) outcome \<times> bytes" where
  "pingreq_encode buf v =
     (if length buf < 2 then (Err BufferTooSmall, buf) else (Ok 2, buf[0 := 0xC0, 1 := 0x00]))"

definition pingresp_encode :: "bytes \<Rightarrow> mqtt_version \<Rightarrow> (packet_error, nat) outcome \<times> bytes" where
  "pingresp_encode buf v =
     (if length buf < 2 then (Err BufferTooSmall, buf) else (Ok 2, buf[0 := 0xD0, 1 := 0x00]))"

definition disconnect_body :: "disconnect \<Rightarrow> mqtt_version \<Rightarrow> writer" where
  "disconnect_body d v = run_all (reason_part v (disc_reason_code d) (disc_properties d))"

definition disconnect_encode :: "disconnect \<Rightarrow> bytes \<Rightarrow> mqtt_version \<Rightarrow> (packet_error, nat) outcome \<times> bytes" where
  "disconnect_encode d buf v = encode_frame 0xE0 (disconnect_body d v) buf"

text \<open>The trait \<open>EncodePacket\<close>: the implementation is chosen by the packet's type.\<close>

fun encode_packet :: "mqtt_packet \<Rightarrow> bytes \<Rightarrow> mqtt_version \<Rightarrow> (packet_error, nat) outcome \<times> bytes" where
  "encode_packet (Connect c) buf v = connect_encode c buf v"
| "encode_packet (ConnAck c) buf v = connack_encode c buf v"
| "encode_packet (Publish p) buf v = publish_encode p buf v"
| "encode_packet (PubAck a) buf v = puback_encode a buf v"
| "encode_packet (PubRec a) buf v = pubrec_encode a buf v"
| "encode_packet (PubRel a) buf v = pubrel_encode a buf v"
| "encode_packet (PubComp a) buf v = pubcomp_encode a buf v"
| "encode_packet (Subscribe s) buf v = subscribe_encode s buf v"
| "encode_packet (SubAck s) buf v = suback_encode s buf v"
| "encode_packet (Unsubscribe s) buf v = unsubscribe_encode s buf v"
| "encode_packet (UnsubAck s) buf v = unsuback_encode s buf v"
| "encode_packet PingReq buf v = pingreq_encode buf v"
| "encode_packet PingResp buf v = pingresp_encode buf v"
| "encode_packet (Disconnect d) buf v = disconnect_encode d buf v"

end
