(* ===== verification/Encode_Facts.thy ===== *)
theory Encode_Facts
  imports Encoders
begin

text \<open>
  What the encoders write. \<open>packet_content\<close> is the wire format of each packet's variable
  header and payload, \<open>wire\<close> the whole packet; \<open>encode_packet_Ok\<close> shows that every
  encoder writes exactly \<open>wire\<close>, \<open>encode_packet_too_small\<close> that it reports
  \<open>BufferTooSmall\<close> without the reserved room, and \<open>encode_packet_safe\<close> where it can panic.
\<close>

subsection \<open>The frame\<close>

definition frame :: "byte \<Rightarrow> bytes \<Rightarrow> bytes" where
  "frame first_byte content = first_byte # vbi (length content) @ content"

lemma length_frame: "length (frame b c) = 1 + length (vbi (length c)) + length c"
  by (simp add: frame_def)

lemma drop_overwrite_before:
  "k \<le> cur \<Longrightarrow> cur + length bs \<le> length buf \<Longrightarrow>
   take (length bs) (drop (cur - k) (overwrite (cur - k) bs (drop k buf))) = bs"
  by (simp add: overwrite_def)

lemma encode_frame_Ok:
  assumes body: "emits body content"
    and small: "length content < 268435456"
    and room: "5 + length content \<le> length buf"
  obtains buf' where
    "encode_frame b body buf = (Ok (length (frame b content)), buf')"
    "length buf' = length buf" "take (length (frame b content)) buf' = frame b content"
proof -
  let ?n = "length content" and ?buf1 = "buf[0 := b]"
  let ?l = "length (vbi ?n)"
  let ?buf2 = "overwrite 5 content ?buf1"
  let ?buf3 = "take 1 ?buf2 @ overwrite 0 (vbi ?n) (drop 1 ?buf2)"
  let ?buf4 = "overwrite (1 + ?l) content ?buf3"
  have l: "?l \<le> 4" by (rule length_vbi_le_4 [OF small])
  have len2: "length ?buf2 = length buf" using room by simp
  have len3: "length ?buf3 = length buf" using room l by simp
  have b1: "body (5, ?buf1) = (Ok (), (5 + ?n, ?buf2))"
    using emits_Ok [OF body, of 5 ?buf1] room by simp
  have b2: "write_variable_byte_integer_len (drop 1 ?buf2) ?n = (Ok ?l, overwrite 0 (vbi ?n) (drop 1 ?buf2))"
    using l room by (intro write_vbi_len) simp
  have first: "take 1 ?buf2 = [b]"
    using room by (cases buf) (simp_all add: overwrite_def)
  have "drop 5 ?buf2 = content @ drop (5 + ?n) ?buf1"
    using room by (simp add: overwrite_def)
  moreover have "drop 5 ?buf3 = drop 5 ?buf2"
    using l room by (simp add: overwrite_def drop_drop)
  ultimately have content: "take ?n (drop 5 ?buf3) = content" by simp
  have b3: "copy_within 5 (5 + ?n) (1 + ?l) ?buf3 = (Ok ?buf4 :: (packet_error, bytes) outcome)"
    using content len3 room l by (simp add: copy_within_def)
  have "take (1 + ?l + ?n) ?buf4 = take (1 + ?l) ?buf3 @ content"
    using take_overwrite_end [of "1 + ?l" ?buf3 content] len3 room l by (simp add: add.assoc)
  also have "take (1 + ?l) ?buf3 = b # vbi ?n"
    using first by (simp add: overwrite_def)
  finally have "take (length (frame b content)) ?buf4 = frame b content"
    by (simp add: length_frame) (simp add: frame_def)
  moreover have "length ?buf4 = length buf" using len3 room l by simp
  moreover have "encode_frame b body buf = (Ok (length (frame b content)), ?buf4)"
    using room b1 b2 b3 by (auto simp: encode_frame_def Let_def length_frame)
  ultimately show thesis using that by blast
qed

lemma encode_frame_too_small:
  assumes body: "emits body content" and over: "overflows body"
    and small: "length buf < 5 + length content"
  shows "fst (encode_frame b body buf) = Err BufferTooSmall"
proof (cases "buf = []")
  case False
  have "fst (body (5, buf[0 := b])) = Err BufferTooSmall"
    using emits_Err [OF body, of 5 "buf[0 := b]"] over small
    unfolding overflows_def by (cases "length buf < 5") auto
  with False show ?thesis
    by (cases "body (5, buf[0 := b])") (auto simp: encode_frame_def)
qed (simp add: encode_frame_def)

lemma encode_frame_safe:
  assumes body: "writer_safe body" and over: "overflows body" and len: "length buf < 268435456"
  shows "fst (encode_frame b body buf) \<noteq> Panic \<and> length (snd (encode_frame b body buf)) = length buf"
proof (cases "buf = [] \<or> length buf < 5")
  case True
  then have "fst (body (5, buf[0 := b])) = Err BufferTooSmall \<and>
      length (snd (snd (body (5, buf[0 := b])))) = length buf"
    using over unfolding overflows_def by fastforce
  then show ?thesis
    by (cases "body (5, buf[0 := b])") (simp add: encode_frame_def)
next
  case False
  obtain r cur buf2 where step: "body (5, buf[0 := b]) = (r, (cur, buf2))" by (metis surj_pair)
  have s: "r \<noteq> Panic" "length buf2 = length buf" "r = Ok () \<Longrightarrow> 5 \<le> cur \<and> cur \<le> length buf"
    using body False step unfolding writer_safe_def by (metis fst_conv snd_conv length_list_update not_le)+
  show ?thesis
  proof (cases r)
    case (Ok u)
    with s have cur: "5 \<le> cur" "cur \<le> length buf" by auto
    let ?n = "cur - 5"
    have l: "length (vbi ?n) \<le> 4" using len cur by (intro length_vbi_le_4) simp
    with cur s(2) have "write_variable_byte_integer_len (drop 1 buf2) ?n =
        (Ok (length (vbi ?n)), overwrite 0 (vbi ?n) (drop 1 buf2))"
      by (intro write_vbi_len) simp
    moreover have "length (overwrite 0 (vbi ?n) (drop 1 buf2)) = length buf - 1"
      using l cur s(2) by simp
    ultimately show ?thesis
      using Ok step s cur l False
      by (auto simp: encode_frame_def copy_within_def Let_def)
  qed (use step s False in \<open>auto simp: encode_frame_def\<close>)
qed

subsection \<open>Contents\<close>

definition props_content :: "mqtt_version \<Rightarrow> property list \<Rightarrow> bytes" where
  "props_content v ps = (if v = V5 then properties_bytes ps else [])"

definition optional_string_content :: "str option \<Rightarrow> bytes" where
  "optional_string_content so = (case so of None \<Rightarrow> [] | Some s \<Rightarrow> prefixed s)"

definition will_content :: "mqtt_version \<Rightarrow> will option \<Rightarrow> bytes" where
  "will_content v wo =
     (case wo of None \<Rightarrow> []
      | Some w \<Rightarrow> props_content v (will_properties w) @ prefixed (will_topic w) @ prefixed (will_payload w))"

definition reason_content :: "mqtt_version \<Rightarrow> byte \<Rightarrow> property list \<Rightarrow> bytes" where
  "reason_content v rc ps =
     (if v = V5 \<and> (ps \<noteq> [] \<or> rc \<noteq> 0) then rc # properties_bytes ps else [])"

definition packet_id_content :: "publish \<Rightarrow> bytes" where
  "packet_id_content p =
     (if pub_qos p \<noteq> AtMostOnce
      then to_be16 (case pub_packet_id p of Some pid \<Rightarrow> pid | None \<Rightarrow> 1) else [])"

definition topics_content :: "(str \<times> qos) list \<Rightarrow> bytes" where
  "topics_content ts = concat (map (\<lambda>(t, q). prefixed t @ [qos_to_u8 q]) ts)"

fun packet_content :: "mqtt_packet \<Rightarrow> mqtt_version \<Rightarrow> bytes" where
  "packet_content (Connect c) v =
     (prefixed mqtt_name @ [protocol_level v, connect_flags c] @ to_be16 (conn_keep_alive c)) @
     props_content v (conn_properties c) @ prefixed (conn_client_id c) @
     will_content v (conn_will c) @ optional_string_content (conn_username c) @
     optional_string_content (conn_password c)"
| "packet_content (ConnAck c) v =
     [if ca_session_present c then 0x01 else 0x00, ca_reason_code c] @ props_content v (ca_properties c)"
| "packet_content (Publish p) v =
     prefixed (pub_topic p) @ packet_id_content p @ props_content v (pub_properties p) @ pub_payload p"
| "packet_content (PubAck a) v =
     to_be16 (ack_packet_id a) @ reason_content v (ack_reason_code a) (ack_properties a)"
| "packet_content (PubRec a) v =
     to_be16 (ack_packet_id a) @ reason_content v (ack_reason_code a) (ack_properties a)"
| "packet_content (PubRel a) v =
     to_be16 (ack_packet_id a) @ reason_content v (ack_reason_code a) (ack_properties a)"
| "packet_content (PubComp a) v =
     to_be16 (ack_packet_id a) @ reason_content v (ack_reason_code a) (ack_properties a)"
| "packet_content (Subscribe s) v =
     to_be16 (sub_packet_id s) @ props_content v (sub_properties s) @ topics_content (sub_topics s)"
| "packet_content (SubAck s) v =
     to_be16 (sa_packet_id s) @ props_content v (sa_properties s) @ sa_reason_codes s"
| "packet_content (Unsubscribe s) v =
     to_be16 (unsub_packet_id s) @ props_content v (unsub_properties s) @
     concat (map prefixed (unsub_topics s))"
| "packet_content (UnsubAck s) v =
     to_be16 (ua_packet_id s) @ props_content v (ua_properties s) @ ua_reason_codes s"
| "packet_content PingReq v = []"
| "packet_content PingResp v = []"
| "packet_content (Disconnect d) v = reason_content v (disc_reason_code d) (disc_properties d)"

fun first_byte :: "mqtt_packet \<Rightarrow> byte" where
  "first_byte (Connect c) = 0x10"
| "first_byte (ConnAck c) = 0x20"
| "first_byte (Publish p) = publish_flags p"
| "first_byte (PubAck a) = 0x40"
| "first_byte (PubRec a) = 0x50"
| "first_byte (PubRel a) = 0x62"
| "first_byte (PubComp a) = 0x70"
| "first_byte (Subscribe s) = 0x82"
| "first_byte (SubAck s) = 0x90"
| "first_byte (Unsubscribe s) = 0xA2"
| "first_byte (UnsubAck s) = 0xB0"
| "first_byte PingReq = 0xC0"
| "first_byte PingResp = 0xD0"
| "first_byte (Disconnect d) = 0xE0"

definition wire :: "mqtt_packet \<Rightarrow> mqtt_version \<Rightarrow> bytes" where
  "wire p v = frame (first_byte p) (packet_content p v)"

text \<open>The strings and binary fields that carry a two-byte length.\<close>

fun prefixed_fields :: "mqtt_packet \<Rightarrow> bytes list" where
  "prefixed_fields (Connect c) =
     conn_client_id c #
     (case conn_will c of None \<Rightarrow> [] | Some w \<Rightarrow> [will_topic w, will_payload w]) @
     (case conn_username c of None \<Rightarrow> [] | Some s \<Rightarrow> [s]) @
     (case conn_password c of None \<Rightarrow> [] | Some s \<Rightarrow> [s])"
| "prefixed_fields (Publish p) = [pub_topic p]"
| "prefixed_fields (Subscribe s) = map fst (sub_topics s)"
| "prefixed_fields (Unsubscribe s) = unsub_topics s"
| "prefixed_fields _ = []"

definition encodable :: "mqtt_packet \<Rightarrow> mqtt_version \<Rightarrow> bool" where
  "encodable p v \<longleftrightarrow> (\<forall>s \<in> set (prefixed_fields p). length s \<le> 65535) \<and>
     length (packet_content p v) < 268435456"

subsection \<open>Each body emits its content\<close>

lemma emits_single: "emits m bs \<Longrightarrow> emits (run_all [m]) bs"
  using emits_run_Cons [OF _ emits_run_Nil, of m bs] by simp

lemma emits_properties_part [emit_intros]:
  "emits (run_all (properties_part v ps)) (props_content v ps)"
  unfolding properties_part_def props_content_def
  by (cases "v = V5") (simp_all add: emits_run_Nil emits_single emits_write_properties del: run_all.simps)

lemma emits_optional_string [emit_intros]:
  "(\<And>s. so = Some s \<Longrightarrow> length s \<le> 65535) \<Longrightarrow>
   emits (run_all (optional_string_part so)) (optional_string_content so)"
  unfolding optional_string_part_def optional_string_content_def
  by (cases so) (simp_all only: option.case emits_run_Nil emits_single emits_write_utf8_string)

lemma emits_will_part [emit_intros]:
  "(\<And>w. wo = Some w \<Longrightarrow> length (will_topic w) \<le> 65535 \<and> length (will_payload w) \<le> 65535) \<Longrightarrow>
   emits (run_all (will_part v wo)) (will_content v wo)"
proof (cases wo)
  case (Some w)
  assume "\<And>w. wo = Some w \<Longrightarrow> length (will_topic w) \<le> 65535 \<and> length (will_payload w) \<le> 65535"
  with Some have t: "length (will_topic w) \<le> 65535" and p: "length (will_payload w) \<le> 65535"
    by auto
  show ?thesis
    unfolding will_part_def will_content_def Some option.case
    by (intro emits_run_append emits_properties_part emits_run_Cons [OF emits_write_utf8_string [OF t]]
        emits_single [OF emits_write_binary_data [OF p]])
qed (simp only: will_part_def will_content_def option.case emits_run_Nil)

lemma emits_reason_part [emit_intros]:
  "emits (run_all (reason_part v rc ps)) (reason_content v rc ps)"
proof -
  have "emits (run_all [put_byte rc, write_properties ps]) ([rc] @ properties_bytes ps)"
    by (intro emits_run_Cons emits_put_byte emits_single emits_write_properties)
  note e = this
  show ?thesis
  proof (cases "v = V5 \<and> (ps \<noteq> [] \<or> rc \<noteq> 0)")
    case True
    show ?thesis
      unfolding reason_part_def reason_content_def if_P [OF True]
      using e by (simp only: append_Cons append_Nil)
  next
    case False
    show ?thesis
      unfolding reason_part_def reason_content_def if_not_P [OF False] by (rule emits_run_Nil)
  qed
qed

lemma emits_packet_id_part [emit_intros]:
  "emits (run_all (packet_id_part p)) (packet_id_content p)"
  unfolding packet_id_part_def packet_id_content_def
  by (cases "pub_qos p \<noteq> AtMostOnce") (simp_all add: emits_run_Nil emits_single emits_put_u16 del: run_all.simps)

lemma emits_map [emit_intros]:
  "(\<And>x. x \<in> set xs \<Longrightarrow> emits (f x) (g x)) \<Longrightarrow>
   emits (run_all (map f xs)) (concat (map g xs))"
proof (induction xs)
  case Nil
  show ?case by (simp only: list.map concat.simps emits_run_Nil)
next
  case (Cons x xs)
  then show ?case
    using emits_run_Cons [of "f x" "g x" "map f xs"] by (simp del: run_all.simps)
qed

lemma emits_topics [emit_intros]:
  "(\<And>t q. (t, q) \<in> set ts \<Longrightarrow> length t \<le> 65535) \<Longrightarrow>
   emits (run_all (concat (map (\<lambda>(topic, q). [advance_by (write_utf8_string topic), put_byte (qos_to_u8 q)]) ts)))
     (topics_content ts)"
proof (induction ts)
  case Nil
  show ?case by (simp only: topics_content_def list.map concat.simps emits_run_Nil)
next
  case (Cons tq ts)
  obtain t q where tq: "tq = (t, q)" by fastforce
  have t: "length t \<le> 65535" using Cons.prems [of t q] tq by simp
  have "emits (run_all (concat (map (\<lambda>(topic, q). [advance_by (write_utf8_string topic), put_byte (qos_to_u8 q)]) ts)))
     (topics_content ts)" using Cons by (meson list.set_intros(2))
  from emits_run_append [OF emits_run_Cons [OF emits_write_utf8_string [OF t] emits_single [OF emits_put_byte [of "qos_to_u8 q"]]] this]
  show ?case by (simp add: tq topics_content_def del: run_all.simps)
qed

lemma concat_singletons: "concat (map (\<lambda>b. [b]) bs) = bs"
  by (induction bs) simp_all

lemma emits_put_bytes [emit_intros]: "emits (run_all (map put_byte bs)) bs"
  using emits_map [of bs put_byte "\<lambda>b. [b]"] by (simp add: emits_put_byte concat_singletons)

text \<open>The body behind each packet's encoder; the two pings have none.\<close>

fun packet_body :: "mqtt_packet \<Rightarrow> mqtt_version \<Rightarrow> writer" where
  "packet_body (Connect c) v = connect_body c v"
| "packet_body (ConnAck c) v = connack_body c v"
| "packet_body (Publish p) v = publish_body p v"
| "packet_body (PubAck a) v = ack_body a v"
| "packet_body (PubRec a) v = ack_body a v"
| "packet_body (PubRel a) v = ack_body a v"
| "packet_body (PubComp a) v = ack_body a v"
| "packet_body (Subscribe s) v = subscribe_body s v"
| "packet_body (SubAck s) v = suback_body s v"
| "packet_body (Unsubscribe s) v = unsubscribe_body s v"
| "packet_body (UnsubAck s) v = unsuback_body s v"
| "packet_body PingReq v = run_all []"
| "packet_body PingResp v = run_all []"
| "packet_body (Disconnect d) v = disconnect_body d v"

definition is_ping :: "mqtt_packet \<Rightarrow> bool" where
  "is_ping p \<longleftrightarrow> p = PingReq \<or> p = PingResp"

lemmas encoder_defs = connect_encode_def connack_encode_def publish_encode_def ack_encode_def
  puback_encode_def pubrec_encode_def pubrel_encode_def pubcomp_encode_def subscribe_encode_def
  suback_encode_def unsubscribe_encode_def unsuback_encode_def disconnect_encode_def

lemmas body_defs = connect_body_def connack_body_def publish_body_def ack_body_def
  subscribe_body_def suback_body_def unsubscribe_body_def unsuback_body_def disconnect_body_def

lemma encode_packet_frame:
  "\<not> is_ping p \<Longrightarrow> encode_packet p buf v = encode_frame (first_byte p) (packet_body p v) buf"
  by (cases p) (simp_all add: is_ping_def encoder_defs)

lemma emits_connect_head:
  "emits (run_all [advance_by (write_utf8_string mqtt_name), put_byte lvl, put_byte fl, put_u16 ka])
     (prefixed mqtt_name @ [lvl, fl] @ to_be16 ka)"
proof -
  have "emits (run_all [advance_by (write_utf8_string mqtt_name), put_byte lvl, put_byte fl, put_u16 ka])
     (prefixed mqtt_name @ [lvl] @ [fl] @ to_be16 ka)"
    by (intro emits_run_Cons emits_write_utf8_string emits_put_byte emits_single emits_put_u16)
      (simp add: mqtt_name_def)
  then show ?thesis by (simp del: run_all.simps)
qed

lemma emits_packet_body:
  assumes "\<forall>s \<in> set (prefixed_fields p). length s \<le> 65535"
  shows "emits (packet_body p v) (packet_content p v)"
proof (cases p)
  case (Connect c)
  with assms show ?thesis
    unfolding Connect packet_body.simps packet_content.simps connect_body_def
    by (intro emits_run_append emits_connect_head emits_properties_part emits_single
        emits_write_utf8_string emits_will_part emits_optional_string) auto
next
  case (ConnAck c)
  have "emits (run_all [put_byte (if ca_session_present c then 0x01 else 0x00), put_byte (ca_reason_code c)])
      ([if ca_session_present c then 0x01 else 0x00] @ [ca_reason_code c])"
    by (intro emits_run_Cons emits_put_byte emits_single)
  from emits_run_append [OF this emits_properties_part [of v "ca_properties c"]]
  show ?thesis unfolding ConnAck packet_body.simps packet_content.simps connack_body_def
    by (simp only: append_Cons append_Nil append_assoc)
next
  case (Unsubscribe s)
  with assms show ?thesis
    unfolding Unsubscribe packet_body.simps packet_content.simps unsubscribe_body_def
    by (intro emits_run_append emits_properties_part emits_single emits_put_u16 emits_map
        emits_write_utf8_string) auto
next
  case (Subscribe s)
  with assms show ?thesis
    unfolding Subscribe packet_body.simps packet_content.simps subscribe_body_def
    by (intro emits_run_append emits_properties_part emits_single emits_put_u16 emits_topics) auto
next
  case (Publish q)
  with assms show ?thesis
    unfolding Publish packet_body.simps packet_content.simps publish_body_def
    by (intro emits_run_append emits_properties_part emits_single emits_write_utf8_string
        emits_packet_id_part emits_put_slice) auto
qed (simp only: packet_body.simps packet_content.simps body_defs,
    intro emits_run_append emits_properties_part emits_single emits_put_u16 emits_put_bytes
      emits_reason_part emits_run_Nil)+

subsection \<open>Overflow and safety of the bodies\<close>

lemma overflows_packet_body:
  "packet_content p v \<noteq> [] \<Longrightarrow> overflows (packet_body p v)"
  by (cases p)
    (auto simp: body_defs reason_part_def reason_content_def intro!: emit_intros simp del: run_all.simps)

lemma writer_safe_concat:
  "(\<And>m. m \<in> set ms \<Longrightarrow> writer_safe m) \<Longrightarrow> writer_safe (run_all ms)"
proof (induction ms)
  case Nil
  show ?case by (rule writer_safe_Nil)
next
  case (Cons m ms)
  then show ?case by (intro writer_safe_Cons) auto
qed

lemma writer_safe_packet_body: "writer_safe (packet_body p v)"
  by (cases p; simp only: packet_body.simps body_defs; rule writer_safe_concat)
    (auto simp: properties_part_def will_part_def optional_string_part_def packet_id_part_def
      reason_part_def intro: safe_intros split: if_splits option.splits)

subsection \<open>Encoding a packet\<close>

lemma wire_not_ping:
  "\<not> is_ping p \<Longrightarrow> wire p v = frame (first_byte p) (packet_content p v)"
  by (simp add: wire_def)

lemma encode_packet_Ok:
  assumes enc: "encodable p v" and room: "5 + length (packet_content p v) \<le> length buf"
  obtains buf' where "encode_packet p buf v = (Ok (length (wire p v)), buf')"
    and "length buf' = length buf" and "take (length (wire p v)) buf' = wire p v"
proof (cases "is_ping p")
  case True
  obtain b0 b1 rest where buf: "buf = b0 # b1 # rest"
    using room by (cases buf; cases "tl buf") auto
  from True have "encode_packet p buf v = (Ok (length (wire p v)), first_byte p # 0 # rest)"
    and "wire p v = [first_byte p, 0]"
    by (auto simp: is_ping_def pingreq_encode_def pingresp_encode_def buf wire_def
        frame_def vbi.simps [of 0])
  with that [of "first_byte p # 0 # rest"] show thesis by (simp add: buf)
next
  case False
  from enc have "emits (packet_body p v) (packet_content p v)"
    and "length (packet_content p v) < 268435456"
    by (simp_all add: encodable_def emits_packet_body)
  from encode_frame_Ok [OF this room] show thesis
    using False that by (metis encode_packet_frame wire_not_ping)
qed

lemma encode_packet_too_small:
  assumes "encodable p v" "packet_content p v \<noteq> []" "length buf < 5 + length (packet_content p v)"
  shows "fst (encode_packet p buf v) = Err BufferTooSmall"
proof -
  have "\<not> is_ping p" using assms(2) by (auto simp: is_ping_def)
  moreover have "emits (packet_body p v) (packet_content p v)"
    using assms(1) by (simp add: encodable_def emits_packet_body)
  ultimately show ?thesis
    using encode_frame_too_small [OF _ overflows_packet_body [OF assms(2)] assms(3)]
    by (simp add: encode_packet_frame)
qed

lemma encode_packet_safe:
  assumes "packet_content p v \<noteq> [] \<or> is_ping p" "length buf < 268435456"
  shows "fst (encode_packet p buf v) \<noteq> Panic \<and> length (snd (encode_packet p buf v)) = length buf"
proof (cases "is_ping p")
  case True
  then show ?thesis by (auto simp: is_ping_def pingreq_encode_def pingresp_encode_def split: if_splits)
next
  case False
  with assms encode_frame_safe [OF writer_safe_packet_body overflows_packet_body assms(2)]
  show ?thesis by (auto simp: encode_packet_frame)
qed

text \<open>A DISCONNECT without reason and properties has no content. Its encoder then checks
  the buffer only for the first byte and the length byte, and moves the empty content from
  offset 5: a buffer of two to four bytes makes it panic.\<close>

lemma disconnect_encode_short:
  assumes "reason_content v (disc_reason_code d) (disc_properties d) = []"
    and "2 \<le> length buf" "length buf \<le> 4"
  shows "fst (disconnect_encode d buf v) = Panic"
proof -
  have "disconnect_body d v = run_all []"
    using assms(1) by (auto simp: disconnect_body_def reason_part_def reason_content_def split: if_splits)
  moreover have "write_variable_byte_integer_len (drop 1 (buf[0 := 0xE0])) 0 =
      (Ok 1, overwrite 0 [0] (drop 1 (buf[0 := 0xE0])))"
    using write_vbi_len [of 0 "drop 1 (buf[0 := 0xE0])"] assms(2) by (simp add: vbi.simps [of 0])
  ultimately show ?thesis
    using assms(2,3)
    by (auto simp: disconnect_encode_def encode_frame_def copy_within_def Let_def)
qed

end
