(* ===== verification/Decoders.thy ===== *)
theory Decoders
  imports Encode_Facts
begin

text \<open>
  The \<open>DecodePacket\<close> implementations of \<open>codec.rs\<close> and \<open>decode\<close>, with the cursor passed
  explicitly. Indexing and slicing keep their panics (\<open>index\<close>, \<open>subslice\<close>); the safety
  lemmas show which of them can be reached: only the payload slice of PUBLISH.
\<close>

lemma and_then_cong [fundef_cong]:
  "m = m' \<Longrightarrow> (\<And>a. m' = Ok a \<Longrightarrow> f a = f' a) \<Longrightarrow> and_then m f = and_then m' f'"
  by (cases m') auto

text \<open>\<open>let mut cursor = 1; let remaining_len = read_variable_byte_integer(...)?;\<close> and
  \<open>content_end\<close>; returns (content_end, cursor).\<close>

definition read_head :: "bytes \<Rightarrow> (packet_error, nat \<times> nat) outcome" where
  "read_head buf =
     and_then (read_variable_byte_integer 1 buf) (\<lambda>(remaining_len, cursor).
       Ok (cursor + remaining_len, cursor))"

text \<open>\<open>u16::from_be_bytes([buf[cursor], buf[cursor + 1]])\<close>\<close>

definition read_u16 :: "bytes \<Rightarrow> nat \<Rightarrow> (packet_error, u16) outcome" where
  "read_u16 buf cursor =
     and_then (index buf cursor) (\<lambda>b0. and_then (index buf (cursor + 1)) (\<lambda>b1. Ok (from_be16 b0 b1)))"

definition read_optional_properties ::
  "bool \<Rightarrow> nat \<Rightarrow> nat \<Rightarrow> bytes \<Rightarrow> (packet_error, property list \<times> nat) outcome" where
  "read_optional_properties cond content_end cursor buf =
     (if cond \<and> cursor < content_end then read_properties cursor buf else Ok ([], cursor))"

definition read_flagged_string :: "bool \<Rightarrow> nat \<Rightarrow> bytes \<Rightarrow> (packet_error, str option \<times> nat) outcome" where
  "read_flagged_string flag cursor buf =
     (if flag then and_then (read_utf8_string cursor buf) (\<lambda>(s, cursor). Ok (Some s, cursor))
      else Ok (None, cursor))"

text \<open>The bytes of \<open>"MQIsdp"\<close>, the protocol name of MQTT 3.1.\<close>

definition mqisdp_name :: str where
  "mqisdp_name = [0x4D, 0x51, 0x49, 0x73, 0x64, 0x70]"

definition read_will ::
  "mqtt_version \<Rightarrow> byte \<Rightarrow> byte \<Rightarrow> nat \<Rightarrow> nat \<Rightarrow> bytes \<Rightarrow> (packet_error, will option \<times> nat) outcome" where
  "read_will v level flags content_end cursor buf =
     (if flags AND 0x04 \<noteq> 0 then
        and_then (read_optional_properties (v = V5 \<or> level = 5) content_end cursor buf)
          (\<lambda>(will_props, cursor).
        and_then (read_utf8_string cursor buf) (\<lambda>(topic, cursor).
        and_then (read_binary_data cursor buf) (\<lambda>(payload, cursor).
          Ok (Some \<lparr>will_topic = topic, will_payload = payload,
                    will_qos = qos_from_u8 (drop_bit 3 flags AND 0x03),
                    will_retain = (flags AND 0x20 \<noteq> 0), will_properties = will_props\<rparr>, cursor))))
      else Ok (None, cursor))"

definition connect_decode :: "bytes \<Rightarrow> mqtt_version \<Rightarrow> (packet_error, connect) outcome" where
  "connect_decode buf v =
     and_then (read_head buf) (\<lambda>(content_end, cursor).
     if length buf < content_end then Err IncompletePacket
     else and_then (read_utf8_string cursor buf) (\<lambda>(protocol_name, cursor).
     and_then (get_or IncompletePacket buf cursor) (\<lambda>protocol_level.
     let cursor = cursor + 1 in
     if protocol_name \<noteq> mqtt_name \<and> protocol_name \<noteq> mqisdp_name then Err MalformedPacket
     else and_then (get_or IncompletePacket buf cursor) (\<lambda>flags.
     let cursor = cursor + 1 in
     if content_end < cursor + 2 then Err IncompletePacket
     else and_then (read_u16 buf cursor) (\<lambda>keep_alive.
     let cursor = cursor + 2 in
     and_then (read_optional_properties (v = V5 \<or> protocol_level = 5) content_end cursor buf)
       (\<lambda>(properties, cursor).
     and_then (read_utf8_string cursor buf) (\<lambda>(client_id, cursor).
     and_then (read_will v protocol_level flags content_end cursor buf) (\<lambda>(will, cursor).
     and_then (read_flagged_string (flags AND 0x80 \<noteq> 0) cursor buf) (\<lambda>(username, cursor).
     and_then (read_flagged_string (flags AND 0x40 \<noteq> 0) cursor buf) (\<lambda>(password, cursor).
       Ok \<lparr>conn_clean_session = (flags AND 0x02 \<noteq> 0), conn_keep_alive = keep_alive,
           conn_client_id = client_id, conn_username = username, conn_password = password,
           conn_will = will, conn_properties = properties\<rparr>))))))))))"

definition connack_decode :: "bytes \<Rightarrow> mqtt_version \<Rightarrow> (packet_error, connack) outcome" where
  "connack_decode buf v =
     and_then (read_head buf) (\<lambda>(content_end, cursor).
     if length buf < content_end \<or> content_end < cursor + 2 then Err IncompletePacket
     else and_then (index buf cursor) (\<lambda>ack_flags.
     let cursor = cursor + 1 in
     and_then (index buf cursor) (\<lambda>reason_code.
     let cursor = cursor + 1 in
     and_then (read_optional_properties (v = V5) content_end cursor buf) (\<lambda>(properties, cursor).
       Ok \<lparr>ca_session_present = (ack_flags AND 0x01 \<noteq> 0), ca_reason_code = reason_code,
           ca_properties = properties\<rparr>))))"

definition publish_decode :: "bytes \<Rightarrow> mqtt_version \<Rightarrow> (packet_error, publish) outcome" where
  "publish_decode buf v =
     (if buf = [] then Err IncompletePacket
      else and_then (index buf 0) (\<lambda>header.
      let q = qos_from_u8 (drop_bit 1 header AND 0x03) in
      and_then (read_head buf) (\<lambda>(content_end, cursor).
      if length buf < content_end then Err IncompletePacket
      else and_then (read_utf8_string cursor buf) (\<lambda>(topic, cursor).
      and_then
        (if q \<noteq> AtMostOnce then
           (if content_end < cursor + 2 then Err IncompletePacket
            else and_then (read_u16 buf cursor) (\<lambda>pid. Ok (Some pid, cursor + 2)))
         else Ok (None, cursor)) (\<lambda>(packet_id, cursor).
      and_then (read_optional_properties (v = V5) content_end cursor buf) (\<lambda>(properties, cursor).
      and_then (subslice buf cursor content_end) (\<lambda>payload.
        Ok \<lparr>pub_dup = (header AND 0x08 \<noteq> 0), pub_qos = q, pub_retain = (header AND 0x01 \<noteq> 0),
            pub_topic = topic, pub_packet_id = packet_id, pub_payload = payload,
            pub_properties = properties\<rparr>)))))))"

text \<open>The head the acknowledgements and the subscription packets share: the packet
  identifier after the length check. Returns (packet_id, content_end, cursor).\<close>

definition read_id_head :: "bytes \<Rightarrow> (packet_error, u16 \<times> nat \<times> nat) outcome" where
  "read_id_head buf =
     and_then (read_head buf) (\<lambda>(content_end, cursor).
     if length buf < content_end \<or> content_end < cursor + 2 then Err IncompletePacket
     else and_then (read_u16 buf cursor) (\<lambda>packet_id. Ok (packet_id, content_end, cursor + 2)))"

text \<open>The reason code and properties of \<open>impl_ack_packet!\<close> and of DISCONNECT.\<close>

definition read_reason ::
  "mqtt_version \<Rightarrow> nat \<Rightarrow> nat \<Rightarrow> bytes \<Rightarrow> (packet_error, byte \<times> property list) outcome" where
  "read_reason v content_end cursor buf =
     (if v = V5 \<and> cursor < content_end then
        and_then (get_or IncompletePacket buf cursor) (\<lambda>reason_code.
        let cursor = cursor + 1 in
        if cursor < content_end then
          and_then (read_properties cursor buf) (\<lambda>(properties, cursor). Ok (reason_code, properties))
        else Ok (reason_code, []))
      else Ok (0, []))"

definition ack_decode :: "bytes \<Rightarrow> mqtt_version \<Rightarrow> (packet_error, ack) outcome" where
  "ack_decode buf v =
     and_then (read_id_head buf) (\<lambda>(packet_id, content_end, cursor).
     and_then (read_reason v content_end cursor buf) (\<lambda>(reason_code, properties).
       Ok \<lparr>ack_packet_id = packet_id, ack_reason_code = reason_code, ack_properties = properties\<rparr>))"

lemma read_utf8_string_advances:
  "read_utf8_string cursor buf = Ok (s, c) \<Longrightarrow> cursor + 2 \<le> c"
  by (auto simp: read_utf8_string_def and_then_eq_Ok Let_def split: if_splits)

function read_topics ::
  "bytes \<Rightarrow> nat \<Rightarrow> nat \<Rightarrow> (str \<times> qos) list \<Rightarrow> (packet_error, (str \<times> qos) list) outcome" where
  "read_topics buf content_end cursor topics =
     (if cursor < content_end then
        and_then (read_utf8_string cursor buf) (\<lambda>(topic, cursor').
        and_then (get_or IncompletePacket buf cursor') (\<lambda>qos_byte.
        case vec_push vec_cap topics (topic, qos_from_u8 qos_byte) of
          Some topics' \<Rightarrow> read_topics buf content_end (cursor' + 1) topics'
        | None \<Rightarrow> Err BatchCapacityExceeded))
      else Ok topics)"
  by pat_completeness auto
termination
  by (relation "measure (\<lambda>(buf, content_end, cursor, ts). content_end - cursor)")
    (auto dest: read_utf8_string_advances)

declare read_topics.simps [simp del]

definition subscribe_decode :: "bytes \<Rightarrow> mqtt_version \<Rightarrow> (packet_error, subscribe) outcome" where
  "subscribe_decode buf v =
     and_then (read_id_head buf) (\<lambda>(packet_id, content_end, cursor).
     and_then (read_optional_properties (v = V5) content_end cursor buf) (\<lambda>(properties, cursor).
     and_then (read_topics buf content_end cursor []) (\<lambda>topics.
       Ok \<lparr>sub_packet_id = packet_id, sub_topics = topics, sub_properties = properties\<rparr>)))"

function read_codes :: "bytes \<Rightarrow> nat \<Rightarrow> nat \<Rightarrow> bytes \<Rightarrow> (packet_error, bytes) outcome" where
  "read_codes buf content_end cursor codes =
     (if cursor < content_end then
        and_then (get_or IncompletePacket buf cursor) (\<lambda>b.
        case vec_push vec_cap codes b of
          Some codes' \<Rightarrow> read_codes buf content_end (cursor + 1) codes'
        | None \<Rightarrow> Err BatchCapacityExceeded)
      else Ok codes)"
  by pat_completeness auto
termination
  by (relation "measure (\<lambda>(buf, content_end, cursor, cs). content_end - cursor)") auto

declare read_codes.simps [simp del]

definition suback_decode :: "bytes \<Rightarrow> mqtt_version \<Rightarrow> (packet_error, suback) outcome" where
  "suback_decode buf v =
     and_then (read_id_head buf) (\<lambda>(packet_id, content_end, cursor).
     and_then (read_optional_properties (v = V5) content_end cursor buf) (\<lambda>(properties, cursor).
     and_then (read_codes buf content_end cursor []) (\<lambda>reason_codes.
       Ok \<lparr>sa_packet_id = packet_id, sa_reason_codes = reason_codes, sa_properties = properties\<rparr>)))"

function read_unsub_topics :: "bytes \<Rightarrow> nat \<Rightarrow> nat \<Rightarrow> str list \<Rightarrow> (packet_error, str list) outcome" where
  "read_unsub_topics buf content_end cursor topics =
     (if cursor < content_end then
        and_then (read_utf8_string cursor buf) (\<lambda>(topic, cursor').
        case vec_push vec_cap topics topic of
          Some topics' \<Rightarrow> read_unsub_topics buf content_end cursor' topics'
        | None \<Rightarrow> Err BatchCapacityExceeded)
      else Ok topics)"
  by pat_completeness auto
termination
  by (relation "measure (\<lambda>(buf, content_end, cursor, ts). content_end - cursor)")
    (auto dest: read_utf8_string_advances)

declare read_unsub_topics.simps [simp del]

definition unsubscribe_decode :: "bytes \<Rightarrow> mqtt_version \<Rightarrow> (packet_error, unsubscribe) outcome" where
  "unsubscribe_decode buf v =
     and_then (read_id_head buf) (\<lambda>(packet_id, content_end, cursor).
     and_then (read_optional_properties (v = V5) content_end cursor buf) (\<lambda>(properties, cursor).
     and_then (read_unsub_topics buf content_end cursor []) (\<lambda>topics.
       Ok \<lparr>unsub_packet_id = packet_id, unsub_topics = topics, unsub_properties = properties\<rparr>)))"

definition unsuback_decode :: "bytes \<Rightarrow> mqtt_version \<Rightarrow> (packet_error, unsuback) outcome" where
  "unsuback_decode buf v =
     and_then (read_id_head buf) (\<lambda>(packet_id, content_end, cursor).
     and_then (read_optional_properties (v = V5) content_end cursor buf) (\<lambda>(properties, cursor).
     and_then (read_codes buf content_end cursor []) (\<lambda>reason_codes.
       Ok \<lparr>ua_packet_id = packet_id, ua_reason_codes = reason_codes, ua_properties = properties\<rparr>)))"

definition disconnect_decode :: "bytes \<Rightarrow> mqtt_version \<Rightarrow> (packet_error, disconnect) outcome" where
  "disconnect_decode buf v =
     (if 1 < length buf then
        and_then (read_head buf) (\<lambda>(content_end, cursor).
        if length buf < content_end then Err IncompletePacket
        else and_then (read_reason v content_end cursor buf) (\<lambda>(reason_code, properties).
          Ok \<lparr>disc_reason_code = reason_code, disc_properties = properties\<rparr>))
      else Ok \<lparr>disc_reason_code = 0, disc_properties = []\<rparr>)"

definition decode :: "bytes \<Rightarrow> mqtt_version \<Rightarrow> (packet_error, mqtt_packet option) outcome" where
  "decode buf v =
     (if buf = [] then Ok None
      else and_then (index buf 0) (\<lambda>b0.
      let packet_type = drop_bit 4 b0 in
      if packet_type = 1 then and_then (connect_decode buf v) (\<lambda>p. Ok (Some (Connect p)))
      else if packet_type = 2 then and_then (connack_decode buf v) (\<lambda>p. Ok (Some (ConnAck p)))
      else if packet_type = 3 then and_then (publish_decode buf v) (\<lambda>p. Ok (Some (Publish p)))
      else if packet_type = 4 then and_then (ack_decode buf v) (\<lambda>p. Ok (Some (PubAck p)))
      else if packet_type = 5 then and_then (ack_decode buf v) (\<lambda>p. Ok (Some (PubRec p)))
      else if packet_type = 6 then and_then (ack_decode buf v) (\<lambda>p. Ok (Some (PubRel p)))
      else if packet_type = 7 then and_then (ack_decode buf v) (\<lambda>p. Ok (Some (PubComp p)))
      else if packet_type = 8 then and_then (subscribe_decode buf v) (\<lambda>p. Ok (Some (Subscribe p)))
      else if packet_type = 9 then and_then (suback_decode buf v) (\<lambda>p. Ok (Some (SubAck p)))
      else if packet_type = 10 then and_then (unsubscribe_decode buf v) (\<lambda>p. Ok (Some (Unsubscribe p)))
      else if packet_type = 11 then and_then (unsuback_decode buf v) (\<lambda>p. Ok (Some (UnsubAck p)))
      else if packet_type = 12 then Ok (Some PingReq)
      else if packet_type = 13 then Ok (Some PingResp)
      else if packet_type = 14 then and_then (disconnect_decode buf v) (\<lambda>p. Ok (Some (Disconnect p)))
      else Err (InvalidPacketType packet_type)))"

end
