(* ===== verification/Roundtrip.thy ===== *)
theory Roundtrip
  imports Decoders
begin

text \<open>
  Decoding inverts encoding. \<open>wire_view p v\<close> is what a packet becomes on the wire at
  version \<open>v\<close>: below MQTT 5 the properties and the acknowledgement's reason code are not
  transmitted, and a PUBLISH carries a packet identifier exactly when its QoS asks for one.
\<close>

subsection \<open>Bytes at a position\<close>

definition holds_at :: "bytes \<Rightarrow> nat \<Rightarrow> bytes \<Rightarrow> bool" where
  "holds_at buf cur bs \<longleftrightarrow> cur \<le> length buf \<and> take (length bs) (drop cur buf) = bs"

lemma holds_at_length: "holds_at buf cur bs \<Longrightarrow> cur + length bs \<le> length buf"
  unfolding holds_at_def
  by (metis le_add_diff_inverse length_drop length_take min.cobounded1 nat_add_left_cancel_le)

lemma holds_at_append:
  "holds_at buf cur (xs @ ys) \<longleftrightarrow> holds_at buf cur xs \<and> holds_at buf (cur + length xs) ys"
proof
  assume h: "holds_at buf cur (xs @ ys)"
  then have len: "cur + length xs + length ys \<le> length buf" using holds_at_length by fastforce
  have "take (length xs) (take (length (xs @ ys)) (drop cur buf)) = take (length xs) (xs @ ys)"
    and "drop (length xs) (take (length (xs @ ys)) (drop cur buf)) = drop (length xs) (xs @ ys)"
    using h by (simp_all add: holds_at_def)
  with len show "holds_at buf cur xs \<and> holds_at buf (cur + length xs) ys"
    by (simp add: holds_at_def drop_take add.commute)
next
  assume h: "holds_at buf cur xs \<and> holds_at buf (cur + length xs) ys"
  then show "holds_at buf cur (xs @ ys)"
    by (simp add: holds_at_def take_add add.commute)
qed

lemma holds_at_Cons:
  "ys \<noteq> [] \<Longrightarrow> holds_at buf cur (x # ys) \<longleftrightarrow> holds_at buf cur [x] \<and> holds_at buf (cur + 1) ys"
  using holds_at_append [of buf cur "[x]" ys] by simp

lemma holds_at_nth:
  assumes "holds_at buf cur (x # ys)"
  shows "cur < length buf \<and> buf ! cur = x"
proof -
  have len: "cur < length buf" using holds_at_length [OF assms] by simp
  then have "take (length (x # ys)) (buf ! cur # drop (Suc cur) buf) = x # ys"
    using assms by (simp add: holds_at_def Cons_nth_drop_Suc)
  with len show ?thesis by simp
qed

lemma holds_at_index: "holds_at buf cur (x # ys) \<Longrightarrow> index buf cur = Ok x"
  using holds_at_nth by (auto simp: index_def)

lemma holds_at_get: "holds_at buf cur (x # ys) \<Longrightarrow> get_or e buf cur = Ok x"
  using holds_at_nth by (auto simp: get_or_def)

lemma holds_at_u16: "holds_at buf cur (to_be16 w) \<Longrightarrow> read_u16 buf cur = Ok w"
proof -
  assume "holds_at buf cur (to_be16 w)"
  then have "holds_at buf cur [ucast (drop_bit 8 w)]" and "holds_at buf (cur + 1) [ucast w]"
    using holds_at_append [of buf cur "[ucast (drop_bit 8 w)]" "[ucast w]"] by (auto simp: to_be16_def)
  then show ?thesis by (simp add: read_u16_def holds_at_index)
qed

lemma holds_at_reads: "reads r bs x \<Longrightarrow> holds_at buf cur bs \<Longrightarrow> r cur buf = Ok (x, cur + length bs)"
  by (rule reads_at) (simp_all add: holds_at_def)

lemma holds_at_subslice: "holds_at buf cur bs \<Longrightarrow> subslice buf cur (cur + length bs) = Ok bs"
  using holds_at_length [of buf cur bs] by (simp add: holds_at_def subslice_def)

subsection \<open>The frame\<close>

lemma frame_head:
  assumes "length content < 268435456"
  shows "read_head (frame b content @ rest) =
      Ok (length (frame b content), 1 + length (vbi (length content)))"
    and "holds_at (frame b content @ rest) (1 + length (vbi (length content))) content"
    and "length (frame b content) = 1 + length (vbi (length content)) + length content"
proof -
  have "read_variable_byte_integer (length [b]) ([b] @ vbi (length content) @ content @ rest) =
      Ok (length content, length [b] + length (vbi (length content)))"
    using reads_vbi [OF assms] unfolding reads_def by blast
  then show "read_head (frame b content @ rest) =
      Ok (length (frame b content), 1 + length (vbi (length content)))"
    by (simp add: read_head_def frame_def)
  show "holds_at (frame b content @ rest) (1 + length (vbi (length content))) content"
    by (simp add: holds_at_def frame_def)
  show "length (frame b content) = 1 + length (vbi (length content)) + length content"
    by (rule length_frame)
qed

subsection \<open>Well-formed packets and what they become on the wire\<close>

fun wf_packet :: "mqtt_packet \<Rightarrow> mqtt_version \<Rightarrow> bool" where
  "wf_packet (Connect c) v \<longleftrightarrow>
     (v = V5 \<longrightarrow> wf_properties (conn_properties c)) \<and> valid_utf8 (conn_client_id c) \<and>
     (\<forall>w. conn_will c = Some w \<longrightarrow> (v = V5 \<longrightarrow> wf_properties (will_properties w)) \<and> valid_utf8 (will_topic w)) \<and>
     (\<forall>s. conn_username c = Some s \<longrightarrow> valid_utf8 s) \<and> (\<forall>s. conn_password c = Some s \<longrightarrow> valid_utf8 s)"
| "wf_packet (ConnAck c) v \<longleftrightarrow> (v = V5 \<longrightarrow> wf_properties (ca_properties c))"
| "wf_packet (Publish p) v \<longleftrightarrow> valid_utf8 (pub_topic p) \<and> (v = V5 \<longrightarrow> wf_properties (pub_properties p))"
| "wf_packet (PubAck a) v \<longleftrightarrow> (v = V5 \<longrightarrow> wf_properties (ack_properties a))"
| "wf_packet (PubRec a) v \<longleftrightarrow> (v = V5 \<longrightarrow> wf_properties (ack_properties a))"
| "wf_packet (PubRel a) v \<longleftrightarrow> (v = V5 \<longrightarrow> wf_properties (ack_properties a))"
| "wf_packet (PubComp a) v \<longleftrightarrow> (v = V5 \<longrightarrow> wf_properties (ack_properties a))"
| "wf_packet (Subscribe s) v \<longleftrightarrow> (v = V5 \<longrightarrow> wf_properties (sub_properties s)) \<and>
     length (sub_topics s) \<le> vec_cap \<and> (\<forall>(t, q) \<in> set (sub_topics s). valid_utf8 t)"
| "wf_packet (SubAck s) v \<longleftrightarrow> (v = V5 \<longrightarrow> wf_properties (sa_properties s)) \<and>
     length (sa_reason_codes s) \<le> vec_cap"
| "wf_packet (Unsubscribe s) v \<longleftrightarrow> (v = V5 \<longrightarrow> wf_properties (unsub_properties s)) \<and>
     length (unsub_topics s) \<le> vec_cap \<and> (\<forall>t \<in> set (unsub_topics s). valid_utf8 t)"
| "wf_packet (UnsubAck s) v \<longleftrightarrow> (v = V5 \<longrightarrow> wf_properties (ua_properties s)) \<and>
     length (ua_reason_codes s) \<le> vec_cap"
| "wf_packet PingReq v \<longleftrightarrow> True"
| "wf_packet PingResp v \<longleftrightarrow> True"
| "wf_packet (Disconnect d) v \<longleftrightarrow> (v = V5 \<longrightarrow> wf_properties (disc_properties d))"

definition props_view :: "mqtt_version \<Rightarrow> property list \<Rightarrow> property list" where
  "props_view v ps = (if v = V5 then ps else [])"

definition ack_view :: "mqtt_version \<Rightarrow> ack \<Rightarrow> ack" where
  "ack_view v a = a\<lparr>ack_reason_code := (if v = V5 then ack_reason_code a else 0),
                    ack_properties := props_view v (ack_properties a)\<rparr>"

fun wire_view :: "mqtt_packet \<Rightarrow> mqtt_version \<Rightarrow> mqtt_packet" where
  "wire_view (Connect c) v = Connect (c\<lparr>conn_properties := props_view v (conn_properties c),
     conn_will := map_option (\<lambda>w. w\<lparr>will_properties := props_view v (will_properties w)\<rparr>) (conn_will c)\<rparr>)"
| "wire_view (ConnAck c) v = ConnAck (c\<lparr>ca_properties := props_view v (ca_properties c)\<rparr>)"
| "wire_view (Publish p) v = Publish (p\<lparr>pub_properties := props_view v (pub_properties p),
     pub_packet_id := (if pub_qos p = AtMostOnce then None
       else Some (case pub_packet_id p of Some pid \<Rightarrow> pid | None \<Rightarrow> 1))\<rparr>)"
| "wire_view (PubAck a) v = PubAck (ack_view v a)"
| "wire_view (PubRec a) v = PubRec (ack_view v a)"
| "wire_view (PubRel a) v = PubRel (ack_view v a)"
| "wire_view (PubComp a) v = PubComp (ack_view v a)"
| "wire_view (Subscribe s) v = Subscribe (s\<lparr>sub_properties := props_view v (sub_properties s)\<rparr>)"
| "wire_view (SubAck s) v = SubAck (s\<lparr>sa_properties := props_view v (sa_properties s)\<rparr>)"
| "wire_view (Unsubscribe s) v = Unsubscribe (s\<lparr>unsub_properties := props_view v (unsub_properties s)\<rparr>)"
| "wire_view (UnsubAck s) v = UnsubAck (s\<lparr>ua_properties := props_view v (ua_properties s)\<rparr>)"
| "wire_view PingReq v = PingReq"
| "wire_view PingResp v = PingResp"
| "wire_view (Disconnect d) v = Disconnect (d\<lparr>disc_reason_code := (if v = V5 then disc_reason_code d else 0),
     disc_properties := props_view v (disc_properties d)\<rparr>)"

subsection \<open>The parts read back\<close>

lemma properties_bytes_nonempty [simp]: "properties_bytes ps \<noteq> []"
  by (simp add: properties_bytes_def)

lemma read_optional_properties_back:
  assumes "cond \<longleftrightarrow> v = V5" "v = V5 \<longrightarrow> wf_properties ps" "holds_at buf cur (props_content v ps)"
    and "cur + length (props_content v ps) \<le> content_end"
  shows "read_optional_properties cond content_end cur buf =
    Ok (props_view v ps, cur + length (props_content v ps))"
proof (cases "v = V5")
  case True
  with assms have "read_properties cur buf = Ok (ps, cur + length (properties_bytes ps))"
    by (intro holds_at_reads reads_properties) (simp_all add: props_content_def)
  moreover have "cur + length (properties_bytes ps) \<le> content_end"
    using assms(4) True by (simp add: props_content_def)
  moreover have "0 < length (properties_bytes ps)" by simp
  ultimately have "cur < content_end" and
    "read_properties cur buf = Ok (ps, cur + length (properties_bytes ps))" by linarith+
  then show ?thesis
    using True assms(1) by (simp add: read_optional_properties_def props_content_def props_view_def)
qed (use assms(1) in \<open>simp add: read_optional_properties_def props_content_def props_view_def\<close>)

lemma read_reason_back:
  assumes "v = V5 \<longrightarrow> wf_properties ps" "holds_at buf cur (reason_content v rc ps)"
    and "content_end = cur + length (reason_content v rc ps)"
  shows "read_reason v content_end cur buf = Ok (if v = V5 then rc else 0, props_view v ps)"
proof (cases "v = V5 \<and> (ps \<noteq> [] \<or> rc \<noteq> 0)")
  case True
  then have c: "reason_content v rc ps = rc # properties_bytes ps" by (simp add: reason_content_def)
  with assms(2) have h1: "holds_at buf cur [rc]" and h2: "holds_at buf (cur + 1) (properties_bytes ps)"
    by (auto simp: holds_at_Cons)
  from assms(1) True h2 have "read_properties (cur + 1) buf = Ok (ps, cur + 1 + length (properties_bytes ps))"
    by (intro holds_at_reads reads_properties) simp_all
  with True c assms(3) show ?thesis
    by (auto simp: read_reason_def props_view_def holds_at_get [OF h1])
next
  case False
  with assms(3) show ?thesis
    by (auto simp: read_reason_def reason_content_def props_view_def)
qed

lemma read_flagged_string_back:
  assumes "flag \<longleftrightarrow> so \<noteq> None" "\<forall>s. so = Some s \<longrightarrow> length s \<le> 65535 \<and> valid_utf8 s"
    and "holds_at buf cur (optional_string_content so)"
  shows "read_flagged_string flag cur buf = Ok (so, cur + length (optional_string_content so))"
proof (cases so)
  case (Some s)
  with assms have "read_utf8_string cur buf = Ok (s, cur + length (prefixed s))"
    by (intro holds_at_reads reads_utf8_string) (simp_all add: optional_string_content_def)
  with Some assms(1) show ?thesis by (simp add: read_flagged_string_def optional_string_content_def)
qed (use assms(1) in \<open>simp add: read_flagged_string_def optional_string_content_def\<close>)

lemma read_id_head_back:
  assumes "content = to_be16 pid @ tail" "length content < 268435456"
  shows "read_id_head (frame b content @ rest) =
      Ok (pid, length (frame b content), 1 + length (vbi (length content)) + 2)"
    and "holds_at (frame b content @ rest) (1 + length (vbi (length content)) + 2) tail"
proof -
  note h = frame_head(1,2) [OF assms(2), of b rest]
  from h(2) have h1: "holds_at (frame b content @ rest) (1 + length (vbi (length content))) (to_be16 pid)"
    and h2: "holds_at (frame b content @ rest) (1 + length (vbi (length content)) + 2) tail"
    using holds_at_append [of _ _ "to_be16 pid" tail] by (auto simp: assms(1))
  show "holds_at (frame b content @ rest) (1 + length (vbi (length content)) + 2) tail" by (rule h2)
  have "2 \<le> length content" by (simp add: assms(1))
  then show "read_id_head (frame b content @ rest) =
      Ok (pid, length (frame b content), 1 + length (vbi (length content)) + 2)"
    using h(1) holds_at_u16 [OF h1] by (simp add: read_id_head_def length_frame)
qed

lemma read_codes_back:
  assumes "holds_at buf cur cs" "length acc + length cs \<le> vec_cap" "content_end = cur + length cs"
  shows "read_codes buf content_end cur acc = Ok (acc @ cs)"
  using assms
proof (induction cs arbitrary: cur acc)
  case (Cons c cs)
  have "get_or IncompletePacket buf cur = Ok c" using Cons.prems(1) by (rule holds_at_get)
  moreover have "vec_push vec_cap acc c = Some (acc @ [c])" using Cons.prems(2) by (simp add: vec_push_def)
  moreover have "holds_at buf (cur + 1) cs"
    using Cons.prems(1) holds_at_append [of buf cur "[c]" cs] by simp
  then have "read_codes buf content_end (cur + 1) (acc @ [c]) = Ok ((acc @ [c]) @ cs)"
    using Cons.prems by (intro Cons.IH) simp_all
  ultimately show ?case
    using Cons.prems(3) by (subst read_codes.simps) simp
qed (simp add: read_codes.simps [of buf])

lemma read_topics_back:
  assumes "holds_at buf cur (topics_content ts)" "length acc + length ts \<le> vec_cap"
    and "content_end = cur + length (topics_content ts)"
    and "\<forall>(t, q) \<in> set ts. length t \<le> 65535 \<and> valid_utf8 t"
  shows "read_topics buf content_end cur acc = Ok (acc @ ts)"
  using assms
proof (induction ts arbitrary: cur acc)
  case Nil
  then show ?case by (simp add: read_topics.simps [of buf] topics_content_def)
next
  case (Cons tq ts)
  obtain t q where tq: "tq = (t, q)" by fastforce
  have c: "topics_content (tq # ts) = prefixed t @ [qos_to_u8 q] @ topics_content ts"
    by (simp add: topics_content_def tq)
  from Cons.prems(1) have h: "holds_at buf cur (prefixed t)" "holds_at buf (cur + (2 + length t)) [qos_to_u8 q]"
    "holds_at buf (cur + (2 + length t) + 1) (topics_content ts)"
    unfolding c holds_at_append by simp_all
  have "read_utf8_string cur buf = Ok (t, cur + (2 + length t))"
    using Cons.prems(4) tq holds_at_reads [OF reads_utf8_string h(1)] by simp
  moreover have "get_or IncompletePacket buf (cur + (2 + length t)) = Ok (qos_to_u8 q)"
    using h(2) by (rule holds_at_get)
  moreover have "vec_push vec_cap acc (t, q) = Some (acc @ [(t, q)])"
    using Cons.prems(2) by (simp add: vec_push_def)
  moreover have "read_topics buf content_end (cur + (2 + length t) + 1) (acc @ [(t, q)]) = Ok ((acc @ [(t, q)]) @ ts)"
    using Cons.prems(2-4) h(3) by (intro Cons.IH) (simp_all add: c)
  ultimately show ?case
    using Cons.prems(3) by (subst read_topics.simps) (simp add: c [unfolded tq] tq prefixed_def)
qed

lemma read_unsub_topics_back:
  assumes "holds_at buf cur (concat (map prefixed ts))" "length acc + length ts \<le> vec_cap"
    and "content_end = cur + length (concat (map prefixed ts))"
    and "\<forall>t \<in> set ts. length t \<le> 65535 \<and> valid_utf8 t"
  shows "read_unsub_topics buf content_end cur acc = Ok (acc @ ts)"
  using assms
proof (induction ts arbitrary: cur acc)
  case Nil
  then show ?case by (simp add: read_unsub_topics.simps [of buf])
next
  case (Cons t ts)
  from Cons.prems(1) have h: "holds_at buf cur (prefixed t)"
    "holds_at buf (cur + (2 + length t)) (concat (map prefixed ts))"
    by (auto simp: holds_at_append)
  have "read_utf8_string cur buf = Ok (t, cur + (2 + length t))"
    using Cons.prems(4) holds_at_reads [OF reads_utf8_string h(1)] by simp
  moreover have "vec_push vec_cap acc t = Some (acc @ [t])"
    using Cons.prems(2) by (simp add: vec_push_def)
  moreover have "read_unsub_topics buf content_end (cur + (2 + length t)) (acc @ [t]) = Ok ((acc @ [t]) @ ts)"
    using Cons.prems(2-4) h(2) by (intro Cons.IH) simp_all
  ultimately show ?case
    using Cons.prems(3) by (subst read_unsub_topics.simps) simp
qed

subsection \<open>Each packet\<close>

lemma connect_flags_bits:
  "(connect_flags c AND 0x02 \<noteq> 0) = conn_clean_session c"
  "(connect_flags c AND 0x04 \<noteq> 0) = (conn_will c \<noteq> None)"
  "(connect_flags c AND 0x40 \<noteq> 0) = (conn_password c \<noteq> None)"
  "(connect_flags c AND 0x80 \<noteq> 0) = (conn_username c \<noteq> None)"
  by (cases "conn_clean_session c"; cases "conn_will c"; cases "conn_password c = None";
      cases "conn_username c = None"; cases "will_qos (the (conn_will c))";
      cases "will_retain (the (conn_will c))"; simp add: connect_flags_def)+

lemma connect_flags_will:
  assumes "conn_will c = Some w"
  shows "qos_from_u8 (drop_bit 3 (connect_flags c) AND 0x03) = will_qos w"
    and "(connect_flags c AND 0x20 \<noteq> 0) = will_retain w"
  by (cases "conn_clean_session c"; cases "conn_password c = None"; cases "conn_username c = None";
      cases "will_qos w"; cases "will_retain w";
      simp add: assms connect_flags_def qos_from_u8_def drop_bit_eq_div)+

lemma publish_flags_bits:
  "(publish_flags p AND 0x08 \<noteq> 0) = pub_dup p"
  "(publish_flags p AND 0x01 \<noteq> 0) = pub_retain p"
  "qos_from_u8 (drop_bit 1 (publish_flags p) AND 0x03) = pub_qos p"
  "drop_bit 4 (publish_flags p) = 3"
  by (cases "pub_dup p"; cases "pub_qos p"; cases "pub_retain p";
      simp add: publish_flags_def qos_from_u8_def drop_bit_eq_div)+

lemma protocol_level_5: "protocol_level v = 5 \<longleftrightarrow> v = V5"
  by (simp add: protocol_level_def)

lemma read_will_back:
  assumes "conn_will c = wo" "level = protocol_level v"
    and "\<forall>w. wo = Some w \<longrightarrow> (v = V5 \<longrightarrow> wf_properties (will_properties w)) \<and> valid_utf8 (will_topic w) \<and>
          length (will_topic w) \<le> 65535 \<and> length (will_payload w) \<le> 65535"
    and h: "holds_at buf cur (will_content v wo)"
    and "cur + length (will_content v wo) \<le> content_end"
  shows "read_will v level (connect_flags c) content_end cur buf =
    Ok (map_option (\<lambda>w. w\<lparr>will_properties := props_view v (will_properties w)\<rparr>) wo,
        cur + length (will_content v wo))"
proof (cases wo)
  case None
  with assms(1) show ?thesis
    using connect_flags_bits(2) [of c] by (simp add: read_will_def will_content_def)
next
  case (Some w)
  let ?p = "props_content v (will_properties w)"
  let ?c1 = "cur + length ?p" and ?t = "prefixed (will_topic w)"
  have c: "will_content v wo = ?p @ ?t @ prefixed (will_payload w)"
    by (simp add: will_content_def Some)
  from h have h: "holds_at buf cur ?p" "holds_at buf ?c1 ?t"
    "holds_at buf (?c1 + length ?t) (prefixed (will_payload w))"
    unfolding c holds_at_append by simp_all
  have "read_optional_properties (v = V5 \<or> level = 5) content_end cur buf =
      Ok (props_view v (will_properties w), ?c1)"
    using assms(2,3,5) h(1) Some c
    by (intro read_optional_properties_back) (auto simp: protocol_level_5)
  moreover have "read_utf8_string ?c1 buf = Ok (will_topic w, ?c1 + length ?t)"
    using assms(3) Some h(2) by (intro holds_at_reads reads_utf8_string) simp_all
  moreover have "read_binary_data (?c1 + length ?t) buf =
      Ok (will_payload w, ?c1 + length ?t + length (prefixed (will_payload w)))"
    using assms(3) Some h(3) by (intro holds_at_reads reads_binary_data) simp_all
  ultimately show ?thesis
    using connect_flags_bits(2) [of c] connect_flags_will [of c w] assms(1) Some
    by (simp add: read_will_def will_content_def)
qed

text \<open>\<open>carries buf p v c0\<close>: the buffer starts with a frame of \<open>p\<close> whose content lies at \<open>c0\<close>.\<close>

definition carries :: "bytes \<Rightarrow> mqtt_packet \<Rightarrow> mqtt_version \<Rightarrow> nat \<Rightarrow> bool" where
  "carries buf p v c0 \<longleftrightarrow>
     read_head buf = Ok (c0 + length (packet_content p v), c0) \<and>
     holds_at buf c0 (packet_content p v) \<and> (\<exists>rest. buf = first_byte p # rest)"

lemma carries_wire:
  assumes "length (packet_content p v) < 268435456"
  shows "carries (wire p v @ rest) p v (1 + length (vbi (length (packet_content p v))))"
  using frame_head(1,2) [OF assms, of "first_byte p" rest]
  by (simp add: carries_def wire_def length_frame) (simp add: frame_def)

lemma carriesD:
  assumes "carries buf p v c0"
  shows "read_head buf = Ok (c0 + length (packet_content p v), c0)"
    and "holds_at buf c0 (packet_content p v)"
    and "c0 + length (packet_content p v) \<le> length buf"
    and "index buf 0 = Ok (first_byte p)" and "buf \<noteq> []"
  using assms holds_at_length by (auto simp: carries_def index_def)

lemma carries_id_head:
  assumes "carries buf p v c0" "packet_content p v = to_be16 pid @ tail"
  shows "read_id_head buf = Ok (pid, c0 + 2 + length tail, c0 + 2)"
    and "holds_at buf (c0 + 2) tail"
proof -
  note c = carriesD [OF assms(1)]
  from c(2) have h: "holds_at buf c0 (to_be16 pid)" "holds_at buf (c0 + 2) tail"
    by (simp_all add: assms(2) holds_at_append)
  show "holds_at buf (c0 + 2) tail" by (rule h(2))
  show "read_id_head buf = Ok (pid, c0 + 2 + length tail, c0 + 2)"
    using c(1,3) holds_at_u16 [OF h(1)] by (simp add: read_id_head_def assms(2))
qed

lemma connect_decode_back:
  assumes enc: "encodable (Connect c) v" and wf: "wf_packet (Connect c) v"
    and buf: "carries buf (Connect c) v c0"
  shows "\<exists>c'. connect_decode buf v = Ok c' \<and> Connect c' = wire_view (Connect c) v"
proof -
  let ?name = "prefixed mqtt_name"
  let ?props = "props_content v (conn_properties c)" and ?id = "prefixed (conn_client_id c)"
  let ?will = "will_content v (conn_will c)" and ?user = "optional_string_content (conn_username c)"
  let ?pass = "optional_string_content (conn_password c)"
  define c1 where "c1 = c0 + length ?name"
  define c3 where "c3 = c0 + 10"
  define c4 where "c4 = c3 + length ?props"
  define c5 where "c5 = c4 + length ?id"
  define c6 where "c6 = c5 + length ?will"
  define c7 where "c7 = c6 + length ?user"
  define ce where "ce = c7 + length ?pass"
  note cd = c1_def c3_def c4_def c5_def c6_def c7_def ce_def
  have ten: "length (?name @ [protocol_level v, connect_flags c] @ to_be16 (conn_keep_alive c)) = 10"
    by (simp add: mqtt_name_def)
  then have end_eq: "c0 + length (packet_content (Connect c) v) = ce"
    unfolding packet_content.simps(1) length_append [of _ "_ @ _ @ _ @ _ @ _"] ten by (simp add: cd)
  note b = carriesD [OF buf, unfolded end_eq]
  have hd: "holds_at buf c0 (?name @ [protocol_level v, connect_flags c] @ to_be16 (conn_keep_alive c))"
    and tl: "holds_at buf c3 (?props @ ?id @ ?will @ ?user @ ?pass)"
    using b(2) holds_at_append [of buf c0 "?name @ [protocol_level v, connect_flags c] @ to_be16 (conn_keep_alive c)"]
    unfolding packet_content.simps(1) ten c3_def by blast+
  from tl have h: "holds_at buf c3 ?props" "holds_at buf c4 ?id" "holds_at buf c5 ?will"
    "holds_at buf c6 ?user" "holds_at buf c7 ?pass"
    unfolding holds_at_append c4_def c5_def c6_def c7_def by blast+
  from hd have f: "holds_at buf c0 ?name" "holds_at buf c1 [protocol_level v]"
    "holds_at buf (c1 + 1) [connect_flags c]" "holds_at buf (c1 + 2) (to_be16 (conn_keep_alive c))"
    unfolding holds_at_append c1_def by (simp_all add: holds_at_Cons)
  have c1_c3: "c1 + 4 = c3" by (simp add: cd mqtt_name_def)
  have le: "c4 \<le> ce" "c6 \<le> ce" "c3 \<le> ce" by (simp_all add: cd)
  have r1: "read_utf8_string c0 buf = Ok (mqtt_name, c1)"
    unfolding c1_def using f(1) by (intro holds_at_reads reads_utf8_string) (simp_all add: mqtt_name_def)
  have r2: "read_optional_properties (v = V5 \<or> protocol_level v = 5) ce c3 buf =
      Ok (props_view v (conn_properties c), c4)"
    unfolding c4_def using h(1) wf le(1)
    by (intro read_optional_properties_back) (auto simp: protocol_level_5 c4_def)
  have r3: "read_utf8_string c4 buf = Ok (conn_client_id c, c5)"
    unfolding c5_def using h(2) wf enc
    by (intro holds_at_reads reads_utf8_string) (simp_all add: encodable_def)
  have r4: "read_will v (protocol_level v) (connect_flags c) ce c5 buf =
      Ok (map_option (\<lambda>w. w\<lparr>will_properties := props_view v (will_properties w)\<rparr>) (conn_will c), c6)"
    unfolding c6_def using h(3) wf enc le(2)
    by (intro read_will_back) (auto simp: encodable_def c6_def)
  have r5: "read_flagged_string (conn_username c \<noteq> None) c6 buf = Ok (conn_username c, c7)"
    unfolding c7_def using h(4) wf enc
    by (intro read_flagged_string_back refl) (auto simp: encodable_def)
  have r6: "read_flagged_string (conn_password c \<noteq> None) c7 buf = Ok (conn_password c, ce)"
    unfolding ce_def using h(5) wf enc
    by (intro read_flagged_string_back refl) (auto simp: encodable_def)
  have g1: "get_or IncompletePacket buf c1 = Ok (protocol_level v)"
    and g2: "get_or IncompletePacket buf (c1 + 1) = Ok (connect_flags c)"
    and g3: "read_u16 buf (c1 + 2) = Ok (conn_keep_alive c)"
    by (rule holds_at_get [OF f(2)], rule holds_at_get [OF f(3)], rule holds_at_u16 [OF f(4)])
  have n: "c1 + 1 + 1 = c1 + 2" "c1 + 2 + 2 = c3" "\<not> ce < c3" "\<not> length buf < ce"
    using c1_c3 le b(3) by simp_all
  show ?thesis
    unfolding connect_decode_def b(1) Let_def and_then.simps prod.case
    by (simp only: n r1 r2 r3 r4 r5 r6 g1 g2 g3 and_then.simps prod.case if_False if_True
        simp_thms connect_flags_bits) simp
qed

lemma connack_decode_back:
  assumes wf: "wf_packet (ConnAck c) v" and buf: "carries buf (ConnAck c) v c0"
  shows "\<exists>c'. connack_decode buf v = Ok c' \<and> ConnAck c' = wire_view (ConnAck c) v"
proof -
  let ?props = "props_content v (ca_properties c)"
  let ?b = "if ca_session_present c then 0x01 else 0x00 :: byte"
  note b = carriesD [OF buf]
  have h: "holds_at buf c0 [?b]" "holds_at buf (c0 + 1) [ca_reason_code c]" "holds_at buf (c0 + 2) ?props"
    using b(2) holds_at_append [of buf c0 "[?b, ca_reason_code c]" ?props]
    by (auto simp: holds_at_Cons)
  have "read_optional_properties (v = V5) (c0 + 2 + length ?props) (c0 + 2) buf =
      Ok (props_view v (ca_properties c), c0 + 2 + length ?props)"
    using h(3) wf by (intro read_optional_properties_back) simp_all
  then show ?thesis
    using b(1,3) by (simp add: connack_decode_def holds_at_index [OF h(1)]
        holds_at_index [OF h(2), simplified] Let_def)
qed

lemma publish_decode_back:
  assumes enc: "encodable (Publish p) v" and wf: "wf_packet (Publish p) v"
    and buf: "carries buf (Publish p) v c0"
  shows "\<exists>p'. publish_decode buf v = Ok p' \<and> Publish p' = wire_view (Publish p) v"
proof -
  let ?t = "prefixed (pub_topic p)" and ?i = "packet_id_content p"
  let ?props = "props_content v (pub_properties p)"
  define c1 where "c1 = c0 + length ?t"
  define c2 where "c2 = c1 + length ?i"
  define c3 where "c3 = c2 + length ?props"
  define ce where "ce = c3 + length (pub_payload p)"
  have end_eq: "c0 + length (packet_content (Publish p) v) = ce"
    by (simp add: c1_def c2_def c3_def ce_def)
  note b = carriesD [OF buf, unfolded end_eq]
  from b(2) have h: "holds_at buf c0 ?t" "holds_at buf c1 ?i" "holds_at buf c2 ?props"
    "holds_at buf c3 (pub_payload p)"
    unfolding packet_content.simps holds_at_append c1_def c2_def c3_def by blast+
  have r1: "read_utf8_string c0 buf = Ok (pub_topic p, c1)"
    unfolding c1_def using h(1) wf enc
    by (intro holds_at_reads reads_utf8_string) (simp_all add: encodable_def)
  have r2: "(if pub_qos p \<noteq> AtMostOnce then
         (if ce < c1 + 2 then Err IncompletePacket
          else and_then (read_u16 buf c1) (\<lambda>pid. Ok (Some pid, c1 + 2)))
       else Ok (None, c1)) =
    Ok (if pub_qos p = AtMostOnce then None
        else Some (case pub_packet_id p of Some pid \<Rightarrow> pid | None \<Rightarrow> 1), c2)"
    using holds_at_u16 [of buf c1] h(2)
    by (cases "pub_qos p = AtMostOnce") (simp_all add: packet_id_content_def c2_def c3_def ce_def)
  have r3: "read_optional_properties (v = V5) ce c2 buf = Ok (props_view v (pub_properties p), c3)"
    unfolding c3_def using h(3) wf
    by (intro read_optional_properties_back) (simp_all add: ce_def c3_def)
  have r4: "subslice buf c3 ce = (Ok (pub_payload p) :: (packet_error, bytes) outcome)"
    unfolding ce_def using h(4) by (rule holds_at_subslice)
  have n: "\<not> length buf < ce" using b(3) by simp
  show ?thesis
    unfolding publish_decode_def if_not_P [OF b(5)] b(1,4) Let_def and_then.simps prod.case
      first_byte.simps publish_flags_bits
    by (simp only: if_not_P [OF n] r1 r2 r3 r4 and_then.simps prod.case) simp
qed

lemma ack_decode_back:
  assumes "v = V5 \<longrightarrow> wf_properties (ack_properties a)"
    and buf: "carries buf p v c0"
    and c: "packet_content p v = to_be16 (ack_packet_id a) @ reason_content v (ack_reason_code a) (ack_properties a)"
  shows "ack_decode buf v = Ok (ack_view v a)"
proof -
  note i = carries_id_head [OF buf c]
  have "read_reason v (c0 + 2 + length (reason_content v (ack_reason_code a) (ack_properties a))) (c0 + 2) buf =
      Ok (if v = V5 then ack_reason_code a else 0, props_view v (ack_properties a))"
    using i(2) by (intro read_reason_back [OF assms(1)]) simp_all
  with i(1) show ?thesis by (simp add: ack_decode_def ack_view_def)
qed

lemma id_head_props:
  assumes "carries buf p v c0" "packet_content p v = to_be16 pid @ props_content v ps @ tail"
    and "v = V5 \<longrightarrow> wf_properties ps"
  obtains c2 where "read_id_head buf = Ok (pid, c2 + length tail, c0 + 2)"
    and "read_optional_properties (v = V5) (c2 + length tail) (c0 + 2) buf = Ok (props_view v ps, c2)"
    and "holds_at buf c2 tail"
proof
  note i = carries_id_head [OF assms(1,2)]
  show "read_id_head buf = Ok (pid, c0 + 2 + length (props_content v ps) + length tail, c0 + 2)"
    using i(1) by (simp add: add.assoc)
  show "read_optional_properties (v = V5) (c0 + 2 + length (props_content v ps) + length tail) (c0 + 2) buf =
      Ok (props_view v ps, c0 + 2 + length (props_content v ps))"
    using i(2) assms(3) by (intro read_optional_properties_back) (simp_all add: holds_at_append)
  show "holds_at buf (c0 + 2 + length (props_content v ps)) tail"
    using i(2) by (simp add: holds_at_append)
qed

lemma subscribe_decode_back:
  assumes "encodable (Subscribe s) v" "wf_packet (Subscribe s) v" "carries buf (Subscribe s) v c0"
  shows "\<exists>s'. subscribe_decode buf v = Ok s' \<and> Subscribe s' = wire_view (Subscribe s) v"
proof -
  from assms(2) obtain c2 where
    "read_id_head buf = Ok (sub_packet_id s, c2 + length (topics_content (sub_topics s)), c0 + 2)"
    "read_optional_properties (v = V5) (c2 + length (topics_content (sub_topics s))) (c0 + 2) buf =
      Ok (props_view v (sub_properties s), c2)"
    "holds_at buf c2 (topics_content (sub_topics s))"
    using id_head_props [OF assms(3), of "sub_packet_id s" "sub_properties s"] by auto
  moreover from this(3) have "read_topics buf (c2 + length (topics_content (sub_topics s))) c2 [] = Ok ([] @ sub_topics s)"
    using assms(1,2) by (intro read_topics_back) (auto simp: encodable_def)
  ultimately show ?thesis by (simp add: subscribe_decode_def)
qed

lemma unsubscribe_decode_back:
  assumes "encodable (Unsubscribe s) v" "wf_packet (Unsubscribe s) v" "carries buf (Unsubscribe s) v c0"
  shows "\<exists>s'. unsubscribe_decode buf v = Ok s' \<and> Unsubscribe s' = wire_view (Unsubscribe s) v"
proof -
  let ?tail = "concat (map prefixed (unsub_topics s))"
  from assms(2) obtain c2 where
    "read_id_head buf = Ok (unsub_packet_id s, c2 + length ?tail, c0 + 2)"
    "read_optional_properties (v = V5) (c2 + length ?tail) (c0 + 2) buf =
      Ok (props_view v (unsub_properties s), c2)"
    "holds_at buf c2 ?tail"
    using id_head_props [OF assms(3), of "unsub_packet_id s" "unsub_properties s"] by auto
  moreover from this(3) have "read_unsub_topics buf (c2 + length ?tail) c2 [] = Ok ([] @ unsub_topics s)"
    using assms(1,2) by (intro read_unsub_topics_back) (auto simp: encodable_def)
  ultimately show ?thesis by (simp add: unsubscribe_decode_def)
qed

lemma suback_decode_back:
  assumes "wf_packet (SubAck s) v" "carries buf (SubAck s) v c0"
  shows "\<exists>s'. suback_decode buf v = Ok s' \<and> SubAck s' = wire_view (SubAck s) v"
proof -
  from assms(1) obtain c2 where
    "read_id_head buf = Ok (sa_packet_id s, c2 + length (sa_reason_codes s), c0 + 2)"
    "read_optional_properties (v = V5) (c2 + length (sa_reason_codes s)) (c0 + 2) buf =
      Ok (props_view v (sa_properties s), c2)"
    "holds_at buf c2 (sa_reason_codes s)"
    using id_head_props [OF assms(2), of "sa_packet_id s" "sa_properties s"] by auto
  moreover from this(3) have "read_codes buf (c2 + length (sa_reason_codes s)) c2 [] = Ok ([] @ sa_reason_codes s)"
    using assms(1) by (intro read_codes_back) auto
  ultimately show ?thesis by (simp add: suback_decode_def)
qed

lemma unsuback_decode_back:
  assumes "wf_packet (UnsubAck s) v" "carries buf (UnsubAck s) v c0"
  shows "\<exists>s'. unsuback_decode buf v = Ok s' \<and> UnsubAck s' = wire_view (UnsubAck s) v"
proof -
  from assms(1) obtain c2 where
    "read_id_head buf = Ok (ua_packet_id s, c2 + length (ua_reason_codes s), c0 + 2)"
    "read_optional_properties (v = V5) (c2 + length (ua_reason_codes s)) (c0 + 2) buf =
      Ok (props_view v (ua_properties s), c2)"
    "holds_at buf c2 (ua_reason_codes s)"
    using id_head_props [OF assms(2), of "ua_packet_id s" "ua_properties s"] by auto
  moreover from this(3) have "read_codes buf (c2 + length (ua_reason_codes s)) c2 [] = Ok ([] @ ua_reason_codes s)"
    using assms(1) by (intro read_codes_back) auto
  ultimately show ?thesis by (simp add: unsuback_decode_def)
qed

lemma disconnect_decode_back:
  assumes "wf_packet (Disconnect d) v" "carries buf (Disconnect d) v c0"
  shows "\<exists>d'. disconnect_decode buf v = Ok d' \<and> Disconnect d' = wire_view (Disconnect d) v"
proof -
  note b = carriesD [OF assms(2)]
  from b(1) obtain n where "read_variable_byte_integer 1 buf = Ok (n, c0)"
    by (auto simp: read_head_def and_then_eq_Ok)
  then have "1 < c0" using read_vbi_pos by blast
  with b(3) have "1 < length buf" by simp
  moreover have "read_reason v (c0 + length (packet_content (Disconnect d) v)) c0 buf =
      Ok (if v = V5 then disc_reason_code d else 0, props_view v (disc_properties d))"
    using b(2) assms(1) by (intro read_reason_back) simp_all
  ultimately show ?thesis using b(1,3) by (simp add: disconnect_decode_def)
qed

lemma index_Cons_0: "index (b # bs) 0 = Ok b"
  by (simp add: index_def)

lemma decode_carries:
  assumes enc: "encodable p v" and wf: "wf_packet p v" and buf: "carries buf p v c0"
  shows "decode buf v = Ok (Some (wire_view p v))"
proof -
  obtain rest where b: "buf = first_byte p # rest" using buf by (auto simp: carries_def)
  show ?thesis
  proof (cases p)
    case (Connect c)
    with connect_decode_back [of c v buf c0] assms b show ?thesis
      by (auto simp: decode_def index_Cons_0 Let_def drop_bit_eq_div)
  next
    case (ConnAck c)
    with connack_decode_back [of c v buf c0] assms b show ?thesis
      by (auto simp: decode_def index_Cons_0 Let_def drop_bit_eq_div)
  next
    case (Publish q)
    with publish_decode_back [of q v buf c0] assms b show ?thesis
      by (auto simp: decode_def index_Cons_0 Let_def publish_flags_bits)
  next
    case (Subscribe s)
    with subscribe_decode_back [of s v buf c0] assms b show ?thesis
      by (auto simp: decode_def index_Cons_0 Let_def drop_bit_eq_div)
  next
    case (Unsubscribe s)
    with unsubscribe_decode_back [of s v buf c0] assms b show ?thesis
      by (auto simp: decode_def index_Cons_0 Let_def drop_bit_eq_div)
  next
    case (SubAck s)
    with suback_decode_back [of s v buf c0] assms b show ?thesis
      by (auto simp: decode_def index_Cons_0 Let_def drop_bit_eq_div)
  next
    case (UnsubAck s)
    with unsuback_decode_back [of s v buf c0] assms b show ?thesis
      by (auto simp: decode_def index_Cons_0 Let_def drop_bit_eq_div)
  next
    case (Disconnect d)
    with disconnect_decode_back [of d v buf c0] assms b show ?thesis
      by (auto simp: decode_def index_Cons_0 Let_def drop_bit_eq_div)
  qed (use wf ack_decode_back [OF _ buf] b in
      \<open>auto simp: decode_def index_Cons_0 Let_def drop_bit_eq_div\<close>)
qed

lemma decode_wire_append:
  assumes "encodable p v" "wf_packet p v"
  shows "decode (wire p v @ rest) v = Ok (Some (wire_view p v))"
  using decode_carries [OF assms carries_wire] assms(1) by (simp add: encodable_def)

end
