(* ===== verification/Frames.thy ===== *)
theory Frames
  imports Roundtrip
begin

text \<open>
  Panic freedom of the decoders and the frame iterator \<open>RawPacketFrameIter\<close>. The iterator
  cuts a receive buffer into whole packets; on a malformed or truncated length it yields an
  error without moving, so it yields that error for ever. \<open>flatten_next\<close> is
  \<open>Iterator::flatten\<close> over it, which skips errors and therefore does not return.
\<close>

subsection \<open>The decoders do not panic, but for one slice\<close>

lemma read_head_bound:
  assumes "read_head buf = Ok (ce, c)"
  shows "1 < c \<and> c \<le> ce \<and> c \<le> length buf"
proof -
  from assms obtain n where "read_variable_byte_integer 1 buf = Ok (n, c)" "ce = c + n"
    by (auto simp: read_head_def and_then_eq_Ok)
  with read_vbi_pos [of 1 buf n c] reader_safe_bound [OF reader_safe_vbi, of 1 buf n c]
  show ?thesis by simp
qed

lemma read_head_not_Panic [safe_intros]: "read_head buf \<noteq> Panic"
  by (auto simp: read_head_def and_then_eq_Panic reader_safe_not_Panic [OF reader_safe_vbi])

lemma read_u16_not_Panic: "cur + 2 \<le> length buf \<Longrightarrow> read_u16 buf cur \<noteq> Panic"
  by (auto simp: read_u16_def index_def)

lemma read_id_head_not_Panic [safe_intros]: "read_id_head buf \<noteq> Panic"
  by (auto simp: read_id_head_def and_then_eq_Panic read_head_not_Panic read_u16_not_Panic split: if_splits)

lemma read_id_head_bound: "read_id_head buf = Ok (pid, ce, c) \<Longrightarrow> c \<le> ce \<and> ce \<le> length buf"
  by (auto simp: read_id_head_def and_then_eq_Ok split: if_splits)

lemma reader_safe_optional_properties [safe_intros]:
  "cur \<le> length buf \<Longrightarrow> read_optional_properties cond ce cur buf \<noteq> Panic"
  "read_optional_properties cond ce cur buf = Ok (ps, c) \<Longrightarrow> cur \<le> length buf \<Longrightarrow> cur \<le> c \<and> c \<le> length buf"
  using reader_safe_bound [OF reader_safe_properties, of cur buf ps c]
    reader_safe_not_Panic [OF reader_safe_properties, of cur buf]
  by (auto simp: read_optional_properties_def split: if_splits)

lemmas strings_not_Panic = reader_safe_not_Panic [OF reader_safe_strings(1)]
  reader_safe_not_Panic [OF reader_safe_strings(2)]
lemmas strings_bound = reader_safe_bound [OF reader_safe_strings(1)]
  reader_safe_bound [OF reader_safe_strings(2)]

lemma read_flagged_string_not_Panic [safe_intros]: "read_flagged_string fl cur buf \<noteq> Panic"
  by (auto simp: read_flagged_string_def and_then_eq_Panic strings_not_Panic)

lemma read_will_not_Panic [safe_intros]:
  "cur \<le> length buf \<Longrightarrow> read_will v l fl ce cur buf \<noteq> Panic"
  by (auto simp: read_will_def and_then_eq_Panic strings_not_Panic reader_safe_optional_properties)

lemma read_reason_not_Panic [safe_intros]: "read_reason v ce cur buf \<noteq> Panic"
  by (auto simp: read_reason_def and_then_eq_Panic Let_def
      reader_safe_not_Panic [OF reader_safe_properties] split: if_splits)

lemma read_codes_not_Panic [safe_intros]: "read_codes buf ce cur cs \<noteq> Panic"
proof (induction buf ce cur cs rule: read_codes.induct)
  case (1 buf ce cur cs)
  then show ?case
    by (subst read_codes.simps) (auto simp: and_then_eq_Panic split: option.splits)
qed

lemma read_topics_not_Panic [safe_intros]: "read_topics buf ce cur ts \<noteq> Panic"
proof (induction buf ce cur ts rule: read_topics.induct)
  case (1 buf ce cur ts)
  then show ?case
    by (subst read_topics.simps)
      (auto simp: and_then_eq_Panic strings_not_Panic split: option.splits)
qed

lemma read_unsub_topics_not_Panic [safe_intros]: "read_unsub_topics buf ce cur ts \<noteq> Panic"
proof (induction buf ce cur ts rule: read_unsub_topics.induct)
  case (1 buf ce cur ts)
  then show ?case
    by (subst read_unsub_topics.simps)
      (auto simp: and_then_eq_Panic strings_not_Panic split: option.splits)
qed

lemma connect_decode_not_Panic [safe_intros]: "connect_decode buf v \<noteq> Panic"
  by (auto simp: connect_decode_def and_then_eq_Panic Let_def read_head_not_Panic strings_not_Panic
      read_flagged_string_not_Panic split: if_splits
      dest: strings_bound reader_safe_optional_properties(2)
      dest!: read_u16_not_Panic [THEN notE, rotated] read_will_not_Panic [THEN notE, rotated]
        reader_safe_optional_properties(1) [THEN notE, rotated])

lemma small_decoders_not_Panic [safe_intros]:
  "ack_decode buf v \<noteq> Panic" "subscribe_decode buf v \<noteq> Panic" "suback_decode buf v \<noteq> Panic"
  "unsubscribe_decode buf v \<noteq> Panic" "unsuback_decode buf v \<noteq> Panic" "disconnect_decode buf v \<noteq> Panic"
proof -
  have id: "read_id_head buf = Ok (pid, ce, c) \<Longrightarrow> c \<le> length buf" for pid ce c
    using read_id_head_bound by fastforce
  show "ack_decode buf v \<noteq> Panic"
    by (auto simp: ack_decode_def and_then_eq_Panic read_id_head_not_Panic read_reason_not_Panic)
  show "subscribe_decode buf v \<noteq> Panic"
    by (auto simp: subscribe_decode_def and_then_eq_Panic read_id_head_not_Panic read_topics_not_Panic
        reader_safe_optional_properties(1) dest: id)
  show "suback_decode buf v \<noteq> Panic"
    by (auto simp: suback_decode_def and_then_eq_Panic read_id_head_not_Panic read_codes_not_Panic
        reader_safe_optional_properties(1) dest: id)
  show "unsubscribe_decode buf v \<noteq> Panic"
    by (auto simp: unsubscribe_decode_def and_then_eq_Panic read_id_head_not_Panic
        read_unsub_topics_not_Panic reader_safe_optional_properties(1) dest: id)
  show "unsuback_decode buf v \<noteq> Panic"
    by (auto simp: unsuback_decode_def and_then_eq_Panic read_id_head_not_Panic read_codes_not_Panic
        reader_safe_optional_properties(1) dest: id)
  show "disconnect_decode buf v \<noteq> Panic"
    by (auto simp: disconnect_decode_def and_then_eq_Panic read_head_not_Panic read_reason_not_Panic
        split: if_splits)
qed

lemma connack_decode_not_Panic [safe_intros]: "connack_decode buf v \<noteq> Panic"
  by (auto simp: connack_decode_def and_then_eq_Panic read_head_not_Panic index_def Let_def
      reader_safe_optional_properties(1) split: if_splits)

lemma publish_decode_Panic:
  assumes panic: "publish_decode buf v = Panic"
  shows "\<exists>ce c. read_head buf = Ok (ce, c) \<and> ce < length buf"
proof (cases "read_head buf")
  case (Ok h)
  obtain ce c0 where rh: "read_head buf = Ok (ce, c0)" using Ok by (cases h) simp
  show ?thesis
  proof (cases "ce < length buf")
    case False
    with panic rh show ?thesis
      by (auto simp: publish_decode_def and_then_eq_Panic and_then_eq_Ok strings_not_Panic
          read_u16_not_Panic index_def Let_def subslice_def split: if_splits
          dest: strings_bound reader_safe_optional_properties(2)
          dest!: reader_safe_optional_properties(1) [THEN notE, rotated])
  qed (use rh in blast)
qed (use panic read_head_not_Panic in \<open>auto simp: publish_decode_def index_def split: if_splits\<close>)

lemma decode_Panic:
  assumes "decode buf v = Panic"
  shows "\<exists>ce c. read_head buf = Ok (ce, c) \<and> ce < length buf"
proof (rule publish_decode_Panic)
  show "publish_decode buf v = Panic"
    using assms
    by (auto simp: decode_def and_then_eq_Panic index_def Let_def connect_decode_not_Panic
        connack_decode_not_Panic small_decoders_not_Panic split: if_splits)
qed

lemma decode_frame_not_Panic:
  assumes "read_head buf = Ok (length buf, c)"
  shows "decode buf v \<noteq> Panic"
  using decode_Panic [of buf v] assms by auto

subsection \<open>The frame iterator\<close>

record frame_iter =
  fi_buffer :: bytes
  fi_offset :: nat

definition frame_iter_new :: "bytes \<Rightarrow> frame_iter" where
  "frame_iter_new buffer = \<lparr>fi_buffer = buffer, fi_offset = 0\<rparr>"

definition frame_next :: "frame_iter \<Rightarrow> (packet_error, bytes) outcome option \<times> frame_iter" where
  "frame_next it =
     (if length (fi_buffer it) \<le> fi_offset it then (None, it)
      else let sl = drop (fi_offset it) (fi_buffer it) in
        if length sl < 2 then (None, it)
        else case peek_variable_byte_integer (drop 1 sl) of
          Ok (remaining_len, len_bytes) \<Rightarrow>
            (let total_packet_len = 1 + len_bytes + remaining_len in
             if length sl < total_packet_len then (None, it)
             else (Some (Ok (take total_packet_len sl)),
                   it\<lparr>fi_offset := fi_offset it + total_packet_len\<rparr>))
        | Err e \<Rightarrow> (Some (Err e), it)
        | Panic \<Rightarrow> (Some Panic, it))"

text \<open>\<open>iter.flatten()\<close>: an \<open>Err\<close> item is an empty iterator, so \<open>next\<close> asks again. \<open>None\<close> is
  "does not return".\<close>

partial_function (option) flatten_next ::
  "frame_iter \<Rightarrow> ((packet_error, bytes option) outcome \<times> frame_iter) option" where
  "flatten_next it =
     (case frame_next it of
        (None, it') \<Rightarrow> Some (Ok None, it')
      | (Some r, it') \<Rightarrow>
          (case r of Ok f \<Rightarrow> Some (Ok (Some f), it') | Panic \<Rightarrow> Some (Panic, it')
           | Err e \<Rightarrow> flatten_next it'))"

text \<open>The whole frames the iterator yields up to its end or its first error, with that
  error and the offset reached.\<close>

lemma peek_pos: "peek_variable_byte_integer b = Ok (n, l) \<Longrightarrow> 0 < l \<and> l \<le> 4 \<and> l \<le> length b"
  using read_vbi_pos [of 0 b n l] reader_safe_bound [OF reader_safe_vbi, of 0 b n l]
  by (simp add: peek_eq_read)

lemma frame_next_Ok:
  assumes "frame_next it = (Some (Ok f), it')"
  obtains n l where
    "peek_variable_byte_integer (drop 1 (drop (fi_offset it) (fi_buffer it))) = Ok (n, l)"
    "1 + l + n \<le> length (drop (fi_offset it) (fi_buffer it))"
    "f = take (1 + l + n) (drop (fi_offset it) (fi_buffer it))"
    "it' = it\<lparr>fi_offset := fi_offset it + (1 + l + n)\<rparr>"
  using assms by (auto simp: frame_next_def Let_def split: if_splits outcome.splits)

lemma frame_next_advances:
  assumes "frame_next it = (Some (Ok f), it')"
  shows "fi_buffer it' = fi_buffer it \<and> fi_offset it' = fi_offset it + length f \<and> 2 \<le> length f \<and>
     fi_offset it' \<le> length (fi_buffer it) \<and>
     f = take (length f) (drop (fi_offset it) (fi_buffer it))"
proof -
  from frame_next_Ok [OF assms] obtain n l where
    pk: "peek_variable_byte_integer (drop 1 (drop (fi_offset it) (fi_buffer it))) = Ok (n, l)"
    and len: "1 + l + n \<le> length (drop (fi_offset it) (fi_buffer it))"
    and f: "f = take (1 + l + n) (drop (fi_offset it) (fi_buffer it))"
    and it': "it' = it\<lparr>fi_offset := fi_offset it + (1 + l + n)\<rparr>" .
  from peek_pos [OF pk] have "0 < l" by simp
  moreover have lf: "length f = 1 + l + n" using len f by simp
  moreover have "fi_offset it + (1 + l + n) \<le> length (fi_buffer it)" using len by simp
  ultimately show ?thesis using it' f unfolding lf by simp
qed

function frames :: "frame_iter \<Rightarrow> bytes list \<times> packet_error option \<times> nat" where
  "frames it =
     (case frame_next it of
        (Some (Ok f), it') \<Rightarrow> (case frames it' of (fs, r) \<Rightarrow> (f # fs, r))
      | (Some (Err e), it') \<Rightarrow> ([], Some e, fi_offset it')
      | (Some Panic, it') \<Rightarrow> ([], None, fi_offset it')
      | (None, it') \<Rightarrow> ([], None, fi_offset it'))"
  by pat_completeness auto
termination
proof (relation "measure (\<lambda>it. length (fi_buffer it) - fi_offset it)", goal_cases)
  case (2 it x it' y f)
  then have n: "frame_next it = (Some (Ok f), it')" by simp
  from frame_next_advances [OF n] show ?case by auto
qed simp

declare frames.simps [simp del]

lemma frame_next_Err_stays: "frame_next it = (Some (Err e), it') \<Longrightarrow> it' = it"
  by (auto simp: frame_next_def Let_def split: if_splits outcome.splits)

lemma frame_next_not_Panic: "frame_next it \<noteq> (Some Panic, it')"
  using reader_safe_not_Panic [OF reader_safe_vbi]
  by (auto simp: frame_next_def Let_def peek_eq_read split: if_splits outcome.splits)

lemma flatten_next_Some:
  "flatten_next it = Some y \<Longrightarrow> \<exists>r it'. frame_next it = (r, it') \<and> (\<forall>e. r \<noteq> Some (Err e))"
proof (rule flatten_next.raw_induct
    [where P = "\<lambda>it y. \<exists>r it'. frame_next it = (r, it') \<and> (\<forall>e. r \<noteq> Some (Err e))"], goal_cases)
  case (1 f i y)
  show ?case
  proof (cases "frame_next i")
    case (Pair r it')
    show ?thesis
    proof (cases "\<exists>e. r = Some (Err e)")
      case True
      then obtain e where e: "frame_next i = (Some (Err e), it')" using Pair by auto
      then have "frame_next i = (Some (Err e), i)" using frame_next_Err_stays [OF e] by simp
      with 1(3) have "f i = Some y" by (simp split: prod.splits)
      from 1(2) [OF this] show ?thesis .
    next
      case False
      with Pair show ?thesis by blast
    qed
  qed
qed simp

lemma flatten_next_diverges:
  assumes "frame_next it = (Some (Err e), it')"
  shows "flatten_next it = None"
  using flatten_next_Some [of it] assms by (cases "flatten_next it") auto

subsection \<open>Splitting a stream of packets\<close>

lemma frame_next_frame:
  assumes "drop (fi_offset it) (fi_buffer it) = frame b content @ rest"
    and "length content < 268435456"
  shows "frame_next it = (Some (Ok (frame b content)), it\<lparr>fi_offset := fi_offset it + length (frame b content)\<rparr>)"
proof -
  have "read_variable_byte_integer (length []) ([] @ vbi (length content) @ content @ rest) =
      Ok (length content, length [] + length (vbi (length content)))"
    using reads_vbi [OF assms(2), unfolded reads_def, THEN spec, THEN spec,
      of "[]" "content @ rest"] by simp
  then have "peek_variable_byte_integer (drop 1 (frame b content @ rest)) =
      Ok (length content, length (vbi (length content)))"
    by (simp add: peek_eq_read frame_def)
  moreover have "length (vbi (length content)) \<noteq> 0" by simp
  then have "\<not> length (frame b content @ rest) < 2"
    by (simp add: length_frame del: length_0_conv)
  moreover have "fi_offset it < length (fi_buffer it)"
    using arg_cong [OF assms(1), of length] by (simp add: frame_def)
  ultimately show ?thesis
    by (simp add: frame_next_def assms(1) Let_def length_frame)
qed

lemma frames_stream:
  assumes "\<forall>p \<in> set ps. encodable p v"
    and "drop (fi_offset it) (fi_buffer it) = concat (map (\<lambda>p. wire p v) ps) @ rest"
    and "fst (frame_next (it\<lparr>fi_offset := fi_offset it + length (concat (map (\<lambda>p. wire p v) ps))\<rparr>)) = None"
  shows "frames it = (map (\<lambda>p. wire p v) ps, None,
    fi_offset it + length (concat (map (\<lambda>p. wire p v) ps)))"
  using assms
proof (induction ps arbitrary: it)
  case Nil
  then have "fst (frame_next it) = None" by simp
  then have "frame_next it = (None, it)"
    by (auto simp: frame_next_def Let_def split: if_splits outcome.splits)
  then show ?case by (simp add: frames.simps [of it])
next
  case (Cons p ps)
  let ?it = "it\<lparr>fi_offset := fi_offset it + length (wire p v)\<rparr>"
  have n: "frame_next it = (Some (Ok (wire p v)), ?it)"
    using Cons.prems(1,2) frame_next_frame [of it "first_byte p" "packet_content p v"]
    by (simp add: wire_def encodable_def)
  have "drop (fi_offset ?it) (fi_buffer ?it) = drop (length (wire p v)) (drop (fi_offset it) (fi_buffer it))"
    by (simp add: add.commute)
  also have "\<dots> = concat (map (\<lambda>p. wire p v) ps) @ rest" by (simp add: Cons.prems(2))
  finally have "frames ?it = (map (\<lambda>p. wire p v) ps, None,
      fi_offset ?it + length (concat (map (\<lambda>p. wire p v) ps)))"
    using Cons.prems(1,3) by (intro Cons.IH) (simp_all add: add.assoc)
  with n show ?case by (simp add: frames.simps [of it] add.assoc)
qed

subsection \<open>A frame can be decoded safely\<close>

lemma read_vbi_loop_take:
  "read_vbi_loop d c i m a = Ok (v, j) \<Longrightarrow> c + j < k \<Longrightarrow> read_vbi_loop (take k d) c i m a = Ok (v, j)"
proof (induction d c i m a rule: read_vbi_loop.induct)
  case (1 d c i m a)
  have "i < 4 \<or> 4 \<le> i" by linarith
  from "1.prems"(1) obtain b where b: "get_or IncompletePacket d (c + i) = Ok b"
    by (cases "get_or IncompletePacket d (c + i)") (simp_all add: read_vbi_loop.simps [of d])
  show ?case
  proof (cases "b AND 128 = 0 \<or> 4 \<le> i + 1")
    case True
    with "1.prems" b have "j = i" by (auto simp: read_vbi_loop.simps [of d] Let_def split: if_splits)
    with "1.prems"(2) b have "get_or IncompletePacket (take k d) (c + i) = Ok b"
      by (auto simp: get_or_def split: if_splits)
    with True "1.prems" b show ?thesis
      by (auto simp: read_vbi_loop.simps [of _ _ i] Let_def split: if_splits)
  next
    case False
    with "1.prems" b have r: "read_vbi_loop d c (i + 1) (m * 128) (a + unat (b AND 127) * m) = Ok (v, j)"
      by (simp add: read_vbi_loop.simps [of d _ i] Let_def)
    with False have "i + 1 \<le> j" using read_vbi_loop_safe [of "i + 1" d c] by auto
    with "1.prems"(2) b have "get_or IncompletePacket (take k d) (c + i) = Ok b"
      by (auto simp: get_or_def split: if_splits)
    moreover have "read_vbi_loop (take k d) c (i + 1) (m * 128) (a + unat (b AND 127) * m) = Ok (v, j)"
      using False r "1.prems"(2) "1.IH" [OF b refl] by simp
    ultimately show ?thesis
      using False by (simp add: read_vbi_loop.simps [of "take k d" _ i] Let_def)
  qed
qed

lemma frame_next_exact:
  assumes "frame_next it = (Some (Ok f), it')"
  shows "\<exists>c. read_head f = Ok (length f, c)"
proof -
  let ?sl = "drop (fi_offset it) (fi_buffer it)"
  from assms obtain n l where pk: "peek_variable_byte_integer (drop 1 ?sl) = Ok (n, l)"
    and fits: "1 + l + n \<le> length ?sl" and f: "f = take (1 + l + n) ?sl"
    by (auto simp: frame_next_def Let_def split: if_splits outcome.splits)
  from fits obtain b tl where sl: "?sl = b # tl" by (cases ?sl) auto
  from pk sl obtain j where j: "read_vbi_loop tl 0 0 1 0 = Ok (n, j)" "l = j + 1"
    by (auto simp: peek_variable_byte_integer_def and_then_eq_Ok)
  then have "read_vbi_loop (take (l + n) tl) 0 0 1 0 = Ok (n, j)"
    by (intro read_vbi_loop_take) simp_all
  from read_vbi_loop_embed [OF this, of "[b]" "[]"]
  have "read_vbi_loop f 1 0 1 0 = Ok (n, j)" by (simp add: f sl)
  moreover have "length f = 1 + l + n" using f fits by simp
  ultimately show ?thesis
    using j(2) by (simp add: read_head_def read_variable_byte_integer_def)
qed

subsection \<open>A stream cut inside a packet\<close>

lemma peek_vbi: "n < 268435456 \<Longrightarrow> peek_variable_byte_integer (vbi n @ rest) = Ok (n, length (vbi n))"
  using reads_vbi [of n, unfolded reads_def, THEN spec [of _ "[]"], THEN spec [of _ rest]]
  by (simp add: peek_eq_read)

lemma peek_vbi_cut:
  assumes "n < 268435456" "k < length (vbi n)"
  shows "peek_variable_byte_integer (take k (vbi n)) = Err IncompletePacket"
proof -
  have "read_vbi_loop (vbi n) 0 0 1 0 = Ok (n, length (vbi n) - 1)"
    using read_vbi_loop_vbi [of 0 n "[]" 0 "[]" 1 0] length_vbi_le_4 [OF assms(1)] by simp
  then have "read_vbi_loop (take k (vbi n)) 0 0 1 0 = Err IncompletePacket"
    using read_vbi_loop_prefix [of k "vbi n" 0 0 1 0] read_vbi_loop_safe [of 0 "take k (vbi n)" 0 1 0] assms(2)
    by fastforce
  then show ?thesis by (simp add: peek_variable_byte_integer_def)
qed

text \<open>The beginning of a packet: the iterator stops without an error if the cut is clean, and with one
  that it will repeat if it is not.\<close>

lemma frame_next_cut:
  assumes "drop (fi_offset it) (fi_buffer it) = r" "r @ rest = wire q v @ s" "length r < length (wire q v)" "encodable q v"
  shows "frame_next it = (if length r < 2 \<or> length (vbi (length (packet_content q v))) < length r then None
    else Some (Err IncompletePacket), it)"
proof (cases "length r < 2")
  case True
  with assms(1) show ?thesis by (simp add: frame_next_def Let_def)
next
  case False
  let ?c = "packet_content q v"
  let ?n = "length ?c"
  have n: "?n < 268435456" using assms(4) by (simp add: encodable_def)
  have w: "wire q v = first_byte q # vbi ?n @ ?c" by (simp add: wire_def frame_def)
  obtain m where m: "length r = Suc m" using False by (cases "length r") simp_all
  have "r = take (length r) (wire q v)" using arg_cong [OF assms(2), of "take (length r)"] assms(3) by simp
  also have "\<dots> = first_byte q # take m (vbi ?n @ ?c)" by (simp only: w m take_Suc_Cons)
  finally have tail: "drop 1 r = take m (vbi ?n @ ?c)" by (metis One_nat_def drop0 drop_Suc_Cons)
  have buf: "\<not> length (fi_buffer it) \<le> fi_offset it" using False assms(1) by auto
  show ?thesis
  proof (cases "length (vbi ?n) < length r")
    case True
    then have "drop 1 r = vbi ?n @ take (m - length (vbi ?n)) ?c" using tail m by simp
    then have "peek_variable_byte_integer (drop 1 r) = Ok (?n, length (vbi ?n))" by (simp add: peek_vbi [OF n])
    moreover have "length r < 1 + length (vbi ?n) + ?n" using assms(3) by (simp add: w)
    ultimately show ?thesis using assms(1) False True buf by (simp add: frame_next_def Let_def)
  next
    case inside: False
    then have "drop 1 r = take m (vbi ?n)" "m < length (vbi ?n)" using tail m by simp_all
    then have "peek_variable_byte_integer (drop 1 r) = Err IncompletePacket" by (simp add: peek_vbi_cut [OF n])
    then show ?thesis using assms(1) False inside buf by (simp add: frame_next_def Let_def)
  qed
qed

text \<open>Behind the packets the iterator repeats its error.\<close>

lemma frames_stuck:
  assumes "\<forall>p \<in> set ps. encodable p v"
    and "drop (fi_offset it) (fi_buffer it) = concat (map (\<lambda>p. wire p v) ps) @ r"
    and "frame_next (it\<lparr>fi_offset := fi_offset it + length (concat (map (\<lambda>p. wire p v) ps))\<rparr>) =
      (Some (Err e), it\<lparr>fi_offset := fi_offset it + length (concat (map (\<lambda>p. wire p v) ps))\<rparr>)"
  shows "frames it = (map (\<lambda>p. wire p v) ps, Some e, fi_offset it + length (concat (map (\<lambda>p. wire p v) ps)))"
  using assms
proof (induction ps arbitrary: it)
  case Nil
  then show ?case by (simp add: frames.simps [of it])
next
  case (Cons p ps)
  let ?it = "it\<lparr>fi_offset := fi_offset it + length (wire p v)\<rparr>" and ?w = "concat (map (\<lambda>p. wire p v) ps)"
  have n: "frame_next it = (Some (Ok (wire p v)), ?it)"
    using Cons.prems(1,2) frame_next_frame [of it "first_byte p" "packet_content p v"]
    by (simp add: wire_def encodable_def)
  have "drop (fi_offset ?it) (fi_buffer ?it) = drop (length (wire p v)) (drop (fi_offset it) (fi_buffer it))"
    by (simp add: add.commute)
  also have "\<dots> = ?w @ r" by (simp add: Cons.prems(2))
  finally have "frames ?it = (map (\<lambda>p. wire p v) ps, Some e, fi_offset ?it + length ?w)"
    using Cons.prems(1,3) by (intro Cons.IH) (simp_all add: add.assoc)
  with n show ?case by (simp add: frames.simps [of it] add.assoc)
qed

end
