(* ===== verification/Codec_Theorems.thy ===== *)
theory Codec_Theorems
  imports Frames
begin

text \<open>
  What the codec promises, stated over \<open>encode_packet\<close>, \<open>decode\<close> and the frame iterator:
  round trips, exact error results, the absence of panics and the places where a panic
  remains.
\<close>

subsection \<open>Truncated packets\<close>

lemma read_head_truncated:
  assumes "read_head buf = Ok (ce, c)"
  shows "read_head (take k buf) = Err IncompletePacket \<or> read_head (take k buf) = Ok (ce, c)"
  using assms read_vbi_loop_prefix [of k buf 1 0 1 0]
  by (auto simp: read_head_def read_variable_byte_integer_def)

lemma read_id_head_truncated:
  assumes "read_head buf = Ok (length buf, c)" "k < length buf"
  shows "read_id_head (take k buf) = Err IncompletePacket"
  using read_head_truncated [OF assms(1), of k] assms(2) by (auto simp: read_id_head_def)

lemma wire_head: "encodable p v \<Longrightarrow> \<exists>c. read_head (wire p v) = Ok (length (wire p v), c)"
  using frame_head(1) [of "packet_content p v" "first_byte p" "[]"]
  by (auto simp: encodable_def wire_def)

definition stands_alone :: "mqtt_packet \<Rightarrow> bool" where
  "stands_alone p \<longleftrightarrow> (case p of PingReq \<Rightarrow> True | PingResp \<Rightarrow> True | Disconnect d \<Rightarrow> True | _ \<Rightarrow> False)"

lemma decode_truncated_aux:
  assumes enc: "encodable p v" and k: "0 < k" "k < length (wire p v)" and alone: "\<not> stands_alone p"
  shows "decode (take k (wire p v)) v = Err IncompletePacket"
proof -
  obtain c where h: "read_head (wire p v) = Ok (length (wire p v), c)"
    using wire_head [OF enc] by blast
  note id = read_id_head_truncated [OF h k(2)]
  have hd: "read_head (take k (wire p v)) = Err IncompletePacket \<or>
      read_head (take k (wire p v)) = Ok (length (wire p v), c)"
    by (rule read_head_truncated [OF h])
  obtain tl where tl: "take k (wire p v) = first_byte p # tl"
    using k(1) by (cases k) (simp_all add: wire_def frame_def)
  have len: "length (take k (wire p v)) < length (wire p v)" using k(2) by simp
  show ?thesis
  proof (cases p)
    case (Publish q)
    then show ?thesis
      using hd len unfolding tl
      by (auto simp: decode_def index_Cons_0 Let_def publish_flags_bits publish_decode_def)
  qed (use hd len id alone in \<open>unfold tl,
      auto simp: decode_def index_Cons_0 Let_def drop_bit_eq_div connect_decode_def
        connack_decode_def ack_decode_def subscribe_decode_def suback_decode_def
        unsubscribe_decode_def unsuback_decode_def stands_alone_def\<close>)
qed

subsection \<open>Sample packets\<close>

definition sample_publish :: mqtt_packet where
  "sample_publish = Publish \<lparr>pub_dup = True, pub_qos = AtLeastOnce, pub_retain = False,
     pub_topic = [0x61, 0x2F, 0x62], pub_packet_id = Some 7, pub_payload = [1, 2, 3],
     pub_properties = [\<lparr>prop_id = 0x01, prop_data = [1]\<rparr>]\<rparr>"

lemmas content_defs = packet_content.simps packet_id_content_def props_content_def
  properties_bytes_def props_bytes_def prefixed_def to_be16_def

lemma sample_publish_content:
  "packet_content sample_publish V5 = [0, 3, 0x61, 0x2F, 0x62, 0, 7, 2, 1, 1, 1, 2, 3]"
  by (simp add: sample_publish_def content_defs vbi.simps)

lemma sample_publish_facts:
  "encodable sample_publish V5" "wf_packet sample_publish V5" "\<not> stands_alone sample_publish"
  "length (packet_content sample_publish V5) = 13" "length (wire sample_publish V5) = 15"
proof -
  show "encodable sample_publish V5"
    by (simp add: encodable_def sample_publish_content) (simp add: sample_publish_def)
  have "valid_utf8 [0x61, 0x2F, 0x62]" by (rule valid_utf8_ascii) simp
  moreover have "wf_properties [\<lparr>prop_id = 0x01, prop_data = [1]\<rparr>]"
    by (simp add: wf_properties_def wf_property_def vec_cap_def property_data_len_def props_bytes_def)
  ultimately show "wf_packet sample_publish V5" by (simp add: sample_publish_def)
  show "\<not> stands_alone sample_publish" by (simp add: stands_alone_def sample_publish_def)
  show "length (packet_content sample_publish V5) = 13" by (simp add: sample_publish_content)
  show "length (wire sample_publish V5) = 15"
    by (simp add: sample_publish_content wire_def frame_def vbi.simps)
qed

text \<open>C1. A well-formed packet encoded into a buffer with room for its content and the five
  reserved header bytes decodes, from the bytes the encoder reports, to the packet itself as
  far as the protocol version carries it (\<open>wire_view\<close>).\<close>

theorem encode_decode_roundtrip:
  assumes "encodable p v" "wf_packet p v" "5 + length (packet_content p v) \<le> length buf"
  shows "\<exists>n buf'. encode_packet p buf v = (Ok n, buf') \<and> n = length (wire p v) \<and>
    length buf' = length buf \<and> decode (take n buf') v = Ok (Some (wire_view p v))"
proof (rule encode_packet_Ok [OF assms(1,3)])
  fix buf' assume "encode_packet p buf v = (Ok (length (wire p v)), buf')"
    "length buf' = length buf" "take (length (wire p v)) buf' = wire p v"
  with decode_wire_append [OF assms(1,2), of "[]"] show ?thesis by auto
qed

theorem encode_decode_roundtrip_witness:
  "\<exists>n buf'. encode_packet sample_publish (replicate 32 0) V5 = (Ok n, buf') \<and>
    n = length (wire sample_publish V5) \<and> length buf' = length (replicate 32 (0 :: byte)) \<and>
    decode (take n buf') V5 = Ok (Some (wire_view sample_publish V5))"
  by (rule encode_decode_roundtrip) (simp_all add: sample_publish_facts)

text \<open>The bytes of a well-formed packet decode to it whatever follows them in the buffer:
  a receive buffer that already holds the start of the next packet does not change the result.\<close>

lemma decode_ignores_trailing:
  assumes "encodable p v" "wf_packet p v"
  shows "decode (wire p v @ rest) v = Ok (Some (wire_view p v))"
  by (rule decode_wire_append [OF assms])

theorem decode_ignores_trailing_witness:
  "decode (wire sample_publish V5 @ [0x30, 0xFF]) V5 = Ok (Some (wire_view sample_publish V5))"
  by (rule decode_ignores_trailing) (simp_all add: sample_publish_facts)

text \<open>A packet cut off anywhere after its first byte is reported as incomplete, never as
  a malformed or as a shorter packet. The packets that \<open>decode\<close> accepts from the first byte
  alone (PINGREQ, PINGRESP, DISCONNECT) are excluded.\<close>

lemma decode_truncated:
  assumes "encodable p v" "\<not> stands_alone p" "0 < k" "k < length (wire p v)"
  shows "decode (take k (wire p v)) v = Err IncompletePacket"
  by (rule decode_truncated_aux [OF assms(1,3,4,2)])

theorem decode_truncated_witness: "decode (take 9 (wire sample_publish V5)) V5 = Err IncompletePacket"
  by (rule decode_truncated) (simp_all add: sample_publish_facts)

text \<open>A buffer that cannot hold the content behind the five reserved header bytes is
  refused with \<open>BufferTooSmall\<close>: the encoder needs that room even when the finished packet
  would be up to three bytes shorter.\<close>

lemma encode_needs_reserved_header:
  assumes "encodable p v" "packet_content p v \<noteq> []" "length buf < 5 + length (packet_content p v)"
  shows "fst (encode_packet p buf v) = Err BufferTooSmall"
  by (rule encode_packet_too_small [OF assms])

theorem encode_needs_reserved_header_witness:
  "fst (encode_packet sample_publish (replicate 17 0) V5) = Err BufferTooSmall"
  by (rule encode_needs_reserved_header)
    (simp_all add: sample_publish_facts sample_publish_content)

text \<open>No encoder panics or changes the length of the buffer for packets with content and for
  the two ping packets.\<close>

lemma encode_never_panics:
  assumes "packet_content p v \<noteq> [] \<or> is_ping p" "length buf < 268435456"
  shows "fst (encode_packet p buf v) \<noteq> Panic \<and> length (snd (encode_packet p buf v)) = length buf"
  by (rule encode_packet_safe [OF assms])

lemma encode_never_panics_witness:
  "fst (encode_packet sample_publish [0, 0, 0] V5) \<noteq> Panic \<and>
   length (snd (encode_packet sample_publish [0, 0, 0] V5)) = length [0, 0, 0 :: byte]"
  by (rule encode_never_panics) (simp_all add: sample_publish_content)

text \<open>A DISCONNECT without reason code and properties panics in \<open>copy_within\<close> when the
  buffer has two to four bytes, although its two bytes would fit.\<close>

lemma disconnect_encode_panics:
  assumes "2 \<le> length buf" "length buf \<le> 4"
  shows "fst (encode_packet (Disconnect disconnect_new) buf v) = Panic"
  using disconnect_encode_short [OF _ assms, of v disconnect_new]
  by (simp add: disconnect_new_def reason_content_def)

lemma disconnect_encode_panics_witness:
  "fst (encode_packet (Disconnect disconnect_new) [0, 0] V5) = Panic"
  by (rule disconnect_encode_panics) simp_all

text \<open>The only packet without content besides the pings is a DISCONNECT without reason code
  and properties; a buffer too short for its length byte is refused before the content moves.\<close>

lemma empty_content:
  "packet_content p v = [] \<Longrightarrow> \<not> is_ping p \<Longrightarrow>
   \<exists>d. p = Disconnect d \<and> reason_content v (disc_reason_code d) (disc_properties d) = []"
  by (cases p) (auto simp: is_ping_def to_be16_def mqtt_name_def prefixed_def)

lemma disconnect_encode_tiny:
  assumes "reason_content v (disc_reason_code d) (disc_properties d) = []" and "length buf < 2"
  shows "fst (disconnect_encode d buf v) \<noteq> Panic"
proof -
  have "disconnect_body d v = run_all []"
    using assms(1) by (auto simp: disconnect_body_def reason_part_def reason_content_def split: if_splits)
  moreover have "buf = [] \<or> (\<exists>b. buf = [b])"
    using assms(2) by (cases buf) auto
  ultimately show ?thesis
    by (auto simp: disconnect_encode_def encode_frame_def write_variable_byte_integer_len_def
        write_vbi_loop.simps [of 0 _ "[]"] Let_def)
qed

text \<open>C38. For buffers of less than 2 ^ 28 bytes, an encoder panics, whatever the packet's fields, exactly for a
  DISCONNECT without content (the only such packet besides the pings) in a buffer of two to four bytes; every
  other packet gives the encoded length or an error. (In a larger buffer a content of 2 ^ 28 bytes or more has a
  remaining length of more bytes than are reserved for it.)\<close>

theorem encode_panics_exactly:
  assumes "length buf < 268435456"
  shows "fst (encode_packet p buf v) = Panic \<longleftrightarrow>
    packet_content p v = [] \<and> \<not> is_ping p \<and> 2 \<le> length buf \<and> length buf \<le> 4"
proof (cases "packet_content p v = [] \<and> \<not> is_ping p")
  case True
  then obtain d where p: "p = Disconnect d"
    and d: "reason_content v (disc_reason_code d) (disc_properties d) = []"
    using empty_content by blast
  consider "length buf < 2" | "2 \<le> length buf" "length buf \<le> 4" | "5 \<le> length buf" by linarith
  then show ?thesis
  proof cases
    case 1
    with disconnect_encode_tiny [OF d 1] show ?thesis by (simp add: p)
  next
    case 2
    with disconnect_encode_short [OF d 2] True show ?thesis by (simp add: p)
  next
    case 3
    have enc: "encodable p v" using d by (simp add: p encodable_def)
    have room: "5 + length (packet_content p v) \<le> length buf" using True 3 by simp
    obtain buf' where "encode_packet p buf v = (Ok (length (wire p v)), buf')"
      by (rule encode_packet_Ok [OF enc room])
    then have "fst (encode_packet p buf v) = Ok (length (wire p v))" by (simp only: fst_conv)
    with 3 show ?thesis by (simp del: encode_packet.simps)
  qed
next
  case False
  with encode_packet_safe [OF _ assms, of p v] show ?thesis by blast
qed

theorem encode_panics_exactly_witness:
  "fst (encode_packet (Disconnect disconnect_new) [0, 0, 0] V5) = Panic \<and> fst (encode_packet sample_publish [0, 0, 0] V5) \<noteq> Panic"
  using encode_panics_exactly [of "[0, 0, 0]" "Disconnect disconnect_new" V5] encode_panics_exactly [of "[0, 0, 0]" sample_publish V5]
  by (simp add: sample_publish_content disconnect_new_def reason_content_def is_ping_def)

text \<open>C13. Decoding a frame the iterator yields never panics: the iterator cuts the buffer at
  the packet's own length.\<close>

theorem framed_decode_never_panics:
  assumes "frame_next it = (Some (Ok f), it')"
  shows "decode f v \<noteq> Panic"
  using frame_next_exact [OF assms] decode_frame_not_Panic by blast

lemma short_publish_frame:
  "frame_next (frame_iter_new [0x30, 0x02, 0x00, 0x01, 0x61]) =
     (Some (Ok [0x30, 0x02, 0x00, 0x01]), \<lparr>fi_buffer = [0x30, 0x02, 0x00, 0x01, 0x61], fi_offset = 4\<rparr>)"
  by (simp add: frame_next_def frame_iter_new_def peek_variable_byte_integer_def
      read_vbi_loop.simps get_or_def Let_def)

theorem framed_decode_never_panics_witness: "decode [0x30, 0x02, 0x00, 0x01] V5 \<noteq> Panic"
  by (rule framed_decode_never_panics [OF short_publish_frame])

text \<open>Without the frame iterator: a topic behind the end of its own packet.\<close>

lemma decode_overrun_example: "decode [0x30, 0x02, 0x00, 0x01, 0x61] V3_1_1 = Panic"
  by (simp add: decode_def index_def Let_def publish_decode_def read_head_def get_or_def
      read_variable_byte_integer_def read_vbi_loop.simps read_utf8_string_def subslice_def
      from_be16_def from_utf8_def qos_from_u8_def read_optional_properties_def drop_bit_eq_div)

text \<open>Once a length cannot be read the iterator repeats the same error for ever, so
  \<open>flatten()\<close>, with which the event loop consumes it, does not return; two bytes of a
  split header are enough.\<close>

lemma flatten_never_returns:
  assumes "frame_next it = (Some (Err e), it')"
  shows "it' = it \<and> flatten_next it = None"
  using frame_next_Err_stays [OF assms] flatten_next_diverges [OF assms] by simp

lemma split_header_stuck:
  "frame_next (frame_iter_new [0x30, 0x80]) = (Some (Err IncompletePacket), frame_iter_new [0x30, 0x80])"
  by (simp add: frame_next_def frame_iter_new_def peek_variable_byte_integer_def
      read_vbi_loop.simps get_or_def Let_def)

theorem flatten_never_returns_witness:
  "frame_iter_new [0x30, 0x80] = frame_iter_new [0x30, 0x80] \<and>
   flatten_next (frame_iter_new [0x30, 0x80]) = None"
  by (rule flatten_never_returns [OF split_header_stuck])

text \<open>C26. A buffer that holds whole packets and the first \<open>k\<close> bytes of another is split into exactly those
  packets, and the iterator stays at the cut: it stops there, so that a later read can complete the packet,
  unless the cut is inside a remaining length of several bytes. Then it yields the same error for ever, and
  \<open>flatten\<close> does not return.\<close>

theorem frames_split_stream:
  assumes "\<forall>p \<in> set (ps @ [q]). encodable p v" "k < length (wire q v)"
  defines "ws \<equiv> concat (map (\<lambda>p. wire p v) ps)"
  shows "if k < 2 \<or> length (vbi (length (packet_content q v))) < k
    then frames (frame_iter_new (ws @ take k (wire q v))) = (map (\<lambda>p. wire p v) ps, None, length ws)
    else frames (frame_iter_new (ws @ take k (wire q v))) = (map (\<lambda>p. wire p v) ps, Some IncompletePacket, length ws) \<and>
      flatten_next \<lparr>fi_buffer = ws @ take k (wire q v), fi_offset = length ws\<rparr> = None"
proof -
  let ?it = "\<lparr>fi_buffer = ws @ take k (wire q v), fi_offset = length ws\<rparr>"
  have enc: "\<forall>p \<in> set ps. encodable p v" "encodable q v" using assms(1) by simp_all
  have cut: "frame_next ?it = (if k < 2 \<or> length (vbi (length (packet_content q v))) < k then None
      else Some (Err IncompletePacket), ?it)"
    using frame_next_cut [of ?it "take k (wire q v)" "drop k (wire q v)" q v "[]"] assms(2) enc(2) by simp
  show ?thesis
  proof (cases "k < 2 \<or> length (vbi (length (packet_content q v))) < k")
    case True
    then show ?thesis
      using frames_stream [OF enc(1), of "frame_iter_new (ws @ take k (wire q v))" "take k (wire q v)"] cut
      by (simp add: frame_iter_new_def ws_def)
  next
    case False
    then have "frame_next ?it = (Some (Err IncompletePacket), ?it)" using cut by simp
    moreover from this have "flatten_next ?it = None" using flatten_never_returns by blast
    ultimately show ?thesis
      using False frames_stuck [OF enc(1), of "frame_iter_new (ws @ take k (wire q v))" "take k (wire q v)" IncompletePacket]
      by (simp add: frame_iter_new_def ws_def)
  qed
qed

theorem frames_split_stream_witness:
  "frames (frame_iter_new (concat (map (\<lambda>p. wire p V5) [sample_publish, PingReq]) @ [0xC0])) =
   (map (\<lambda>p. wire p V5) [sample_publish, PingReq], None,
    length (concat (map (\<lambda>p. wire p V5) [sample_publish, PingReq])))"
proof -
  have "wire PingReq V5 = [0xC0, 0]" by code_simp
  with frames_split_stream [of "[sample_publish, PingReq]" PingReq V5 1] sample_publish_facts
  show ?thesis by (simp add: encodable_def [of PingReq])
qed

lemma read_vbi_loop_value:
  "read_vbi_loop d c i (128 ^ i) a = Ok (n, j) \<Longrightarrow> a < 128 ^ i \<Longrightarrow> i \<le> 3 \<Longrightarrow> n < 128 ^ (j + 1) \<and> j \<le> 3"
proof (induction "3 - i" arbitrary: i a)
  case 0
  then have "i = 3" by simp
  from 0 obtain b where b: "get_or IncompletePacket d (c + i) = Ok b"
    by (cases "get_or IncompletePacket d (c + i)") (simp_all add: read_vbi_loop.simps [of d])
  have "unat (b AND 127) < 128" by (simp add: and_127_unat)
  with 0 b \<open>i = 3\<close> show ?case
    by (auto simp: read_vbi_loop.simps [of d] Let_def split: if_splits)
next
  case (Suc k)
  from Suc.prems obtain b where b: "get_or IncompletePacket d (c + i) = Ok b"
    by (cases "get_or IncompletePacket d (c + i)") (simp_all add: read_vbi_loop.simps [of d])
  have u: "unat (b AND 127) \<le> 127" by (simp add: and_127_unat)
  have "a + unat (b AND 127) * 128 ^ i < 128 ^ i + 127 * 128 ^ i"
    using Suc.prems(2) mult_le_mono1 [OF u, of "128 ^ i"] by linarith
  then have acc: "a + unat (b AND 127) * 128 ^ i < 128 ^ (i + 1)" by simp
  show ?case
  proof (cases "b AND 128 = 0")
    case True
    with Suc.prems b acc show ?thesis by (auto simp: read_vbi_loop.simps [of d] Let_def)
  next
    case False
    moreover have "\<not> 4 \<le> i + 1" using Suc.hyps(2) by simp
    ultimately have "read_vbi_loop d c (i + 1) (128 ^ (i + 1)) (a + unat (b AND 127) * 128 ^ i) = Ok (n, j)"
      using Suc.prems(1) b by (simp add: read_vbi_loop.simps [of d _ i] Let_def mult.commute)
    from Suc.hyps(1) [OF _ this acc] Suc.hyps(2) show ?thesis by simp
  qed
qed

text \<open>C39. Remaining lengths: every value below \<open>2^28\<close> is written in one to four bytes and
  read back from anywhere in a buffer, and whatever the reader accepts is below \<open>2^28\<close> and
  took one to four bytes of the buffer.\<close>

theorem remaining_length_roundtrip:
  "(n < 268435456 \<longrightarrow>
     length (vbi n) \<in> {1..4} \<and>
     write_variable_byte_integer_len (replicate (length (vbi n)) 0) n = (Ok (length (vbi n)), vbi n) \<and>
     read_variable_byte_integer (length pre) (pre @ vbi n @ post) = Ok (n, length pre + length (vbi n))) \<and>
   (\<forall>cur buf n c. read_variable_byte_integer cur buf = Ok (n, c) \<longrightarrow>
     n < 268435456 \<and> c - cur \<in> {1..4} \<and> c \<le> length buf)"
proof (intro conjI impI allI)
  assume n: "n < 268435456"
  show "length (vbi n) \<in> {1..4}" using length_vbi_le_4 [OF n] by (simp add: Suc_le_eq)
  show "write_variable_byte_integer_len (replicate (length (vbi n)) 0) n = (Ok (length (vbi n)), vbi n)"
    using write_vbi_len [of n "replicate (length (vbi n)) 0"] by (simp add: overwrite_def)
  show "read_variable_byte_integer (length pre) (pre @ vbi n @ post) = Ok (n, length pre + length (vbi n))"
    using reads_vbi [OF n] unfolding reads_def by blast
next
  fix cur buf n c assume r: "read_variable_byte_integer cur buf = Ok (n, c)"
  then obtain i where i: "read_vbi_loop buf cur 0 (128 ^ 0) 0 = Ok (n, i)" "c = cur + (i + 1)"
    by (auto simp: read_variable_byte_integer_def and_then_eq_Ok)
  have "(128 :: nat) ^ (i + 1) \<le> 128 ^ 4"
    using read_vbi_loop_value [OF i(1)] by (intro power_increasing) simp_all
  with read_vbi_loop_value [OF i(1)] show "n < 268435456" by simp
  show "c - cur \<in> {1..4}" using read_vbi_loop_value [OF i(1)] i(2) by simp
  show "c \<le> length buf" using reader_safe_bound [OF reader_safe_vbi r] by simp
qed

theorem remaining_length_roundtrip_witness:
  "read_variable_byte_integer (length [0x30]) ([0x30] @ vbi 300 @ [7]) = Ok (300, length [0x30 :: byte] + length (vbi 300)) \<and>
   vbi 300 = [0xAC, 0x02]"
  using remaining_length_roundtrip [of 300 "[0x30]" "[7]"] by (simp add: vbi.simps)

end
