(* ===== verification/Decode_Types.thy ===== *)
theory Decode_Types
  imports Codec_Theorems
begin

text \<open>
  What the decoder returns is well-formed: strings are UTF-8, the lists fit their capacity and the
  data of every property has the extent its identifier announces.
\<close>

subsection \<open>Reading inside a part of the buffer\<close>

lemma get_or_restrict:
  "get_or e (pre @ d @ post) (length pre + i) = Ok b \<Longrightarrow> i < length d \<Longrightarrow> get_or e d i = Ok b"
  by (auto simp: get_or_def nth_append split: if_splits)

lemma read_be16_restrict:
  assumes "read_be16 e (pre @ d @ post) (length pre + i) = Ok n" "i + 1 < length d"
  shows "read_be16 e d i = Ok n"
proof -
  from assms(1) obtain b0 b1 where "get_or e (pre @ d @ post) (length pre + i) = Ok b0"
    "get_or e (pre @ d @ post) (length pre + (i + 1)) = Ok b1" "n = unat (from_be16 b0 b1)"
    by (auto simp: read_be16_def and_then_eq_Ok)
  with get_or_restrict [of e pre d post i b0] get_or_restrict [of e pre d post "i + 1" b1] assms(2)
  show ?thesis by (simp add: read_be16_def)
qed

lemma read_vbi_loop_restrict:
  "read_vbi_loop (pre @ d @ post) (length pre + c) i m a = Ok (v, j) \<Longrightarrow> i < 4 \<Longrightarrow> c + j < length d \<Longrightarrow>
   read_vbi_loop d c i m a = Ok (v, j)"
proof (induction "4 - i" arbitrary: i m a)
  case (Suc k)
  let ?buf = "pre @ d @ post"
  have ij: "i \<le> j" using read_vbi_loop_safe [OF Suc.prems(2)] Suc.prems(1) by blast
  from Suc.prems(1) obtain b where b: "get_or IncompletePacket ?buf (length pre + c + i) = Ok b"
    by (cases "get_or IncompletePacket ?buf (length pre + c + i)") (simp_all add: read_vbi_loop.simps [of ?buf])
  then have b2: "get_or IncompletePacket d (c + i) = Ok b"
    using get_or_restrict [of IncompletePacket pre d post "c + i" b] Suc.prems(3) ij by (simp add: add.assoc)
  show ?case
  proof (cases "b AND 128 = 0 \<or> 4 \<le> i + 1")
    case True
    with Suc.prems(1) b b2 show ?thesis
      by (auto simp: read_vbi_loop.simps [of _ _ i] Let_def split: if_splits)
  next
    case False
    with Suc.prems(1) b have "read_vbi_loop ?buf (length pre + c) (i + 1) (m * 128) (a + unat (b AND 127) * m) = Ok (v, j)"
      by (simp add: read_vbi_loop.simps [of ?buf _ i] Let_def)
    with Suc.hyps(1) [of "i + 1"] Suc.hyps(2) Suc.prems(3) False
    have "read_vbi_loop d c (i + 1) (m * 128) (a + unat (b AND 127) * m) = Ok (v, j)" by simp
    with b2 False show ?thesis by (simp add: read_vbi_loop.simps [of d _ i] Let_def)
  qed
qed simp

lemma property_data_len_restrict:
  assumes "property_data_len pid (length pre) (pre @ d @ post) = Ok (length d)"
  shows "property_data_len pid 0 d = Ok (length d)"
proof (cases pid rule: property_data_len_shapes)
  case (fixed k)
  with assms show ?thesis by simp
next
  case prefixed
  with assms obtain n where n: "read_be16 MalformedPacket (pre @ d @ post) (length pre + 0) = Ok n" "2 + n = length d"
    by (auto simp: and_then_eq_Ok)
  from read_be16_restrict [OF n(1)] n(2) prefixed show ?thesis by simp
next
  case pair
  with assms obtain k n where k: "read_be16 MalformedPacket (pre @ d @ post) (length pre + 0) = Ok k"
    and n: "read_be16 MalformedPacket (pre @ d @ post) (length pre + (2 + k)) = Ok n" and l: "2 + k + 2 + n = length d"
    by (auto simp: and_then_eq_Ok add.assoc)
  from read_be16_restrict [OF k] read_be16_restrict [OF n] l pair show ?thesis by simp
next
  case varint
  with assms obtain v j where j: "read_vbi_loop (pre @ d @ post) (length pre + 0) 0 1 0 = Ok (v, j)" and l: "j + 1 = length d"
    by (auto simp: and_then_eq_Ok read_variable_byte_integer_def)
  from read_vbi_loop_restrict [OF j] l varint show ?thesis by (simp add: read_variable_byte_integer_def)
qed

subsection \<open>Properties\<close>

lemma slice_is_part:
  "subslice buf a b = Ok d \<Longrightarrow> buf = take a buf @ d @ drop b buf \<and> length d = b - a \<and> a \<le> length buf"
  by (auto simp: subslice_def split: if_splits) (metis append_take_drop_id drop_drop le_add_diff_inverse2 add.commute take_drop)

lemma read_properties_loop_wf:
  "read_properties_loop buf prop_end cursor ps = Ok (ps', c) \<Longrightarrow> cursor \<le> prop_end \<Longrightarrow> length ps \<le> vec_cap \<Longrightarrow>
   \<forall>p \<in> set ps. wf_property p \<Longrightarrow>
   length ps' \<le> vec_cap \<and> (\<forall>p \<in> set ps'. wf_property p) \<and>
     length (props_bytes ps') + cursor = length (props_bytes ps) + c \<and> c \<le> prop_end"
proof (induction buf prop_end cursor ps rule: read_properties_loop.induct)
  case (1 buf prop_end cursor ps)
  show ?case
  proof (cases "cursor < prop_end")
    case True
    let ?tail = "\<lambda>pid n d. case vec_push vec_cap ps \<lparr>prop_id = pid, prop_data = d\<rparr> of
        Some qs \<Rightarrow> read_properties_loop buf prop_end (cursor + 1 + n) qs | None \<Rightarrow> Err TooManyProperties"
    let ?rest = "\<lambda>pid n. if prop_end < cursor + 1 + n then Err MalformedPacket
        else and_then (subslice buf (cursor + 1) (cursor + 1 + n)) (?tail pid n)"
    from "1.prems"(1) True have "and_then (index buf cursor)
        (\<lambda>pid. and_then (property_data_len pid (cursor + 1) buf) (?rest pid)) = Ok (ps', c)"
      using True by (simp only: read_properties_loop.simps [of buf prop_end cursor ps] Let_def if_True)
    then obtain pid where pid: "(index buf cursor :: (packet_error, byte) outcome) = Ok pid"
      and e1: "and_then (property_data_len pid (cursor + 1) buf) (?rest pid) = Ok (ps', c)"
      by (simp only: and_then_eq_Ok [of "index buf cursor"]) blast
    from e1 obtain n where n1: "property_data_len pid (cursor + 1) buf = Ok n" and e2: "?rest pid n = Ok (ps', c)"
      by (simp only: and_then_eq_Ok [of "property_data_len pid _ _"]) blast
    from e2 have n2: "\<not> prop_end < cursor + 1 + n" by (simp split: if_splits)
    with e2 have "and_then (subslice buf (cursor + 1) (cursor + 1 + n)) (?tail pid n) = Ok (ps', c)"
      by (simp only: if_False)
    then obtain d where d: "(subslice buf (cursor + 1) (cursor + 1 + n) :: (packet_error, bytes) outcome) = Ok d" and e3: "?tail pid n d = Ok (ps', c)"
      by (simp only: and_then_eq_Ok [of "subslice buf _ _"]) blast
    note n = n1 n2
    from e3 have cap: "length ps < vec_cap"
      and rest: "read_properties_loop buf prop_end (cursor + 1 + n) (ps @ [\<lparr>prop_id = pid, prop_data = d\<rparr>]) = Ok (ps', c)"
      by (simp_all add: vec_push_def split: if_splits)
    then have p: "vec_push vec_cap ps \<lparr>prop_id = pid, prop_data = d\<rparr> = Some (ps @ [\<lparr>prop_id = pid, prop_data = d\<rparr>])"
      by (simp add: vec_push_def)
    from slice_is_part [OF d] have buf: "buf = take (cursor + 1) buf @ d @ drop (cursor + 1 + n) buf" "length d = n"
      "length (take (cursor + 1) buf) = cursor + 1" by auto
    have wf: "wf_property \<lparr>prop_id = pid, prop_data = d\<rparr>"
      using property_data_len_restrict [of pid "take (cursor + 1) buf" d "drop (cursor + 1 + n) buf"] n(1) buf
      by (simp add: wf_property_def)
    from "1.IH" [OF True refl n(2) p rest] p n(2) wf "1.prems"(4) buf(2)
    show ?thesis by (auto simp: vec_push_def props_bytes_def split: if_splits)
  next
    case False
    with "1.prems" show ?thesis by (simp add: read_properties_loop.simps [of buf prop_end cursor ps])
  qed
qed

lemma wf_properties_Nil: "wf_properties []"
  by (simp add: wf_properties_def props_bytes_def)

lemma read_properties_wf: "read_properties cursor buf = Ok (ps, c) \<Longrightarrow> wf_properties ps"
proof -
  assume "read_properties cursor buf = Ok (ps, c)"
  then obtain n c0 where v: "read_variable_byte_integer cursor buf = Ok (n, c0)"
    and l: "read_properties_loop buf (c0 + n) c0 [] = Ok (ps, c)"
    by (auto simp: read_properties_def and_then_eq_Ok Let_def split: if_splits)
  from v obtain j where "read_vbi_loop buf cursor 0 (128 ^ 0) 0 = Ok (n, j)"
    by (auto simp: read_variable_byte_integer_def and_then_eq_Ok)
  from read_vbi_loop_value [OF this] have "n < 128 ^ (j + 1)" "j \<le> 3" by auto
  then have "n < 128 ^ 4" using power_increasing [of "j + 1" 4 "128 :: nat"] by simp
  with read_properties_loop_wf [OF l] show ?thesis by (simp add: wf_properties_def props_bytes_def)
qed

lemma read_optional_properties_wf:
  "read_optional_properties cond e cursor buf = Ok (ps, c) \<Longrightarrow> wf_properties ps"
  by (auto simp: read_optional_properties_def wf_properties_def props_bytes_def split: if_splits dest: read_properties_wf)

subsection \<open>Strings and lists\<close>

lemma read_utf8_string_wf: "read_utf8_string cursor buf = Ok (s, c) \<Longrightarrow> valid_utf8 s"
  by (auto simp: read_utf8_string_def and_then_eq_Ok Let_def from_utf8_def split: if_splits)

lemma read_flagged_string_wf: "read_flagged_string f cursor buf = Ok (Some s, c) \<Longrightarrow> valid_utf8 s"
  by (auto simp: read_flagged_string_def and_then_eq_Ok split: if_splits dest: read_utf8_string_wf)

lemma read_will_wf:
  assumes "read_will v level flags content_end cursor buf = Ok (Some w, c)"
  shows "wf_properties (will_properties w) \<and> valid_utf8 (will_topic w)"
  using assms
  by (auto simp: read_will_def and_then_eq_Ok split: if_splits
      dest!: read_optional_properties_wf read_utf8_string_wf)

lemma read_reason_wf: "read_reason v content_end cursor buf = Ok (rc, ps) \<Longrightarrow> wf_properties ps"
  by (auto simp: read_reason_def and_then_eq_Ok Let_def wf_properties_Nil split: if_splits
      dest: read_properties_wf)

lemma read_topics_wf:
  "read_topics buf content_end cursor ts = Ok ts' \<Longrightarrow> length ts \<le> vec_cap \<Longrightarrow> \<forall>(t, q) \<in> set ts. valid_utf8 t \<Longrightarrow>
   length ts' \<le> vec_cap \<and> (\<forall>(t, q) \<in> set ts'. valid_utf8 t)"
proof (induction buf content_end cursor ts rule: read_topics.induct)
  case (1 buf content_end cursor ts)
  show ?case
  proof (cases "cursor < content_end")
    case True
    with "1.prems"(1) obtain t c b where r: "read_utf8_string cursor buf = Ok (t, c)"
      "get_or IncompletePacket buf c = Ok b"
      and e: "(case vec_push vec_cap ts (t, qos_from_u8 b) of
          Some ts' \<Rightarrow> read_topics buf content_end (c + 1) ts' | None \<Rightarrow> Err BatchCapacityExceeded) = Ok ts'"
      by (auto simp: read_topics.simps [of buf content_end cursor ts] and_then_eq_Ok)
    from e obtain us where us: "vec_push vec_cap ts (t, qos_from_u8 b) = Some us"
      and rest: "read_topics buf content_end (c + 1) us = Ok ts'" by (auto split: option.splits)
    from us read_utf8_string_wf [OF r(1)] "1.prems"(2,3) have "length us \<le> vec_cap" "\<forall>(t, q) \<in> set us. valid_utf8 t"
      by (auto simp: vec_push_def split: if_splits)
    with "1.IH" [OF True r(1) refl r(2) us rest] show ?thesis by blast
  qed (use "1.prems" in \<open>simp add: read_topics.simps [of buf content_end cursor ts]\<close>)
qed

lemma read_unsub_topics_wf:
  "read_unsub_topics buf content_end cursor ts = Ok ts' \<Longrightarrow> length ts \<le> vec_cap \<Longrightarrow> \<forall>t \<in> set ts. valid_utf8 t \<Longrightarrow>
   length ts' \<le> vec_cap \<and> (\<forall>t \<in> set ts'. valid_utf8 t)"
proof (induction buf content_end cursor ts rule: read_unsub_topics.induct)
  case (1 buf content_end cursor ts)
  show ?case
  proof (cases "cursor < content_end")
    case True
    with "1.prems"(1) obtain t c where r: "read_utf8_string cursor buf = Ok (t, c)"
      and e: "(case vec_push vec_cap ts t of
          Some ts' \<Rightarrow> read_unsub_topics buf content_end c ts' | None \<Rightarrow> Err BatchCapacityExceeded) = Ok ts'"
      by (auto simp: read_unsub_topics.simps [of buf content_end cursor ts] and_then_eq_Ok)
    from e obtain us where us: "vec_push vec_cap ts t = Some us"
      and rest: "read_unsub_topics buf content_end c us = Ok ts'" by (auto split: option.splits)
    from us read_utf8_string_wf [OF r(1)] "1.prems"(2,3) have "length us \<le> vec_cap" "\<forall>t \<in> set us. valid_utf8 t"
      by (auto simp: vec_push_def split: if_splits)
    with "1.IH" [OF True r(1) refl us rest] show ?thesis by blast
  qed (use "1.prems" in \<open>simp add: read_unsub_topics.simps [of buf content_end cursor ts]\<close>)
qed

lemma read_codes_wf:
  "read_codes buf content_end cursor cs = Ok cs' \<Longrightarrow> length cs \<le> vec_cap \<Longrightarrow> length cs' \<le> vec_cap"
proof (induction buf content_end cursor cs rule: read_codes.induct)
  case (1 buf content_end cursor cs)
  show ?case
  proof (cases "cursor < content_end")
    case True
    with "1.prems"(1) obtain b where r: "get_or IncompletePacket buf cursor = Ok b"
      and e: "(case vec_push vec_cap cs b of
          Some cs' \<Rightarrow> read_codes buf content_end (cursor + 1) cs' | None \<Rightarrow> Err BatchCapacityExceeded) = Ok cs'"
      by (auto simp: read_codes.simps [of buf content_end cursor cs] and_then_eq_Ok)
    from e obtain us where us: "vec_push vec_cap cs b = Some us"
      and rest: "read_codes buf content_end (cursor + 1) us = Ok cs'" by (auto split: option.splits)
    from "1.IH" [OF True r us rest] us show ?thesis by (auto simp: vec_push_def split: if_splits)
  qed (use "1.prems" in \<open>simp add: read_codes.simps [of buf content_end cursor cs]\<close>)
qed

lemmas reads_wf = read_optional_properties_wf read_utf8_string_wf read_flagged_string_wf read_will_wf
  read_reason_wf read_topics_wf [where ts = "[]", simplified]
  read_unsub_topics_wf [where ts = "[]", simplified] read_codes_wf [where cs = "[]", simplified]

subsection \<open>The packets\<close>

lemma connect_decode_wf: "connect_decode buf v = Ok p \<Longrightarrow> wf_packet (Connect p) v"
  by (auto simp: connect_decode_def and_then_eq_Ok Let_def split: if_splits dest: reads_wf)

lemma connack_decode_wf: "connack_decode buf v = Ok p \<Longrightarrow> wf_packet (ConnAck p) v"
  by (auto simp: connack_decode_def and_then_eq_Ok Let_def split: if_splits dest: reads_wf)

lemma publish_decode_wf: "publish_decode buf v = Ok p \<Longrightarrow> wf_packet (Publish p) v"
  by (auto simp: publish_decode_def and_then_eq_Ok Let_def split: if_splits dest: reads_wf)

lemma ack_decode_wf: "ack_decode buf v = Ok a \<Longrightarrow> wf_properties (ack_properties a)"
  by (auto simp: ack_decode_def and_then_eq_Ok dest: reads_wf)

lemma subscribe_decode_wf: "subscribe_decode buf v = Ok p \<Longrightarrow> wf_packet (Subscribe p) v"
  by (auto simp: subscribe_decode_def and_then_eq_Ok dest: reads_wf) (use reads_wf(6) in blast)

lemma suback_decode_wf: "suback_decode buf v = Ok p \<Longrightarrow> wf_packet (SubAck p) v"
  by (auto simp: suback_decode_def and_then_eq_Ok dest: reads_wf)

lemma unsubscribe_decode_wf: "unsubscribe_decode buf v = Ok p \<Longrightarrow> wf_packet (Unsubscribe p) v"
  by (auto simp: unsubscribe_decode_def and_then_eq_Ok dest: reads_wf)

lemma unsuback_decode_wf: "unsuback_decode buf v = Ok p \<Longrightarrow> wf_packet (UnsubAck p) v"
  by (auto simp: unsuback_decode_def and_then_eq_Ok dest: reads_wf)

lemma disconnect_decode_wf: "disconnect_decode buf v = Ok p \<Longrightarrow> wf_packet (Disconnect p) v"
  by (auto simp: disconnect_decode_def and_then_eq_Ok wf_properties_Nil split: if_splits dest: reads_wf)

lemmas decoders_wf = connect_decode_wf connack_decode_wf publish_decode_wf ack_decode_wf subscribe_decode_wf
  suback_decode_wf unsubscribe_decode_wf unsuback_decode_wf disconnect_decode_wf

text \<open>C25. Whatever bytes arrive, a packet the decoder returns is well-formed: every string in it is UTF-8,
  its lists fit their capacity of 8, and (for MQTT 5) every property carries exactly the data its identifier
  announces, so that the packet can be encoded again.\<close>

theorem decode_wf:
  assumes "decode buf v = Ok (Some p)"
  shows "wf_packet p v"
  using assms
  by (auto simp: decode_def and_then_eq_Ok Let_def simp del: wf_packet.simps split: if_splits dest: decoders_wf)
    (simp_all add: ack_decode_wf)

text \<open>A SUBSCRIBE for the topic "t" as it arrives.\<close>

theorem decode_wf_witness:
  "wf_packet (Subscribe \<lparr>sub_packet_id = 1, sub_topics = [([0x74], AtLeastOnce)], sub_properties = []\<rparr>) V5"
proof (rule decode_wf [of "[0x82, 7, 0, 1, 0, 0, 1, 0x74, 1]"])
  show "decode [0x82, 7, 0, 1, 0, 0, 1, 0x74, 1] V5 =
      Ok (Some (Subscribe \<lparr>sub_packet_id = 1, sub_topics = [([0x74], AtLeastOnce)], sub_properties = []\<rparr>))"
    by code_simp
qed

end
