(* ===== verification/Core_Error.thy ===== *)
theory Core_Error
  imports Packet_Types
begin

text \<open>
  \<open>mqtt-core/src/error.rs\<close>: reason codes, the unified error type and its conversions, and
  the \<open>Display\<close> text of reason codes with their hexadecimal value.
\<close>

datatype reason_code =
    Success
  | UnacceptableProtocolVersion
  | IdentifierRejected
  | ServerUnavailable
  | BadUserNameOrPassword
  | NotAuthorized
  | ServerBusy
  | BadAuthenticationMethod
  | KeepAliveTimeout
  | SessionTakenOver
  | TopicFilterInvalid
  | TopicNameInvalid
  | ReceiveMaximumExceeded
  | TopicAliasInvalid
  | PacketTooLarge
  | MessageRateTooHigh
  | QuotaExceeded
  | AdministrativeAction
  | PayloadFormatInvalid
  | RetainNotSupported
  | QoSNotSupported
  | UseAnotherServer
  | ServerMoved
  | SharedSubscriptionsNotSupported
  | ConnectionRateExceeded
  | MaximumConnectTime
  | SubscriptionIdentifiersNotSupported
  | WildcardSubscriptionsNotSupported
  | Other byte

definition reason_code_from :: "byte \<Rightarrow> reason_code" where
  "reason_code_from val =
     (if val = 0 then Success
      else if val = 1 then UnacceptableProtocolVersion
      else if val = 2 then IdentifierRejected
      else if val = 3 then ServerUnavailable
      else if val = 4 then BadUserNameOrPassword
      else if val = 5 then NotAuthorized
      else if val = 137 then ServerBusy
      else if val = 140 then BadAuthenticationMethod
      else if val = 141 then KeepAliveTimeout
      else if val = 142 then SessionTakenOver
      else if val = 143 then TopicFilterInvalid
      else if val = 144 then TopicNameInvalid
      else if val = 147 then ReceiveMaximumExceeded
      else if val = 148 then TopicAliasInvalid
      else if val = 149 then PacketTooLarge
      else if val = 150 then MessageRateTooHigh
      else if val = 151 then QuotaExceeded
      else if val = 152 then AdministrativeAction
      else if val = 153 then PayloadFormatInvalid
      else if val = 154 then RetainNotSupported
      else if val = 155 then QoSNotSupported
      else if val = 156 then UseAnotherServer
      else if val = 157 then ServerMoved
      else if val = 158 then SharedSubscriptionsNotSupported
      else if val = 159 then ConnectionRateExceeded
      else if val = 160 then MaximumConnectTime
      else if val = 161 then SubscriptionIdentifiersNotSupported
      else if val = 162 then WildcardSubscriptionsNotSupported
      else Other val)"

text \<open>The discriminants of the \<open>repr(u8)\<close> enumeration, and the payload of \<open>Other\<close>.\<close>

fun reason_code_value :: "reason_code \<Rightarrow> byte" where
  "reason_code_value Success = 0"
| "reason_code_value UnacceptableProtocolVersion = 1"
| "reason_code_value IdentifierRejected = 2"
| "reason_code_value ServerUnavailable = 3"
| "reason_code_value BadUserNameOrPassword = 4"
| "reason_code_value NotAuthorized = 5"
| "reason_code_value ServerBusy = 137"
| "reason_code_value BadAuthenticationMethod = 140"
| "reason_code_value KeepAliveTimeout = 141"
| "reason_code_value SessionTakenOver = 142"
| "reason_code_value TopicFilterInvalid = 143"
| "reason_code_value TopicNameInvalid = 144"
| "reason_code_value ReceiveMaximumExceeded = 147"
| "reason_code_value TopicAliasInvalid = 148"
| "reason_code_value PacketTooLarge = 149"
| "reason_code_value MessageRateTooHigh = 150"
| "reason_code_value QuotaExceeded = 151"
| "reason_code_value AdministrativeAction = 152"
| "reason_code_value PayloadFormatInvalid = 153"
| "reason_code_value RetainNotSupported = 154"
| "reason_code_value QoSNotSupported = 155"
| "reason_code_value UseAnotherServer = 156"
| "reason_code_value ServerMoved = 157"
| "reason_code_value SharedSubscriptionsNotSupported = 158"
| "reason_code_value ConnectionRateExceeded = 159"
| "reason_code_value MaximumConnectTime = 160"
| "reason_code_value SubscriptionIdentifiersNotSupported = 161"
| "reason_code_value WildcardSubscriptionsNotSupported = 162"
| "reason_code_value (Other c) = c"

text \<open>\<open>{c:02X}\<close>: two upper-case hexadecimal digits.\<close>

definition hex_digit :: "nat \<Rightarrow> char" where
  "hex_digit n = (''0123456789ABCDEF'' ! n)"

definition hex2 :: "byte \<Rightarrow> string" where
  "hex2 c = [hex_digit (unat c div 16), hex_digit (unat c mod 16)]"

fun display_reason_code :: "reason_code \<Rightarrow> string" where
  "display_reason_code Success = ''Success (0x00)''"
| "display_reason_code UnacceptableProtocolVersion = ''Unacceptable Protocol Version (0x01)''"
| "display_reason_code IdentifierRejected = ''Client Identifier Rejected (0x02)''"
| "display_reason_code ServerUnavailable = ''Server Unavailable (0x03)''"
| "display_reason_code BadUserNameOrPassword = ''Bad Username or Password (0x04)''"
| "display_reason_code NotAuthorized = ''Not Authorized (0x05)''"
| "display_reason_code ServerBusy = ''Server Busy (0x89)''"
| "display_reason_code BadAuthenticationMethod = ''Bad Authentication Method (0x8C)''"
| "display_reason_code KeepAliveTimeout = ''Keep Alive Timeout (0x8D)''"
| "display_reason_code SessionTakenOver = ''Session Taken Over (0x8E)''"
| "display_reason_code TopicFilterInvalid = ''Topic Filter Invalid (0x8F)''"
| "display_reason_code TopicNameInvalid = ''Topic Name Invalid (0x90)''"
| "display_reason_code ReceiveMaximumExceeded = ''Receive Maximum Exceeded (0x93)''"
| "display_reason_code TopicAliasInvalid = ''Topic Alias Invalid (0x94)''"
| "display_reason_code PacketTooLarge = ''Packet Too Large (0x95)''"
| "display_reason_code MessageRateTooHigh = ''Message Rate Too High (0x96)''"
| "display_reason_code QuotaExceeded = ''Quota Exceeded (0x97)''"
| "display_reason_code AdministrativeAction = ''Administrative Action (0x98)''"
| "display_reason_code PayloadFormatInvalid = ''Payload Format Invalid (0x99)''"
| "display_reason_code RetainNotSupported = ''Retain Not Supported (0x9A)''"
| "display_reason_code QoSNotSupported = ''QoS Not Supported (0x9B)''"
| "display_reason_code UseAnotherServer = ''Use Another Server (0x9C)''"
| "display_reason_code ServerMoved = ''Server Moved (0x9D)''"
| "display_reason_code SharedSubscriptionsNotSupported = ''Shared Subscriptions Not Supported (0x9E)''"
| "display_reason_code ConnectionRateExceeded = ''Connection Rate Exceeded (0x9F)''"
| "display_reason_code MaximumConnectTime = ''Maximum Connect Time (0xA0)''"
| "display_reason_code SubscriptionIdentifiersNotSupported = ''Subscription Identifiers Not Supported (0xA1)''"
| "display_reason_code WildcardSubscriptionsNotSupported = ''Wildcard Subscriptions Not Supported (0xA2)''"
| "display_reason_code (Other c) = ''Reason Code 0x'' @ hex2 c"

lemma reason_code_value_from [simp]: "reason_code_value (reason_code_from val) = val"
  by (simp add: reason_code_from_def)

lemma reason_code_from_value:
  "reason_code_from (reason_code_value r) = (case r of Other c \<Rightarrow> reason_code_from c | _ \<Rightarrow> r)"
  by (cases r) (simp_all add: reason_code_from_def)

subsection \<open>The unified error type\<close>

datatype core_protocol_error =
    CP_InvalidPacketType byte | CP_InvalidResponse | CP_MalformedPacket | CP_IncompletePacket
  | CP_PayloadTooLarge | CP_InvalidUtf8String | CP_TooManyProperties | CP_InvalidTopic
  | CP_UnsupportedQoS | CP_StateMismatch | CP_UnexpectedPacket

datatype codec_error =
    CC_BufferTooSmall | CC_IncompletePacket | CC_MalformedPacket | CC_InvalidPacketType byte
  | CC_InvalidUtf8String | CC_TooManyProperties | CC_BatchCapacityExceeded
  | CC_PayloadTooLarge | CC_UnsupportedQoS

fun codec_error_from :: "packet_error \<Rightarrow> codec_error" where
  "codec_error_from BufferTooSmall = CC_BufferTooSmall"
| "codec_error_from IncompletePacket = CC_IncompletePacket"
| "codec_error_from MalformedPacket = CC_MalformedPacket"
| "codec_error_from (InvalidPacketType t) = CC_InvalidPacketType t"
| "codec_error_from InvalidUtf8String = CC_InvalidUtf8String"
| "codec_error_from TooManyProperties = CC_TooManyProperties"
| "codec_error_from BatchCapacityExceeded = CC_BatchCapacityExceeded"
| "codec_error_from PayloadTooLarge = CC_PayloadTooLarge"
| "codec_error_from UnsupportedQoS = CC_UnsupportedQoS"

datatype storage_error_kind = StorageNotFound | StorageCorrupted | StorageFull | StorageIoFailure

datatype crypto_error_kind =
    HandshakeFailed | CertificateInvalid | EncryptionError | DecryptionError | HardwareFault
  | UnsupportedAlgorithm

datatype 'e core_mqtt_error =
    CoreTransport 'e
  | CoreProtocol core_protocol_error
  | CoreCodec codec_error
  | CoreStorage storage_error_kind
  | CoreCrypto crypto_error_kind
  | CoreConnectionRefused reason_code
  | CoreNotConnected
  | CoreBufferTooSmall
  | CoreTimeout
  | CoreBatchCapacityExceeded
  | CoreInflightQueueFull
  | CoreCollisionDetected u16

definition core_error_from_transport :: "'e \<Rightarrow> 'e core_mqtt_error" where
  "core_error_from_transport err = CoreTransport err"

definition core_error_from_packet :: "packet_error \<Rightarrow> 'e core_mqtt_error" where
  "core_error_from_packet err = CoreCodec (codec_error_from err)"

definition core_error_from_codec :: "codec_error \<Rightarrow> 'e core_mqtt_error" where
  "core_error_from_codec err = CoreCodec err"

definition core_error_from_protocol :: "core_protocol_error \<Rightarrow> 'e core_mqtt_error" where
  "core_error_from_protocol err = CoreProtocol err"

lemma codec_error_from_eq [simp]: "codec_error_from a = codec_error_from b \<longleftrightarrow> a = b"
  by (cases a; cases b) simp_all

lemma codec_error_from_surj: "\<exists>p. codec_error_from p = c"
proof (cases c)
  case (CC_InvalidPacketType t)
  then show ?thesis using codec_error_from.simps(4) by blast
qed (metis codec_error_from.simps)+

end
