(* ===== verification/Core_State.thy ===== *)
theory Core_State
  imports Core_Error
begin

text \<open>
  \<open>mqtt-core/src/state.rs\<close>: the pure connection state machine, its step relation and the
  traces it accepts.
\<close>

datatype conn_state =
    Disconnected
  | Connecting
  | WaitingForConnAck
  | Connected
  | Disconnecting
  | Reconnecting (attempt_of: u32)

datatype state_event =
    ConnectRequested
  | TransportConnected
  | ConnAckReceived bool
  | ConnAckRejected
  | DisconnectRequested
  | TransportClosed
  | KeepAliveExpired

datatype state_action =
    NoAction
  | SendConnect
  | SendPing
  | SendDisconnect
  | NotifyConnected bool
  | NotifyDisconnected
  | ScheduleReconnect u32

text \<open>\<open>u32::saturating_add\<close>\<close>

definition saturating_add32 :: "u32 \<Rightarrow> u32 \<Rightarrow> u32" where
  "saturating_add32 a b = (if unat a + unat b < 2 ^ 32 then a + b else - 1)"

fun transition :: "conn_state \<Rightarrow> state_event \<Rightarrow> (core_protocol_error, conn_state \<times> state_action) outcome" where
  "transition Disconnected ConnectRequested = Ok (Connecting, NoAction)"
| "transition Connecting TransportConnected = Ok (WaitingForConnAck, SendConnect)"
| "transition WaitingForConnAck (ConnAckReceived session_present) =
     Ok (Connected, NotifyConnected session_present)"
| "transition WaitingForConnAck ConnAckRejected = Ok (Disconnected, NotifyDisconnected)"
| "transition Connected KeepAliveExpired = Ok (Connected, SendPing)"
| "transition Connected DisconnectRequested = Ok (Disconnecting, SendDisconnect)"
| "transition Disconnecting TransportClosed = Ok (Disconnected, NotifyDisconnected)"
| "transition Connected TransportClosed = Ok (Reconnecting 1, ScheduleReconnect 1)"
| "transition WaitingForConnAck TransportClosed = Ok (Reconnecting 1, ScheduleReconnect 1)"
| "transition (Reconnecting attempt) ConnectRequested = Ok (Connecting, NoAction)"
| "transition (Reconnecting attempt) TransportClosed =
     (let next_attempt = saturating_add32 attempt 1
      in Ok (Reconnecting next_attempt, ScheduleReconnect next_attempt))"
| "transition _ _ = Err CP_StateMismatch"

fun_cases transition_OkE: "transition s e = Ok r"

subsection \<open>Traces\<close>

inductive conn_trace :: "conn_state \<Rightarrow> (state_event \<times> state_action) list \<Rightarrow> conn_state \<Rightarrow> bool" where
  trace_refl: "conn_trace s [] s"
| trace_step: "conn_trace s tr t \<Longrightarrow> transition t e = Ok (u, a) \<Longrightarrow> conn_trace s (tr @ [(e, a)]) u"

inductive_cases conn_trace_elim: "conn_trace s tr u"

code_pred conn_trace .

lemma unat_u32_le: "unat (w :: u32) \<le> 2 ^ 32 - 1"
proof -
  have "unat w < 2 ^ 32" using unsigned_less [of w] by simp
  then show ?thesis by simp
qed

lemma saturating_add32_unat: "unat (saturating_add32 a 1) = min (unat a + 1) (2 ^ 32 - 1)"
proof -
  have u: "unat (1 :: u32) = 1" "unat (- 1 :: u32) = 2 ^ 32 - 1"
    by (simp_all add: unsigned_minus_1_eq_mask mask_eq_exp_minus_1)
  show ?thesis
  proof (cases "unat a + 1 < 2 ^ 32")
    case True
    then have "unat (a + 1) = unat a + 1" by (simp add: unat_word_ariths)
    with True show ?thesis by (simp add: saturating_add32_def u(1))
  next
    case False
    with unat_u32_le [of a] u show ?thesis by (simp add: saturating_add32_def)
  qed
qed

lemma transition_not_Panic [simp]: "transition s e \<noteq> Panic"
  by (cases "(s, e)" rule: transition.cases) (simp_all add: Let_def)

lemma transition_Err: "transition s e = Err x \<Longrightarrow> x = CP_StateMismatch"
  by (cases "(s, e)" rule: transition.cases) (simp_all add: Let_def)

lemma into_Connecting: "transition s e = Ok (Connecting, a) \<Longrightarrow> e = ConnectRequested \<and> a = NoAction"
  by (erule transition_OkE) (auto simp: Let_def)

lemma into_Waiting: "transition s e = Ok (WaitingForConnAck, a) \<Longrightarrow>
    s = Connecting \<and> e = TransportConnected \<and> a = SendConnect"
  by (erule transition_OkE) (auto simp: Let_def)

lemma into_Connected: "transition s e = Ok (Connected, a) \<Longrightarrow>
    (s = WaitingForConnAck \<and> (\<exists>sp. e = ConnAckReceived sp \<and> a = NotifyConnected sp)) \<or>
    (s = Connected \<and> e = KeepAliveExpired \<and> a = SendPing)"
  by (erule transition_OkE) (auto simp: Let_def)

lemma trace_from:
  "conn_trace s tr u \<Longrightarrow> s \<noteq> u \<Longrightarrow> \<exists>tr' t e a. tr = tr' @ [(e, a)] \<and> conn_trace s tr' t \<and> transition t e = Ok (u, a)"
  by (erule conn_trace_elim) auto

lemma trace_to_Waiting:
  assumes "conn_trace s tr WaitingForConnAck" "s \<notin> {Connecting, WaitingForConnAck}"
  shows "\<exists>pre. tr = pre @ [(ConnectRequested, NoAction), (TransportConnected, SendConnect)]"
proof -
  from trace_from [OF assms(1)] assms(2) obtain tr' t e a
    where 1: "tr = tr' @ [(e, a)]" "conn_trace s tr' t" "transition t e = Ok (WaitingForConnAck, a)"
    by auto
  from into_Waiting [OF 1(3)] have t: "t = Connecting" "e = TransportConnected" "a = SendConnect" by simp_all
  from trace_from [of s tr' Connecting] 1(2) t(1) assms(2) obtain tr'' t' e' a'
    where 2: "tr' = tr'' @ [(e', a')]" "transition t' e' = Ok (Connecting, a')" by auto
  from into_Connecting [OF 2(2)] 1(1) 2(1) t show ?thesis by simp
qed

lemma trace_to_Connected:
  assumes "conn_trace s tr u" "u = Connected" "s \<notin> {Connecting, WaitingForConnAck, Connected}"
  shows "\<exists>pre sp n. tr = pre @ [(ConnectRequested, NoAction), (TransportConnected, SendConnect),
      (ConnAckReceived sp, NotifyConnected sp)] @ replicate n (KeepAliveExpired, SendPing)"
  using assms
proof (induction rule: conn_trace.induct)
  case (trace_step s tr t e u a)
  then consider (ack) sp where "t = WaitingForConnAck" "e = ConnAckReceived sp" "a = NotifyConnected sp"
    | (ping) "t = Connected" "e = KeepAliveExpired" "a = SendPing"
    using into_Connected by blast
  then show ?case
  proof cases
    case (ack sp)
    with trace_step trace_to_Waiting obtain pre
      where "tr = pre @ [(ConnectRequested, NoAction), (TransportConnected, SendConnect)]" by blast
    with ack show ?thesis by (intro exI [of _ pre] exI [of _ sp] exI [of _ 0]) simp
  next
    case ping
    with trace_step.IH trace_step.prems obtain pre sp n
      where "tr = pre @ [(ConnectRequested, NoAction), (TransportConnected, SendConnect),
        (ConnAckReceived sp, NotifyConnected sp)] @ replicate n (KeepAliveExpired, SendPing)" by blast
    with ping show ?thesis
      by (intro exI [of _ pre] exI [of _ sp] exI [of _ "Suc n"]) (simp add: replicate_append_same [symmetric])
  qed
qed simp

text \<open>The trace of \<open>n\<close> further failures while reconnecting.\<close>

fun retry_trace :: "u32 \<Rightarrow> nat \<Rightarrow> u32" where
  "retry_trace attempt 0 = attempt"
| "retry_trace attempt (Suc n) = saturating_add32 (retry_trace attempt n) 1"

lemma retry_trace_unat: "unat (retry_trace a n) = min (unat a + n) (2 ^ 32 - 1)"
proof (induction n)
  case 0
  show ?case using unat_u32_le [of a] by simp
next
  case (Suc n)
  then show ?case by (simp add: saturating_add32_unat)
qed

lemma retry_trace_conn:
  "\<exists>tr. conn_trace (Reconnecting a) tr (Reconnecting (retry_trace a n)) \<and>
     map fst tr = replicate n TransportClosed"
proof (induction n)
  case 0
  show ?case by (auto intro: trace_refl)
next
  case (Suc n)
  then obtain tr where tr: "conn_trace (Reconnecting a) tr (Reconnecting (retry_trace a n))"
    "map fst tr = replicate n TransportClosed" by blast
  from trace_step [OF tr(1), of TransportClosed "Reconnecting (retry_trace a (Suc n))"] tr(2)
  show ?case
    by (intro exI [of _ "tr @ [(TransportClosed, ScheduleReconnect (retry_trace a (Suc n)))]"])
      (simp add: Let_def replicate_append_same [symmetric])
qed

end
