(* ===== verification/Keyed_Table.thy ===== *)
theory Keyed_Table
  imports Heapless
begin

text \<open>
  The contract shared by the bounded tables of the workspace: the inflight queues of
  \<open>mqtt-core\<close> and \<open>mqtt-embedded\<close> and the key-value store of \<open>mqtt-storage\<close>. A table
  stands for a finite map; \<open>insert\<close> may refuse when the capacity is reached, \<open>delete\<close> acts
  only on entries it is allowed to remove. Two extensions say what an insertion does to a
  key already present. The lemmas about histories of operations are proved once here.
\<close>

subsection \<open>Lists with distinct keys as maps\<close>

definition table_of :: "('e \<Rightarrow> 'k) \<Rightarrow> ('e \<Rightarrow> 'v) \<Rightarrow> 'e list \<Rightarrow> 'k \<Rightarrow> 'v option" where
  "table_of key val xs = map_of (map (\<lambda>e. (key e, val e)) xs)"

lemma table_of_Nil [simp]: "table_of key val [] = Map.empty"
  by (simp add: table_of_def)

lemma dom_table_of: "dom (table_of key val xs) = key ` set xs"
  by (simp add: table_of_def dom_map_of_conv_image_fst image_image)

lemma finite_dom_table_of [simp]: "finite (dom (table_of key val xs))"
  by (simp add: dom_table_of)

lemma card_dom_table_of: "distinct (map key xs) \<Longrightarrow> card (dom (table_of key val xs)) = length xs"
  by (metis dom_table_of distinct_card length_map list.set_map)

lemma table_of_Some:
  assumes "distinct (map key xs)"
  shows "table_of key val xs k = Some v \<longleftrightarrow> (\<exists>e \<in> set xs. key e = k \<and> val e = v)"
proof -
  have "distinct (map fst (map (\<lambda>e. (key e, val e)) xs))" using assms by (simp add: comp_def)
  from map_of_eq_Some_iff [OF this] show ?thesis by (auto simp: table_of_def)
qed

lemma map_eqI: "(\<And>k v. m k = Some v \<longleftrightarrow> m' k = Some v) \<Longrightarrow> m = m'"
  by (rule ext) (metis option.exhaust)

lemma table_of_None: "table_of key val xs k = None \<longleftrightarrow> k \<notin> key ` set xs"
  using dom_table_of [of key val xs] by (auto simp: domIff)

lemma table_of_append:
  assumes "key x \<notin> key ` set xs"
  shows "table_of key val (xs @ [x]) = (table_of key val xs)(key x \<mapsto> val x)"
proof -
  have none: "table_of key val xs (key x) = None" using assms by (simp only: table_of_None not_False_eq_True)
  have "table_of key val (xs @ [x]) = [key x \<mapsto> val x] ++ table_of key val xs"
    by (simp add: table_of_def)
  also have "\<dots> = (table_of key val xs)(key x \<mapsto> val x)"
    using none by (auto simp: map_add_def fun_eq_iff split: option.splits)
  finally show ?thesis .
qed

lemma table_of_swap_remove:
  assumes "distinct (map key xs)" "i < length xs"
  shows "table_of key val (swap_remove i xs) = (table_of key val xs)(key (xs ! i) := None)"
proof (rule map_eqI)
  fix k v
  have d: "distinct (map key (swap_remove i xs))"
    by (rule distinct_map_swap_remove [OF assms(2,1)])
  show "table_of key val (swap_remove i xs) k = Some v \<longleftrightarrow>
      ((table_of key val xs)(key (xs ! i) := None)) k = Some v"
    using set_swap_remove [OF assms(2,1)]
    by (auto simp: table_of_Some [OF d] table_of_Some [OF assms(1)])
qed

lemma table_of_update_first:
  assumes d: "distinct (map key xs)" and x: "x \<in> set xs" "P x"
    and P: "\<And>y. P y \<Longrightarrow> key y = key x" and f: "\<And>y. key (f y) = key y"
  shows "table_of key val (update_first P f xs) = (table_of key val xs)(key x \<mapsto> val (f x))"
proof (rule map_eqI)
  fix k v
  have d': "distinct (map key (update_first P f xs))"
    using d by (simp add: map_update_first [of key f, OF f])
  have "y \<in> set xs \<Longrightarrow> key y = key x \<Longrightarrow> y = x" for y
    using d x(1) by (simp add: distinct_map inj_on_def)
  then show "table_of key val (update_first P f xs) k = Some v \<longleftrightarrow>
      ((table_of key val xs)(key x \<mapsto> val (f x))) k = Some v"
    using set_update_first [where g = key and x = x and P = P and f = f, OF d x P] x(1) f
    by (auto simp: table_of_Some [OF d] table_of_Some [OF d'])
qed

text \<open>Searching by key and a further condition.\<close>

lemma position_key_Some:
  assumes "distinct (map key xs)" "table_of key id xs k = Some e" "P e"
  shows "\<exists>i. position (\<lambda>e. key e = k \<and> P e) xs = Some i \<and> i < length xs \<and> xs ! i = e"
proof -
  have e: "e \<in> set xs" "key e = k" using assms(1,2) by (auto simp: table_of_Some)
  have u: "x \<in> set xs \<Longrightarrow> key x = k \<Longrightarrow> x = e" for x
    using assms(1) e by (auto simp: distinct_map inj_on_def)
  from e assms(3) obtain i where i: "position (\<lambda>e. key e = k \<and> P e) xs = Some i"
    by (cases "position (\<lambda>e. key e = k \<and> P e) xs") (auto simp: position_None)
  from position_Some [OF i] u show ?thesis using i by auto
qed

lemma position_key_None:
  assumes "distinct (map key xs)" "\<forall>e. table_of key id xs k = Some e \<longrightarrow> \<not> P e"
  shows "position (\<lambda>e. key e = k \<and> P e) xs = None"
  using assms by (auto simp: position_None table_of_Some)

subsection \<open>Histories of operations and their reference\<close>

datatype ('k, 'a) table_op = Put 'k 'a | Del 'k

definition table_step ::
  "('k \<Rightarrow> 'a \<Rightarrow> 's \<Rightarrow> 's option) \<Rightarrow> ('k \<Rightarrow> 's \<Rightarrow> 's option) \<Rightarrow> ('k, 'a) table_op \<Rightarrow> 's \<Rightarrow> 's" where
  "table_step ins del op s =
     (case op of Put k a \<Rightarrow> (case ins k a s of Some s' \<Rightarrow> s' | None \<Rightarrow> s)
      | Del k \<Rightarrow> (case del k s of Some s' \<Rightarrow> s' | None \<Rightarrow> s))"

definition ref_delete :: "('v \<Rightarrow> bool) \<Rightarrow> 'k \<Rightarrow> ('k \<rightharpoonup> 'v) \<Rightarrow> ('k \<rightharpoonup> 'v)" where
  "ref_delete allowed k m = (if \<exists>v. m k = Some v \<and> allowed v then m(k := None) else m)"

definition ref_insert :: "nat \<Rightarrow> 'k \<Rightarrow> 'v \<Rightarrow> ('k \<rightharpoonup> 'v) \<Rightarrow> ('k \<rightharpoonup> 'v)" where
  "ref_insert cap k v m = (if card (dom m) < cap then m(k \<mapsto> v) else m)"

definition ref_reject ::
  "nat \<Rightarrow> ('k \<Rightarrow> 'a \<Rightarrow> 'v) \<Rightarrow> ('v \<Rightarrow> bool) \<Rightarrow> ('k, 'a) table_op \<Rightarrow> ('k \<rightharpoonup> 'v) \<Rightarrow> ('k \<rightharpoonup> 'v)" where
  "ref_reject cap mk allowed op m =
     (case op of Put k a \<Rightarrow> if k \<in> dom m then m else ref_insert cap k (mk k a) m
      | Del k \<Rightarrow> ref_delete allowed k m)"

definition ref_replace ::
  "nat \<Rightarrow> ('k \<Rightarrow> 'a \<Rightarrow> 'v) \<Rightarrow> ('v \<Rightarrow> bool) \<Rightarrow> ('k, 'a) table_op \<Rightarrow> ('k \<rightharpoonup> 'v) \<Rightarrow> ('k \<rightharpoonup> 'v)" where
  "ref_replace cap mk allowed op m =
     (case op of Put k a \<Rightarrow> if k \<in> dom m then m(k \<mapsto> mk k a) else ref_insert cap k (mk k a) m
      | Del k \<Rightarrow> ref_delete allowed k m)"

fun op_ok :: "('k \<Rightarrow> 'a \<Rightarrow> bool) \<Rightarrow> ('k, 'a) table_op \<Rightarrow> bool" where
  "op_ok storable (Put k a) = storable k a"
| "op_ok storable (Del k) = True"

lemma op_ok_True [simp]: "op_ok (\<lambda>_ _. True) op"
  by (cases op) simp_all

subsection \<open>The contract\<close>

locale bounded_table =
  fixes inv :: "'s \<Rightarrow> bool"
    and entry :: "'s \<Rightarrow> 'k \<rightharpoonup> 'v"
    and cap :: nat
    and storable :: "'k \<Rightarrow> 'a \<Rightarrow> bool"
    and mk :: "'k \<Rightarrow> 'a \<Rightarrow> 'v"
    and allowed :: "'v \<Rightarrow> bool"
    and ins :: "'k \<Rightarrow> 'a \<Rightarrow> 's \<Rightarrow> 's option"
    and del :: "'k \<Rightarrow> 's \<Rightarrow> 's option"
  assumes bounded: "inv s \<Longrightarrow> finite (dom (entry s)) \<and> card (dom (entry s)) \<le> cap"
    and ins_fresh: "inv s \<Longrightarrow> storable k a \<Longrightarrow> entry s k = None \<Longrightarrow>
      (if card (dom (entry s)) < cap
       then \<exists>s'. ins k a s = Some s' \<and> inv s' \<and> entry s' = (entry s)(k \<mapsto> mk k a)
       else ins k a s = None)"
    and del_allowed: "inv s \<Longrightarrow> entry s k = Some v \<Longrightarrow> allowed v \<Longrightarrow>
      \<exists>s'. del k s = Some s' \<and> inv s' \<and> entry s' = (entry s)(k := None)"
    and del_refused: "inv s \<Longrightarrow> (\<forall>v. entry s k = Some v \<longrightarrow> \<not> allowed v) \<Longrightarrow> del k s = None"
begin

lemma del_step:
  assumes "inv s"
  shows "inv (table_step ins del (Del k) s) \<and>
    entry (table_step ins del (Del k) s) = ref_delete allowed k (entry s)"
proof (cases "\<exists>v. entry s k = Some v \<and> allowed v")
  case True
  then obtain v where "entry s k = Some v" "allowed v" by blast
  with del_allowed [OF assms this] True show ?thesis by (auto simp: table_step_def ref_delete_def)
next
  case False
  with del_refused [OF assms, of k] assms show ?thesis by (auto simp: table_step_def ref_delete_def)
qed

lemma fresh_step:
  assumes "inv s" "storable k a" "entry s k = None"
  shows "inv (table_step ins del (Put k a) s) \<and>
    entry (table_step ins del (Put k a) s) = ref_insert cap k (mk k a) (entry s)"
  using ins_fresh [OF assms] assms(1)
  by (auto simp: table_step_def ref_insert_def split: if_splits)

lemma delete_makes_room:
  assumes "inv s" "entry s k = Some v" "allowed v" "del k s = Some s'"
    "storable k' a" "entry s' k' = None"
  shows "\<exists>s''. ins k' a s' = Some s'' \<and> entry s'' = (entry s')(k' \<mapsto> mk k' a)"
proof -
  from del_allowed [OF assms(1-3)] assms(4) have s': "inv s'" "entry s' = (entry s)(k := None)" by auto
  have "card (dom (entry s')) < card (dom (entry s))"
    using bounded [OF assms(1)] assms(2) s'(2) by (auto intro!: psubset_card_mono)
  with bounded [OF assms(1)] have "card (dom (entry s')) < cap" by linarith
  with ins_fresh [OF s'(1) assms(5,6)] show ?thesis by auto
qed

end

locale rejecting_table = bounded_table +
  assumes ins_present: "inv s \<Longrightarrow> storable k a \<Longrightarrow> entry s k = Some v \<Longrightarrow> ins k a s = None"
begin

lemma step_refines:
  assumes "inv s" "op_ok storable op"
  shows "inv (table_step ins del op s) \<and>
    entry (table_step ins del op s) = ref_reject cap mk allowed op (entry s)"
proof (cases op)
  case (Put k a)
  with assms fresh_step [of s k a] ins_present [of s k a] show ?thesis
    by (cases "entry s k") (auto simp: ref_reject_def table_step_def domIff)
next
  case (Del k)
  with del_step [OF assms(1)] show ?thesis by (simp add: ref_reject_def)
qed

lemma history_refines:
  "inv s \<Longrightarrow> list_all (op_ok storable) ops \<Longrightarrow> inv (fold (table_step ins del) ops s) \<and>
     entry (fold (table_step ins del) ops s) = fold (ref_reject cap mk allowed) ops (entry s)"
  by (induction ops arbitrary: s) (simp_all add: step_refines)

end

locale replacing_table = bounded_table +
  assumes ins_present: "inv s \<Longrightarrow> storable k a \<Longrightarrow> entry s k = Some v \<Longrightarrow>
    \<exists>s'. ins k a s = Some s' \<and> inv s' \<and> entry s' = (entry s)(k \<mapsto> mk k a)"
begin

lemma step_refines:
  assumes "inv s" "op_ok storable op"
  shows "inv (table_step ins del op s) \<and>
    entry (table_step ins del op s) = ref_replace cap mk allowed op (entry s)"
proof (cases op)
  case (Put k a)
  show ?thesis
  proof (cases "entry s k")
    case None
    with Put assms fresh_step [of s k a] show ?thesis by (auto simp: ref_replace_def domIff)
  next
    case (Some v)
    with Put assms ins_present [of s k a v] show ?thesis
      by (auto simp: ref_replace_def table_step_def domIff)
  qed
next
  case (Del k)
  with del_step [OF assms(1)] show ?thesis by (simp add: ref_replace_def)
qed

lemma history_refines:
  "inv s \<Longrightarrow> list_all (op_ok storable) ops \<Longrightarrow> inv (fold (table_step ins del) ops s) \<and>
     entry (fold (table_step ins del) ops s) = fold (ref_replace cap mk allowed) ops (entry s)"
  by (induction ops arbitrary: s) (simp_all add: step_refines)

end

end
