(* ===== verification/Core_Inflight.thy ===== *)
theory Core_Inflight
  imports Keyed_Table Packet_Types
begin

text \<open>
  \<open>mqtt-core/src/inflight.rs\<close>: the bounded queue of unacknowledged messages with its
  collision check. The queue is shown to be a finite map from packet identifiers, and the
  contract \<open>rejecting_table\<close> is interpreted on its operations.
\<close>

datatype core_inflight_status = Sent | PubRelSent | Acknowledged

record core_inflight_entry =
  cie_packet_id :: u16
  cie_qos :: qos
  cie_status :: core_inflight_status
  cie_retries :: byte

record core_inflight_queue =
  ciq_entries :: "core_inflight_entry list"
  ciq_last_acked_id :: "u16 option"

definition core_inflight_new :: core_inflight_queue where
  "core_inflight_new = \<lparr>ciq_entries = [], ciq_last_acked_id = None\<rparr>"

definition core_is_full :: "nat \<Rightarrow> core_inflight_queue \<Rightarrow> bool" where
  "core_is_full N q \<longleftrightarrow> length (ciq_entries q) = N"

definition core_is_empty :: "core_inflight_queue \<Rightarrow> bool" where
  "core_is_empty q \<longleftrightarrow> ciq_entries q = []"

definition core_len :: "core_inflight_queue \<Rightarrow> nat" where
  "core_len q = length (ciq_entries q)"

definition has_collision :: "u16 \<Rightarrow> core_inflight_queue \<Rightarrow> bool" where
  "has_collision packet_id q \<longleftrightarrow>
     list_ex (\<lambda>e. cie_packet_id e = packet_id \<and> cie_status e \<noteq> Acknowledged) (ciq_entries q)"

definition core_push ::
  "nat \<Rightarrow> u16 \<Rightarrow> qos \<Rightarrow> core_inflight_queue \<Rightarrow> (u16, unit) outcome \<times> core_inflight_queue" where
  "core_push N packet_id q s =
     (if has_collision packet_id s then (Err packet_id, s)
      else case vec_push N (ciq_entries s)
          \<lparr>cie_packet_id = packet_id, cie_qos = q, cie_status = Sent, cie_retries = 0\<rparr> of
        Some es \<Rightarrow> (Ok (), s\<lparr>ciq_entries := es\<rparr>)
      | None \<Rightarrow> (Err packet_id, s))"

definition core_acknowledge :: "u16 \<Rightarrow> core_inflight_queue \<Rightarrow> bool \<times> core_inflight_queue" where
  "core_acknowledge packet_id s =
     (case position (\<lambda>e. cie_packet_id e = packet_id) (ciq_entries s) of
        Some pos \<Rightarrow> (True, s\<lparr>ciq_entries := swap_remove pos (ciq_entries s),
                            ciq_last_acked_id := Some packet_id\<rparr>)
      | None \<Rightarrow> (False, s))"

definition core_mark_pubrel_sent :: "u16 \<Rightarrow> core_inflight_queue \<Rightarrow> bool \<times> core_inflight_queue" where
  "core_mark_pubrel_sent packet_id s =
     (if list_ex (\<lambda>e. cie_packet_id e = packet_id) (ciq_entries s)
      then (True, s\<lparr>ciq_entries := update_first (\<lambda>e. cie_packet_id e = packet_id)
                     (\<lambda>e. e\<lparr>cie_status := PubRelSent\<rparr>) (ciq_entries s)\<rparr>)
      else (False, s))"

definition core_last_acked_id :: "core_inflight_queue \<Rightarrow> u16 option" where
  "core_last_acked_id q = ciq_last_acked_id q"

definition core_iter_unacked :: "core_inflight_queue \<Rightarrow> core_inflight_entry list" where
  "core_iter_unacked q = filter (\<lambda>e. cie_status e \<noteq> Acknowledged) (ciq_entries q)"

definition core_clear :: "core_inflight_queue \<Rightarrow> core_inflight_queue" where
  "core_clear q = q\<lparr>ciq_entries := [], ciq_last_acked_id := None\<rparr>"

subsection \<open>Invariant and abstraction\<close>

definition core_inv :: "nat \<Rightarrow> core_inflight_queue \<Rightarrow> bool" where
  "core_inv N q \<longleftrightarrow> distinct (map cie_packet_id (ciq_entries q)) \<and> length (ciq_entries q) \<le> N \<and>
     (\<forall>e \<in> set (ciq_entries q). cie_status e \<noteq> Acknowledged)"

definition core_entry :: "core_inflight_queue \<Rightarrow> u16 \<rightharpoonup> core_inflight_entry" where
  "core_entry q = table_of cie_packet_id id (ciq_entries q)"

lemma core_inv_new [simp]: "core_inv N core_inflight_new"
  by (simp add: core_inv_def core_inflight_new_def)

lemma core_inv_clear [simp]: "core_inv N (core_clear q)"
  by (simp add: core_inv_def core_clear_def)

lemma core_entry_None: "core_entry q k = None \<longleftrightarrow> k \<notin> cie_packet_id ` set (ciq_entries q)"
  by (simp add: core_entry_def table_of_None)

lemma has_collision_iff: "core_inv N q \<Longrightarrow> has_collision k q \<longleftrightarrow> core_entry q k \<noteq> None"
  by (auto simp: has_collision_def core_entry_None list_ex_iff core_inv_def)

lemma core_entry_Some:
  "core_inv N q \<Longrightarrow> core_entry q k = Some e \<longleftrightarrow> e \<in> set (ciq_entries q) \<and> cie_packet_id e = k"
  by (auto simp: core_inv_def core_entry_def table_of_Some)

lemma core_push_present: "core_inv N q \<Longrightarrow> core_entry q k = Some e \<Longrightarrow> core_push N k qs q = (Err k, q)"
  using has_collision_iff [of N q k] by (simp add: core_push_def)

lemma core_push_fresh:
  assumes "core_inv N q" "core_entry q k = None" "length (ciq_entries q) < N"
    and e_def: "e = \<lparr>cie_packet_id = k, cie_qos = qs, cie_status = Sent, cie_retries = 0\<rparr>"
  shows "core_push N k qs q = (Ok (), q\<lparr>ciq_entries := ciq_entries q @ [e]\<rparr>)"
    and "core_inv N (q\<lparr>ciq_entries := ciq_entries q @ [e]\<rparr>)"
    and "core_entry (q\<lparr>ciq_entries := ciq_entries q @ [e]\<rparr>) = (core_entry q)(k \<mapsto> e)"
proof -
  have k: "k \<notin> cie_packet_id ` set (ciq_entries q)" using assms(2) by (simp only: core_entry_None not_False_eq_True)
  show "core_push N k qs q = (Ok (), q\<lparr>ciq_entries := ciq_entries q @ [e]\<rparr>)"
    using assms(1-3) has_collision_iff [OF assms(1), of k] by (simp add: core_push_def vec_push_def e_def)
  show "core_inv N (q\<lparr>ciq_entries := ciq_entries q @ [e]\<rparr>)"
    using assms(1,3) k by (auto simp: core_inv_def e_def)
  show "core_entry (q\<lparr>ciq_entries := ciq_entries q @ [e]\<rparr>) = (core_entry q)(k \<mapsto> e)"
    using k by (simp add: core_entry_def table_of_append e_def)
qed

lemma core_push_full:
  "core_inv N q \<Longrightarrow> N \<le> length (ciq_entries q) \<Longrightarrow> core_push N k qs q = (Err k, q)"
  by (simp add: core_push_def vec_push_def)

lemma core_card: "core_inv N q \<Longrightarrow> card (dom (core_entry q)) = length (ciq_entries q)"
  by (simp add: core_inv_def core_entry_def card_dom_table_of)

lemma core_acknowledge_present:
  assumes inv: "core_inv N q" and k: "core_entry q k = Some e"
  obtains q' where "core_acknowledge k q = (True, q')" "core_inv N q'"
    "core_entry q' = (core_entry q)(k := None)" "ciq_last_acked_id q' = Some k"
proof -
  from k inv have "\<exists>e \<in> set (ciq_entries q). cie_packet_id e = k" by (auto simp: core_entry_Some)
  then obtain i where i: "position (\<lambda>e. cie_packet_id e = k) (ciq_entries q) = Some i"
    by (cases "position (\<lambda>e. cie_packet_id e = k) (ciq_entries q)") (auto simp: position_None)
  from position_Some [OF i] have il: "i < length (ciq_entries q)" "cie_packet_id (ciq_entries q ! i) = k"
    by simp_all
  let ?q = "q\<lparr>ciq_entries := swap_remove i (ciq_entries q), ciq_last_acked_id := Some k\<rparr>"
  have d: "distinct (map cie_packet_id (ciq_entries q))" using inv by (simp add: core_inv_def)
  show thesis
  proof (rule that [of ?q])
    show "core_acknowledge k q = (True, ?q)" by (simp add: core_acknowledge_def i)
    show "core_inv N ?q"
      using inv distinct_map_swap_remove [OF il(1) d] set_swap_remove_subset [OF il(1)]
      by (auto simp: core_inv_def)
    show "core_entry ?q = (core_entry q)(k := None)"
      using table_of_swap_remove [OF d il(1), of id] il(2) by (simp add: core_entry_def)
  qed simp
qed

lemma core_acknowledge_absent: "core_entry q k = None \<Longrightarrow> core_acknowledge k q = (False, q)"
  by (auto simp: core_acknowledge_def core_entry_None position_None image_iff split: option.splits
      dest!: position_Some)

lemma core_mark_present:
  assumes inv: "core_inv N q" and k: "core_entry q k = Some e"
  shows "fst (core_mark_pubrel_sent k q)" "core_inv N (snd (core_mark_pubrel_sent k q))"
    "core_entry (snd (core_mark_pubrel_sent k q)) = (core_entry q)(k \<mapsto> e\<lparr>cie_status := PubRelSent\<rparr>)"
proof -
  let ?f = "\<lambda>e. e\<lparr>cie_status := PubRelSent\<rparr>"
  have e: "e \<in> set (ciq_entries q)" "cie_packet_id e = k"
    using k inv by (simp_all add: core_entry_Some)
  have d: "distinct (map cie_packet_id (ciq_entries q))" using inv by (simp add: core_inv_def)
  have m: "core_mark_pubrel_sent k q =
      (True, q\<lparr>ciq_entries := update_first (\<lambda>e. cie_packet_id e = k) ?f (ciq_entries q)\<rparr>)"
    using e by (auto simp: core_mark_pubrel_sent_def list_ex_iff)
  then show "fst (core_mark_pubrel_sent k q)" by simp
  have "set (update_first (\<lambda>e. cie_packet_id e = k) ?f (ciq_entries q)) = insert (?f e) (set (ciq_entries q) - {e})"
    using e by (intro set_update_first [where g = cie_packet_id, OF d]) simp_all
  with inv m show "core_inv N (snd (core_mark_pubrel_sent k q))"
    by (auto simp: core_inv_def map_update_first)
  show "core_entry (snd (core_mark_pubrel_sent k q)) = (core_entry q)(k \<mapsto> ?f e)"
    using table_of_update_first [of cie_packet_id "ciq_entries q" e "\<lambda>e. cie_packet_id e = k" ?f id] d e
    by (simp add: m core_entry_def)
qed

lemma core_mark_absent: "core_entry q k = None \<Longrightarrow> core_mark_pubrel_sent k q = (False, q)"
  by (auto simp: core_mark_pubrel_sent_def core_entry_None list_ex_iff)

subsection \<open>The contract\<close>

definition core_insert :: "nat \<Rightarrow> u16 \<Rightarrow> qos \<Rightarrow> core_inflight_queue \<Rightarrow> core_inflight_queue option" where
  "core_insert N k q s = (case core_push N k q s of (Ok _, s') \<Rightarrow> Some s' | _ \<Rightarrow> None)"

definition core_delete :: "u16 \<Rightarrow> core_inflight_queue \<Rightarrow> core_inflight_queue option" where
  "core_delete k s = (case core_acknowledge k s of (True, s') \<Rightarrow> Some s' | (False, _) \<Rightarrow> None)"

definition core_mk :: "u16 \<Rightarrow> qos \<Rightarrow> core_inflight_entry" where
  "core_mk k q = \<lparr>cie_packet_id = k, cie_qos = q, cie_status = Sent, cie_retries = 0\<rparr>"

lemma core_insert_fresh:
  assumes s: "core_inv N s" "core_entry s k = None"
  shows "if length (ciq_entries s) < N
     then \<exists>s'. core_insert N k q s = Some s' \<and> core_inv N s' \<and> core_entry s' = (core_entry s)(k \<mapsto> core_mk k q)
     else core_insert N k q s = None"
proof (cases "length (ciq_entries s) < N")
  case True
  from core_push_fresh [OF s True core_mk_def [of k q]] True show ?thesis
    by (simp add: core_insert_def)
next
  case False
  with core_push_full [OF s(1), of k q] show ?thesis by (simp add: core_insert_def)
qed

interpretation core_table: rejecting_table "core_inv N" core_entry N "\<lambda>_ _. True" core_mk
  "\<lambda>_. True" "core_insert N" core_delete for N
proof unfold_locales
  fix s assume "core_inv N s"
  then show "finite (dom (core_entry s)) \<and> card (dom (core_entry s)) \<le> N"
    by (simp add: core_card) (simp add: core_inv_def core_entry_def)
next
  fix s k q assume s: "core_inv N s" "core_entry s k = None"
  show "if card (dom (core_entry s)) < N
        then \<exists>s'. core_insert N k q s = Some s' \<and> core_inv N s' \<and> core_entry s' = (core_entry s)(k \<mapsto> core_mk k q)
        else core_insert N k q s = None"
    using core_insert_fresh [OF s] by (simp only: core_card [OF s(1)])
next
  fix s k v assume "core_inv N s" "core_entry s k = Some v"
  then show "\<exists>s'. core_delete k s = Some s' \<and> core_inv N s' \<and> core_entry s' = (core_entry s)(k := None)"
    by (rule core_acknowledge_present) (simp add: core_delete_def)
next
  fix s k assume "core_inv N s" "\<forall>v. core_entry s k = Some v \<longrightarrow> \<not> True"
  then show "core_delete k s = None"
    by (cases "core_entry s k") (simp_all add: core_delete_def core_acknowledge_absent)
next
  fix s k q v assume "core_inv N s" "core_entry s k = Some v"
  then show "core_insert N k q s = None" by (simp add: core_insert_def core_push_present)
qed

end
