(* ===== verification/Mem_Store.thy ===== *)
theory Mem_Store
  imports Keyed_Table
begin

text \<open>
  \<open>mqtt-storage/src/mem.rs\<close>: the in-memory key-value store, two parallel vectors of keys and
  values. The three const parameters are the arguments \<open>max_entries\<close>, \<open>max_key\<close>, \<open>max_val\<close>.
  \<open>let _ = self.keys.push(k)\<close> discards the result of the push, as \<open>push_or_keep\<close> does.
\<close>

datatype mem_storage_error = KeyNotFound | CapacityFull | MemBufferTooSmall

record mem_store =
  ms_keys :: "bytes list"
  ms_values :: "bytes list"

definition mem_new :: mem_store where
  "mem_new = \<lparr>ms_keys = [], ms_values = []\<rparr>"

definition mem_persist ::
  "nat \<Rightarrow> nat \<Rightarrow> nat \<Rightarrow> bytes \<Rightarrow> bytes \<Rightarrow> mem_store \<Rightarrow> (mem_storage_error, unit) outcome \<times> mem_store" where
  "mem_persist max_entries max_key max_val key value s =
     (if max_key < length key then (Err MemBufferTooSmall, s)
      else if max_val < length value then (Err MemBufferTooSmall, s)
      else case position (\<lambda>entry. entry = key) (ms_keys s) of
        Some idx \<Rightarrow>
          (if idx < length (ms_values s)
           then (Ok (), s\<lparr>ms_values := (ms_values s)[idx := value]\<rparr>) else (Panic, s))
      | None \<Rightarrow>
          (if length (ms_keys s) = max_entries then (Err CapacityFull, s)
           else (Ok (), s\<lparr>ms_keys := push_or_keep max_entries (ms_keys s) key,
                         ms_values := push_or_keep max_entries (ms_values s) value\<rparr>)))"

definition mem_load ::
  "bytes \<Rightarrow> bytes \<Rightarrow> mem_store \<Rightarrow> (mem_storage_error, nat option) outcome \<times> bytes" where
  "mem_load key out_buf s =
     (case position (\<lambda>entry. entry = key) (ms_keys s) of
        Some idx \<Rightarrow>
          (if idx < length (ms_values s) then
             let val = ms_values s ! idx in
             if length out_buf < length val then (Err MemBufferTooSmall, out_buf)
             else (Ok (Some (length val)), overwrite 0 val out_buf)
           else (Panic, out_buf))
      | None \<Rightarrow> (Ok None, out_buf))"

definition mem_remove :: "bytes \<Rightarrow> mem_store \<Rightarrow> (mem_storage_error, unit) outcome \<times> mem_store" where
  "mem_remove key s =
     (case position (\<lambda>entry. entry = key) (ms_keys s) of
        Some idx \<Rightarrow>
          (if idx < length (ms_values s)
           then (Ok (), s\<lparr>ms_keys := swap_remove idx (ms_keys s),
                         ms_values := swap_remove idx (ms_values s)\<rparr>)
           else (Panic, s\<lparr>ms_keys := swap_remove idx (ms_keys s)\<rparr>))
      | None \<Rightarrow> (Err KeyNotFound, s))"

definition mem_clear :: "mem_store \<Rightarrow> mem_store" where
  "mem_clear s = s\<lparr>ms_keys := [], ms_values := []\<rparr>"

subsection \<open>Invariant and abstraction\<close>

definition mem_inv :: "nat \<Rightarrow> mem_store \<Rightarrow> bool" where
  "mem_inv max_entries s \<longleftrightarrow> distinct (ms_keys s) \<and> length (ms_keys s) \<le> max_entries \<and>
     length (ms_values s) = length (ms_keys s)"

definition mem_entry :: "mem_store \<Rightarrow> bytes \<rightharpoonup> bytes" where
  "mem_entry s = map_of (zip (ms_keys s) (ms_values s))"

lemma mem_inv_new [simp]: "mem_inv n mem_new" "mem_inv n (mem_clear s)"
  by (simp_all add: mem_inv_def mem_new_def mem_clear_def)

lemma mem_entry_new [simp]: "mem_entry mem_new = Map.empty" "mem_entry (mem_clear s) = Map.empty"
  by (simp_all add: mem_entry_def mem_new_def mem_clear_def)

lemma dom_mem_entry: "mem_inv n s \<Longrightarrow> dom (mem_entry s) = set (ms_keys s)"
  by (simp add: mem_inv_def mem_entry_def)

lemma card_mem_entry: "mem_inv n s \<Longrightarrow> card (dom (mem_entry s)) = length (ms_keys s)"
  by (simp add: dom_mem_entry) (simp add: mem_inv_def distinct_card)

lemma mem_entry_None: "mem_inv n s \<Longrightarrow> mem_entry s k = None \<longleftrightarrow> k \<notin> set (ms_keys s)"
  using dom_mem_entry [of n s] by (auto simp: domIff)

lemma mem_entry_nth:
  "mem_inv n s \<Longrightarrow> i < length (ms_keys s) \<Longrightarrow> mem_entry s (ms_keys s ! i) = Some (ms_values s ! i)"
  by (simp add: mem_inv_def mem_entry_def map_of_zip_nth)

lemma mem_position:
  assumes "mem_inv n s" "mem_entry s k = Some v"
  obtains i where "position (\<lambda>e. e = k) (ms_keys s) = Some i" "i < length (ms_keys s)"
    "ms_keys s ! i = k" "ms_values s ! i = v" "i < length (ms_values s)"
proof -
  from assms have "k \<in> set (ms_keys s)" using mem_entry_None [of n s k] by auto
  then obtain i where i: "position (\<lambda>e. e = k) (ms_keys s) = Some i"
    by (cases "position (\<lambda>e. e = k) (ms_keys s)") (auto simp: position_None)
  from position_Some [OF i] have "i < length (ms_keys s)" "ms_keys s ! i = k" by simp_all
  with i mem_entry_nth [OF assms(1), of i] assms that show thesis by (simp add: mem_inv_def)
qed

lemma mem_position_None: "mem_inv n s \<Longrightarrow> mem_entry s k = None \<Longrightarrow> position (\<lambda>e. e = k) (ms_keys s) = None"
  by (auto simp: mem_entry_None position_None)

lemma map_of_zip_update:
  assumes "distinct ks" "length vs = length ks" "i < length ks"
  shows "map_of (zip ks (vs[i := v])) = (map_of (zip ks vs))(ks ! i \<mapsto> v)"
  using assms
proof (induction ks arbitrary: vs i)
  case (Cons k ks)
  from Cons.prems(2) obtain w ws where vs: "vs = w # ws" "length ws = length ks" by (cases vs) auto
  show ?case
  proof (cases i)
    case (Suc j)
    with Cons.prems vs have "j < length ks" "k \<noteq> ks ! j" by auto
    with Cons.IH [of ws j] Cons.prems(1) vs Suc show ?thesis by (auto simp: fun_eq_iff)
  qed (auto simp: vs fun_eq_iff)
qed simp

lemma zip_swap_remove:
  assumes "length xs = length ys" "i < length xs"
  shows "zip (swap_remove i xs) (swap_remove i ys) = swap_remove i (zip xs ys)"
proof -
  have ne: "xs \<noteq> []" "ys \<noteq> []" using assms by auto
  then have "last (zip xs ys) = (last xs, last ys)"
    using assms(1) by (simp add: last_conv_nth)
  then show ?thesis
    using assms by (simp add: swap_remove_def butlast_conv_take take_zip [symmetric] zip_update)
qed

lemma mem_remove_present:
  assumes inv: "mem_inv n s" and k: "mem_entry s k = Some v"
  shows "fst (mem_remove k s) = Ok () \<and> mem_inv n (snd (mem_remove k s)) \<and>
    mem_entry (snd (mem_remove k s)) = (mem_entry s)(k := None)"
proof (rule mem_position [OF inv k])
  fix i assume i: "position (\<lambda>e. e = k) (ms_keys s) = Some i" "i < length (ms_keys s)"
    "ms_keys s ! i = k" "ms_values s ! i = v" "i < length (ms_values s)"
  let ?z = "zip (ms_keys s) (ms_values s)"
  have len: "length (ms_keys s) = length (ms_values s)" "distinct (ms_keys s)"
    using inv by (simp_all add: mem_inv_def)
  have rm: "mem_remove k s = (Ok (), s\<lparr>ms_keys := swap_remove i (ms_keys s),
      ms_values := swap_remove i (ms_values s)\<rparr>)"
    using i by (simp add: mem_remove_def)
  have "map_of (swap_remove i ?z) = (map_of ?z)(fst (?z ! i) := None)"
    using table_of_swap_remove [of fst ?z i snd] len i(2) by (simp add: table_of_def)
  then have "mem_entry (snd (mem_remove k s)) = (mem_entry s)(k := None)"
    using len i(2,3) by (simp add: rm mem_entry_def zip_swap_remove)
  moreover have "distinct (swap_remove i (ms_keys s))"
    using distinct_map_swap_remove [of i "ms_keys s" id] i(2) len(2) by simp
  ultimately show ?thesis using inv rm by (auto simp: mem_inv_def)
qed

lemma mem_remove_absent: "mem_inv n s \<Longrightarrow> mem_entry s k = None \<Longrightarrow> mem_remove k s = (Err KeyNotFound, s)"
  by (simp add: mem_remove_def mem_position_None)

lemma mem_persist_present:
  assumes inv: "mem_inv n s" and k: "mem_entry s k = Some w" and len: "length k \<le> mk" "length v \<le> mv"
  shows "fst (mem_persist n mk mv k v s) = Ok () \<and> mem_inv n (snd (mem_persist n mk mv k v s)) \<and>
    mem_entry (snd (mem_persist n mk mv k v s)) = (mem_entry s)(k \<mapsto> v)"
proof (rule mem_position [OF inv k])
  fix i assume i: "position (\<lambda>e. e = k) (ms_keys s) = Some i" "i < length (ms_keys s)"
    "ms_keys s ! i = k" "ms_values s ! i = w" "i < length (ms_values s)"
  have "mem_persist n mk mv k v s = (Ok (), s\<lparr>ms_values := (ms_values s)[i := v]\<rparr>)"
    using i len by (simp add: mem_persist_def)
  with inv i show ?thesis
    by (simp add: mem_inv_def mem_entry_def map_of_zip_update)
qed

lemma mem_persist_fresh:
  assumes inv: "mem_inv n s" and k: "mem_entry s k = None" and len: "length k \<le> mk" "length v \<le> mv"
  shows "if length (ms_keys s) < n
    then fst (mem_persist n mk mv k v s) = Ok () \<and> mem_inv n (snd (mem_persist n mk mv k v s)) \<and>
      mem_entry (snd (mem_persist n mk mv k v s)) = (mem_entry s)(k \<mapsto> v)
    else mem_persist n mk mv k v s = (Err CapacityFull, s)"
proof (cases "length (ms_keys s) < n")
  case True
  have lv: "length (ms_values s) = length (ms_keys s)" using inv by (simp add: mem_inv_def)
  have kn: "k \<notin> set (ms_keys s)" using inv k by (simp add: mem_entry_None)
  have p: "mem_persist n mk mv k v s =
      (Ok (), s\<lparr>ms_keys := ms_keys s @ [k], ms_values := ms_values s @ [v]\<rparr>)"
    using True len lv mem_position_None [OF inv k]
    by (simp add: mem_persist_def push_or_keep_def vec_push_def)
  have "map_of (zip (ms_keys s) (ms_values s)) k = None" using k by (simp add: mem_entry_def)
  then have "map_of (zip (ms_keys s @ [k]) (ms_values s @ [v])) = (mem_entry s)(k \<mapsto> v)"
    using lv by (simp add: mem_entry_def map_add_upd_left domIff)
  with p inv kn True show ?thesis by (simp add: mem_inv_def mem_entry_def)
next
  case False
  then have "length (ms_keys s) = n" using inv by (simp add: mem_inv_def)
  with False len mem_position_None [OF inv k] show ?thesis by (simp add: mem_persist_def)
qed

subsection \<open>The contract\<close>

definition mem_insert :: "nat \<Rightarrow> nat \<Rightarrow> nat \<Rightarrow> bytes \<Rightarrow> bytes \<Rightarrow> mem_store \<Rightarrow> mem_store option" where
  "mem_insert n mk mv k v s = (case mem_persist n mk mv k v s of (Ok _, s') \<Rightarrow> Some s' | _ \<Rightarrow> None)"

definition mem_delete :: "bytes \<Rightarrow> mem_store \<Rightarrow> mem_store option" where
  "mem_delete k s = (case mem_remove k s of (Ok _, s') \<Rightarrow> Some s' | _ \<Rightarrow> None)"

lemma mem_insert_Ok: "fst (mem_persist n mk mv k v s) = Ok () \<Longrightarrow>
    mem_insert n mk mv k v s = Some (snd (mem_persist n mk mv k v s))"
  by (cases "mem_persist n mk mv k v s") (simp add: mem_insert_def)

lemma mem_delete_Ok: "fst (mem_remove k s) = Ok () \<Longrightarrow> mem_delete k s = Some (snd (mem_remove k s))"
  by (cases "mem_remove k s") (simp add: mem_delete_def)

interpretation mem_table: replacing_table "mem_inv n" mem_entry n
  "\<lambda>k v. length k \<le> mk \<and> length v \<le> mv" "\<lambda>_ v. v" "\<lambda>_. True" "mem_insert n mk mv" mem_delete for n mk mv
proof unfold_locales
  fix s assume "mem_inv n s"
  then show "finite (dom (mem_entry s)) \<and> card (dom (mem_entry s)) \<le> n"
    by (simp add: card_mem_entry) (simp add: mem_inv_def mem_entry_def finite_dom_map_of)
next
  fix s k and v :: bytes assume s: "mem_inv n s" "length k \<le> mk \<and> length v \<le> mv" "mem_entry s k = None"
  show "if card (dom (mem_entry s)) < n
    then \<exists>s'. mem_insert n mk mv k v s = Some s' \<and> mem_inv n s' \<and> mem_entry s' = (mem_entry s)(k \<mapsto> v)
    else mem_insert n mk mv k v s = None"
    using mem_persist_fresh [OF s(1,3)] s(2) mem_insert_Ok [of n mk mv k v s]
    by (cases "length (ms_keys s) < n") (simp_all add: card_mem_entry [OF s(1)] mem_insert_def)
next
  fix s k v assume "mem_inv n s" "mem_entry s k = Some v"
  from mem_remove_present [OF this]
  show "\<exists>s'. mem_delete k s = Some s' \<and> mem_inv n s' \<and> mem_entry s' = (mem_entry s)(k := None)"
    by (simp add: mem_delete_Ok)
next
  fix s k assume "mem_inv n s" "\<forall>v. mem_entry s k = Some v \<longrightarrow> \<not> True"
  then show "mem_delete k s = None"
    by (cases "mem_entry s k") (simp_all add: mem_delete_def mem_remove_absent)
next
  fix s k and v w :: bytes assume "mem_inv n s" "length k \<le> mk \<and> length v \<le> mv" "mem_entry s k = Some w"
  with mem_persist_present [of n s k w mk v mv]
  show "\<exists>s'. mem_insert n mk mv k v s = Some s' \<and> mem_inv n s' \<and> mem_entry s' = (mem_entry s)(k \<mapsto> v)"
    by (simp add: mem_insert_Ok)
qed

end
