(* ===== verification/Emb_Error.thy ===== *)
theory Emb_Error
  imports Packet_Types
begin

text \<open>
  \<open>mqtt-embedded/src/error.rs\<close>: the error type of the embedded client and its conversions.
\<close>

datatype protocol_error =
    P_InvalidPacketType byte | InvalidResponse | P_MalformedPacket | P_IncompletePacket
  | P_PayloadTooLarge | P_InvalidUtf8String | P_TooManyProperties | InvalidTopic | P_UnsupportedQoS

datatype connect_reason_code =
    RC_Success | RC_UnacceptableProtocolVersion | RC_IdentifierRejected | RC_ServerUnavailable
  | RC_BadUserNameOrPassword | RC_NotAuthorized | RC_Other byte

definition connect_reason_code_from :: "byte \<Rightarrow> connect_reason_code" where
  "connect_reason_code_from val =
     (if val = 0 then RC_Success
      else if val = 1 then RC_UnacceptableProtocolVersion
      else if val = 2 then RC_IdentifierRejected
      else if val = 3 then RC_ServerUnavailable
      else if val = 4 then RC_BadUserNameOrPassword
      else if val = 5 then RC_NotAuthorized
      else RC_Other val)"

datatype quic_error_kind =
    StreamClosed | StreamReset u32 | ConnectionLost | DatagramTooLarge | UnsupportedOperation

datatype 't mqtt_error =
    Transport 't
  | Protocol protocol_error
  | ConnectionRefused connect_reason_code
  | NotConnected
  | ME_BufferTooSmall
  | Timeout
  | ME_BatchCapacityExceeded
  | InflightQueueFull
  | QuicError quic_error_kind

text \<open>\<open>impl From<PacketError> for MqttError<T>\<close>, what \<open>?\<close> applies to codec errors.\<close>

fun mqtt_error_from :: "packet_error \<Rightarrow> 't mqtt_error" where
  "mqtt_error_from BufferTooSmall = ME_BufferTooSmall"
| "mqtt_error_from IncompletePacket = Protocol P_IncompletePacket"
| "mqtt_error_from MalformedPacket = Protocol P_MalformedPacket"
| "mqtt_error_from (InvalidPacketType t) = Protocol (P_InvalidPacketType t)"
| "mqtt_error_from InvalidUtf8String = Protocol P_InvalidUtf8String"
| "mqtt_error_from TooManyProperties = Protocol P_TooManyProperties"
| "mqtt_error_from BatchCapacityExceeded = ME_BatchCapacityExceeded"
| "mqtt_error_from PayloadTooLarge = Protocol P_PayloadTooLarge"
| "mqtt_error_from UnsupportedQoS = Protocol P_UnsupportedQoS"

fun cast_transport_error :: "'e mqtt_error \<Rightarrow> 't mqtt_error" where
  "cast_transport_error (Protocol p) = Protocol p"
| "cast_transport_error (ConnectionRefused c) = ConnectionRefused c"
| "cast_transport_error NotConnected = NotConnected"
| "cast_transport_error ME_BufferTooSmall = ME_BufferTooSmall"
| "cast_transport_error Timeout = Timeout"
| "cast_transport_error ME_BatchCapacityExceeded = ME_BatchCapacityExceeded"
| "cast_transport_error InflightQueueFull = InflightQueueFull"
| "cast_transport_error (QuicError q) = QuicError q"
| "cast_transport_error (Transport _) = Protocol P_MalformedPacket"

lemma mqtt_error_from_eq [simp]: "mqtt_error_from a = mqtt_error_from b \<longleftrightarrow> a = b"
  by (cases a; cases b) simp_all

lemma mqtt_error_from_not_transport [simp]:
  "mqtt_error_from e \<noteq> Transport t" "mqtt_error_from e \<noteq> NotConnected" "mqtt_error_from e \<noteq> Timeout"
  by (cases e; simp)+

lemma connect_reason_code_from_Success [simp]: "connect_reason_code_from c = RC_Success \<longleftrightarrow> c = 0"
  by (simp add: connect_reason_code_from_def)

end
