(* ===== verification/Emb_Inflight.thy ===== *)
theory Emb_Inflight
  imports Keyed_Table Emb_Error
begin

text \<open>
  \<open>mqtt-embedded/src/inflight.rs\<close>: the table of unacknowledged QoS 1 and QoS 2 messages with
  the handlers of the four acknowledgements. The contract \<open>bounded_table\<close> is interpreted
  once for every handler that removes an entry; each removes only entries in its own status.
\<close>

datatype inflight_status = AwaitingPubAck | AwaitingPubRec | AwaitingPubComp | AwaitingPubRel

record inflight_entry =
  ie_packet_id :: u16
  ie_qos :: qos
  ie_status :: inflight_status

record inflight_queue =
  iq_entries :: "inflight_entry list"

definition inflight_new :: inflight_queue where
  "inflight_new = \<lparr>iq_entries = []\<rparr>"

definition set_status :: "inflight_status \<Rightarrow> inflight_entry \<Rightarrow> inflight_entry" where
  "set_status st e = e\<lparr>ie_status := st\<rparr>"

text \<open>\<open>find\<close> and the update of the entry found, else \<open>push\<close>: the common part of the two
  \<open>track_\<dots>\<close> functions.\<close>

definition track_entry ::
  "nat \<Rightarrow> u16 \<Rightarrow> qos \<Rightarrow> inflight_status \<Rightarrow> inflight_queue \<Rightarrow> ('t mqtt_error, unit) outcome \<times> inflight_queue" where
  "track_entry N packet_id q status s =
     (if list_ex (\<lambda>e. ie_packet_id e = packet_id) (iq_entries s)
      then (Ok (), s\<lparr>iq_entries := update_first (\<lambda>e. ie_packet_id e = packet_id)
                     (set_status status) (iq_entries s)\<rparr>)
      else case vec_push N (iq_entries s)
          \<lparr>ie_packet_id = packet_id, ie_qos = q, ie_status = status\<rparr> of
        Some es \<Rightarrow> (Ok (), s\<lparr>iq_entries := es\<rparr>)
      | None \<Rightarrow> (Err InflightQueueFull, s))"

definition track_outbound ::
  "nat \<Rightarrow> u16 \<Rightarrow> qos \<Rightarrow> inflight_queue \<Rightarrow> ('t mqtt_error, unit) outcome \<times> inflight_queue" where
  "track_outbound N packet_id q s =
     (case q of
        AtLeastOnce \<Rightarrow> track_entry N packet_id q AwaitingPubAck s
      | ExactlyOnce \<Rightarrow> track_entry N packet_id q AwaitingPubRec s
      | AtMostOnce \<Rightarrow> (Ok (), s))"

definition track_inbound_qos2 ::
  "nat \<Rightarrow> u16 \<Rightarrow> inflight_queue \<Rightarrow> ('t mqtt_error, unit) outcome \<times> inflight_queue" where
  "track_inbound_qos2 N packet_id s = track_entry N packet_id ExactlyOnce AwaitingPubRel s"

text \<open>\<open>position\<close> and \<open>swap_remove\<close>: the common part of the three handlers that remove.\<close>

definition release :: "inflight_status \<Rightarrow> u16 \<Rightarrow> inflight_queue \<Rightarrow> bool \<times> inflight_queue" where
  "release status packet_id s =
     (case position (\<lambda>e. ie_packet_id e = packet_id \<and> ie_status e = status) (iq_entries s) of
        Some idx \<Rightarrow> (True, s\<lparr>iq_entries := swap_remove idx (iq_entries s)\<rparr>)
      | None \<Rightarrow> (False, s))"

definition handle_puback :: "u16 \<Rightarrow> inflight_queue \<Rightarrow> bool \<times> inflight_queue" where
  "handle_puback = release AwaitingPubAck"

definition handle_pubrec :: "u16 \<Rightarrow> inflight_queue \<Rightarrow> bool \<times> inflight_queue" where
  "handle_pubrec packet_id s =
     (if list_ex (\<lambda>e. ie_packet_id e = packet_id \<and> ie_status e = AwaitingPubRec) (iq_entries s)
      then (True, s\<lparr>iq_entries :=
              update_first (\<lambda>e. ie_packet_id e = packet_id \<and> ie_status e = AwaitingPubRec)
                (set_status AwaitingPubComp) (iq_entries s)\<rparr>)
      else (False, s))"

definition handle_pubrel :: "u16 \<Rightarrow> inflight_queue \<Rightarrow> bool \<times> inflight_queue" where
  "handle_pubrel = release AwaitingPubRel"

definition handle_pubcomp :: "u16 \<Rightarrow> inflight_queue \<Rightarrow> bool \<times> inflight_queue" where
  "handle_pubcomp = release AwaitingPubComp"

definition inflight_clear :: "inflight_queue \<Rightarrow> inflight_queue" where
  "inflight_clear s = s\<lparr>iq_entries := []\<rparr>"

definition inflight_len :: "inflight_queue \<Rightarrow> nat" where
  "inflight_len s = length (iq_entries s)"

definition inflight_is_empty :: "inflight_queue \<Rightarrow> bool" where
  "inflight_is_empty s \<longleftrightarrow> iq_entries s = []"

subsection \<open>Invariant and abstraction\<close>

definition inflight_inv :: "nat \<Rightarrow> inflight_queue \<Rightarrow> bool" where
  "inflight_inv N q \<longleftrightarrow> distinct (map ie_packet_id (iq_entries q)) \<and> length (iq_entries q) \<le> N"

definition inflight_entry_of :: "inflight_queue \<Rightarrow> u16 \<rightharpoonup> inflight_entry" where
  "inflight_entry_of q = table_of ie_packet_id id (iq_entries q)"

lemma set_status_simps [simp]:
  "ie_packet_id (set_status st e) = ie_packet_id e" "ie_qos (set_status st e) = ie_qos e"
  "ie_status (set_status st e) = st"
  by (simp_all add: set_status_def)

lemma inflight_inv_new [simp]: "inflight_inv N inflight_new" "inflight_inv N (inflight_clear q)"
  by (simp_all add: inflight_inv_def inflight_new_def inflight_clear_def)

lemma inflight_entry_None: "inflight_entry_of q k = None \<longleftrightarrow> k \<notin> ie_packet_id ` set (iq_entries q)"
  by (simp add: inflight_entry_of_def table_of_None)

lemma inflight_entry_Some:
  "inflight_inv N q \<Longrightarrow> inflight_entry_of q k = Some e \<longleftrightarrow> e \<in> set (iq_entries q) \<and> ie_packet_id e = k"
  by (auto simp: inflight_inv_def inflight_entry_of_def table_of_Some)

lemma inflight_card: "inflight_inv N q \<Longrightarrow> card (dom (inflight_entry_of q)) = length (iq_entries q)"
  by (simp add: inflight_inv_def inflight_entry_of_def card_dom_table_of)

lemma list_ex_entry: "inflight_inv N q \<Longrightarrow>
    list_ex (\<lambda>e. ie_packet_id e = k \<and> P e) (iq_entries q) \<longleftrightarrow> (\<exists>e. inflight_entry_of q k = Some e \<and> P e)"
  by (auto simp: list_ex_iff inflight_entry_Some)

lemma update_present:
  assumes inv: "inflight_inv N q" and k: "inflight_entry_of q k = Some e" "P e"
    and q'_def: "q' = q\<lparr>iq_entries := update_first (\<lambda>e. ie_packet_id e = k \<and> P e) (set_status st) (iq_entries q)\<rparr>"
  shows "inflight_inv N q'" and "inflight_entry_of q' = (inflight_entry_of q)(k \<mapsto> set_status st e)"
proof -
  have e: "e \<in> set (iq_entries q)" "ie_packet_id e = k" using k inv by (simp_all add: inflight_entry_Some)
  show "inflight_inv N q'" using inv by (simp add: inflight_inv_def q'_def map_update_first)
  show "inflight_entry_of q' = (inflight_entry_of q)(k \<mapsto> set_status st e)"
    using table_of_update_first [of ie_packet_id "iq_entries q" e "\<lambda>e. ie_packet_id e = k \<and> P e" "set_status st" id]
      inv e k(2) by (simp add: inflight_inv_def q'_def inflight_entry_of_def)
qed

lemma track_present:
  assumes inv: "inflight_inv N q" and k: "inflight_entry_of q k = Some e"
  shows "\<exists>q'. track_entry N k qs st q = (Ok (), q') \<and> inflight_inv N q' \<and>
    inflight_entry_of q' = (inflight_entry_of q)(k \<mapsto> set_status st e)"
  using update_present [OF inv k, of "\<lambda>_. True" _ st, OF TrueI refl] list_ex_entry [OF inv, of k "\<lambda>_. True"] k
  by (simp add: track_entry_def)

lemma track_fresh:
  assumes inv: "inflight_inv N q" and k: "inflight_entry_of q k = None"
  shows "if length (iq_entries q) < N
    then fst (track_entry N k qs st q) = Ok () \<and> inflight_inv N (snd (track_entry N k qs st q)) \<and>
      inflight_entry_of (snd (track_entry N k qs st q)) =
        (inflight_entry_of q)(k \<mapsto> \<lparr>ie_packet_id = k, ie_qos = qs, ie_status = st\<rparr>)
    else track_entry N k qs st q = (Err InflightQueueFull, q)"
proof -
  have nk: "k \<notin> ie_packet_id ` set (iq_entries q)"
    using k by (simp only: inflight_entry_None not_False_eq_True)
  have ex: "\<not> list_ex (\<lambda>e. ie_packet_id e = k) (iq_entries q)"
    using list_ex_entry [OF inv, of k "\<lambda>_. True"] k by simp
  show ?thesis
  proof (cases "length (iq_entries q) < N")
    case True
    let ?e = "\<lparr>ie_packet_id = k, ie_qos = qs, ie_status = st\<rparr>"
    have t: "track_entry N k qs st q = (Ok (), q\<lparr>iq_entries := iq_entries q @ [?e]\<rparr>)"
      using True ex by (simp add: track_entry_def vec_push_def)
    have "inflight_entry_of (q\<lparr>iq_entries := iq_entries q @ [?e]\<rparr>) = (inflight_entry_of q)(k \<mapsto> ?e)"
      using nk by (simp add: inflight_entry_of_def table_of_append)
    then show ?thesis using True inv nk by (simp add: t inflight_inv_def)
  next
    case False
    with ex show ?thesis by (simp add: track_entry_def vec_push_def)
  qed
qed

lemma track_full:
  assumes "inflight_inv N q" "inflight_entry_of q k = None" "\<not> length (iq_entries q) < N"
  shows "track_entry N k qs st q = (Err InflightQueueFull, q)"
  using track_fresh [OF assms(1,2), of qs st] assms(3) by simp

lemma release_present:
  assumes inv: "inflight_inv N q" and k: "inflight_entry_of q k = Some e" "ie_status e = st"
  shows "fst (release st k q) \<and> inflight_inv N (snd (release st k q)) \<and>
    inflight_entry_of (snd (release st k q)) = (inflight_entry_of q)(k := None)"
proof -
  have d: "distinct (map ie_packet_id (iq_entries q))" using inv by (simp add: inflight_inv_def)
  obtain i where i: "position (\<lambda>e. ie_packet_id e = k \<and> ie_status e = st) (iq_entries q) = Some i"
    "i < length (iq_entries q)" "iq_entries q ! i = e"
    using position_key_Some [where P = "\<lambda>e. ie_status e = st", OF d _ k(2)] k(1)
    unfolding inflight_entry_of_def by blast
  have r: "release st k q = (True, q\<lparr>iq_entries := swap_remove i (iq_entries q)\<rparr>)"
    by (simp add: release_def i(1))
  have "ie_packet_id (iq_entries q ! i) = k" using k(1) inv i(3) by (simp add: inflight_entry_Some)
  then have "inflight_entry_of (snd (release st k q)) = (inflight_entry_of q)(k := None)"
    using table_of_swap_remove [OF d i(2), of id] by (simp add: r inflight_entry_of_def)
  moreover have "length (iq_entries q) - 1 \<le> N" using inv by (auto simp: inflight_inv_def)
  ultimately show ?thesis
    using distinct_map_swap_remove [OF i(2) d] by (simp add: r inflight_inv_def)
qed

lemma release_other:
  assumes "inflight_inv N q" "\<forall>e. inflight_entry_of q k = Some e \<longrightarrow> ie_status e \<noteq> st"
  shows "release st k q = (False, q)"
  using assms position_key_None [of ie_packet_id "iq_entries q" k "\<lambda>e. ie_status e = st"]
  by (simp add: release_def inflight_inv_def inflight_entry_of_def)

lemma pubrec_present:
  assumes inv: "inflight_inv N q" and k: "inflight_entry_of q k = Some e" "ie_status e = AwaitingPubRec"
  shows "fst (handle_pubrec k q) \<and> inflight_inv N (snd (handle_pubrec k q)) \<and>
    inflight_entry_of (snd (handle_pubrec k q)) = (inflight_entry_of q)(k \<mapsto> set_status AwaitingPubComp e)"
  using update_present [where P = "\<lambda>e. ie_status e = AwaitingPubRec", OF inv k refl]
    list_ex_entry [OF inv, of k "\<lambda>e. ie_status e = AwaitingPubRec"] k
  by (simp add: handle_pubrec_def)

lemma pubrec_other:
  assumes "inflight_inv N q" "\<forall>e. inflight_entry_of q k = Some e \<longrightarrow> ie_status e \<noteq> AwaitingPubRec"
  shows "handle_pubrec k q = (False, q)"
  using assms list_ex_entry [OF assms(1), of k "\<lambda>e. ie_status e = AwaitingPubRec"]
  by (simp add: handle_pubrec_def)

subsection \<open>The contract\<close>

definition track_outbound_opt :: "nat \<Rightarrow> u16 \<Rightarrow> qos \<Rightarrow> inflight_queue \<Rightarrow> inflight_queue option" where
  "track_outbound_opt N k q s =
     (case track_outbound N k q s :: (unit mqtt_error, unit) outcome \<times> inflight_queue of
        (Ok _, s') \<Rightarrow> Some s' | _ \<Rightarrow> None)"

definition track_inbound_opt :: "nat \<Rightarrow> u16 \<Rightarrow> unit \<Rightarrow> inflight_queue \<Rightarrow> inflight_queue option" where
  "track_inbound_opt N k u s =
     (case track_inbound_qos2 N k s :: (unit mqtt_error, unit) outcome \<times> inflight_queue of
        (Ok _, s') \<Rightarrow> Some s' | _ \<Rightarrow> None)"

definition release_opt :: "inflight_status \<Rightarrow> u16 \<Rightarrow> inflight_queue \<Rightarrow> inflight_queue option" where
  "release_opt st k s = (case release st k s of (True, s') \<Rightarrow> Some s' | (False, _) \<Rightarrow> None)"

definition outbound_entry :: "u16 \<Rightarrow> qos \<Rightarrow> inflight_entry" where
  "outbound_entry k q = \<lparr>ie_packet_id = k, ie_qos = q,
     ie_status = (if q = AtLeastOnce then AwaitingPubAck else AwaitingPubRec)\<rparr>"

definition inbound_entry :: "u16 \<Rightarrow> unit \<Rightarrow> inflight_entry" where
  "inbound_entry k u = \<lparr>ie_packet_id = k, ie_qos = ExactlyOnce, ie_status = AwaitingPubRel\<rparr>"

lemma inflight_bounded:
  "inflight_inv N s \<Longrightarrow> finite (dom (inflight_entry_of s)) \<and> card (dom (inflight_entry_of s)) \<le> N"
  by (simp add: inflight_card) (simp add: inflight_inv_def inflight_entry_of_def)

lemma release_opt_present:
  "inflight_inv N s \<Longrightarrow> inflight_entry_of s k = Some v \<Longrightarrow> ie_status v = st \<Longrightarrow>
    \<exists>s'. release_opt st k s = Some s' \<and> inflight_inv N s' \<and> inflight_entry_of s' = (inflight_entry_of s)(k := None)"
  using release_present [of N s k v st] by (cases "release st k s") (auto simp: release_opt_def)

lemma release_opt_other:
  "inflight_inv N s \<Longrightarrow> \<forall>v. inflight_entry_of s k = Some v \<longrightarrow> ie_status v \<noteq> st \<Longrightarrow> release_opt st k s = None"
  by (simp add: release_opt_def release_other)

lemma track_opt_fresh:
  assumes "inflight_inv N s" "inflight_entry_of s k = None"
  shows "q \<noteq> AtMostOnce \<Longrightarrow> if length (iq_entries s) < N
      then \<exists>s'. track_outbound_opt N k q s = Some s' \<and> inflight_inv N s' \<and>
        inflight_entry_of s' = (inflight_entry_of s)(k \<mapsto> outbound_entry k q)
      else track_outbound_opt N k q s = None"
    and "if length (iq_entries s) < N
      then \<exists>s'. track_inbound_opt N k u s = Some s' \<and> inflight_inv N s' \<and>
        inflight_entry_of s' = (inflight_entry_of s)(k \<mapsto> inbound_entry k u)
      else track_inbound_opt N k u s = None"
proof -
  note t = track_fresh [OF assms, where 'a = unit and 'b = unit and 'c = unit and 'd = unit]
  show "if length (iq_entries s) < N
      then \<exists>s'. track_inbound_opt N k u s = Some s' \<and> inflight_inv N s' \<and>
        inflight_entry_of s' = (inflight_entry_of s)(k \<mapsto> inbound_entry k u)
      else track_inbound_opt N k u s = None"
    using t [of ExactlyOnce AwaitingPubRel]
    by (auto simp: track_inbound_opt_def track_inbound_qos2_def inbound_entry_def
        split: prod.splits outcome.splits)
  show "if length (iq_entries s) < N
      then \<exists>s'. track_outbound_opt N k q s = Some s' \<and> inflight_inv N s' \<and>
        inflight_entry_of s' = (inflight_entry_of s)(k \<mapsto> outbound_entry k q)
      else track_outbound_opt N k q s = None" if "q \<noteq> AtMostOnce"
    using that t [of q AwaitingPubAck] t [of q AwaitingPubRec]
    by (cases "length (iq_entries s) < N"; cases q)
      (auto simp: track_outbound_opt_def track_outbound_def outbound_entry_def
        split: prod.splits outcome.splits)
qed

interpretation outbound_table: bounded_table "inflight_inv N" inflight_entry_of N
  "\<lambda>_ q. q \<noteq> AtMostOnce" outbound_entry "\<lambda>e. ie_status e = st" "track_outbound_opt N" "release_opt st"
  for N st
proof (unfold_locales, goal_cases)
  case (2 s k a)
  then show ?case using track_opt_fresh(1) [OF 2(1,3,2)] by (simp only: inflight_card [OF 2(1)])
qed (simp_all only: inflight_bounded release_opt_present release_opt_other)

interpretation inbound_table: bounded_table "inflight_inv N" inflight_entry_of N
  "\<lambda>_ _. True" inbound_entry "\<lambda>e. ie_status e = AwaitingPubRel" "track_inbound_opt N"
  "release_opt AwaitingPubRel" for N
proof (unfold_locales, goal_cases)
  case (2 s k a)
  then show ?case using track_opt_fresh(2) [OF 2(1,3), of a] by (simp only: inflight_card [OF 2(1)])
qed (simp_all only: inflight_bounded release_opt_present release_opt_other)

subsection \<open>The acknowledgement handshake\<close>

datatype ack_event = EvPubAck u16 | EvPubRec u16 | EvPubRel u16 | EvPubComp u16

fun handle_ack :: "ack_event \<Rightarrow> inflight_queue \<Rightarrow> bool \<times> inflight_queue" where
  "handle_ack (EvPubAck k) = handle_puback k"
| "handle_ack (EvPubRec k) = handle_pubrec k"
| "handle_ack (EvPubRel k) = handle_pubrel k"
| "handle_ack (EvPubComp k) = handle_pubcomp k"

definition handle_acks :: "ack_event list \<Rightarrow> inflight_queue \<Rightarrow> inflight_queue" where
  "handle_acks evs q = fold (\<lambda>ev q. snd (handle_ack ev q)) evs q"

text \<open>What one acknowledgement does to the status of the entry it names.\<close>

fun ack_next :: "ack_event \<Rightarrow> u16 \<Rightarrow> inflight_entry option \<Rightarrow> inflight_entry option" where
  "ack_next (EvPubRec k) k' (Some e) =
     (if k = k' \<and> ie_status e = AwaitingPubRec then Some (set_status AwaitingPubComp e) else Some e)"
| "ack_next (EvPubAck k) k' (Some e) = (if k = k' \<and> ie_status e = AwaitingPubAck then None else Some e)"
| "ack_next (EvPubRel k) k' (Some e) = (if k = k' \<and> ie_status e = AwaitingPubRel then None else Some e)"
| "ack_next (EvPubComp k) k' (Some e) = (if k = k' \<and> ie_status e = AwaitingPubComp then None else Some e)"
| "ack_next _ _ None = None"

lemma release_next:
  assumes "inflight_inv N q"
  shows "inflight_inv N (snd (release st k q))"
    and "inflight_entry_of (snd (release st k q)) k' =
      (if k = k' \<and> (\<exists>e. inflight_entry_of q k' = Some e \<and> ie_status e = st) then None
       else inflight_entry_of q k')"
  using assms release_present [OF assms, of k _ st] release_other [OF assms, of k st]
  by (cases "\<exists>e. inflight_entry_of q k = Some e \<and> ie_status e = st"; auto)+

lemma pubrec_next:
  assumes "inflight_inv N q"
  shows "inflight_inv N (snd (handle_pubrec k q))"
    and "inflight_entry_of (snd (handle_pubrec k q)) k' = ack_next (EvPubRec k) k' (inflight_entry_of q k')"
  using assms pubrec_present [OF assms, of k] pubrec_other [OF assms, of k]
  by (cases "\<exists>e. inflight_entry_of q k = Some e \<and> ie_status e = AwaitingPubRec"; cases "inflight_entry_of q k'"; auto)+

lemma handle_ack_next:
  assumes "inflight_inv N q"
  shows "inflight_inv N (snd (handle_ack ev q)) \<and>
    inflight_entry_of (snd (handle_ack ev q)) k = ack_next ev k (inflight_entry_of q k)"
  using release_next [OF assms] pubrec_next [OF assms]
  by (cases ev; cases "inflight_entry_of q k")
    (simp_all add: handle_puback_def handle_pubrel_def handle_pubcomp_def)

lemma handle_acks_entry:
  "inflight_inv N q \<Longrightarrow> inflight_inv N (handle_acks evs q) \<and>
     inflight_entry_of (handle_acks evs q) k = fold (\<lambda>ev. ack_next ev k) evs (inflight_entry_of q k)"
  by (induction evs arbitrary: q) (simp_all add: handle_acks_def handle_ack_next)

lemma ack_next_None [simp]: "ack_next ev k None = None"
  by (cases ev) simp_all

lemma fold_ack_next_None [simp]: "fold (\<lambda>ev. ack_next ev k) evs None = None"
  by (induction evs) simp_all

end
