(* ===== verification/Table_Theorems.thy ===== *)
theory Table_Theorems
  imports Core_State Core_Inflight Mem_Store Emb_Inflight
begin

text \<open>
  The properties of the connection state machine, the reason codes, the two inflight queues
  and the in-memory store.
\<close>

text \<open>C8. Any sequence of accepted events that takes a disconnected client to \<open>Connected\<close>
  ends with a complete handshake, in order (connection requested, transport up and CONNECT
  sent, CONNACK received and announced), followed only by keep-alive pings.\<close>

theorem connected_only_after_handshake:
  assumes "conn_trace Disconnected tr Connected"
  shows "\<exists>pre sp n. tr = pre @ [(ConnectRequested, NoAction), (TransportConnected, SendConnect),
    (ConnAckReceived sp, NotifyConnected sp)] @ replicate n (KeepAliveExpired, SendPing)"
  by (rule trace_to_Connected [OF assms]) simp_all

lemma handshake_trace:
  "conn_trace Disconnected ([(ConnectRequested, NoAction), (TransportConnected, SendConnect)] @
    [(ConnAckReceived True, NotifyConnected True)]) Connected"
  using trace_step [OF trace_step [OF trace_step [OF trace_refl]], of Disconnected
    ConnectRequested Connecting NoAction TransportConnected WaitingForConnAck SendConnect
    "ConnAckReceived True" Connected "NotifyConnected True"] by simp

theorem connected_only_after_handshake_witness:
  "\<exists>pre sp n. [(ConnectRequested, NoAction), (TransportConnected, SendConnect)] @
    [(ConnAckReceived True, NotifyConnected True)] =
    pre @ [(ConnectRequested, NoAction), (TransportConnected, SendConnect),
    (ConnAckReceived sp, NotifyConnected sp)] @ replicate n (KeepAliveExpired, SendPing)"
  by (rule connected_only_after_handshake [OF handshake_trace])

text \<open>After a lost connection the attempt number counts the failures and stays at the
  largest \<open>u32\<close> instead of wrapping to zero: every number of successive failures is accepted.\<close>

lemma reconnect_attempts_saturate:
  "\<exists>tr a. conn_trace Connected tr (Reconnecting a) \<and> map fst tr = replicate (Suc n) TransportClosed \<and>
     unat a = min (Suc n) (2 ^ 32 - 1)"
proof -
  obtain tr where tr: "conn_trace (Reconnecting 1) tr (Reconnecting (retry_trace 1 n))"
    "map fst tr = replicate n TransportClosed" using retry_trace_conn by blast
  have "conn_trace s tr u \<Longrightarrow> conn_trace t0 pre s \<Longrightarrow> conn_trace t0 (pre @ tr) u" for s tr u t0 pre
    by (induction rule: conn_trace.induct) (auto intro: trace_step simp flip: append_assoc)
  from this [OF tr(1) trace_step [OF trace_refl, of Connected TransportClosed]]
  have "conn_trace Connected ([(TransportClosed, ScheduleReconnect 1)] @ tr) (Reconnecting (retry_trace 1 n))"
    by simp
  moreover have "unat (retry_trace 1 n) = min (Suc n) (2 ^ 32 - 1)" by (simp add: retry_trace_unat)
  ultimately show ?thesis using tr(2)
    by (intro exI [of _ "[(TransportClosed, ScheduleReconnect 1)] @ tr"] exI [of _ "retry_trace 1 n"]) simp
qed

text \<open>While the transport is being established the machine accepts nothing but its
  success: a failed or cancelled connection attempt is answered with \<open>StateMismatch\<close> and the
  state has no other way out.\<close>

lemma connecting_cannot_fail:
  "transition Connecting e = (if e = TransportConnected then Ok (WaitingForConnAck, SendConnect)
     else Err CP_StateMismatch)"
  by (cases e) simp_all

text \<open>Reading a reason code from its byte loses nothing, and the hexadecimal number shown
  in the text of every code is that byte.\<close>

lemma reason_code_text:
  "reason_code_value (reason_code_from val) = val \<and>
   (\<exists>name tail. display_reason_code (reason_code_from val) = name @ ''0x'' @ hex2 val @ tail)"
proof (rule conjI, simp)
  let ?t = "display_reason_code (reason_code_from val)"
  let ?h = "''0x'' @ hex2 (reason_code_value (reason_code_from val))"
  have "\<exists>name tail. ?t = name @ ?h @ tail"
  proof (cases "reason_code_from val")
    case (Other c)
    then show ?thesis by (intro exI [of _ "''Reason Code ''"] exI [of _ "[]"]) simp
  qed (rule exI [of _ "take (length ?t - 5) ?t"], rule exI [of _ "'')''"],
       simp add: hex2_def hex_digit_def)+
  then show "\<exists>name tail. ?t = name @ ''0x'' @ hex2 val @ tail" by simp
qed

text \<open>C7. Whatever sequence of pushes and acknowledgements the core inflight queue sees, it
  behaves as a map of at most \<open>N\<close> identifiers that refuses identifiers in use: no identifier
  is ever tracked twice and no entry is lost.\<close>

theorem core_inflight_history:
  "core_inv N (fold (table_step (core_insert N) core_delete) ops core_inflight_new) \<and>
   core_entry (fold (table_step (core_insert N) core_delete) ops core_inflight_new) =
     fold (ref_reject N core_mk (\<lambda>_. True)) ops Map.empty"
proof -
  have "list_all (op_ok (\<lambda>_ _. True)) ops"
    by (simp add: list_all_iff)
  from core_table.history_refines [OF core_inv_new this] show ?thesis
    by (simp add: core_entry_def core_inflight_new_def)
qed

text \<open>Advancing a message to PUBREL changes the status of that message only, keeps the
  queue well formed, and is refused for an identifier that is not tracked.\<close>

lemma core_mark_pubrel:
  assumes "core_inv N q"
  shows "core_inv N (snd (core_mark_pubrel_sent k q)) \<and>
    fst (core_mark_pubrel_sent k q) = (core_entry q k \<noteq> None) \<and>
    core_entry (snd (core_mark_pubrel_sent k q)) =
      (case core_entry q k of None \<Rightarrow> core_entry q
       | Some e \<Rightarrow> (core_entry q)(k \<mapsto> e\<lparr>cie_status := PubRelSent\<rparr>))"
  using core_mark_present [OF assms] core_mark_absent [of q k] assms
  by (cases "core_entry q k") simp_all

definition one_core :: core_inflight_queue where
  "one_core = \<lparr>ciq_entries = [\<lparr>cie_packet_id = 5, cie_qos = ExactlyOnce, cie_status = Sent,
     cie_retries = 0\<rparr>], ciq_last_acked_id = None\<rparr>"

theorem core_mark_pubrel_witness:
  "core_inv 2 (snd (core_mark_pubrel_sent 5 one_core)) \<and>
   fst (core_mark_pubrel_sent 5 one_core) = (core_entry one_core 5 \<noteq> None) \<and>
   core_entry (snd (core_mark_pubrel_sent 5 one_core)) =
     (case core_entry one_core 5 of None \<Rightarrow> core_entry one_core
      | Some e \<Rightarrow> (core_entry one_core)(5 \<mapsto> e\<lparr>cie_status := PubRelSent\<rparr>))"
  by (rule core_mark_pubrel) (simp add: core_inv_def one_core_def)

text \<open>C23. The in-memory store is a map of at most \<open>max_entries\<close> keys: every history of writes
  (of keys and values within their sizes) and removals leaves exactly the entries a map would
  have, and a load returns the value of its key at the start of the caller's buffer.\<close>

theorem mem_store_history:
  assumes "list_all (op_ok (\<lambda>k v. length k \<le> mk \<and> length v \<le> mv)) ops"
  shows "let s = fold (table_step (mem_insert n mk mv) mem_delete) ops mem_new;
             m = fold (ref_replace n (\<lambda>_ v. v) (\<lambda>_. True)) ops Map.empty in
    mem_inv n s \<and> mem_entry s = m \<and>
    mem_load key out s =
      (case m key of None \<Rightarrow> (Ok None, out)
       | Some v \<Rightarrow> if length out < length v then (Err MemBufferTooSmall, out)
           else (Ok (Some (length v)), v @ drop (length v) out))"
proof -
  let ?s = "fold (table_step (mem_insert n mk mv) mem_delete) ops mem_new"
  have s: "mem_inv n ?s" "mem_entry ?s = fold (ref_replace n (\<lambda>_ v. v) (\<lambda>_. True)) ops Map.empty"
    using mem_table.history_refines [OF mem_inv_new(1) assms] by simp_all
  have "mem_load key out ?s =
      (case mem_entry ?s key of None \<Rightarrow> (Ok None, out)
       | Some v \<Rightarrow> if length out < length v then (Err MemBufferTooSmall, out)
           else (Ok (Some (length v)), v @ drop (length v) out))"
  proof (cases "mem_entry ?s key")
    case None
    with mem_position_None [OF s(1)] show ?thesis by (simp add: mem_load_def)
  next
    case (Some v)
    then show ?thesis by (rule mem_position [OF s(1)]) (simp add: mem_load_def Some Let_def overwrite_def)
  qed
  with s show ?thesis by (simp add: Let_def)
qed

theorem mem_store_history_witness:
  "let s = fold (table_step (mem_insert 1 4 4) mem_delete) [Put [1] [7, 8], Put [2] [9]] mem_new;
       m = fold (ref_replace 1 (\<lambda>_ v. v) (\<lambda>_. True)) [Put [1] [7, 8], Put [2] [9]] Map.empty in
    mem_inv 1 s \<and> mem_entry s = m \<and>
    mem_load [1] [0, 0, 0] s =
      (case m [1] of None \<Rightarrow> (Ok None, [0, 0, 0])
       | Some v \<Rightarrow> if length [0, 0, 0 :: byte] < length v then (Err MemBufferTooSmall, [0, 0, 0])
           else (Ok (Some (length v)), v @ drop (length v) [0, 0, 0]))"
  by (rule mem_store_history) simp

text \<open>Everything the client does to the table: the acknowledgements it receives, the messages it publishes,
  the QoS 2 messages that arrive, and \<open>clear\<close>, when \<open>connect\<close> is accepted.\<close>

datatype table_event = Acked ack_event | Outbound u16 qos | InboundQos2 u16 | Cleared

fun table_event_step :: "nat \<Rightarrow> table_event \<Rightarrow> inflight_queue \<Rightarrow> inflight_queue" where
  "table_event_step N (Acked ev) s = snd (handle_ack ev s)"
| "table_event_step N (Outbound k q) s = snd (track_outbound N k q s :: (unit mqtt_error, unit) outcome \<times> _)"
| "table_event_step N (InboundQos2 k) s = snd (track_inbound_qos2 N k s :: (unit mqtt_error, unit) outcome \<times> _)"
| "table_event_step N Cleared s = inflight_clear s"

fun next_status :: "table_event \<Rightarrow> u16 \<Rightarrow> inflight_status \<Rightarrow> inflight_status option" where
  "next_status (Acked (EvPubRec k)) k' st = Some (if k = k' \<and> st = AwaitingPubRec then AwaitingPubComp else st)"
| "next_status (Acked (EvPubAck k)) k' st = (if k = k' \<and> st = AwaitingPubAck then None else Some st)"
| "next_status (Acked (EvPubRel k)) k' st = (if k = k' \<and> st = AwaitingPubRel then None else Some st)"
| "next_status (Acked (EvPubComp k)) k' st = (if k = k' \<and> st = AwaitingPubComp then None else Some st)"
| "next_status (Outbound k q) k' st =
     Some (if k = k' then (case q of AtMostOnce \<Rightarrow> st | AtLeastOnce \<Rightarrow> AwaitingPubAck | ExactlyOnce \<Rightarrow> AwaitingPubRec) else st)"
| "next_status (InboundQos2 k) k' st = Some (if k = k' then AwaitingPubRel else st)"
| "next_status Cleared k' st = None"

lemma track_entry_next:
  assumes inv: "inflight_inv N q" and e: "inflight_entry_of q k = Some e"
    and t: "track_entry N k' qs st q = (r :: (unit mqtt_error, unit) outcome, q')"
  shows "inflight_inv N q' \<and> inflight_entry_of q' k = Some (if k' = k then set_status st e else e)"
proof (cases "inflight_entry_of q k'")
  case None
  then have "k' \<noteq> k" using e by auto
  with track_fresh [OF inv None, of qs st, where 'a = unit and 'b = unit and 'c = unit and 'd = unit] t e inv
  show ?thesis by (auto split: if_splits)
next
  case (Some e')
  with track_present [OF inv Some, of qs st, where 'a = unit] t e show ?thesis by auto
qed

lemma table_event_status:
  assumes inv: "inflight_inv N q" and e: "inflight_entry_of q k = Some e"
  shows "inflight_inv N (table_event_step N ev q) \<and>
    map_option ie_status (inflight_entry_of (table_event_step N ev q) k) = next_status ev k (ie_status e)"
proof (cases ev)
  case (Acked a)
  with handle_ack_next [OF inv, of a k] e show ?thesis by (cases a) auto
next
  case (Outbound k' qs)
  show ?thesis
  proof (cases qs)
    case AtLeastOnce
    with track_entry_next [OF inv e prod.collapse [symmetric], of k' qs AwaitingPubAck] Outbound show ?thesis
      by (simp add: track_outbound_def)
  next
    case ExactlyOnce
    with track_entry_next [OF inv e prod.collapse [symmetric], of k' qs AwaitingPubRec] Outbound show ?thesis
      by (simp add: track_outbound_def)
  qed (use Outbound inv e in \<open>simp add: track_outbound_def\<close>)
next
  case (InboundQos2 k')
  with track_entry_next [OF inv e prod.collapse [symmetric], of k' ExactlyOnce AwaitingPubRel] show ?thesis
    by (simp add: track_inbound_qos2_def)
next
  case Cleared
  then show ?thesis by (simp add: inflight_clear_def inflight_entry_of_def inflight_inv_def)
qed

text \<open>The event that removes an entry, with the one that brought the entry into the state it needs.\<close>

fun removed_by :: "u16 \<Rightarrow> table_event list \<Rightarrow> table_event \<Rightarrow> bool" where
  "removed_by k pre Cleared \<longleftrightarrow> True"
| "removed_by k pre (Acked (EvPubComp k')) \<longleftrightarrow> k' = k \<and> Acked (EvPubRec k) \<in> set pre"
| "removed_by k pre (Acked (EvPubRel k')) \<longleftrightarrow> k' = k \<and> InboundQos2 k \<in> set pre"
| "removed_by k pre (Acked (EvPubAck k')) \<longleftrightarrow> k' = k \<and> Outbound k AtLeastOnce \<in> set pre"
| "removed_by k pre _ \<longleftrightarrow> False"

fun explained :: "u16 \<Rightarrow> table_event list \<Rightarrow> inflight_status \<Rightarrow> bool" where
  "explained k pre AwaitingPubRec \<longleftrightarrow> True"
| "explained k pre AwaitingPubComp \<longleftrightarrow> Acked (EvPubRec k) \<in> set pre"
| "explained k pre AwaitingPubRel \<longleftrightarrow> InboundQos2 k \<in> set pre"
| "explained k pre AwaitingPubAck \<longleftrightarrow> Outbound k AtLeastOnce \<in> set pre"

lemma explained_more: "explained k pre st \<Longrightarrow> explained k (pre @ [x]) st"
  by (cases st) simp_all

lemma explained_next: "explained k pre st \<Longrightarrow> next_status ev k st = Some st' \<Longrightarrow> explained k (pre @ [ev]) st'"
  using explained_more [of k pre st ev]
  by (cases "(ev, k, st)" rule: next_status.cases) (auto split: if_splits qos.splits)

lemma explained_removal: "explained k pre st \<Longrightarrow> next_status ev k st = None \<Longrightarrow> removed_by k pre ev"
  by (cases "(ev, k, st)" rule: next_status.cases) (auto split: if_splits)

lemma removal_explained:
  "inflight_inv N q \<Longrightarrow> inflight_entry_of q k = Some e \<Longrightarrow> explained k pre (ie_status e) \<Longrightarrow>
   inflight_entry_of (fold (table_event_step N) evs q) k = None \<Longrightarrow>
   \<exists>a x b. evs = a @ x # b \<and> removed_by k (pre @ a) x"
proof (induction evs arbitrary: q e pre)
  case (Cons ev evs)
  note step = table_event_status [OF Cons.prems(1,2), of ev]
  show ?case
  proof (cases "inflight_entry_of (table_event_step N ev q) k")
    case None
    with step Cons.prems(3) have "removed_by k pre ev" by (intro explained_removal) auto
    then show ?thesis by (intro exI [of _ "[]"] exI [of _ ev] exI [of _ evs]) simp
  next
    case (Some e')
    with step Cons.prems(3) have "explained k (pre @ [ev]) (ie_status e')" by (intro explained_next) auto
    from Cons.IH [OF _ Some this] step Cons.prems(4) obtain a x b where
      "evs = a @ x # b" "removed_by k ((pre @ [ev]) @ a) x" by auto
    then show ?thesis by (intro exI [of _ "ev # a"] exI [of _ x] exI [of _ b]) simp
  qed
qed simp

text \<open>C24. An outbound QoS 2 message leaves the embedded client's table, in any history of what the client
  does to it, in one of four ways: by a PUBREC and, later, a PUBCOMP; because \<open>connect\<close> cleared the table; by
  a PUBREL after an inbound QoS 2 message with its identifier took over the entry; or by a PUBACK after the
  client published a QoS 1 message under its identifier.\<close>

theorem qos2_release_order:
  assumes "inflight_inv N q" "inflight_entry_of q k = Some e" "ie_status e = AwaitingPubRec"
    and "inflight_entry_of (fold (table_event_step N) evs q) k = None"
  shows "\<exists>a x b. evs = a @ x # b \<and>
    (x = Acked (EvPubComp k) \<and> Acked (EvPubRec k) \<in> set a \<or> x = Cleared \<or>
     x = Acked (EvPubRel k) \<and> InboundQos2 k \<in> set a \<or>
     x = Acked (EvPubAck k) \<and> Outbound k AtLeastOnce \<in> set a)"
proof -
  obtain a x b where "evs = a @ x # b" "removed_by k a x"
    using removal_explained [OF assms(1,2) _ assms(4), of "[]"] assms(3) by auto
  then show ?thesis by (cases "(k, a, x)" rule: removed_by.cases) auto
qed

definition one_qos2 :: inflight_queue where
  "one_qos2 = \<lparr>iq_entries = [\<lparr>ie_packet_id = 7, ie_qos = ExactlyOnce, ie_status = AwaitingPubRec\<rparr>]\<rparr>"

lemma one_qos2_facts:
  "inflight_inv 4 one_qos2"
  "inflight_entry_of one_qos2 7 = Some \<lparr>ie_packet_id = 7, ie_qos = ExactlyOnce, ie_status = AwaitingPubRec\<rparr>"
  by (simp_all add: one_qos2_def inflight_inv_def inflight_entry_of_def table_of_def)

lemma one_qos2_released:
  "inflight_entry_of (fold (table_event_step 4)
     [Acked (EvPubComp 7), Acked (EvPubRec 7), Acked (EvPubComp 7)] one_qos2) 7 = None"
  using handle_acks_entry [OF one_qos2_facts(1), of "[EvPubComp 7, EvPubRec 7, EvPubComp 7]" 7] one_qos2_facts(2)
  by (simp add: handle_acks_def)

theorem qos2_release_order_witness:
  "\<exists>a x b. [Acked (EvPubComp 7), Acked (EvPubRec 7), Acked (EvPubComp 7)] = a @ x # b \<and>
    (x = Acked (EvPubComp 7) \<and> Acked (EvPubRec 7) \<in> set a \<or> x = Cleared \<or>
     x = Acked (EvPubRel 7) \<and> InboundQos2 7 \<in> set a \<or>
     x = Acked (EvPubAck 7) \<and> Outbound 7 AtLeastOnce \<in> set a)"
  by (rule qos2_release_order [OF one_qos2_facts _ one_qos2_released]) simp

text \<open>A full table accepts a new message as soon as an acknowledgement has released one:
  releasing the entry of \<open>k\<close> leaves room for any other identifier.\<close>

lemma release_makes_room:
  assumes "inflight_inv N q" "inflight_entry_of q k = Some e" "ie_status e = st"
    and "release_opt st k q = Some q'" "s \<noteq> AtMostOnce" "inflight_entry_of q' k' = None"
  shows "\<exists>q''. track_outbound_opt N k' s q' = Some q'' \<and>
    inflight_entry_of q'' = (inflight_entry_of q')(k' \<mapsto> outbound_entry k' s)"
  by (rule outbound_table.delete_makes_room [OF assms])

lemma one_qos2_rec:
  "release_opt AwaitingPubRec 7 one_qos2 = Some inflight_new"
  by (simp add: release_opt_def release_def one_qos2_def swap_remove_def inflight_new_def)

theorem release_makes_room_witness:
  "\<exists>q''. track_outbound_opt 4 9 AtLeastOnce inflight_new = Some q'' \<and>
    inflight_entry_of q'' = (inflight_entry_of inflight_new)(9 \<mapsto> outbound_entry 9 AtLeastOnce)"
  by (rule release_makes_room [OF one_qos2_facts _ one_qos2_rec])
    (simp_all add: inflight_new_def inflight_entry_of_def)

text \<open>Inbound and outbound messages share the table: an incoming QoS 2 message with the
  identifier of an outbound one takes over its entry, the outbound message's PUBREC is then
  no longer recognised, and the peer's PUBREL deletes it.\<close>

lemma inbound_takes_over_outbound:
  assumes "inflight_inv N q" "inflight_entry_of q k = Some e"
    and "track_inbound_qos2 N k q = (r, q')"
  shows "r = Ok () \<and> handle_pubrec k q' = (False, q') \<and>
    inflight_entry_of (snd (handle_pubrel k q')) k = None"
proof -
  have q': "r = Ok ()" "inflight_inv N q'" "inflight_entry_of q' = (inflight_entry_of q)(k \<mapsto> set_status AwaitingPubRel e)"
    using track_present [OF assms(1,2), of ExactlyOnce AwaitingPubRel] assms(3)
    unfolding track_inbound_qos2_def by (metis prod.inject)+
  from q'(3) have k: "inflight_entry_of q' k = Some (set_status AwaitingPubRel e)" by simp
  from pubrec_other [OF q'(2)] k release_present [OF q'(2) k] q'(1) show ?thesis
    by (simp add: handle_pubrel_def)
qed

lemma one_qos2_inbound:
  "(track_inbound_qos2 4 7 one_qos2 :: (unit mqtt_error, unit) outcome \<times> inflight_queue) =
    (Ok (), \<lparr>iq_entries = [\<lparr>ie_packet_id = 7, ie_qos = ExactlyOnce, ie_status = AwaitingPubRel\<rparr>]\<rparr>)"
  by (simp add: track_inbound_qos2_def track_entry_def one_qos2_def set_status_def)

theorem inbound_takes_over_outbound_witness:
  "(Ok () :: (unit mqtt_error, unit) outcome) = Ok () \<and>
   handle_pubrec 7 \<lparr>iq_entries = [\<lparr>ie_packet_id = 7, ie_qos = ExactlyOnce, ie_status = AwaitingPubRel\<rparr>]\<rparr> =
     (False, \<lparr>iq_entries = [\<lparr>ie_packet_id = 7, ie_qos = ExactlyOnce, ie_status = AwaitingPubRel\<rparr>]\<rparr>) \<and>
   inflight_entry_of (snd (handle_pubrel 7
     \<lparr>iq_entries = [\<lparr>ie_packet_id = 7, ie_qos = ExactlyOnce, ie_status = AwaitingPubRel\<rparr>]\<rparr>)) 7 = None"
  by (rule inbound_takes_over_outbound [OF one_qos2_facts one_qos2_inbound])

end
