(* ===== verification/Actions.thy ===== *)
theory Actions
  imports Prelude
begin

text \<open>
  Stateful fallible operations: the methods of the clients take \<open>&mut self\<close> and return a
  \<open>Result\<close>. \<open>bind\<close> is \<open>let x = m?;\<close>: it stops at the first error or panic and keeps the
  state reached by then. \<open>preserves\<close> is the rule by which invariants of the client state are
  carried through a method.
\<close>

type_synonym ('e, 's, 'a) action = "'s \<Rightarrow> ('e, 'a) outcome \<times> 's"

named_theorems pres_intros \<open>composition rules of \<open>preserves\<close>\<close>

definition ret :: "'a \<Rightarrow> ('e, 's, 'a) action" where
  "ret a s = (Ok a, s)"

definition throw :: "'e \<Rightarrow> ('e, 's, 'a) action" where
  "throw e s = (Err e, s)"

definition lift :: "('e, 'a) outcome \<Rightarrow> ('e, 's, 'a) action" where
  "lift r s = (r, s)"

definition bind :: "('e, 's, 'a) action \<Rightarrow> ('a \<Rightarrow> ('e, 's, 'b) action) \<Rightarrow> ('e, 's, 'b) action" where
  "bind m f s =
     (case m s of (Ok a, s') \<Rightarrow> f a s' | (Err e, s') \<Rightarrow> (Err e, s') | (Panic, s') \<Rightarrow> (Panic, s'))"

definition gets :: "('s \<Rightarrow> 'a) \<Rightarrow> ('e, 's, 'a) action" where
  "gets f s = (Ok (f s), s)"

definition modify :: "('s \<Rightarrow> 's) \<Rightarrow> ('e, 's, unit) action" where
  "modify f s = (Ok (), f s)"

text \<open>\<open>let _ = m;\<close>\<close>

definition ignore_result :: "('e, 's, 'a) action \<Rightarrow> ('e, 's, unit) action" where
  "ignore_result m s = (case m s of (Panic, s') \<Rightarrow> (Panic, s') | (_, s') \<Rightarrow> (Ok (), s'))"

lemma bind_Ok: "bind m f s = (Ok b, s'') \<longleftrightarrow> (\<exists>a s'. m s = (Ok a, s') \<and> f a s' = (Ok b, s''))"
  by (auto simp: bind_def split: prod.splits outcome.splits)

lemma bind_apply [simp]:
  "m s = (Ok a, s') \<Longrightarrow> bind m f s = f a s'"
  "m s = (Err e, s') \<Longrightarrow> bind m f s = (Err e, s')"
  "m s = (Panic, s') \<Longrightarrow> bind m f s = (Panic, s')"
  by (simp_all add: bind_def)

lemma basic_actions [simp]:
  "ret a s = (Ok a, s)" "throw e s = (Err e, s)" "lift r s = (r, s)" "gets g s = (Ok (g s), s)"
  "modify h s = (Ok (), h s)"
  by (simp_all add: ret_def throw_def lift_def gets_def modify_def)

text \<open>\<open>valid b P m Q\<close>: started in a state with \<open>P\<close>, the operation ends in one, a result it
  returns satisfies \<open>Q\<close> and, when \<open>b\<close> is set, it does not panic.\<close>

definition valid :: "bool \<Rightarrow> ('s \<Rightarrow> bool) \<Rightarrow> ('e, 's, 'a) action \<Rightarrow> ('a \<Rightarrow> bool) \<Rightarrow> bool" where
  "valid b P m Q \<longleftrightarrow> (\<forall>s. P s \<longrightarrow> P (snd (m s)) \<and> (\<forall>a. fst (m s) = Ok a \<longrightarrow> Q a) \<and> (b \<longrightarrow> fst (m s) \<noteq> Panic))"

definition any :: "'a \<Rightarrow> bool" where
  "any a = True"

lemma any_simp [simp]: "any a" by (simp add: any_def)

lemma validI:
  "(\<And>s r s'. P s \<Longrightarrow> m s = (r, s') \<Longrightarrow> P s' \<and> (\<forall>a. r = Ok a \<longrightarrow> Q a) \<and> (b \<longrightarrow> r \<noteq> Panic)) \<Longrightarrow> valid b P m Q"
  unfolding valid_def by (metis prod.collapse)

lemma validD:
  "valid b P m Q \<Longrightarrow> P s \<Longrightarrow> m s = (r, s') \<Longrightarrow> P s' \<and> (\<forall>a. r = Ok a \<longrightarrow> Q a) \<and> (b \<longrightarrow> r \<noteq> Panic)"
  unfolding valid_def by (metis fst_conv snd_conv)

lemma valid_weaken: "valid b P m Q \<Longrightarrow> (\<And>a. Q a \<Longrightarrow> R a) \<Longrightarrow> valid b P m R"
  by (simp add: valid_def)

lemma valid_any: "valid b P m Q \<Longrightarrow> valid b P m any"
  by (rule valid_weaken) simp_all

lemma valid_basic [pres_intros]:
  "valid b P (throw e) Q" "Q a \<Longrightarrow> valid b P (ret a) Q" "(\<And>s. P s \<Longrightarrow> Q (g s)) \<Longrightarrow> valid b P (gets g) Q"
  "(\<And>a. r = Ok a \<Longrightarrow> Q a) \<Longrightarrow> (b \<Longrightarrow> r \<noteq> Panic) \<Longrightarrow> valid b P (lift r) Q"
  by (simp_all add: valid_def)

lemma valid_modify [pres_intros]: "(\<And>s. P s \<Longrightarrow> P (h s)) \<Longrightarrow> Q () \<Longrightarrow> valid b P (modify h) Q"
  by (simp add: valid_def)

lemma valid_bind:
  assumes m: "valid b P m Q" and f: "\<And>a. Q a \<Longrightarrow> valid b P (f a) R"
  shows "valid b P (bind m f) R"
proof (rule validI)
  fix s r s' assume s: "P s" "bind m f s = (r, s')"
  obtain r1 s1 where m1: "m s = (r1, s1)" by fastforce
  from validD [OF m s(1) m1] have 1: "P s1" "\<forall>a. r1 = Ok a \<longrightarrow> Q a" "b \<longrightarrow> r1 \<noteq> Panic" by simp_all
  show "P s' \<and> (\<forall>a. r = Ok a \<longrightarrow> R a) \<and> (b \<longrightarrow> r \<noteq> Panic)"
  proof (cases r1)
    case (Ok a)
    with s(2) m1 have "f a s1 = (r, s')" by simp
    with validD [OF f 1(1)] 1(2) Ok show ?thesis by blast
  qed (use s(2) m1 1 in auto)
qed

text \<open>For steps whose result does not matter for what follows.\<close>

lemma valid_then [pres_intros]:
  "valid b P m any \<Longrightarrow> (\<And>a. valid b P (f a) R) \<Longrightarrow> valid b P (bind m f) R"
  by (rule valid_bind)

lemma valid_if [pres_intros]:
  "(x \<Longrightarrow> valid b P m Q) \<Longrightarrow> (\<not> x \<Longrightarrow> valid b P m' Q) \<Longrightarrow> valid b P (if x then m else m') Q"
  by simp

end
