(* ===== verification/Emb_Transport.thy ===== *)
theory Emb_Transport
  imports Emb_Error Actions
begin

text \<open>
  \<open>mqtt-embedded/src/transport.rs\<close>: what the client needs from a transport, as a record of
  operations on a transport state, and its contract \<open>transport_contract\<close>: a successful
  \<open>send\<close> appends exactly the given bytes to what the peer will see, a failed one some prefix
  or other bytes of the stream, \<open>recv\<close> fills the caller's buffer without changing its size.
  The adapters \<open>EmbeddedIoTransport\<close> and \<open>EmbeddedIoSplitTransport\<close> get the contract from
  that of \<open>embedded_io_async\<close> streams (\<open>io_stream\<close>); the in-memory transports the repository
  tests with provide both.

  The clock is \<open>Instant::now()\<close> of \<open>embassy_time\<close>: \<open>env_now k\<close> is its \<open>k\<close>-th reading in ticks
  and \<open>env_tick_hz\<close> its \<open>TICK_HZ\<close>.
\<close>

record ('w, 't) env =
  tr_send :: "bytes \<Rightarrow> 'w \<Rightarrow> ('t, unit) outcome \<times> 'w"
  tr_recv :: "bytes \<Rightarrow> 'w \<Rightarrow> (('t, nat) outcome \<times> bytes) \<times> 'w"
  tr_send_vectored :: "bytes list \<Rightarrow> 'w \<Rightarrow> ('t, unit) outcome \<times> 'w"
  env_now :: "nat \<Rightarrow> nat"
  env_tick_hz :: nat

text \<open>The default method \<open>MqttTransport::send_vectored\<close>.\<close>

fun send_vectored_default ::
  "(bytes \<Rightarrow> 'w \<Rightarrow> ('t, unit) outcome \<times> 'w) \<Rightarrow> bytes list \<Rightarrow> 'w \<Rightarrow> ('t, unit) outcome \<times> 'w" where
  "send_vectored_default snd_op [] w = (Ok (), w)"
| "send_vectored_default snd_op (b # bufs) w =
     (if b \<noteq> [] then
        (case snd_op b w of
           (Ok _, w') \<Rightarrow> send_vectored_default snd_op bufs w'
         | (Err e, w') \<Rightarrow> (Err e, w')
         | (Panic, w') \<Rightarrow> (Panic, w'))
      else send_vectored_default snd_op bufs w)"

locale transport_contract =
  fixes env :: "('w, 't) env" and sent :: "'w \<Rightarrow> bytes"
  assumes send_Ok: "tr_send env b w = (Ok u, w') \<Longrightarrow> sent w' = sent w @ b"
    and send_grows: "tr_send env b w = (r, w') \<Longrightarrow> r \<noteq> Panic \<and> (\<exists>tl. sent w' = sent w @ tl)"
    and vectored_Ok: "tr_send_vectored env bs w = (Ok u, w') \<Longrightarrow> sent w' = sent w @ concat bs"
    and vectored_grows: "tr_send_vectored env bs w = (r, w') \<Longrightarrow> r \<noteq> Panic \<and> (\<exists>tl. sent w' = sent w @ tl)"
    and recv_len: "tr_recv env buf w = ((x, buf'), w') \<Longrightarrow>
      x \<noteq> Panic \<and> length buf' = length buf \<and> sent w' = sent w \<and> (\<forall>n. x = Ok n \<longrightarrow> n \<le> length buf)"

subsection \<open>Transports over \<open>embedded_io_async\<close> streams\<close>

datatype 'e embedded_io_error = Io 'e

record 's embedded_io_transport =
  eit_stream :: 's

definition embedded_io_send ::
  "(bytes \<Rightarrow> 's \<Rightarrow> ('e, unit) outcome \<times> 's) \<Rightarrow> bytes \<Rightarrow> 's embedded_io_transport \<Rightarrow>
   ('e embedded_io_error, unit) outcome \<times> 's embedded_io_transport" where
  "embedded_io_send write_all buf t =
     (case write_all buf (eit_stream t) of (r, s) \<Rightarrow> (map_err Io r, t\<lparr>eit_stream := s\<rparr>))"

definition embedded_io_recv ::
  "(bytes \<Rightarrow> 's \<Rightarrow> (('e, nat) outcome \<times> bytes) \<times> 's) \<Rightarrow> bytes \<Rightarrow> 's embedded_io_transport \<Rightarrow>
   (('e embedded_io_error, nat) outcome \<times> bytes) \<times> 's embedded_io_transport" where
  "embedded_io_recv read buf t =
     (case read buf (eit_stream t) of ((r, buf'), s) \<Rightarrow> ((map_err Io r, buf'), t\<lparr>eit_stream := s\<rparr>))"

definition embedded_io_env ::
  "(bytes \<Rightarrow> 's \<Rightarrow> ('e, unit) outcome \<times> 's) \<Rightarrow> (bytes \<Rightarrow> 's \<Rightarrow> (('e, nat) outcome \<times> bytes) \<times> 's) \<Rightarrow>
   (nat \<Rightarrow> nat) \<Rightarrow> nat \<Rightarrow> ('s embedded_io_transport, 'e embedded_io_error) env" where
  "embedded_io_env write_all read now hz =
     \<lparr>tr_send = embedded_io_send write_all, tr_recv = embedded_io_recv read,
      tr_send_vectored = send_vectored_default (embedded_io_send write_all),
      env_now = now, env_tick_hz = hz\<rparr>"

text \<open>\<open>TcpTransport\<close> over a socket of \<open>embassy-net\<close>, with the errors of the socket; the timeout is not
  used by the source.\<close>

record 's tcp_transport =
  tcp_socket :: 's
  tcp_timeout :: nat

definition tcp_new :: "'s \<Rightarrow> nat \<Rightarrow> 's tcp_transport" where
  "tcp_new socket timeout = \<lparr>tcp_socket = socket, tcp_timeout = timeout\<rparr>"

definition tcp_send ::
  "(bytes \<Rightarrow> 's \<Rightarrow> ('e, unit) outcome \<times> 's) \<Rightarrow> bytes \<Rightarrow> 's tcp_transport \<Rightarrow> ('e, unit) outcome \<times> 's tcp_transport" where
  "tcp_send write_all buf t =
     (case write_all buf (tcp_socket t) of (r, s) \<Rightarrow> (r, t\<lparr>tcp_socket := s\<rparr>))"

definition tcp_recv ::
  "(bytes \<Rightarrow> 's \<Rightarrow> (('e, nat) outcome \<times> bytes) \<times> 's) \<Rightarrow> bytes \<Rightarrow> 's tcp_transport \<Rightarrow>
   (('e, nat) outcome \<times> bytes) \<times> 's tcp_transport" where
  "tcp_recv read buf t = (case read buf (tcp_socket t) of (r, s) \<Rightarrow> (r, t\<lparr>tcp_socket := s\<rparr>))"

definition tcp_env ::
  "(bytes \<Rightarrow> 's \<Rightarrow> ('e, unit) outcome \<times> 's) \<Rightarrow> (bytes \<Rightarrow> 's \<Rightarrow> (('e, nat) outcome \<times> bytes) \<times> 's) \<Rightarrow>
   (nat \<Rightarrow> nat) \<Rightarrow> nat \<Rightarrow> ('s tcp_transport, 'e) env" where
  "tcp_env write_all read now hz =
     \<lparr>tr_send = tcp_send write_all, tr_recv = tcp_recv read,
      tr_send_vectored = send_vectored_default (tcp_send write_all),
      env_now = now, env_tick_hz = hz\<rparr>"

text \<open>\<open>EmbeddedIoSplitTransport\<close>: a reader and a writer of different types.\<close>

datatype ('re, 'we) split_io_error = ReadError 're | WriteError 'we

record ('r, 'x) split_transport =
  spt_reader :: 'r
  spt_writer :: 'x

definition split_send ::
  "(bytes \<Rightarrow> 'x \<Rightarrow> ('we, unit) outcome \<times> 'x) \<Rightarrow> bytes \<Rightarrow> ('r, 'x) split_transport \<Rightarrow>
   (('re, 'we) split_io_error, unit) outcome \<times> ('r, 'x) split_transport" where
  "split_send write_all buf t =
     (case write_all buf (spt_writer t) of (r, s) \<Rightarrow> (map_err WriteError r, t\<lparr>spt_writer := s\<rparr>))"

definition split_recv ::
  "(bytes \<Rightarrow> 'r \<Rightarrow> (('re, nat) outcome \<times> bytes) \<times> 'r) \<Rightarrow> bytes \<Rightarrow> ('r, 'x) split_transport \<Rightarrow>
   ((('re, 'we) split_io_error, nat) outcome \<times> bytes) \<times> ('r, 'x) split_transport" where
  "split_recv read buf t =
     (case read buf (spt_reader t) of ((r, buf'), s) \<Rightarrow> ((map_err ReadError r, buf'), t\<lparr>spt_reader := s\<rparr>))"

definition split_env ::
  "(bytes \<Rightarrow> 'x \<Rightarrow> ('we, unit) outcome \<times> 'x) \<Rightarrow> (bytes \<Rightarrow> 'r \<Rightarrow> (('re, nat) outcome \<times> bytes) \<times> 'r) \<Rightarrow>
   (nat \<Rightarrow> nat) \<Rightarrow> nat \<Rightarrow> (('r, 'x) split_transport, ('re, 'we) split_io_error) env" where
  "split_env write_all read now hz =
     \<lparr>tr_send = split_send write_all, tr_recv = split_recv read,
      tr_send_vectored = send_vectored_default (split_send write_all),
      env_now = now, env_tick_hz = hz\<rparr>"

lemma map_err_eq [simp]:
  "map_err g r = Ok a \<longleftrightarrow> r = Ok a" "map_err g r = Panic \<longleftrightarrow> r = Panic"
  "Ok a = map_err g r \<longleftrightarrow> r = Ok a" "Panic = map_err g r \<longleftrightarrow> r = Panic"
  by (cases r; auto)+

lemma vectored_default:
  assumes ok: "\<And>b w u w'. snd_op b w = (Ok u, w') \<Longrightarrow> sent w' = sent w @ b"
    and grows: "\<And>b w r w'. snd_op b w = (r, w') \<Longrightarrow> r \<noteq> Panic \<and> (\<exists>tl. sent w' = sent w @ tl)"
    and run: "send_vectored_default snd_op bs w = (r, w')"
  shows "r \<noteq> Panic \<and> (\<exists>tl. sent w' = sent w @ tl) \<and> (r = Ok () \<longrightarrow> sent w' = sent w @ concat bs)"
  using run
proof (induction bs arbitrary: w)
  case (Cons b bs)
  obtain r1 w1 where s: "snd_op b w = (r1, w1)" by fastforce
  show ?case
  proof (cases "b = []")
    case False
    from grows [OF s] obtain tl where tl: "r1 \<noteq> Panic" "sent w1 = sent w @ tl" by blast
    show ?thesis
    proof (cases r1)
      case (Ok u)
      with s Cons.prems False have "send_vectored_default snd_op bs w1 = (r, w')" by simp
      from Cons.IH [OF this] ok [of b w u w1] s Ok show ?thesis by auto
    next
      case (Err e)
      with s Cons.prems False tl show ?thesis by auto
    qed (use tl in simp)
  qed (use Cons in simp)
qed auto

locale io_stream =
  fixes write_all :: "bytes \<Rightarrow> 's \<Rightarrow> ('e, unit) outcome \<times> 's"
    and read :: "bytes \<Rightarrow> 's \<Rightarrow> (('e, nat) outcome \<times> bytes) \<times> 's"
    and written :: "'s \<Rightarrow> bytes"
    and now :: "nat \<Rightarrow> nat" and hz :: nat
  assumes write_all_Ok: "write_all b s = (Ok u, s') \<Longrightarrow> written s' = written s @ b"
    and write_all_grows: "write_all b s = (r, s') \<Longrightarrow> r \<noteq> Panic \<and> (\<exists>tl. written s' = written s @ tl)"
    and read_len: "read buf s = ((x, buf'), s') \<Longrightarrow>
      x \<noteq> Panic \<and> length buf' = length buf \<and> written s' = written s \<and> (\<forall>n. x = Ok n \<longrightarrow> n \<le> length buf)"
begin

lemma embedded_send:
  "embedded_io_send write_all b w = (r, w') \<Longrightarrow> r \<noteq> Panic \<and>
     (\<exists>tl. written (eit_stream w') = written (eit_stream w) @ tl) \<and>
     (r = Ok () \<longrightarrow> written (eit_stream w') = written (eit_stream w) @ b)"
  using write_all_grows write_all_Ok by (fastforce simp: embedded_io_send_def split: prod.splits)

lemma embedded_vectored:
  "send_vectored_default (embedded_io_send write_all) bs w = (r, w') \<Longrightarrow> r \<noteq> Panic \<and>
     (\<exists>tl. written (eit_stream w') = written (eit_stream w) @ tl) \<and>
     (r = Ok () \<longrightarrow> written (eit_stream w') = written (eit_stream w) @ concat bs)"
  by (rule vectored_default [where sent = "\<lambda>w. written (eit_stream w)"])
    (use embedded_send in \<open>auto dest!: embedded_send\<close>)

lemma tcp_send_ok:
  "tcp_send write_all b w = (r, w') \<Longrightarrow> r \<noteq> Panic \<and>
     (\<exists>tl. written (tcp_socket w') = written (tcp_socket w) @ tl) \<and>
     (r = Ok () \<longrightarrow> written (tcp_socket w') = written (tcp_socket w) @ b)"
  using write_all_grows write_all_Ok by (fastforce simp: tcp_send_def split: prod.splits)

lemma tcp_vectored:
  "send_vectored_default (tcp_send write_all) bs w = (r, w') \<Longrightarrow> r \<noteq> Panic \<and>
     (\<exists>tl. written (tcp_socket w') = written (tcp_socket w) @ tl) \<and>
     (r = Ok () \<longrightarrow> written (tcp_socket w') = written (tcp_socket w) @ concat bs)"
  by (rule vectored_default [where sent = "\<lambda>w. written (tcp_socket w)"])
    (use tcp_send_ok in \<open>auto dest!: tcp_send_ok\<close>)

end

sublocale io_stream \<subseteq> embedded: transport_contract "embedded_io_env write_all read now hz"
  "\<lambda>w. written (eit_stream w)"
proof (unfold_locales, goal_cases)
  case (5 buf w r buf' w')
  then show ?case using read_len [of buf "eit_stream w"]
    by (fastforce simp: embedded_io_env_def embedded_io_recv_def split: prod.splits)
qed (auto simp: embedded_io_env_def dest!: embedded_send embedded_vectored)

sublocale io_stream \<subseteq> tcp: transport_contract "tcp_env write_all read now hz"
  "\<lambda>w. written (tcp_socket w)"
proof (unfold_locales, goal_cases)
  case (5 buf w r buf' w')
  then show ?case using read_len [of buf "tcp_socket w"]
    by (fastforce simp: tcp_env_def tcp_recv_def split: prod.splits)
qed (auto simp: tcp_env_def dest!: tcp_send_ok tcp_vectored)

text \<open>The split transport needs a reader and a writer; \<open>io_split\<close> is their joint contract.\<close>

locale io_split =
  fixes write_all :: "bytes \<Rightarrow> 'x \<Rightarrow> ('we, unit) outcome \<times> 'x"
    and read :: "bytes \<Rightarrow> 'r \<Rightarrow> (('re, nat) outcome \<times> bytes) \<times> 'r"
    and written :: "'x \<Rightarrow> bytes"
    and now :: "nat \<Rightarrow> nat" and hz :: nat
  assumes write_all_Ok: "write_all b s = (Ok u, s') \<Longrightarrow> written s' = written s @ b"
    and write_all_grows: "write_all b s = (r, s') \<Longrightarrow> r \<noteq> Panic \<and> (\<exists>tl. written s' = written s @ tl)"
    and read_len: "read buf t = ((x, buf'), t') \<Longrightarrow>
      x \<noteq> Panic \<and> length buf' = length buf \<and> (\<forall>n. x = Ok n \<longrightarrow> n \<le> length buf)"
begin

lemma split_send_ok:
  "split_send write_all b w = (r, w') \<Longrightarrow> r \<noteq> Panic \<and>
     (\<exists>tl. written (spt_writer w') = written (spt_writer w) @ tl) \<and>
     (r = Ok () \<longrightarrow> written (spt_writer w') = written (spt_writer w) @ b)"
  using write_all_grows write_all_Ok by (fastforce simp: split_send_def split: prod.splits)

lemma split_vectored:
  "send_vectored_default (split_send write_all) bs w = (r, w') \<Longrightarrow> r \<noteq> Panic \<and>
     (\<exists>tl. written (spt_writer w') = written (spt_writer w) @ tl) \<and>
     (r = Ok () \<longrightarrow> written (spt_writer w') = written (spt_writer w) @ concat bs)"
  by (rule vectored_default [where sent = "\<lambda>w. written (spt_writer w)"])
    (use split_send_ok in \<open>auto dest!: split_send_ok\<close>)

end

sublocale io_split \<subseteq> split: transport_contract "split_env write_all read now hz"
  "\<lambda>w. written (spt_writer w)"
proof (unfold_locales, goal_cases)
  case (5 buf w r buf' w')
  then show ?case using read_len [of buf "spt_reader w"]
    by (fastforce simp: split_env_def split_recv_def split: prod.splits)
qed (auto simp: split_env_def dest!: split_send_ok split_vectored)

subsection \<open>The in-memory transports of the repository's tests\<close>

text \<open>\<open>MockTransport\<close> and \<open>MockEmbeddedIoStream\<close> of \<open>tests/client_tests.rs\<close> keep two byte
  queues. \<open>write_all\<close> of the latter is the provided method of \<open>embedded_io_async::Write\<close>,
  which repeats \<open>write\<close>; this \<open>write\<close> takes the whole buffer.\<close>

record mock_transport =
  mt_outgoing :: bytes
  mt_incoming :: bytes

definition mock_send :: "bytes \<Rightarrow> mock_transport \<Rightarrow> ('t, unit) outcome \<times> mock_transport" where
  "mock_send buf t = (Ok (), t\<lparr>mt_outgoing := mt_outgoing t @ buf\<rparr>)"

definition mock_recv :: "bytes \<Rightarrow> mock_transport \<Rightarrow> (('t, nat) outcome \<times> bytes) \<times> mock_transport" where
  "mock_recv buf t =
     (let to_read = min (length buf) (length (mt_incoming t)) in
      ((Ok to_read, overwrite 0 (take to_read (mt_incoming t)) buf),
       t\<lparr>mt_incoming := drop to_read (mt_incoming t)\<rparr>))"

definition mock_env :: "(nat \<Rightarrow> nat) \<Rightarrow> nat \<Rightarrow> (mock_transport, 't) env" where
  "mock_env now hz =
     \<lparr>tr_send = mock_send, tr_recv = mock_recv, tr_send_vectored = send_vectored_default mock_send,
      env_now = now, env_tick_hz = hz\<rparr>"

lemma mock_send_sent: "mock_send b w = (r, w') \<Longrightarrow>
    r \<noteq> Panic \<and> (\<exists>tl. mt_outgoing w' = mt_outgoing w @ tl) \<and> (r = Ok () \<longrightarrow> mt_outgoing w' = mt_outgoing w @ b)"
  by (auto simp: mock_send_def)

lemma mock_vectored: "send_vectored_default mock_send bs w = (r, w') \<Longrightarrow>
    r \<noteq> Panic \<and> (\<exists>tl. mt_outgoing w' = mt_outgoing w @ tl) \<and>
    (r = Ok () \<longrightarrow> mt_outgoing w' = mt_outgoing w @ concat bs)"
  by (rule vectored_default [where sent = mt_outgoing]) (auto dest!: mock_send_sent)

interpretation mock: transport_contract "mock_env now hz" mt_outgoing for now hz
proof (unfold_locales, goal_cases)
  case (5 buf w r buf' w')
  then show ?case by (auto simp: mock_env_def mock_recv_def Let_def)
qed (auto simp: mock_env_def dest!: mock_send_sent mock_vectored)

interpretation mock_io: io_stream mock_send mock_recv mt_outgoing now hz for now hz
proof (unfold_locales, goal_cases)
  case (3 buf w r buf' w')
  then show ?case by (auto simp: mock_recv_def Let_def)
qed (auto dest!: mock_send_sent)

interpretation mock_split: io_split mock_send mock_recv mt_outgoing now hz for now hz
proof (unfold_locales, goal_cases)
  case (3 buf w r buf' w')
  then show ?case by (auto simp: mock_recv_def Let_def)
qed (auto dest!: mock_send_sent)

end
