(* ===== verification/Stream_Writer.thy ===== *)
theory Stream_Writer
  imports Emb_Transport
begin

text \<open>
  \<open>mqtt-embedded/src/stream_writer.rs\<close>: writing an announced number of payload bytes in
  chunks. The writer borrows the client's transport; here it holds it.
\<close>

record 'w stream_writer =
  sw_transport :: 'w
  sw_total_len :: nat
  sw_bytes_remaining :: nat

definition stream_writer_new :: "'w \<Rightarrow> nat \<Rightarrow> 'w stream_writer" where
  "stream_writer_new transport total_payload_len =
     \<lparr>sw_transport = transport, sw_total_len = total_payload_len,
      sw_bytes_remaining = total_payload_len\<rparr>"

type_synonym ('w, 't, 'a) writer_action = "('t mqtt_error, 'w stream_writer, 'a) action"

definition write_chunk :: "('w, 't) env \<Rightarrow> bytes \<Rightarrow> ('w, 't, unit) writer_action" where
  "write_chunk env chunk wr =
     (if sw_bytes_remaining wr < length chunk then (Err ME_BufferTooSmall, wr)
      else case tr_send env chunk (sw_transport wr) of
        (Ok _, w) \<Rightarrow> (Ok (), wr\<lparr>sw_transport := w,
                        sw_bytes_remaining := sw_bytes_remaining wr - length chunk\<rparr>)
      | (Err e, w) \<Rightarrow> (Err (Transport e), wr\<lparr>sw_transport := w\<rparr>)
      | (Panic, w) \<Rightarrow> (Panic, wr\<lparr>sw_transport := w\<rparr>))"

definition write_dma_slice :: "('w, 't) env \<Rightarrow> bytes \<Rightarrow> ('w, 't, unit) writer_action" where
  "write_dma_slice env dma_buffer = write_chunk env dma_buffer"

definition write_dma_vectored :: "('w, 't) env \<Rightarrow> bytes list \<Rightarrow> ('w, 't, unit) writer_action" where
  "write_dma_vectored env slices wr =
     (let total = sum_list (map length slices) in
      if sw_bytes_remaining wr < total then (Err ME_BufferTooSmall, wr)
      else case tr_send_vectored env slices (sw_transport wr) of
        (Ok _, w) \<Rightarrow> (Ok (), wr\<lparr>sw_transport := w,
                        sw_bytes_remaining := sw_bytes_remaining wr - total\<rparr>)
      | (Err e, w) \<Rightarrow> (Err (Transport e), wr\<lparr>sw_transport := w\<rparr>)
      | (Panic, w) \<Rightarrow> (Panic, wr\<lparr>sw_transport := w\<rparr>))"

definition total_bytes :: "'w stream_writer \<Rightarrow> nat" where
  "total_bytes wr = sw_total_len wr"

definition remaining_bytes :: "'w stream_writer \<Rightarrow> nat" where
  "remaining_bytes wr = sw_bytes_remaining wr"

definition is_complete :: "'w stream_writer \<Rightarrow> bool" where
  "is_complete wr \<longleftrightarrow> sw_bytes_remaining wr = 0"

definition stream_finish :: "'w stream_writer \<Rightarrow> ('t mqtt_error, unit) outcome" where
  "stream_finish wr = (if sw_bytes_remaining wr = 0 then Ok () else Err (Protocol P_IncompletePacket))"

text \<open>Any mixture of the three ways to write.\<close>

datatype stream_write = Chunk bytes | DmaSlice bytes | DmaVectored "bytes list"

fun stream_write_step :: "('w, 't) env \<Rightarrow> stream_write \<Rightarrow> ('w, 't, unit) writer_action" where
  "stream_write_step env (Chunk b) = write_chunk env b"
| "stream_write_step env (DmaSlice b) = write_dma_slice env b"
| "stream_write_step env (DmaVectored bs) = write_dma_vectored env bs"

fun stream_write_bytes :: "stream_write \<Rightarrow> bytes" where
  "stream_write_bytes (Chunk b) = b"
| "stream_write_bytes (DmaSlice b) = b"
| "stream_write_bytes (DmaVectored bs) = concat bs"

fun stream_writes :: "('w, 't) env \<Rightarrow> stream_write list \<Rightarrow> ('w, 't, unit) writer_action" where
  "stream_writes env [] = ret ()"
| "stream_writes env (x # xs) = bind (stream_write_step env x) (\<lambda>_. stream_writes env xs)"

context transport_contract begin

lemma stream_write_step_Ok:
  assumes "stream_write_step env x wr = (Ok u, wr')"
  shows "sent (sw_transport wr') = sent (sw_transport wr) @ stream_write_bytes x \<and>
    length (stream_write_bytes x) \<le> sw_bytes_remaining wr \<and>
    sw_bytes_remaining wr' = sw_bytes_remaining wr - length (stream_write_bytes x) \<and>
    sw_total_len wr' = sw_total_len wr"
  using assms
  by (cases x) (auto simp: write_dma_slice_def write_chunk_def write_dma_vectored_def Let_def
      length_concat split: if_splits prod.splits outcome.splits dest!: send_Ok vectored_Ok)

lemma stream_writes_Ok:
  assumes "stream_writes env xs wr = (Ok u, wr')"
  shows "sent (sw_transport wr') = sent (sw_transport wr) @ concat (map stream_write_bytes xs) \<and>
    sw_bytes_remaining wr = sw_bytes_remaining wr' + length (concat (map stream_write_bytes xs))"
  using assms
proof (induction xs arbitrary: wr)
  case (Cons x xs)
  then obtain wr1 where 1: "stream_write_step env x wr = (Ok (), wr1)" "stream_writes env xs wr1 = (Ok u, wr')"
    by (auto simp: bind_Ok)
  from stream_write_step_Ok [OF 1(1)] Cons.IH [OF 1(2)] show ?case by auto
qed simp

lemma stream_write_step_grows:
  assumes "stream_write_step env x wr = (r, wr')"
  shows "r \<noteq> Panic \<and> (\<exists>tl. sent (sw_transport wr') = sent (sw_transport wr) @ tl) \<and>
    sw_bytes_remaining wr' \<le> sw_bytes_remaining wr"
  using assms
  by (cases x) (auto simp: write_dma_slice_def write_chunk_def write_dma_vectored_def Let_def
      split: if_splits prod.splits outcome.splits dest!: send_grows vectored_grows)

end

end
