(* ===== verification/Emb_Client.thy ===== *)
theory Emb_Client
  imports Frames Emb_Inflight Stream_Writer
begin

text \<open>
  \<open>mqtt-embedded/src/client.rs\<close>: the embedded client's data and methods. Every method is an
  action on \<open>client\<close>; \<open>BUF_SIZE\<close> is the length of the two buffers, \<open>MAX_INFLIGHT\<close> the argument
  \<open>N\<close>. \<open>cl_readings\<close> counts the clock readings so far and selects the next one.
\<close>

datatype stream_mode = Standard | RealTimeStreaming

datatype mqtt_event =
    PublishEvent publish
  | PubAckEvent ack
  | PubRecEvent ack
  | PubRelEvent ack
  | PubCompEvent ack
  | SubAckEvent suback
  | UnsubAckEvent unsuback
  | PingRespEvent
  | DisconnectEvent

record publish_message =
  pm_topic :: str
  pm_payload :: bytes
  pm_qos :: qos
  pm_retain :: bool

definition publish_message_new :: "str \<Rightarrow> bytes \<Rightarrow> qos \<Rightarrow> publish_message" where
  "publish_message_new topic payload q =
     \<lparr>pm_topic = topic, pm_payload = payload, pm_qos = q, pm_retain = False\<rparr>"

record mqtt_options =
  mo_client_id :: str
  mo_host :: str
  mo_port :: u16
  mo_keep_alive :: nat
  mo_clean_session :: bool
  mo_username :: "str option"
  mo_password :: "str option"
  mo_will :: "will option"
  mo_properties :: "property list"
  mo_version :: mqtt_version
  mo_stream_mode :: stream_mode

text \<open>Durations are in ticks; \<open>hz\<close> is \<open>TICK_HZ\<close>.\<close>

definition mqtt_options_new :: "nat \<Rightarrow> str \<Rightarrow> str \<Rightarrow> u16 \<Rightarrow> mqtt_options" where
  "mqtt_options_new hz client_id host port =
     \<lparr>mo_client_id = client_id, mo_host = host, mo_port = port, mo_keep_alive = 30 * hz,
      mo_clean_session = True, mo_username = None, mo_password = None, mo_will = None,
      mo_properties = [], mo_version = V3_1_1, mo_stream_mode = Standard\<rparr>"

definition with_keep_alive :: "nat \<Rightarrow> mqtt_options \<Rightarrow> mqtt_options" where
  "with_keep_alive keep_alive mo = mo\<lparr>mo_keep_alive := keep_alive\<rparr>"

definition with_clean_session :: "bool \<Rightarrow> mqtt_options \<Rightarrow> mqtt_options" where
  "with_clean_session clean_session mo = mo\<lparr>mo_clean_session := clean_session\<rparr>"

definition with_credentials :: "str \<Rightarrow> str \<Rightarrow> mqtt_options \<Rightarrow> mqtt_options" where
  "with_credentials username password mo = mo\<lparr>mo_username := Some username, mo_password := Some password\<rparr>"

definition with_will :: "will \<Rightarrow> mqtt_options \<Rightarrow> mqtt_options" where
  "with_will w mo = mo\<lparr>mo_will := Some w\<rparr>"

definition with_version :: "mqtt_version \<Rightarrow> mqtt_options \<Rightarrow> mqtt_options" where
  "with_version v mo = mo\<lparr>mo_version := v\<rparr>"

definition with_stream_mode :: "stream_mode \<Rightarrow> mqtt_options \<Rightarrow> mqtt_options" where
  "with_stream_mode m mo = mo\<lparr>mo_stream_mode := m\<rparr>"

datatype connection_state = ClientDisconnected | ClientConnecting | ClientConnected

record 'w client =
  cl_transport :: 'w
  cl_options :: mqtt_options
  cl_state :: connection_state
  cl_next_packet_id :: u16
  cl_last_tx_time :: nat
  cl_last_rx_time :: nat
  cl_tx_buffer :: bytes
  cl_rx_buffer :: bytes
  cl_rx_len :: nat
  cl_inflight :: inflight_queue
  cl_readings :: nat

type_synonym ('w, 't, 'a) client_action = "('t mqtt_error, 'w client, 'a) action"

definition client_new :: "('w, 't) env \<Rightarrow> nat \<Rightarrow> 'w \<Rightarrow> mqtt_options \<Rightarrow> 'w client" where
  "client_new env buf_size transport mo =
     \<lparr>cl_transport = transport, cl_options = mo, cl_state = ClientDisconnected,
      cl_next_packet_id = 1, cl_last_tx_time = env_now env 0, cl_last_rx_time = env_now env 1,
      cl_tx_buffer = replicate buf_size 0, cl_rx_buffer = replicate buf_size 0, cl_rx_len = 0,
      cl_inflight = inflight_new, cl_readings = 2\<rparr>"

definition is_connected :: "'w client \<Rightarrow> bool" where
  "is_connected c \<longleftrightarrow> cl_state c = ClientConnected"

definition get_next_packet_id :: "('w, 't, u16) client_action" where
  "get_next_packet_id c =
     (let pid = cl_next_packet_id c;
          next_id = pid + 1;
          next_id = (if next_id = 0 then 1 else next_id)
      in (Ok pid, c\<lparr>cl_next_packet_id := next_id\<rparr>))"

subsection \<open>The steps the methods share\<close>

definition read_clock :: "('w, 't) env \<Rightarrow> ('w, 't, nat) client_action" where
  "read_clock env c = (Ok (env_now env (cl_readings c)), c\<lparr>cl_readings := cl_readings c + 1\<rparr>)"

text \<open>\<open>self.last_tx_time = Instant::now()\<close> and the same for \<open>last_rx_time\<close>.\<close>

definition touch_tx :: "('w, 't) env \<Rightarrow> ('w, 't, unit) client_action" where
  "touch_tx env = bind (read_clock env) (\<lambda>t. modify (\<lambda>c. c\<lparr>cl_last_tx_time := t\<rparr>))"

definition touch_rx :: "('w, 't) env \<Rightarrow> ('w, 't, unit) client_action" where
  "touch_rx env = bind (read_clock env) (\<lambda>t. modify (\<lambda>c. c\<lparr>cl_last_rx_time := t\<rparr>))"

definition set_state :: "connection_state \<Rightarrow> ('w, 't, unit) client_action" where
  "set_state st = modify (\<lambda>c. c\<lparr>cl_state := st\<rparr>)"

text \<open>\<open>packet.encode(&mut self.tx_buffer[cursor..], version)\<close>, with the codec's own error.\<close>

definition encode_raw :: "mqtt_packet \<Rightarrow> nat \<Rightarrow> 'w client \<Rightarrow> (packet_error, nat) outcome \<times> 'w client" where
  "encode_raw p cursor c =
     (let buf = cl_tx_buffer c in
      if length buf < cursor then (Panic, c)
      else case encode_packet p (drop cursor buf) (mo_version (cl_options c)) of
        (r, sub) \<Rightarrow> (r, c\<lparr>cl_tx_buffer := take cursor buf @ sub\<rparr>))"

definition encode_tx :: "mqtt_packet \<Rightarrow> nat \<Rightarrow> ('w, 't, nat) client_action" where
  "encode_tx p cursor c = (case encode_raw p cursor c of (r, c') \<Rightarrow> (map_err mqtt_error_from r, c'))"

text \<open>\<open>self.transport.send(b).await?\<close>, and \<open>b = &self.tx_buffer[..len]\<close>.\<close>

definition send_bytes :: "('w, 't) env \<Rightarrow> bytes \<Rightarrow> ('w, 't, unit) client_action" where
  "send_bytes env b c =
     (case tr_send env b (cl_transport c) of (r, w) \<Rightarrow> (map_err Transport r, c\<lparr>cl_transport := w\<rparr>))"

definition send_tx :: "('w, 't) env \<Rightarrow> nat \<Rightarrow> ('w, 't, unit) client_action" where
  "send_tx env len = bind (gets cl_tx_buffer) (\<lambda>buf. bind (lift (subslice buf 0 len)) (send_bytes env))"

definition send_packet :: "('w, 't) env \<Rightarrow> mqtt_packet \<Rightarrow> ('w, 't, unit) client_action" where
  "send_packet env p = bind (encode_tx p 0) (send_tx env)"

definition recv_rx :: "('w, 't) env \<Rightarrow> ('w, 't, nat) client_action" where
  "recv_rx env c =
     (case tr_recv env (cl_rx_buffer c) (cl_transport c) of
        ((r, buf), w) \<Rightarrow> (map_err Transport r, c\<lparr>cl_rx_buffer := buf, cl_transport := w\<rparr>))"

definition decode_rx :: "nat \<Rightarrow> ('w, 't, mqtt_packet option) client_action" where
  "decode_rx n =
     bind (gets (\<lambda>c. (cl_rx_buffer c, mo_version (cl_options c)))) (\<lambda>(buf, v).
     bind (lift (subslice buf 0 n)) (\<lambda>b. lift (map_err mqtt_error_from (decode b v))))"

definition require_connected :: "('w, 't, unit) client_action" where
  "require_connected c =
     (if cl_state c \<noteq> ClientConnected then (Err NotConnected, c) else (Ok (), c))"

definition with_inflight ::
  "(inflight_queue \<Rightarrow> ('t mqtt_error, 'a) outcome \<times> inflight_queue) \<Rightarrow> ('w, 't, 'a) client_action" where
  "with_inflight f c = (case f (cl_inflight c) of (r, q) \<Rightarrow> (r, c\<lparr>cl_inflight := q\<rparr>))"

text \<open>The packet identifier of an outgoing message: allocated and tracked for QoS 1 and 2.\<close>

definition allocate_packet_id :: "nat \<Rightarrow> qos \<Rightarrow> ('w, 't, u16 option) client_action" where
  "allocate_packet_id N q =
     (if q \<noteq> AtMostOnce then
        bind get_next_packet_id (\<lambda>pid.
        bind (with_inflight (track_outbound N pid q)) (\<lambda>_. ret (Some pid)))
      else ret None)"

subsection \<open>Connecting\<close>

definition connect_packet :: "nat \<Rightarrow> mqtt_options \<Rightarrow> connect" where
  "connect_packet hz mo =
     (connect_new (mo_client_id mo) (of_nat (mo_keep_alive mo div hz)) (mo_clean_session mo))
       \<lparr>conn_username := mo_username mo, conn_password := mo_password mo, conn_will := mo_will mo,
        conn_properties := mo_properties mo\<rparr>"

definition connect_reply :: "mqtt_packet option \<Rightarrow> ('w, 't, unit) client_action" where
  "connect_reply p =
     (case p of
        Some (ConnAck connack) \<Rightarrow>
          (if ca_reason_code connack = 0 then
             bind (set_state ClientConnected) (\<lambda>_.
               modify (\<lambda>c. c\<lparr>cl_inflight := inflight_clear (cl_inflight c)\<rparr>))
           else bind (set_state ClientDisconnected) (\<lambda>_.
               throw (ConnectionRefused (connect_reason_code_from (ca_reason_code connack)))))
      | _ \<Rightarrow> bind (set_state ClientDisconnected) (\<lambda>_. throw (Protocol InvalidResponse)))"

definition client_connect :: "('w, 't) env \<Rightarrow> ('w, 't, unit) client_action" where
  "client_connect env =
     bind (set_state ClientConnecting) (\<lambda>_.
     bind (gets cl_options) (\<lambda>mo.
     bind (encode_tx (Connect (connect_packet (env_tick_hz env) mo)) 0) (\<lambda>len.
     bind (send_tx env len) (\<lambda>_.
     bind (touch_tx env) (\<lambda>_.
     bind (recv_rx env) (\<lambda>read_len.
     if read_len = 0 then bind (set_state ClientDisconnected) (\<lambda>_. throw NotConnected)
     else
       bind (touch_rx env) (\<lambda>_.
       bind (decode_rx read_len) connect_reply)))))))"

subsection \<open>Publishing\<close>

definition outgoing_publish :: "str \<Rightarrow> bytes \<Rightarrow> qos \<Rightarrow> u16 option \<Rightarrow> bool \<Rightarrow> publish" where
  "outgoing_publish topic payload q packet_id retain =
     (publish_new topic payload q)\<lparr>pub_packet_id := packet_id, pub_retain := retain\<rparr>"

definition client_publish ::
  "('w, 't) env \<Rightarrow> nat \<Rightarrow> str \<Rightarrow> bytes \<Rightarrow> qos \<Rightarrow> ('w, 't, unit) client_action" where
  "client_publish env N topic payload q =
     bind require_connected (\<lambda>_.
     bind (allocate_packet_id N q) (\<lambda>packet_id.
     bind (encode_tx (Publish (outgoing_publish topic payload q packet_id False)) 0) (\<lambda>len.
     bind (send_tx env len) (\<lambda>_.
       touch_tx env))))"

text \<open>The \<open>match\<close> on the encoder's result in \<open>publish_batch\<close>; returns the new cursor. When the
  rest of the buffer is too small the packets before it are sent and the encoding starts over
  at the front.\<close>

definition batch_encode :: "('w, 't) env \<Rightarrow> mqtt_packet \<Rightarrow> nat \<Rightarrow> ('w, 't, nat) client_action" where
  "batch_encode env p cursor c =
     (case encode_raw p cursor c of
        (Ok len, c') \<Rightarrow> (Ok (cursor + len), c')
      | (Err e, c') \<Rightarrow>
          (if e = BufferTooSmall then
             (if 0 < cursor then
                bind (send_tx env cursor) (\<lambda>_. encode_tx p 0) c'
              else (Err ME_BufferTooSmall, c'))
           else (Err (mqtt_error_from e), c'))
      | (Panic, c') \<Rightarrow> (Panic, c'))"

definition batch_message ::
  "('w, 't) env \<Rightarrow> nat \<Rightarrow> publish_message \<Rightarrow> nat \<Rightarrow> ('w, 't, nat) client_action" where
  "batch_message env N msg cursor =
     bind (allocate_packet_id N (pm_qos msg)) (\<lambda>packet_id.
       batch_encode env (Publish (outgoing_publish (pm_topic msg) (pm_payload msg) (pm_qos msg)
         packet_id (pm_retain msg))) cursor)"

fun batch_messages ::
  "('w, 't) env \<Rightarrow> nat \<Rightarrow> publish_message list \<Rightarrow> nat \<Rightarrow> nat \<Rightarrow> ('w, 't, nat \<times> nat) client_action" where
  "batch_messages env N [] cursor sent_count = ret (cursor, sent_count)"
| "batch_messages env N (msg # messages) cursor sent_count =
     bind (batch_message env N msg cursor) (\<lambda>cursor.
       batch_messages env N messages cursor (sent_count + 1))"

definition publish_batch ::
  "('w, 't) env \<Rightarrow> nat \<Rightarrow> publish_message list \<Rightarrow> ('w, 't, nat) client_action" where
  "publish_batch env N messages =
     bind require_connected (\<lambda>_.
     bind (batch_messages env N messages 0 0) (\<lambda>(cursor, sent_count).
     bind (if 0 < cursor then bind (send_tx env cursor) (\<lambda>_. touch_tx env) else ret ()) (\<lambda>_.
       ret sent_count)))"

subsection \<open>Streaming a payload\<close>

definition stream_fixed_header :: "qos \<Rightarrow> nat \<Rightarrow> (packet_error, bytes) outcome" where
  "stream_fixed_header q remaining_len =
     (let header_buf = (replicate 16 0)[0 := 0x30 OR push_bit 1 (qos_to_u8 q)] in
      case write_variable_byte_integer_len (drop 1 header_buf) remaining_len of
        (r, sub) \<Rightarrow> and_then r (\<lambda>len_bytes. subslice (take 1 header_buf @ sub) 0 (1 + len_bytes)))"

text \<open>The variable header in its buffer of 256 bytes; slices and indices out of it panic.\<close>

definition stream_variable_header ::
  "str \<Rightarrow> u16 option \<Rightarrow> mqtt_version \<Rightarrow> (packet_error, bytes) outcome" where
  "stream_variable_header topic packet_id v =
     (case write_utf8_string topic (replicate 256 0) of
        (r, var_buf) \<Rightarrow>
          and_then r (\<lambda>var_cursor.
          and_then
            (case packet_id of
               Some pid \<Rightarrow>
                 (if var_cursor + 2 \<le> length var_buf
                  then Ok (overwrite var_cursor (to_be16 pid) var_buf, var_cursor + 2) else Panic)
             | None \<Rightarrow> Ok (var_buf, var_cursor)) (\<lambda>(var_buf, var_cursor).
          and_then
            (if v = V5 then
               (if var_cursor < length var_buf
                then Ok (var_buf[var_cursor := 0], var_cursor + 1) else Panic)
             else Ok (var_buf, var_cursor)) (\<lambda>(var_buf, var_cursor).
            subslice var_buf 0 var_cursor))))"

definition begin_stream_publish ::
  "('w, 't) env \<Rightarrow> nat \<Rightarrow> str \<Rightarrow> nat \<Rightarrow> qos \<Rightarrow> ('w, 't, 'w stream_writer) client_action" where
  "begin_stream_publish env N topic total_payload_len q =
     bind require_connected (\<lambda>_.
     bind (allocate_packet_id N q) (\<lambda>packet_id.
     bind (gets (\<lambda>c. mo_version (cl_options c))) (\<lambda>v.
     let variable_header_len = 2 + length topic + (if packet_id \<noteq> None then 2 else 0) +
           (if v = V5 then 1 else 0);
         remaining_len = variable_header_len + total_payload_len in
     bind (lift (map_err mqtt_error_from (stream_fixed_header q remaining_len))) (\<lambda>header.
     bind (send_bytes env header) (\<lambda>_.
     bind (lift (map_err mqtt_error_from (stream_variable_header topic packet_id v))) (\<lambda>var.
     bind (send_bytes env var) (\<lambda>_.
     bind (touch_tx env) (\<lambda>_.
     gets (\<lambda>c. stream_writer_new (cl_transport c) total_payload_len)))))))))"

text \<open>When the writer is dropped the client has its transport back.\<close>

definition end_stream :: "'w stream_writer \<Rightarrow> 'w client \<Rightarrow> 'w client" where
  "end_stream wr c = c\<lparr>cl_transport := sw_transport wr\<rparr>"

subsection \<open>Subscribing\<close>

fun add_topics :: "(str \<times> qos) list \<Rightarrow> subscribe \<Rightarrow> (packet_error, subscribe) outcome" where
  "add_topics [] sub = Ok sub"
| "add_topics ((t, q) # topics) sub = and_then (subscribe_add_topic sub t q) (add_topics topics)"

fun add_unsub_topics :: "str list \<Rightarrow> unsubscribe \<Rightarrow> (packet_error, unsubscribe) outcome" where
  "add_unsub_topics [] unsub = Ok unsub"
| "add_unsub_topics (t # topics) unsub = and_then (unsubscribe_add_topic unsub t) (add_unsub_topics topics)"

definition client_subscribe :: "('w, 't) env \<Rightarrow> (str \<times> qos) list \<Rightarrow> ('w, 't, u16) client_action" where
  "client_subscribe env topics =
     bind require_connected (\<lambda>_.
     bind get_next_packet_id (\<lambda>packet_id.
     bind (lift (map_err mqtt_error_from (add_topics topics (subscribe_new packet_id)))) (\<lambda>sub.
     bind (encode_tx (Subscribe sub) 0) (\<lambda>len.
     bind (send_tx env len) (\<lambda>_.
     bind (touch_tx env) (\<lambda>_. ret packet_id))))))"

definition client_unsubscribe :: "('w, 't) env \<Rightarrow> str list \<Rightarrow> ('w, 't, u16) client_action" where
  "client_unsubscribe env topics =
     bind require_connected (\<lambda>_.
     bind get_next_packet_id (\<lambda>packet_id.
     bind (lift (map_err mqtt_error_from (add_unsub_topics topics (unsubscribe_new packet_id)))) (\<lambda>unsub.
     bind (encode_tx (Unsubscribe unsub) 0) (\<lambda>len.
     bind (send_tx env len) (\<lambda>_.
     bind (touch_tx env) (\<lambda>_. ret packet_id))))))"

subsection \<open>Receiving\<close>

text \<open>\<open>let _ = self.inflight.track_inbound_qos2(pid)\<close> ignores a full table.\<close>

definition acknowledge_publish :: "('w, 't) env \<Rightarrow> nat \<Rightarrow> publish \<Rightarrow> ('w, 't, unit) client_action" where
  "acknowledge_publish env N p =
     (case (pub_qos p, pub_packet_id p) of
        (AtLeastOnce, Some pid) \<Rightarrow> send_packet env (PubAck (ack_new pid))
      | (ExactlyOnce, Some pid) \<Rightarrow>
          bind (send_packet env (PubRec (ack_new pid))) (\<lambda>_.
            ignore_result (with_inflight (track_inbound_qos2 N pid)))
      | _ \<Rightarrow> ret ())"

definition on_inflight :: "(inflight_queue \<Rightarrow> bool \<times> inflight_queue) \<Rightarrow> ('w, 't, unit) client_action" where
  "on_inflight f = modify (\<lambda>c. c\<lparr>cl_inflight := snd (f (cl_inflight c))\<rparr>)"

fun handle_packet :: "('w, 't) env \<Rightarrow> nat \<Rightarrow> mqtt_packet \<Rightarrow> ('w, 't, mqtt_event option) client_action" where
  "handle_packet env N (Publish p) =
     bind (acknowledge_publish env N p) (\<lambda>_. ret (Some (PublishEvent p)))"
| "handle_packet env N (PubAck ack) =
     bind (on_inflight (handle_puback (ack_packet_id ack))) (\<lambda>_. ret (Some (PubAckEvent ack)))"
| "handle_packet env N (PubRec rec) =
     bind (on_inflight (handle_pubrec (ack_packet_id rec))) (\<lambda>_.
     bind (send_packet env (PubRel (ack_new (ack_packet_id rec)))) (\<lambda>_.
       ret (Some (PubRecEvent rec))))"
| "handle_packet env N (PubRel rel) =
     bind (on_inflight (handle_pubrel (ack_packet_id rel))) (\<lambda>_.
     bind (send_packet env (PubComp (ack_new (ack_packet_id rel)))) (\<lambda>_.
       ret (Some (PubRelEvent rel))))"
| "handle_packet env N (PubComp cmp) =
     bind (on_inflight (handle_pubcomp (ack_packet_id cmp))) (\<lambda>_. ret (Some (PubCompEvent cmp)))"
| "handle_packet env N (SubAck s) = ret (Some (SubAckEvent s))"
| "handle_packet env N (UnsubAck s) = ret (Some (UnsubAckEvent s))"
| "handle_packet env N PingResp = ret (Some PingRespEvent)"
| "handle_packet env N (Disconnect d) =
     bind (set_state ClientDisconnected) (\<lambda>_. ret (Some DisconnectEvent))"
| "handle_packet env N _ = ret None"

text \<open>\<open>now.duration_since(self.last_tx_time)\<close> panics when the clock has gone backwards.\<close>

definition keep_alive_ping :: "('w, 't) env \<Rightarrow> ('w, 't, unit) client_action" where
  "keep_alive_ping env =
     bind (read_clock env) (\<lambda>now.
     bind (gets (\<lambda>c. (cl_last_tx_time c, mo_keep_alive (cl_options c)))) (\<lambda>(last, keep_alive).
     if now < last then lift Panic
     else if keep_alive div 2 \<le> now - last then
       bind (send_packet env PingReq) (\<lambda>_. modify (\<lambda>c. c\<lparr>cl_last_tx_time := now\<rparr>))
     else ret ()))"

definition receive_rx :: "('w, 't) env \<Rightarrow> ('w, 't, nat) client_action" where
  "receive_rx env =
     bind (recv_rx env) (\<lambda>n.
     if n = 0 then ret 0
     else bind (modify (\<lambda>c. c\<lparr>cl_rx_len := n\<rparr>)) (\<lambda>_. bind (touch_rx env) (\<lambda>_. ret n)))"

definition client_poll :: "('w, 't) env \<Rightarrow> nat \<Rightarrow> ('w, 't, mqtt_event option) client_action" where
  "client_poll env N =
     bind require_connected (\<lambda>_.
     bind (keep_alive_ping env) (\<lambda>_.
     bind (receive_rx env) (\<lambda>n.
     if n = 0 then ret None
     else bind (decode_rx n) (\<lambda>parsed.
       case parsed of None \<Rightarrow> ret None | Some p \<Rightarrow> handle_packet env N p))))"

definition batch_frame ::
  "('w, 't) env \<Rightarrow> nat \<Rightarrow> nat \<Rightarrow> bytes \<Rightarrow> mqtt_event list \<Rightarrow> ('w, 't, mqtt_event list) client_action" where
  "batch_frame env N max_events frame_bytes events =
     bind (gets (\<lambda>c. mo_version (cl_options c))) (\<lambda>v.
     bind (lift (map_err mqtt_error_from (decode frame_bytes v))) (\<lambda>packet.
     case packet of
       None \<Rightarrow> ret events
     | Some p \<Rightarrow> bind (handle_packet env N p) (\<lambda>ev.
         ret (case ev of None \<Rightarrow> events | Some ev \<Rightarrow> push_or_keep max_events events ev))))"

function batch_frames ::
  "('w, 't) env \<Rightarrow> nat \<Rightarrow> nat \<Rightarrow> frame_iter \<Rightarrow> mqtt_event list \<Rightarrow> ('w, 't, mqtt_event list) client_action" where
  "batch_frames env N max_events it events c =
     (case frame_next it of
        (None, _) \<Rightarrow> (Ok events, c)
      | (Some (Err e), _) \<Rightarrow> (Err (mqtt_error_from e), c)
      | (Some Panic, _) \<Rightarrow> (Panic, c)
      | (Some (Ok f), it') \<Rightarrow>
          (case batch_frame env N max_events f events c of
             (Ok events', c') \<Rightarrow> batch_frames env N max_events it' events' c'
           | (Err e, c') \<Rightarrow> (Err e, c')
           | (Panic, c') \<Rightarrow> (Panic, c')))"
  by pat_completeness auto
termination
proof (relation "measure (\<lambda>(env, N, m, it, evs, c). length (fi_buffer it) - fi_offset it)", goal_cases)
  case (2 env N m it evs c x it' y f)
  then have n: "frame_next it = (Some (Ok f), it')" by simp
  from frame_next_advances [OF n] show ?case by auto
qed simp

declare batch_frames.simps [simp del]

definition poll_batch :: "('w, 't) env \<Rightarrow> nat \<Rightarrow> nat \<Rightarrow> ('w, 't, mqtt_event list) client_action" where
  "poll_batch env N max_events =
     bind require_connected (\<lambda>_.
     bind (receive_rx env) (\<lambda>n.
     if n = 0 then ret []
     else
       bind (gets cl_rx_buffer) (\<lambda>buf.
       bind (lift (subslice buf 0 n)) (\<lambda>b.
         batch_frames env N max_events (frame_iter_new b) []))))"

definition client_disconnect :: "('w, 't) env \<Rightarrow> ('w, 't, unit) client_action" where
  "client_disconnect env c =
     (if cl_state c \<noteq> ClientConnected then (Ok (), c)
      else bind (send_packet env (Disconnect disconnect_new)) (\<lambda>_. set_state ClientDisconnected) c)"

end
