(* ===== verification/Client_Facts.thy ===== *)
theory Client_Facts
  imports Emb_Client
begin

text \<open>
  The invariant of the embedded client, that every method keeps it and which methods cannot
  panic, proved once from the transport contract.
\<close>

subsection \<open>The encoders keep the buffer's length and report a length inside it\<close>

lemma length_write_vbi_len: "length (snd (write_variable_byte_integer_len buf n)) = length buf"
  using write_vbi_len [of n buf] write_vbi_len_Err [of buf n] by (cases "length (vbi n) \<le> length buf") simp_all

lemma write_vbi_len_bound:
  "fst (write_variable_byte_integer_len buf n) = Ok k \<Longrightarrow> k = length (vbi n) \<and> k \<le> length buf"
  using write_vbi_len [of n buf] write_vbi_len_Err [of buf n] by (cases "length (vbi n) \<le> length buf") simp_all

lemma encode_frame_bounds:
  assumes body: "\<And>buf. length (snd (snd (body (5, buf)))) = length buf"
    and run: "encode_frame b0 body buf = (r, buf')"
  shows "length buf' = length buf \<and> (\<forall>n. r = Ok n \<longrightarrow> n \<le> length buf)"
proof (cases "buf = []")
  case False
  obtain r1 cur buf1 where bd: "body (5, buf[0 := b0]) = (r1, (cur, buf1))" by (metis prod.collapse)
  have l1: "length buf1 = length buf"
    using body [of "buf[0 := b0]"] bd by simp
  show ?thesis
  proof (cases r1)
    case (Ok u)
    obtain r2 sub where w: "write_variable_byte_integer_len (drop 1 buf1) (cur - 5) = (r2, sub)" by fastforce
    have sub: "length (take 1 buf1 @ sub) = length buf"
      using length_write_vbi_len [of "drop 1 buf1" "cur - 5"] w l1 False by (cases buf1) simp_all
    show ?thesis
    proof (cases r2)
      case (Ok lb)
      let ?cw = "copy_within 5 cur (1 + lb) (take 1 buf1 @ sub) :: (packet_error, bytes) outcome"
      have "encode_frame b0 body buf = (case ?cw of Ok b' \<Rightarrow> (Ok (1 + lb + (cur - 5)), b')
          | Err e \<Rightarrow> (Err e, take 1 buf1 @ sub) | Panic \<Rightarrow> (Panic, take 1 buf1 @ sub))"
        using False bd \<open>r1 = Ok u\<close> w Ok by (cases ?cw) (simp_all add: encode_frame_def Let_def)
      with run show ?thesis
        using sub by (cases ?cw) (auto simp: copy_within_def split: if_splits)
    qed (use run False bd Ok w sub in \<open>auto simp: encode_frame_def Let_def\<close>)
  qed (use run False bd l1 in \<open>auto simp: encode_frame_def Let_def\<close>)
qed (use run in \<open>auto simp: encode_frame_def\<close>)

lemma length_packet_body: "\<not> is_ping p \<Longrightarrow> length (snd (snd (packet_body p v (5, buf)))) = length buf"
proof (cases "length buf < 5")
  case True
  assume "\<not> is_ping p"
  show ?thesis
  proof (cases "packet_content p v = []")
    case False
    from overflows_packet_body [OF False] True show ?thesis unfolding overflows_def by blast
  next
    case empty: True
    with \<open>\<not> is_ping p\<close> obtain d where "p = Disconnect d"
      by (cases p) (auto simp: is_ping_def prefixed_def to_be16_def)
    with empty show ?thesis
      by (auto simp: disconnect_body_def reason_part_def reason_content_def split: if_splits)
  qed
next
  case False
  with writer_safe_packet_body [of p v] show ?thesis unfolding writer_safe_def by simp
qed

lemma encode_packet_bounds:
  assumes "encode_packet p buf v = (r, buf')"
  shows "length buf' = length buf \<and> (\<forall>n. r = Ok n \<longrightarrow> n \<le> length buf)"
proof (cases "is_ping p")
  case True
  with assms show ?thesis by (auto simp: is_ping_def pingreq_encode_def pingresp_encode_def split: if_splits)
next
  case False
  from encode_frame_bounds [OF length_packet_body [OF this]] assms False show ?thesis
    by (simp add: encode_packet_frame)
qed

subsection \<open>The invariant\<close>

definition client_inv :: "nat \<Rightarrow> nat \<Rightarrow> 'w client \<Rightarrow> bool" where
  "client_inv N B c \<longleftrightarrow> cl_next_packet_id c \<noteq> 0 \<and> length (cl_tx_buffer c) = B \<and>
     length (cl_rx_buffer c) = B \<and> inflight_inv N (cl_inflight c)"

lemma client_inv_new: "client_inv N B (client_new env B w mo)"
  by (simp add: client_inv_def client_new_def)

text \<open>Packets whose encoders cannot panic: those with content, and the pings.\<close>

definition never_empty :: "mqtt_packet \<Rightarrow> bool" where
  "never_empty p \<longleftrightarrow> is_ping p \<or> (\<forall>v. packet_content p v \<noteq> [])"

lemma prefixed_nonempty [simp]: "prefixed b \<noteq> []"
  by (simp add: prefixed_def to_be16_def)

lemma never_empty_packets [simp]:
  "never_empty (Publish q)" "never_empty (Subscribe s)" "never_empty (Unsubscribe u)"
  "never_empty (PubAck a)" "never_empty (PubRec a)" "never_empty (PubRel a)" "never_empty (PubComp a)"
  "never_empty PingReq" "never_empty (Connect k)"
  by (simp_all add: never_empty_def is_ping_def to_be16_def)

definition small :: "nat \<Rightarrow> bool" where
  "small B \<longleftrightarrow> B < 268435456"

lemma valid_get_next_packet_id [pres_intros]:
  "valid b (client_inv N B) get_next_packet_id (\<lambda>pid. pid \<noteq> 0)"
  by (rule validI) (auto simp: get_next_packet_id_def client_inv_def Let_def split: if_splits)

lemma valid_read_clock [pres_intros]: "valid b (client_inv N B) (read_clock env) any"
  by (rule validI) (auto simp: read_clock_def client_inv_def)

lemma valid_touch [pres_intros]:
  "valid b (client_inv N B) (touch_tx env) any" "valid b (client_inv N B) (touch_rx env) any"
  unfolding touch_tx_def touch_rx_def by (intro pres_intros; simp add: client_inv_def)+

lemma valid_set_state [pres_intros]: "valid b (client_inv N B) (set_state st) any"
  unfolding set_state_def by (intro pres_intros; simp add: client_inv_def)

lemma valid_require_connected [pres_intros]: "valid b (client_inv N B) require_connected any"
  by (rule validI) (auto simp: require_connected_def split: if_splits)

lemma encode_raw_bounds:
  assumes "client_inv N B c" "cursor \<le> B" "encode_raw p cursor c = (r, c')"
  shows "client_inv N B c' \<and> (\<forall>n. r = Ok n \<longrightarrow> cursor + n \<le> B) \<and> (never_empty p \<and> small B \<longrightarrow> r \<noteq> Panic)"
proof -
  let ?v = "mo_version (cl_options c)" and ?buf = "drop cursor (cl_tx_buffer c)"
  obtain r1 sub where e: "encode_packet p ?buf ?v = (r1, sub)" by fastforce
  have l: "length (cl_tx_buffer c) = B" using assms(1) by (simp add: client_inv_def)
  from encode_packet_bounds [OF e] l assms(2)
  have "length sub = B - cursor" "\<forall>n. r1 = Ok n \<longrightarrow> cursor + n \<le> B" by auto
  moreover have "r = r1" "c' = c\<lparr>cl_tx_buffer := take cursor (cl_tx_buffer c) @ sub\<rparr>"
    using assms(2,3) e l by (simp_all add: encode_raw_def Let_def)
  moreover have "never_empty p \<Longrightarrow> small B \<Longrightarrow> r1 \<noteq> Panic"
    using encode_packet_safe [of p ?v ?buf] e l less_imp_diff_less [of B 268435456 cursor]
    by (auto simp: never_empty_def small_def)
  ultimately show ?thesis using assms(1,2) by (auto simp: client_inv_def)
qed

lemma valid_encode_tx [pres_intros]:
  assumes "cursor \<le> B" "b \<Longrightarrow> never_empty p \<and> small B"
  shows "valid b (client_inv N B) (encode_tx p cursor) (\<lambda>n. cursor + n \<le> B)"
proof (rule validI)
  fix s r s' assume s: "client_inv N B s" "encode_tx p cursor s = (r, s')"
  obtain r1 s1 where e: "encode_raw p cursor s = (r1, s1)" by fastforce
  from encode_raw_bounds [OF s(1) assms(1) e] s(2) e assms(2)
  show "client_inv N B s' \<and> (\<forall>a. r = Ok a \<longrightarrow> cursor + a \<le> B) \<and> (b \<longrightarrow> r \<noteq> Panic)"
    by (auto simp: encode_tx_def)
qed

lemma valid_with_inflight [pres_intros]:
  assumes "\<And>q r q'. inflight_inv N q \<Longrightarrow> f q = (r, q') \<Longrightarrow> inflight_inv N q' \<and> r \<noteq> Panic"
  shows "valid b (client_inv N B) (with_inflight f) any"
  by (rule validI) (use assms in \<open>fastforce simp: with_inflight_def client_inv_def split: prod.splits\<close>)

lemma track_entry_inv:
  assumes "inflight_inv N q" "track_entry N k qs st q = (r, q')"
  shows "inflight_inv N q' \<and> r \<noteq> Panic"
proof (cases "inflight_entry_of q k")
  case None
  show ?thesis
  proof (cases "length (iq_entries q) < N")
    case True
    with track_fresh [OF assms(1) None, of qs st] assms(2) show ?thesis
      by (auto simp: track_entry_def split: if_splits option.splits dest!: vec_push_length simp: vec_push_def)
  next
    case False
    with assms(1) None have "track_entry N k qs st q = (Err InflightQueueFull, q)" by (rule track_full)
    from trans [OF sym [OF this] assms(2)] assms(1) show ?thesis by auto
  qed
next
  case (Some e)
  from track_present [OF assms(1) Some, of qs st] assms(2) show ?thesis
    by (metis prod.inject outcome.distinct(3))
qed

lemma track_inv:
  "inflight_inv N q \<Longrightarrow> track_outbound N k qs q = (r, q') \<Longrightarrow> inflight_inv N q' \<and> r \<noteq> Panic"
  "inflight_inv N q \<Longrightarrow> track_inbound_qos2 N k q = (r2, q') \<Longrightarrow> inflight_inv N q' \<and> r2 \<noteq> Panic"
  using track_entry_inv [of N q k qs]
  by (auto simp: track_outbound_def track_inbound_qos2_def intro: track_entry_inv dest: track_entry_inv split: qos.splits)

lemma valid_allocate [pres_intros]: "valid b (client_inv N B) (allocate_packet_id N q) any"
  unfolding allocate_packet_id_def
  by (intro pres_intros valid_any [OF valid_get_next_packet_id]) (auto dest: track_inv)

lemma valid_on_inflight [pres_intros]:
  assumes "\<And>q. inflight_inv N q \<Longrightarrow> inflight_inv N (snd (f q))"
  shows "valid b (client_inv N B) (on_inflight f) any"
  unfolding on_inflight_def by (intro pres_intros) (use assms in \<open>auto simp: client_inv_def\<close>)

lemma valid_ignore_result [pres_intros]:
  "valid b P m any \<Longrightarrow> valid b P (ignore_result m) any"
  unfolding valid_def ignore_result_def
  by (auto split: prod.splits outcome.splits)

lemma handlers_inv:
  "inflight_inv N q \<Longrightarrow> inflight_inv N (snd (handle_puback k q))"
  "inflight_inv N q \<Longrightarrow> inflight_inv N (snd (handle_pubrec k q))"
  "inflight_inv N q \<Longrightarrow> inflight_inv N (snd (handle_pubrel k q))"
  "inflight_inv N q \<Longrightarrow> inflight_inv N (snd (handle_pubcomp k q))"
  using handle_ack_next [of N q "EvPubAck k"] handle_ack_next [of N q "EvPubRec k"]
    handle_ack_next [of N q "EvPubRel k"] handle_ack_next [of N q "EvPubComp k"] by simp_all

text \<open>Decoding a whole receive buffer may panic; the judgement is then only about the state.\<close>

lemma valid_decode_rx: "valid False (client_inv N B) (decode_rx n) any"
  unfolding decode_rx_def by (auto simp: valid_def bind_def split: outcome.splits)

context transport_contract begin

lemma valid_send_bytes [pres_intros]: "valid b (client_inv N B) (send_bytes env x) any"
  by (rule validI) (auto simp: send_bytes_def client_inv_def split: prod.splits dest!: send_grows)

lemma valid_send_tx [pres_intros]: "len \<le> B \<Longrightarrow> valid b (client_inv N B) (send_tx env len) any"
  unfolding send_tx_def
  by (rule valid_bind [where Q = "\<lambda>buf. length buf = B"], rule valid_basic(3), simp add: client_inv_def,
      rule valid_bind [where Q = any], rule valid_basic(4), simp, simp add: subslice_def,
      rule valid_send_bytes)

lemma valid_send_packet [pres_intros]:
  assumes "b \<Longrightarrow> never_empty p \<and> small B"
  shows "valid b (client_inv N B) (send_packet env p) any"
  unfolding send_packet_def
  by (rule valid_bind [OF valid_encode_tx [OF _ assms]]) (simp_all add: valid_send_tx)

lemma valid_encode_send [pres_intros]:
  assumes "b \<Longrightarrow> never_empty p \<and> small B" "valid b (client_inv N B) m any"
  shows "valid b (client_inv N B) (bind (encode_tx p 0) (\<lambda>len. bind (send_tx env len) (\<lambda>_. m))) any"
  by (rule valid_bind [OF valid_encode_tx [OF _ assms(1)]])
    (auto intro: valid_then valid_send_tx assms(2))

lemma valid_recv_rx: "valid b (client_inv N B) (recv_rx env) (\<lambda>n. n \<le> B)"
  by (rule validI) (auto simp: recv_rx_def client_inv_def split: prod.splits dest!: recv_len)

lemma valid_receive_rx: "valid b (client_inv N B) (receive_rx env) (\<lambda>n. n \<le> B)"
  unfolding receive_rx_def
  by (rule valid_bind [OF valid_recv_rx])
    (intro pres_intros; auto intro: pres_intros simp: client_inv_def)+

lemmas valid_recv_any [pres_intros] = valid_any [OF valid_recv_rx] valid_any [OF valid_receive_rx]
lemmas valid_id_any [pres_intros] = valid_any [OF valid_get_next_packet_id]

lemma valid_connect_reply: "valid b (client_inv N B) (connect_reply p) any"
  unfolding connect_reply_def
  by (cases p; (cases "the p")?) (simp; intro pres_intros conjI impI; simp add: client_inv_def)+

lemma valid_connect: "valid False (client_inv N B) (client_connect env) any"
  unfolding client_connect_def
  by (intro pres_intros valid_encode_send valid_decode_rx valid_connect_reply) simp_all

lemma valid_publish: "valid b (client_inv N B) (client_publish env N topic payload q) any"
  if "b \<Longrightarrow> small B"
  unfolding client_publish_def by (intro pres_intros valid_encode_send) (simp_all add: that)

lemma valid_subscribe: "valid b (client_inv N B) (client_subscribe env topics) any"
  if "b \<Longrightarrow> small B"
proof -
  have "add_topics ts s \<noteq> Panic" for ts s
    by (induction ts arbitrary: s)
      (auto simp: subscribe_add_topic_def and_then_eq_Panic split: option.splits)
  with that show ?thesis
    unfolding client_subscribe_def by (intro pres_intros valid_encode_send) simp_all
qed

lemma valid_unsubscribe: "valid b (client_inv N B) (client_unsubscribe env topics) any"
  if "b \<Longrightarrow> small B"
proof -
  have "add_unsub_topics ts s \<noteq> Panic" for ts s
    by (induction ts arbitrary: s)
      (auto simp: unsubscribe_add_topic_def and_then_eq_Panic split: option.splits)
  with that show ?thesis
    unfolding client_unsubscribe_def by (intro pres_intros valid_encode_send) simp_all
qed

lemma valid_acknowledge: "valid b (client_inv N B) (acknowledge_publish env N p) any"
  if "b \<Longrightarrow> small B"
  unfolding acknowledge_publish_def
  by (cases "pub_qos p"; cases "pub_packet_id p")
    (simp_all, (intro pres_intros; auto simp: that dest: track_inv)+)

lemma valid_handle_packet: "valid b (client_inv N B) (handle_packet env N p) any"
  if "b \<Longrightarrow> small B"
  by (cases p) (simp_all, (intro pres_intros valid_acknowledge handlers_inv; simp add: that)+)

lemma valid_keep_alive: "valid False (client_inv N B) (keep_alive_ping env) any"
  unfolding keep_alive_ping_def
  by (rule valid_then [OF valid_read_clock], rule valid_then [OF valid_basic(3)], simp,
      simp split: prod.split, intro allI impI conjI pres_intros)
    (simp_all add: client_inv_def)

lemma valid_poll: "valid False (client_inv N B) (client_poll env N) any"
  unfolding client_poll_def
  by (intro pres_intros valid_keep_alive valid_decode_rx; (simp split: option.split)?)
    (auto intro!: pres_intros valid_handle_packet)

lemma valid_disconnect: "valid b (client_inv N B) (client_disconnect env) any"
  if "b \<Longrightarrow> False"
proof -
  have "valid b (client_inv N B) (bind (send_packet env (Disconnect disconnect_new))
      (\<lambda>_. set_state ClientDisconnected)) any"
    by (intro pres_intros) (use that in auto)
  then show ?thesis by (auto simp: valid_def client_disconnect_def)
qed

lemma valid_batch_encode:
  assumes "cursor \<le> B" "b \<Longrightarrow> small B" "never_empty p"
  shows "valid b (client_inv N B) (batch_encode env p cursor) (\<lambda>cur. cur \<le> B)"
proof (rule validI)
  fix s r s'
  assume s: "client_inv N B s" and run: "batch_encode env p cursor s = (r, s')"
  obtain r1 s1 where e: "encode_raw p cursor s = (r1, s1)" by fastforce
  from encode_raw_bounds [OF s assms(1) e]
  have 1: "client_inv N B s1" "\<forall>n. r1 = Ok n \<longrightarrow> cursor + n \<le> B" "b \<longrightarrow> r1 \<noteq> Panic"
    using assms(2,3) by auto
  have "valid b (client_inv N B) (bind (send_tx env cursor) (\<lambda>_. encode_tx p 0)) (\<lambda>n. n \<le> B)"
    using valid_encode_tx [of 0 B b p N] assms by (intro valid_then valid_send_tx) simp_all
  from validD [OF this 1(1)]
  show "client_inv N B s' \<and> (\<forall>a. r = Ok a \<longrightarrow> a \<le> B) \<and> (b \<longrightarrow> r \<noteq> Panic)"
    using run 1 e by (cases r1) (auto simp: batch_encode_def split: if_splits)
qed

lemma valid_batch_message:
  assumes "cursor \<le> B" "b \<Longrightarrow> small B"
  shows "valid b (client_inv N B) (batch_message env N msg cursor) (\<lambda>cur. cur \<le> B)"
  unfolding batch_message_def
  by (rule valid_then [OF valid_allocate]) (simp add: valid_batch_encode assms)

lemma valid_batch_messages:
  "cursor \<le> B \<Longrightarrow> (b \<Longrightarrow> small B) \<Longrightarrow>
   valid b (client_inv N B) (batch_messages env N msgs cursor k) (\<lambda>(cur, n). cur \<le> B)"
proof (induction msgs arbitrary: cursor k)
  case Nil
  then show ?case by (simp add: valid_def)
next
  case (Cons msg msgs)
  have "valid b (client_inv N B) (bind (batch_message env N msg cursor)
      (\<lambda>cur. batch_messages env N msgs cur (k + 1))) (\<lambda>(cur, n). cur \<le> B)"
    by (rule valid_bind [OF valid_batch_message]) (use Cons in auto)
  then show ?case by simp
qed

lemma valid_publish_batch: "valid b (client_inv N B) (publish_batch env N msgs) any"
  if "b \<Longrightarrow> small B"
  unfolding publish_batch_def
  by (rule valid_then [OF valid_require_connected], rule valid_bind [OF valid_batch_messages])
    (use that in \<open>auto intro!: pres_intros\<close>)

lemma valid_begin_stream: "valid False (client_inv N B) (begin_stream_publish env N topic n q) any"
  unfolding begin_stream_publish_def Let_def by (intro pres_intros) simp_all

text \<open>A frame of the iterator never makes the decoder panic, so neither does the loop.\<close>

lemma valid_batch_frame:
  assumes "\<And>v. decode f v \<noteq> Panic" "b \<Longrightarrow> small B"
  shows "valid b (client_inv N B) (batch_frame env N m f evs) any"
  unfolding batch_frame_def
  by (intro pres_intros; (simp add: assms split: option.split)?)
    (auto intro!: pres_intros valid_handle_packet assms(2))

lemma batch_frames_valid:
  "client_inv N B c \<Longrightarrow> (b \<Longrightarrow> small B) \<Longrightarrow> batch_frames env N m it evs c = (r, c') \<Longrightarrow>
     client_inv N B c' \<and> (b \<longrightarrow> r \<noteq> Panic)"
proof (induction "length (fi_buffer it) - fi_offset it" arbitrary: it evs c rule: less_induct)
  case less
  obtain o1 it' where n: "frame_next it = (o1, it')" by fastforce
  show ?case
  proof (cases "\<exists>f. o1 = Some (Ok f)")
    case True
    then obtain f where f: "frame_next it = (Some (Ok f), it')" using n by auto
    obtain r1 c1 where b1: "batch_frame env N m f evs c = (r1, c1)" by fastforce
    have "decode f v \<noteq> Panic" for v
      using frame_next_exact [OF f] decode_frame_not_Panic by blast
    from validD [OF valid_batch_frame [OF this] less.prems(1) b1] less.prems(2)
    have 1: "client_inv N B c1" "b \<longrightarrow> r1 \<noteq> Panic" by auto
    have small: "length (fi_buffer it') - fi_offset it' < length (fi_buffer it) - fi_offset it"
      using frame_next_advances [OF f] by auto
    show ?thesis
    proof (cases r1)
      case (Ok evs')
      with less.prems(3) have "batch_frames env N m it' evs' c1 = (r, c')"
        by (simp add: batch_frames.simps [of env N m it] f b1)
      from less.hyps [OF small 1(1) less.prems(2) this] show ?thesis .
    qed (use less.prems(3) 1 in \<open>auto simp: batch_frames.simps [of env N m it] f b1\<close>)
  next
    case False
    with less.prems n frame_next_not_Panic [of it it'] show ?thesis
      by (auto simp: batch_frames.simps [of env N m it] split: option.splits outcome.splits)
  qed
qed

lemma valid_poll_batch: "valid b (client_inv N B) (poll_batch env N m) any"
  if "b \<Longrightarrow> small B"
proof -
  have frames: "valid b (client_inv N B) (batch_frames env N m it evs) any" for it evs
  proof (rule validI)
    fix c r c' assume "client_inv N B c" "batch_frames env N m it evs c = (r, c')"
    from batch_frames_valid [OF this(1) that this(2)]
    show "client_inv N B c' \<and> (\<forall>a. r = Ok a \<longrightarrow> any a) \<and> (b \<longrightarrow> r \<noteq> Panic)" by simp
  qed
  have "valid b (client_inv N B) (bind (gets cl_rx_buffer) (\<lambda>buf. bind (lift (subslice buf 0 n)) (\<lambda>x.
      batch_frames env N m (frame_iter_new x) []))) any" if "n \<le> B" for n
  proof (rule valid_bind [where Q = "\<lambda>buf. length buf = B"])
    show "valid b (client_inv N B) (gets cl_rx_buffer) (\<lambda>buf. length buf = B)"
      by (rule valid_basic(3)) (simp add: client_inv_def)
    fix buf :: bytes assume "length buf = B"
    with that frames show "valid b (client_inv N B) (bind (lift (subslice buf 0 n)) (\<lambda>x.
        batch_frames env N m (frame_iter_new x) [])) any"
      by (intro pres_intros) (simp_all add: subslice_def)
  qed
  then show ?thesis
    unfolding poll_batch_def
    by (intro valid_then [OF valid_require_connected] valid_bind [OF valid_receive_rx])
      (auto intro: pres_intros)
qed

end

end
