(* ===== verification/Client_Send.thy ===== *)
theory Client_Send
  imports Client_Facts
begin

text \<open>
  What the embedded client writes: under the transport contract, each method that succeeds
  has appended exactly the wire format of its packets to the stream.
\<close>

subsection \<open>Encoding into the transmit buffer\<close>

lemma encode_packet_wire:
  assumes "encodable p v" "packet_content p v \<noteq> []" "encode_packet p buf v = (Ok n, buf')"
  shows "n = length (wire p v) \<and> take n buf' = wire p v"
proof (cases "5 + length (packet_content p v) \<le> length buf")
  case True
  show ?thesis by (rule encode_packet_Ok [OF assms(1) True]) (use assms(3) in auto)
next
  case False
  with encode_packet_too_small [OF assms(1,2), of buf] assms(3) show ?thesis by simp
qed

lemma publish_Ok_encodable:
  assumes "encode_packet (Publish p) buf v = (Ok n, buf')" "small (length buf)"
  shows "encodable (Publish p) v"
proof -
  have topic: "length (pub_topic p) \<le> 65535"
  proof (rule ccontr)
    assume "\<not> length (pub_topic p) \<le> 65535"
    let ?b = "buf[0 := publish_flags p]"
    from \<open>\<not> length (pub_topic p) \<le> 65535\<close> obtain e where
      "fst (advance_by (write_utf8_string (pub_topic p)) (5, ?b)) = Err e"
      by (cases "5 \<le> length ?b") (simp_all add: advance_by_def write_utf8_string_def)
    from run_all_Cons_Err [of "advance_by (write_utf8_string (pub_topic p))" "(5, ?b)", OF this]
    have "fst (publish_body p v (5, ?b)) = Err e"
      by (simp only: publish_body_def append_Cons append_Nil fst_conv)
    then have "fst (encode_packet (Publish p) buf v) \<noteq> Ok n"
      by (cases "publish_body p v (5, ?b)") (auto simp: publish_encode_def encode_frame_def)
    with assms(1) show False by simp
  qed
  have "emits (packet_body (Publish p) v) (packet_content (Publish p) v)"
    by (rule emits_packet_body) (simp add: topic)
  then have "\<not> length buf < 5 + length (packet_content (Publish p) v)"
    using encode_frame_too_small [of "packet_body (Publish p) v" "packet_content (Publish p) v" buf "first_byte (Publish p)"]
      overflows_packet_body [of "Publish p" v] assms(1)
    by (auto simp: publish_encode_def)
  with topic assms(2) show ?thesis by (simp add: encodable_def small_def)
qed

lemma encode_raw_wire:
  assumes "encode_raw p cursor c = (Ok n, c')" "encodable p (mo_version (cl_options c))"
    and "packet_content p (mo_version (cl_options c)) \<noteq> []" "cursor \<le> length (cl_tx_buffer c)"
  obtains buf where "c' = c\<lparr>cl_tx_buffer := buf\<rparr>" "length buf = length (cl_tx_buffer c)"
    and "n = length (wire p (mo_version (cl_options c)))"
    and "take (cursor + n) buf = take cursor (cl_tx_buffer c) @ wire p (mo_version (cl_options c))"
    and "cursor + n \<le> length buf"
proof -
  let ?v = "mo_version (cl_options c)"
  obtain r sub where e: "encode_packet p (drop cursor (cl_tx_buffer c)) ?v = (r, sub)" by fastforce
  with assms(1,4) have c': "r = Ok n" "c' = c\<lparr>cl_tx_buffer := take cursor (cl_tx_buffer c) @ sub\<rparr>"
    by (simp_all add: encode_raw_def Let_def)
  from encode_packet_wire [OF assms(2,3)] e c'(1)
  have "n = length (wire p ?v)" "take n sub = wire p ?v" by auto
  with encode_packet_bounds [OF e] c' assms(4) show thesis
    by (intro that [of "take cursor (cl_tx_buffer c) @ sub"]) auto
qed

text \<open>The fields that sending does not touch.\<close>

definition io_only :: "'w client \<Rightarrow> 'w client \<Rightarrow> bool" where
  "io_only c c' \<longleftrightarrow> cl_options c' = cl_options c \<and> cl_state c' = cl_state c \<and>
     cl_next_packet_id c' = cl_next_packet_id c \<and> cl_inflight c' = cl_inflight c \<and>
     length (cl_tx_buffer c') = length (cl_tx_buffer c)"

lemma touch_tx_Ok: "touch_tx env c = (r, c') \<Longrightarrow>
    r = Ok () \<and> io_only c c' \<and> cl_transport c' = cl_transport c"
  by (auto simp: touch_tx_def bind_def read_clock_def io_only_def)

lemma touch_rx_Ok: "touch_rx env c = (r, c') \<Longrightarrow>
    r = Ok () \<and> io_only c c' \<and> cl_transport c' = cl_transport c \<and> cl_rx_buffer c' = cl_rx_buffer c"
  by (auto simp: touch_rx_def bind_def read_clock_def io_only_def)

subsection \<open>What is to be sent\<close>

definition next_id :: "u16 \<Rightarrow> u16" where
  "next_id i = (if i + 1 = 0 then 1 else i + 1)"

definition allocated_id :: "qos \<Rightarrow> u16 \<Rightarrow> u16 option" where
  "allocated_id q i = (if q = AtMostOnce then None else Some i)"

definition id_after :: "qos \<Rightarrow> u16 \<Rightarrow> u16" where
  "id_after q i = (if q = AtMostOnce then i else next_id i)"

fun batch_wire :: "mqtt_version \<Rightarrow> u16 \<Rightarrow> publish_message list \<Rightarrow> bytes" where
  "batch_wire v i [] = []"
| "batch_wire v i (m # ms) =
     wire (Publish (outgoing_publish (pm_topic m) (pm_payload m) (pm_qos m) (allocated_id (pm_qos m) i)
       (pm_retain m))) v @ batch_wire v (id_after (pm_qos m) i) ms"

context transport_contract begin

lemma send_bytes_Ok:
  "send_bytes env b c = (Ok u, c') \<Longrightarrow> sent (cl_transport c') = sent (cl_transport c) @ b \<and> io_only c c' \<and>
     cl_tx_buffer c' = cl_tx_buffer c \<and> cl_rx_buffer c' = cl_rx_buffer c"
  by (auto simp: send_bytes_def io_only_def split: prod.splits dest!: send_Ok)

lemma send_tx_Ok:
  assumes "send_tx env len c = (Ok u, c')"
  shows "sent (cl_transport c') = sent (cl_transport c) @ take len (cl_tx_buffer c) \<and> io_only c c' \<and>
    cl_tx_buffer c' = cl_tx_buffer c \<and> cl_rx_buffer c' = cl_rx_buffer c"
  using assms send_bytes_Ok [of "take len (cl_tx_buffer c)" c u c']
  by (auto simp: send_tx_def bind_Ok subslice_def split: if_splits)

lemma encode_send_Ok:
  assumes "encode_tx p 0 c = (Ok len, c1)" "send_tx env len c1 = (Ok u, c')"
    and "encodable p (mo_version (cl_options c))" "packet_content p (mo_version (cl_options c)) \<noteq> []"
  shows "sent (cl_transport c') = sent (cl_transport c) @ wire p (mo_version (cl_options c)) \<and> io_only c c' \<and>
    cl_rx_buffer c' = cl_rx_buffer c"
proof -
  from assms(1) have "encode_raw p 0 c = (Ok len, c1)" by (auto simp: encode_tx_def split: prod.splits)
  then show ?thesis
  proof (rule encode_raw_wire [OF _ assms(3,4)])
    fix buf assume "c1 = c\<lparr>cl_tx_buffer := buf\<rparr>" "length buf = length (cl_tx_buffer c)"
      "len = length (wire p (mo_version (cl_options c)))"
      "take (0 + len) buf = take 0 (cl_tx_buffer c) @ wire p (mo_version (cl_options c))"
    with send_tx_Ok [OF assms(2)] show ?thesis by (auto simp: io_only_def)
  qed simp
qed

lemma require_connected_Ok: "require_connected c = (Ok u, c') \<longleftrightarrow> c' = c \<and> cl_state c = ClientConnected"
  by (auto simp: require_connected_def)

lemma get_next_packet_id_eq:
  "get_next_packet_id c = (Ok (cl_next_packet_id c), c\<lparr>cl_next_packet_id := next_id (cl_next_packet_id c)\<rparr>)"
  by (simp add: get_next_packet_id_def next_id_def Let_def)

lemma allocate_Ok:
  assumes "allocate_packet_id N q c = (Ok pid, c')"
  shows "pid = allocated_id q (cl_next_packet_id c) \<and> cl_next_packet_id c' = id_after q (cl_next_packet_id c) \<and>
    cl_transport c' = cl_transport c \<and> cl_options c' = cl_options c \<and> cl_state c' = cl_state c \<and>
    cl_tx_buffer c' = cl_tx_buffer c \<and> cl_rx_buffer c' = cl_rx_buffer c"
  using assms
  by (auto simp: allocate_packet_id_def bind_Ok get_next_packet_id_eq with_inflight_def allocated_id_def
      id_after_def split: if_splits prod.splits)

lemma publish_content_nonempty: "packet_content (Publish p) v \<noteq> []"
  by simp

lemma encode_raw_publish:
  assumes "encode_raw (Publish p) cursor c = (Ok n, c')" "cursor \<le> length (cl_tx_buffer c)"
    and "small (length (cl_tx_buffer c))"
  shows "encodable (Publish p) (mo_version (cl_options c))"
proof -
  obtain r sub where e: "encode_packet (Publish p) (drop cursor (cl_tx_buffer c)) (mo_version (cl_options c)) = (r, sub)"
    by fastforce
  with assms(1,2) have "r = Ok n" by (simp add: encode_raw_def Let_def del: encode_packet.simps)
  with e publish_Ok_encodable [of p "drop cursor (cl_tx_buffer c)"] assms(3) show ?thesis
    by (simp add: small_def del: encode_packet.simps)
qed

lemma publish_Ok:
  assumes run: "client_publish env N topic payload q c = (Ok u, c')" and sm: "small (length (cl_tx_buffer c))"
  defines "p \<equiv> Publish (outgoing_publish topic payload q (allocated_id q (cl_next_packet_id c)) False)"
  shows "sent (cl_transport c') = sent (cl_transport c) @ wire p (mo_version (cl_options c)) \<and>
    cl_next_packet_id c' = id_after q (cl_next_packet_id c) \<and> cl_state c = ClientConnected \<and>
    cl_state c' = ClientConnected"
proof -
  from run obtain c1 pid len c2 c3 where
    1: "cl_state c = ClientConnected" "allocate_packet_id N q c = (Ok pid :: ('t mqtt_error, _) outcome, c1)"
    and 2: "encode_tx (Publish (outgoing_publish topic payload q pid False)) 0 c1 = (Ok len :: ('t mqtt_error, _) outcome, c2)"
    and 3: "send_tx env len c2 = (Ok (), c3)" "touch_tx env c3 = (Ok u, c')"
    by (auto simp: client_publish_def bind_Ok require_connected_Ok)
  note al = allocate_Ok [OF 1(2)]
  then have p: "Publish (outgoing_publish topic payload q pid False) = p" by (simp add: p_def)
  from 2 have "encode_raw p 0 c1 = (Ok len, c2)" by (auto simp: encode_tx_def p split: prod.splits)
  then have "encodable p (mo_version (cl_options c1))"
    using encode_raw_publish [of "outgoing_publish topic payload q pid False" 0 c1] al sm p by simp
  from encode_send_Ok [OF 2 [unfolded p] 3(1) this] touch_tx_Ok [OF 3(2)] al 1(1)
  show ?thesis by (simp add: p_def io_only_def)
qed

lemma batch_encode_Ok:
  assumes run: "batch_encode env (Publish q) cursor c1 = (Ok cur', c')"
    and sm: "small (length (cl_tx_buffer c1))" and cur: "cursor \<le> length (cl_tx_buffer c1)"
  shows "sent (cl_transport c') @ take cur' (cl_tx_buffer c') =
      sent (cl_transport c1) @ take cursor (cl_tx_buffer c1) @ wire (Publish q) (mo_version (cl_options c1)) \<and>
    io_only c1 c' \<and> cur' \<le> length (cl_tx_buffer c')"
proof -
  let ?p = "Publish q"
  obtain r c2 where e: "encode_raw ?p cursor c1 = (r, c2)" by fastforce
  show ?thesis
  proof (cases r)
    case (Ok len)
    with run e have r: "cur' = cursor + len" "c' = c2" by (simp_all add: batch_encode_def)
    have enc: "encodable ?p (mo_version (cl_options c1))"
      using e Ok sm cur by (intro encode_raw_publish) simp_all
    show ?thesis
      by (rule encode_raw_wire [OF e [unfolded Ok] enc publish_content_nonempty])
        (use cur r in \<open>auto simp: io_only_def\<close>)
  next
    case (Err err)
    with run e have b: "bind (send_tx env cursor) (\<lambda>_. encode_tx ?p 0) c2 = (Ok cur', c')"
      by (simp add: batch_encode_def split: if_splits)
    obtain r2 sub where pk: "encode_packet ?p (drop cursor (cl_tx_buffer c1)) (mo_version (cl_options c1)) = (r2, sub)"
      by fastforce
    have c2: "c2 = c1\<lparr>cl_tx_buffer := take cursor (cl_tx_buffer c1) @ sub\<rparr>"
      using e cur pk by (simp add: encode_raw_def Let_def del: encode_packet.simps)
    have l2: "length (cl_tx_buffer c2) = length (cl_tx_buffer c1)"
      "take cursor (cl_tx_buffer c2) = take cursor (cl_tx_buffer c1)"
      using encode_packet_bounds [OF pk] cur by (simp_all add: c2)
    from b obtain c3 where 3: "send_tx env cursor c2 = (Ok (), c3)" "encode_tx ?p 0 c3 = (Ok cur' :: ('t mqtt_error, _) outcome, c')"
      by (auto simp: bind_Ok)
    from send_tx_Ok [OF 3(1)] have s3: "sent (cl_transport c3) = sent (cl_transport c2) @ take cursor (cl_tx_buffer c2)"
      "io_only c2 c3" by simp_all
    from 3(2) have e3: "encode_raw ?p 0 c3 = (Ok cur', c')" by (auto simp: encode_tx_def split: prod.splits)
    have l3: "length (cl_tx_buffer c3) = length (cl_tx_buffer c1)" "cl_options c3 = cl_options c1"
      using s3(2) l2 c2 by (simp_all add: io_only_def)
    have enc: "encodable ?p (mo_version (cl_options c3))"
      by (rule encode_raw_publish [OF e3 le0]) (simp add: l3 sm)
    show ?thesis
      by (rule encode_raw_wire [OF e3 enc publish_content_nonempty])
        (use s3 c2 l2 l3 in \<open>auto simp: io_only_def\<close>)
  qed (use run e in \<open>simp add: batch_encode_def\<close>)
qed

lemma batch_message_Ok:
  assumes run: "batch_message env N msg cursor c = (Ok cur', c')"
    and sm: "small (length (cl_tx_buffer c))" and cur: "cursor \<le> length (cl_tx_buffer c)"
  shows "sent (cl_transport c') @ take cur' (cl_tx_buffer c') =
      sent (cl_transport c) @ take cursor (cl_tx_buffer c) @
      batch_wire (mo_version (cl_options c)) (cl_next_packet_id c) [msg] \<and>
    cl_next_packet_id c' = id_after (pm_qos msg) (cl_next_packet_id c) \<and>
    cl_options c' = cl_options c \<and> length (cl_tx_buffer c') = length (cl_tx_buffer c) \<and>
    cur' \<le> length (cl_tx_buffer c')"
proof -
  from run obtain pid c1 where 1: "allocate_packet_id N (pm_qos msg) c = (Ok pid :: ('t mqtt_error, _) outcome, c1)"
    and 2: "batch_encode env (Publish (outgoing_publish (pm_topic msg) (pm_payload msg) (pm_qos msg) pid (pm_retain msg)))
      cursor c1 = (Ok cur', c')"
    by (auto simp: batch_message_def bind_Ok)
  from batch_encode_Ok [OF 2] allocate_Ok [OF 1] sm cur show ?thesis by (simp add: io_only_def)
qed

lemma batch_messages_Ok:
  "batch_messages env N msgs cursor k c = (Ok (cur', k'), c') \<Longrightarrow> small (length (cl_tx_buffer c)) \<Longrightarrow>
   cursor \<le> length (cl_tx_buffer c) \<Longrightarrow>
   k' = k + length msgs \<and> cl_options c' = cl_options c \<and>
   sent (cl_transport c') @ take cur' (cl_tx_buffer c') = sent (cl_transport c) @ take cursor (cl_tx_buffer c) @
     batch_wire (mo_version (cl_options c)) (cl_next_packet_id c) msgs"
proof (induction msgs arbitrary: cursor k c)
  case (Cons m ms)
  from Cons.prems(1) obtain cur1 c1 where 1: "batch_message env N m cursor c = (Ok cur1 :: ('t mqtt_error, _) outcome, c1)"
    and 2: "batch_messages env N ms cur1 (k + 1) c1 = (Ok (cur', k'), c')" by (auto simp: bind_Ok)
  note b = batch_message_Ok [OF 1 Cons.prems(2,3)]
  from Cons.IH [OF 2] b Cons.prems(2) show ?case by simp
qed simp

lemma publish_batch_Ok:
  assumes run: "publish_batch env N msgs c = (Ok k, c')" and sm: "small (length (cl_tx_buffer c))"
  shows "k = length msgs \<and> sent (cl_transport c') =
    sent (cl_transport c) @ batch_wire (mo_version (cl_options c)) (cl_next_packet_id c) msgs"
proof -
  from run obtain cur c1 c2 where
    1: "batch_messages env N msgs 0 0 c = (Ok (cur, k) :: ('t mqtt_error, _) outcome, c1)"
    and 2: "(if 0 < cur then bind (send_tx env cur) (\<lambda>_. touch_tx env) else ret ()) c1 = (Ok () :: ('t mqtt_error, _) outcome, c2)"
    and 3: "c' = c2"
    by (auto simp: publish_batch_def bind_Ok require_connected_Ok)
  note b = batch_messages_Ok [OF 1 sm]
  have "sent (cl_transport c2) = sent (cl_transport c1) @ take cur (cl_tx_buffer c1)"
  proof (cases "0 < cur")
    case True
    with 2 obtain c3 where "send_tx env cur c1 = (Ok (), c3)" "touch_tx env c3 = (Ok () :: ('t mqtt_error, _) outcome, c2)"
      by (auto simp: bind_Ok)
    with send_tx_Ok touch_tx_Ok show ?thesis by metis
  qed (use 2 in simp)
  with b 3 show ?thesis by simp
qed

end

end
