(* ===== verification/Client_Stream.thy ===== *)
theory Client_Stream
  imports Client_Send
begin

text \<open>
  Streamed publishing, connecting and replying: what \<open>begin_stream_publish\<close>, \<open>connect\<close>,
  \<open>poll\<close> and \<open>poll_batch\<close> have written when they succeed.
\<close>

subsection \<open>The headers of a streamed PUBLISH\<close>

lemma stream_fixed_header_Ok:
  assumes "stream_fixed_header q n = Ok h"
  shows "h = (0x30 OR push_bit 1 (qos_to_u8 q)) # vbi n"
proof -
  let ?hb = "(replicate 16 0)[0 := 0x30 OR push_bit 1 (qos_to_u8 q)] :: bytes"
  obtain r sub where w: "write_variable_byte_integer_len (drop 1 ?hb) n = (r, sub)" by fastforce
  from assms w obtain k where k: "r = Ok k" "subslice (take 1 ?hb @ sub) 0 (1 + k) = (Ok h :: (packet_error, bytes) outcome)"
    by (auto simp: stream_fixed_header_def Let_def and_then_eq_Ok)
  have len: "length (vbi n) \<le> length (drop 1 ?hb)"
  proof (rule ccontr)
    assume "\<not> length (vbi n) \<le> length (drop 1 ?hb)"
    with write_vbi_len_Err [of "drop 1 ?hb" n] w k(1) show False by simp
  qed
  from write_vbi_len [OF len] w k(1) have "k = length (vbi n)" "sub = overwrite 0 (vbi n) (drop 1 ?hb)"
    by simp_all
  moreover have "?hb = (0x30 OR push_bit 1 (qos_to_u8 q)) # replicate 15 0"
    by (simp add: numeral_eq_Suc)
  ultimately show ?thesis using k(2) len by (auto simp: subslice_def overwrite_def split: if_splits)
qed

definition stream_header :: "str \<Rightarrow> u16 option \<Rightarrow> mqtt_version \<Rightarrow> bytes" where
  "stream_header topic packet_id v =
     prefixed topic @ (case packet_id of Some pid \<Rightarrow> to_be16 pid | None \<Rightarrow> []) @ (if v = V5 then [0] else [])"

text \<open>The topic and the packet id as they lie in the buffer of 256 bytes.\<close>

abbreviation stream_head :: "str \<Rightarrow> u16 option \<Rightarrow> bytes" where
  "stream_head topic pid \<equiv> prefixed topic @ (case pid of Some p \<Rightarrow> to_be16 p | None \<Rightarrow> [])"

lemma stream_variable_header_fits:
  assumes "stream_variable_header topic pid v = Ok h"
  shows "length topic \<le> 65535" "length (stream_head topic pid) \<le> 256"
proof -
  show topic: "length topic \<le> 65535"
    using assms by (auto simp: stream_variable_header_def write_utf8_string_def Let_def split: if_splits)
  have fits: "2 + length topic \<le> 256"
    using assms topic by (auto simp: stream_variable_header_def write_utf8_string_def Let_def split: if_splits)
  moreover have "4 + length topic \<le> 256" if "pid \<noteq> None"
    using assms that topic fits
    by (auto simp: stream_variable_header_def write_utf8_string_def Let_def split: if_splits)
  ultimately show "length (stream_head topic pid) \<le> 256" by (cases pid) simp_all
qed

lemma stream_variable_header_head:
  assumes "length topic \<le> 65535" "length (stream_head topic pid) \<le> 256"
  shows "stream_variable_header topic pid v =
    (let buf = overwrite 0 (stream_head topic pid) (replicate 256 0); n = length (stream_head topic pid) in
     and_then (if v = V5 then if n < 256 then Ok (buf[n := 0], n + 1) else Panic else Ok (buf, n))
       (\<lambda>(var_buf, var_cursor). subslice var_buf 0 var_cursor))"
proof -
  let ?z = "replicate 256 0 :: bytes" and ?t = "2 + length topic" and ?m = "case pid of Some p \<Rightarrow> to_be16 p | None \<Rightarrow> []"
  let ?b0 = "overwrite 0 (prefixed topic) ?z"
  have fits: "?t + length ?m \<le> 256" using assms(2) by simp
  have w: "write_utf8_string topic ?z = (Ok ?t, ?b0)"
    using assms(1) fits by (simp add: write_utf8_string_def prefixed_def Let_def)
  have "overwrite ?t ?m ?b0 = overwrite 0 (stream_head topic pid) ?z"
    using overwrite_overwrite [of 0 "prefixed topic" ?m ?z] fits by simp
  then have pid: "(case pid of
      Some p \<Rightarrow> if ?t + 2 \<le> length ?b0 then Ok (overwrite ?t (to_be16 p) ?b0, ?t + 2) else Panic
    | None \<Rightarrow> Ok (?b0, ?t)) = (Ok (overwrite 0 (stream_head topic pid) ?z, ?t + length ?m) :: (packet_error, _) outcome)"
    using fits by (cases pid) simp_all
  have "length (overwrite 0 (stream_head topic pid) ?z) = 256" using fits by (intro trans [OF length_overwrite]) simp_all
  then show ?thesis
    unfolding stream_variable_header_def w prod.case and_then.simps pid by simp
qed

lemma stream_variable_header_Ok:
  assumes "stream_variable_header topic pid v = Ok h"
  shows "h = stream_header topic pid v \<and> length topic \<le> 65535"
proof -
  let ?w = "stream_head topic pid" and ?z = "replicate 256 0 :: bytes"
  note fits = stream_variable_header_fits [OF assms]
  note eq = stream_variable_header_head [OF fits, of v, unfolded assms Let_def]
  show ?thesis
  proof (cases "v = V5")
    case True
    then have lt: "length ?w < 256" using eq by (cases "length ?w < 256") simp_all
    have "(overwrite 0 ?w ?z)[length ?w := 0] = overwrite 0 (?w @ [0]) ?z"
      using overwrite_overwrite [of 0 ?w "[0]" ?z] list_update_overwrite [of "length ?w" "overwrite 0 ?w ?z" 0] lt by simp
    moreover have "subslice (overwrite 0 (?w @ [0]) ?z) 0 (length ?w + 1) = (Ok (?w @ [0]) :: (packet_error, _) outcome)"
      using take_overwrite_end [of 0 ?z "?w @ [0]"] lt by (simp add: subslice_def)
    ultimately have "h = ?w @ [0]" using eq True lt by (simp only: if_True and_then.simps prod.case outcome.inject simp_thms)
    then show ?thesis using True fits(1) by (simp add: stream_header_def)
  next
    case False
    have "subslice (overwrite 0 ?w ?z) 0 (length ?w) = (Ok ?w :: (packet_error, _) outcome)"
      using take_overwrite_end [of 0 ?z ?w] fits(2) by (simp add: subslice_def)
    then have "h = ?w" using eq False by (simp only: if_False and_then.simps prod.case outcome.inject simp_thms)
    then show ?thesis using False fits(1) by (simp add: stream_header_def)
  qed
qed

context transport_contract begin

lemma begin_stream_Ok:
  assumes run: "begin_stream_publish env N topic tot q c = (Ok wr, c')"
  defines "pid \<equiv> allocated_id q (cl_next_packet_id c)" and "v \<equiv> mo_version (cl_options c)"
  shows "sw_transport wr = cl_transport c' \<and> sw_bytes_remaining wr = tot \<and> sw_total_len wr = tot \<and>
    length topic \<le> 65535 \<and> cl_state c = ClientConnected \<and>
    sent (cl_transport c') = sent (cl_transport c) @
      ((0x30 OR push_bit 1 (qos_to_u8 q)) # vbi (length (stream_header topic pid v) + tot)) @
      stream_header topic pid v"
proof -
  from run obtain pid' c1 h c2 x c3 where
    con: "cl_state c = ClientConnected"
    and 1: "allocate_packet_id N q c = (Ok pid' :: ('t mqtt_error, _) outcome, c1)"
    and h: "stream_fixed_header q (2 + length topic + (if pid' \<noteq> None then 2 else 0) +
      (if mo_version (cl_options c1) = V5 then 1 else 0) + tot) = Ok h"
    and 2: "send_bytes env h c1 = (Ok () , c2)"
    and x: "stream_variable_header topic pid' (mo_version (cl_options c1)) = Ok x"
    and 3: "send_bytes env x c2 = (Ok (), c3)"
    and 4: "touch_tx env c3 = (Ok () :: ('t mqtt_error, _) outcome, c')"
    and wr: "wr = stream_writer_new (cl_transport c') tot"
    by (auto simp: begin_stream_publish_def Let_def bind_Ok require_connected_Ok)
  from allocate_Ok [OF 1] have al: "pid' = pid" "mo_version (cl_options c1) = v" "cl_transport c1 = cl_transport c"
    by (simp_all add: pid_def v_def)
  from stream_variable_header_Ok [OF x [unfolded al]] have x': "x = stream_header topic pid v" "length topic \<le> 65535"
    by simp_all
  have len: "2 + length topic + (if pid \<noteq> None then 2 else 0) + (if v = V5 then 1 else 0) =
      length (stream_header topic pid v)"
    by (cases pid) (simp_all add: stream_header_def)
  from stream_fixed_header_Ok [OF h [unfolded al, unfolded len]] send_bytes_Ok [OF 2] send_bytes_Ok [OF 3]
    touch_tx_Ok [OF 4] wr x' al(3) con
  show ?thesis by (simp add: stream_writer_new_def)
qed

lemma stream_header_content:
  "packet_content (Publish (outgoing_publish topic payload q (allocated_id q i) False)) v =
     stream_header topic (allocated_id q i) v @ payload"
  by (simp add: stream_header_def outgoing_publish_def publish_new_def allocated_id_def packet_id_content_def
      props_content_def properties_bytes_def props_bytes_def vbi.simps)

lemma stream_publish_wire:
  assumes run: "begin_stream_publish env N topic tot q c = (Ok wr, c')"
    and ws: "stream_writes env xs wr = (Ok u, wr')" and fin: "stream_finish wr' = (Ok () :: ('t mqtt_error, unit) outcome)"
  shows "sent (sw_transport wr') = sent (cl_transport c) @
    wire (Publish (outgoing_publish topic (concat (map stream_write_bytes xs)) q
      (allocated_id q (cl_next_packet_id c)) False)) (mo_version (cl_options c))"
proof -
  note b = begin_stream_Ok [OF run]
  let ?pay = "concat (map stream_write_bytes xs)"
  from fin have "sw_bytes_remaining wr' = 0" by (simp add: stream_finish_def split: if_splits)
  with stream_writes_Ok [OF ws] b have w: "length ?pay = tot"
    "sent (sw_transport wr') = sent (cl_transport c') @ ?pay" by auto
  let ?p = "Publish (outgoing_publish topic ?pay q (allocated_id q (cl_next_packet_id c)) False)"
  let ?v = "mo_version (cl_options c)"
  note content = stream_header_content [of topic ?pay q "cl_next_packet_id c" ?v]
  have first: "first_byte ?p = 0x30 OR push_bit 1 (qos_to_u8 q)"
    by (simp add: publish_flags_def outgoing_publish_def publish_new_def)
  have "wire ?p ?v = (0x30 OR push_bit 1 (qos_to_u8 q)) #
      vbi (length (stream_header topic (allocated_id q (cl_next_packet_id c)) ?v) + tot) @
      stream_header topic (allocated_id q (cl_next_packet_id c)) ?v @ ?pay"
    unfolding wire_def frame_def content first using w(1) by simp
  with b w(2) show ?thesis by simp
qed

end

end
