(* ===== verification/Client_Receive.thy ===== *)
theory Client_Receive
  imports Client_Stream
begin

text \<open>
  Receiving and connecting: the acknowledgement each packet is answered with, the events and
  replies of a whole receive buffer, and what a successful or refused \<open>connect\<close> leaves.
\<close>

subsection \<open>The reply to a packet\<close>

fun reply_of :: "mqtt_packet \<Rightarrow> mqtt_packet option" where
  "reply_of (Publish p) =
     (case (pub_qos p, pub_packet_id p) of
        (AtLeastOnce, Some pid) \<Rightarrow> Some (PubAck (ack_new pid))
      | (ExactlyOnce, Some pid) \<Rightarrow> Some (PubRec (ack_new pid))
      | _ \<Rightarrow> None)"
| "reply_of (PubRec rec) = Some (PubRel (ack_new (ack_packet_id rec)))"
| "reply_of (PubRel rel) = Some (PubComp (ack_new (ack_packet_id rel)))"
| "reply_of _ = None"

fun event_of :: "mqtt_packet \<Rightarrow> mqtt_event option" where
  "event_of (Publish p) = Some (PublishEvent p)"
| "event_of (PubAck a) = Some (PubAckEvent a)"
| "event_of (PubRec a) = Some (PubRecEvent a)"
| "event_of (PubRel a) = Some (PubRelEvent a)"
| "event_of (PubComp a) = Some (PubCompEvent a)"
| "event_of (SubAck s) = Some (SubAckEvent s)"
| "event_of (UnsubAck s) = Some (UnsubAckEvent s)"
| "event_of PingResp = Some PingRespEvent"
| "event_of (Disconnect d) = Some DisconnectEvent"
| "event_of _ = None"

definition reply_wire :: "mqtt_version \<Rightarrow> mqtt_packet \<Rightarrow> bytes" where
  "reply_wire v p = (case reply_of p of Some r \<Rightarrow> wire r v | None \<Rightarrow> [])"

definition frame_packets :: "mqtt_version \<Rightarrow> bytes list \<Rightarrow> mqtt_packet list" where
  "frame_packets v fs = List.map_filter (\<lambda>f. case decode f v of Ok p \<Rightarrow> p | _ \<Rightarrow> None) fs"

lemma frame_packets_simps [simp]:
  "frame_packets v [] = []"
  "decode f v = Ok None \<Longrightarrow> frame_packets v (f # fs) = frame_packets v fs"
  "decode f v = Ok (Some p) \<Longrightarrow> frame_packets v (f # fs) = p # frame_packets v fs"
  by (simp_all add: frame_packets_def List.map_filter_simps)

lemma take_take_append: "take m (take m xs @ ys) = take m (xs @ ys)"
  by (simp add: min_def)

lemma to_be16_nonempty [simp]: "to_be16 w \<noteq> []"
  by (simp add: to_be16_def)

lemma frames_empty: "frames (frame_iter_new []) = ([], None, 0)"
  unfolding frames.simps [of "frame_iter_new []"] by (simp add: frame_next_def frame_iter_new_def)

lemma map_filter_append: "List.map_filter g (xs @ ys) = List.map_filter g xs @ List.map_filter g ys"
  by (simp add: List.map_filter_def)

lemma ack_sendable [simp]:
  "encodable (PubAck (ack_new k)) v" "packet_content (PubAck (ack_new k)) v \<noteq> []"
  "encodable (PubRec (ack_new k)) v" "packet_content (PubRec (ack_new k)) v \<noteq> []"
  "encodable (PubRel (ack_new k)) v" "packet_content (PubRel (ack_new k)) v \<noteq> []"
  "encodable (PubComp (ack_new k)) v" "packet_content (PubComp (ack_new k)) v \<noteq> []"
  by (simp_all add: encodable_def ack_new_def reason_content_def)

context transport_contract begin

lemma send_packet_Ok:
  assumes "send_packet env p c = (Ok u, c')" "encodable p (mo_version (cl_options c))"
    and "packet_content p (mo_version (cl_options c)) \<noteq> []"
  shows "sent (cl_transport c') = sent (cl_transport c) @ wire p (mo_version (cl_options c)) \<and> io_only c c' \<and>
    cl_rx_buffer c' = cl_rx_buffer c"
proof -
  from assms(1) obtain len c1 where "encode_tx p 0 c = (Ok len :: ('t mqtt_error, _) outcome, c1)" "send_tx env len c1 = (Ok u, c')"
    by (auto simp: send_packet_def bind_Ok)
  from encode_send_Ok [OF this assms(2,3)] show ?thesis .
qed

lemma acknowledge_Ok:
  assumes "acknowledge_publish env N p c = (Ok u, c')"
  shows "sent (cl_transport c') = sent (cl_transport c) @ reply_wire (mo_version (cl_options c)) (Publish p) \<and>
    cl_options c' = cl_options c"
  using assms
  by (auto simp: acknowledge_publish_def reply_wire_def bind_Ok ignore_result_def with_inflight_def io_only_def
      split: qos.splits option.splits prod.splits outcome.splits dest!: send_packet_Ok)

lemma handle_packet_Ok:
  assumes "handle_packet env N p c = (Ok ev, c')"
  shows "ev = event_of p \<and> cl_options c' = cl_options c \<and>
    sent (cl_transport c') = sent (cl_transport c) @ reply_wire (mo_version (cl_options c)) p"
  using assms
  by (cases p) (auto simp: bind_Ok on_inflight_def reply_wire_def io_only_def set_state_def
      dest!: send_packet_Ok acknowledge_Ok)

lemma batch_frame_Ok:
  assumes "batch_frame env N m f evs c = (Ok evs', c')" "length evs \<le> m"
  defines "v \<equiv> mo_version (cl_options c)"
  shows "(\<exists>o1. decode f v = Ok o1) \<and> cl_options c' = cl_options c \<and> length evs' \<le> m \<and>
    evs' = take m (evs @ List.map_filter event_of (frame_packets v [f])) \<and>
    sent (cl_transport c') = sent (cl_transport c) @ concat (map (reply_wire v) (frame_packets v [f]))"
proof -
  from assms(1) obtain o1 where o1: "decode f v = Ok o1"
    by (auto simp: batch_frame_def bind_Ok v_def)
  show ?thesis
  proof (cases o1)
    case None
    with assms(1) o1 show ?thesis using assms(2) by (auto simp: batch_frame_def bind_Ok v_def List.map_filter_simps)
  next
    case (Some p)
    with assms(1) o1 obtain ev where h: "handle_packet env N p c = (Ok ev :: ('t mqtt_error, _) outcome, c')"
      and e: "evs' = (case ev of None \<Rightarrow> evs | Some ev \<Rightarrow> push_or_keep m evs ev)"
      by (auto simp: batch_frame_def bind_Ok v_def)
    from handle_packet_Ok [OF h] o1 Some e assms(2) show ?thesis
      by (auto simp: v_def push_or_keep_def vec_push_def List.map_filter_simps split: option.splits)
  qed
qed

lemma batch_frames_Ok:
  "batch_frames env N m it evs c = (Ok evs', c') \<Longrightarrow> length evs \<le> m \<Longrightarrow> v = mo_version (cl_options c) \<Longrightarrow>
   \<exists>fs off. frames it = (fs, None, off) \<and> (\<forall>f \<in> set fs. \<exists>o1. decode f v = Ok o1) \<and>
     evs' = take m (evs @ List.map_filter event_of (frame_packets v fs)) \<and>
     sent (cl_transport c') = sent (cl_transport c) @ concat (map (reply_wire v) (frame_packets v fs))"
proof (induction "length (fi_buffer it) - fi_offset it" arbitrary: it evs c rule: less_induct)
  case less
  obtain o1 it' where n: "frame_next it = (o1, it')" by fastforce
  show ?case
  proof (cases "\<exists>f. o1 = Some (Ok f)")
    case True
    then obtain f where f: "frame_next it = (Some (Ok f), it')" using n by auto
    from less.prems(1) obtain evs1 c1 where 1: "batch_frame env N m f evs c = (Ok evs1 :: ('t mqtt_error, _) outcome, c1)"
      and 2: "batch_frames env N m it' evs1 c1 = (Ok evs', c')"
      by (auto simp: batch_frames.simps [of env N m it] f split: prod.splits outcome.splits)
    from batch_frame_Ok [OF 1 less.prems(2)] less.prems(3) have b:
      "\<exists>o1. decode f v = Ok o1" "cl_options c1 = cl_options c" "length evs1 \<le> m"
      "evs1 = take m (evs @ List.map_filter event_of (frame_packets v [f]))"
      "sent (cl_transport c1) = sent (cl_transport c) @ concat (map (reply_wire v) (frame_packets v [f]))"
      by simp_all
    have small: "length (fi_buffer it') - fi_offset it' < length (fi_buffer it) - fi_offset it"
      using frame_next_advances [OF f] by auto
    from less.hyps [OF small 2 b(3)] b(2) less.prems(3) obtain fs off where ih:
      "frames it' = (fs, None, off)" "\<forall>f \<in> set fs. \<exists>o1. decode f v = Ok o1"
      "evs' = take m (evs1 @ List.map_filter event_of (frame_packets v fs))"
      "sent (cl_transport c') = sent (cl_transport c1) @ concat (map (reply_wire v) (frame_packets v fs))"
      by auto
    have fp: "frame_packets v (f # fs) = frame_packets v [f] @ frame_packets v fs"
      by (simp add: frame_packets_def List.map_filter_simps split: option.split)
    have "evs' = take m (evs @ List.map_filter event_of (frame_packets v (f # fs)))"
      unfolding ih(3) b(4) fp map_filter_append append_assoc [symmetric] by (rule take_take_append)
    with ih(1,2,4) b(1,5) show ?thesis
      by (intro exI [of _ "f # fs"]) (simp add: frames.simps [of it] f fp)
  next
    case False
    with less.prems n have "frame_next it = (None, it')" "evs' = evs" "c' = c"
      by (auto simp: batch_frames.simps [of env N m it] split: option.splits outcome.splits)
    with less.prems(2) show ?thesis by (simp add: frames.simps [of it] List.map_filter_simps)
  qed
qed

lemma receive_rx_Ok:
  "receive_rx env c = (Ok n, c') \<Longrightarrow> sent (cl_transport c') = sent (cl_transport c) \<and> cl_options c' = cl_options c \<and>
     n \<le> length (cl_rx_buffer c') \<and>
     (\<exists>w. tr_recv env (cl_rx_buffer c) (cl_transport c) = ((Ok n, cl_rx_buffer c'), w))"
  by (auto simp: receive_rx_def bind_Ok recv_rx_def io_only_def split: if_splits prod.splits
      dest!: touch_rx_Ok dest: recv_len)

lemma poll_batch_Ok:
  assumes "poll_batch env N m c = (Ok evs, c')" and v: "v = mo_version (cl_options c)"
  shows "\<exists>n buf w fs off. tr_recv env (cl_rx_buffer c) (cl_transport c) = ((Ok n, buf), w) \<and>
     frames (frame_iter_new (take n buf)) = (fs, None, off) \<and> (\<forall>f \<in> set fs. \<exists>o1. decode f v = Ok o1) \<and>
     evs = take m (List.map_filter event_of (frame_packets v fs)) \<and>
     sent (cl_transport c') = sent (cl_transport c) @ concat (map (reply_wire v) (frame_packets v fs))"
proof -
  from assms(1) obtain n c1 where 1: "receive_rx env c = (Ok n :: ('t mqtt_error, _) outcome, c1)"
    and 2: "(if n = 0 then ret [] else bind (gets cl_rx_buffer) (\<lambda>buf. bind (lift (subslice buf 0 n)) (\<lambda>b.
         batch_frames env N m (frame_iter_new b) []))) c1 = (Ok evs, c')"
    by (auto simp: poll_batch_def bind_Ok require_connected_Ok)
  from receive_rx_Ok [OF 1] obtain w where r: "sent (cl_transport c1) = sent (cl_transport c)"
    "cl_options c1 = cl_options c" "n \<le> length (cl_rx_buffer c1)"
    "tr_recv env (cl_rx_buffer c) (cl_transport c) = ((Ok n, cl_rx_buffer c1), w)" by blast
  have "\<exists>fs off. frames (frame_iter_new (take n (cl_rx_buffer c1))) = (fs, None, off) \<and>
     (\<forall>f \<in> set fs. \<exists>o1. decode f v = Ok o1) \<and> evs = take m (List.map_filter event_of (frame_packets v fs)) \<and>
     sent (cl_transport c') = sent (cl_transport c) @ concat (map (reply_wire v) (frame_packets v fs))"
  proof (cases "n = 0")
    case True
    with 2 r(1) show ?thesis by (auto simp: frames_empty List.map_filter_simps)
  next
    case False
    with 2 r have "batch_frames env N m (frame_iter_new (take n (cl_rx_buffer c1))) [] c1 = (Ok evs, c')"
      by (auto simp: bind_Ok subslice_def)
    from batch_frames_Ok [OF this, of v] r v show ?thesis by auto
  qed
  with r(4) show ?thesis by blast
qed

end

subsection \<open>Connecting\<close>

text \<open>A failed run of \<open>m\<close> keeps \<open>P\<close>.\<close>

definition err_keeps :: "('s \<Rightarrow> bool) \<Rightarrow> ('e, 's, 'a) action \<Rightarrow> bool" where
  "err_keeps P m \<longleftrightarrow> (\<forall>s r s'. P s \<longrightarrow> m s = (r, s') \<longrightarrow> (\<forall>a. r \<noteq> Ok a) \<longrightarrow> P s')"

lemma err_keeps_bind: "valid False P m any \<Longrightarrow> (\<And>a. err_keeps P (f a)) \<Longrightarrow> err_keeps P (bind m f)"
  unfolding err_keeps_def valid_def bind_def
  by (auto split: prod.splits outcome.splits)

definition not_up :: "'w client \<Rightarrow> bool" where
  "not_up c \<longleftrightarrow> cl_state c \<noteq> ClientConnected"

lemma not_up_steps:
  "valid False not_up (encode_tx p k) any" "valid False not_up (send_tx env n) any"
  "valid False not_up (touch_tx env) any" "valid False not_up (touch_rx env) any"
  "valid False not_up (recv_rx env) any" "valid False not_up (decode_rx n) any"
  "valid False not_up (gets g) any"
  by (auto simp: valid_def not_up_def encode_tx_def encode_raw_def Let_def send_tx_def bind_def send_bytes_def
      touch_tx_def touch_rx_def read_clock_def recv_rx_def decode_rx_def split: prod.splits outcome.splits)

lemma connect_reply_state:
  assumes "connect_reply p c = (r, c')"
  shows "(cl_state c' = ClientConnected) = (r = Ok ()) \<and> cl_transport c' = cl_transport c \<and>
    (r = Ok () \<longrightarrow> iq_entries (cl_inflight c') = []) \<and> r \<noteq> Panic"
  using assms
  by (auto simp: connect_reply_def bind_def set_state_def inflight_clear_def
      split: option.splits mqtt_packet.splits if_splits)

lemma decode_rx_keeps: "decode_rx n c = (r, c') \<Longrightarrow> c' = c"
  by (auto simp: decode_rx_def bind_def split: outcome.splits prod.splits)

lemma connect_state:
  fixes env :: "('w, 't) env"
  assumes run: "client_connect env c = (r, c')"
  shows "cl_state c' = ClientConnected \<longleftrightarrow> r = Ok ()"
proof
  assume "r = Ok ()"
  with run obtain p c5 where "connect_reply p c5 = (Ok () :: ('t mqtt_error, _) outcome, c')"
    by (auto simp: client_connect_def bind_Ok set_state_def split: if_splits)
  with connect_reply_state show "cl_state c' = ClientConnected" by blast
next
  assume up: "cl_state c' = ClientConnected"
  have reply: "err_keeps not_up (connect_reply p)" for p
    using connect_reply_state by (auto simp: err_keeps_def not_up_def) 
  have shut: "err_keeps not_up (bind (set_state ClientDisconnected) (\<lambda>_. throw e))" for e
    by (auto simp: err_keeps_def not_up_def set_state_def bind_def)
  have "\<exists>rest. client_connect env = bind (set_state ClientConnecting) (\<lambda>_. rest) \<and> err_keeps not_up rest"
    unfolding client_connect_def
  proof (intro exI conjI, rule refl)
  qed (intro err_keeps_bind not_up_steps; (simp add: shut)?; (intro conjI impI err_keeps_bind not_up_steps reply)?)
  then obtain rest where rest: "client_connect env = bind (set_state ClientConnecting) (\<lambda>_. rest)"
    "err_keeps not_up rest" by blast
  from run rest(1) have "rest (c\<lparr>cl_state := ClientConnecting\<rparr>) = (r, c')" by (simp add: set_state_def bind_def)
  moreover have "\<not> not_up c'" "not_up (c\<lparr>cl_state := ClientConnecting\<rparr>)" using up by (simp_all add: not_up_def)
  ultimately have "\<exists>u. r = Ok u" using rest(2) unfolding err_keeps_def by blast
  then show "r = Ok ()" by simp
qed

text \<open>A packet that fits the transmit buffer is encoded there.\<close>

lemma encode_tx_ready:
  assumes "encodable p v" "5 + length (packet_content p v) \<le> length (cl_tx_buffer c)" "v = mo_version (cl_options c)"
  shows "\<exists>buf. length buf = length (cl_tx_buffer c) \<and> take (length (wire p v)) buf = wire p v \<and>
    encode_tx p 0 c = (Ok (length (wire p v)), c\<lparr>cl_tx_buffer := buf\<rparr>)"
proof -
  obtain buf where "encode_packet p (cl_tx_buffer c) v = (Ok (length (wire p v)), buf)"
    "take (length (wire p v)) buf = wire p v"
    by (rule encode_packet_Ok [OF assms(1,2)]) auto
  with encode_packet_bounds [OF this(1)] assms(3) show ?thesis
    by (auto simp: encode_tx_def encode_raw_def Let_def intro!: exI [of _ buf] simp del: encode_packet.simps)
qed

context transport_contract begin

lemma connect_Ok:
  assumes run: "client_connect env c = (Ok (), c')"
  defines "p \<equiv> Connect (connect_packet (env_tick_hz env) (cl_options c))" and "v \<equiv> mo_version (cl_options c)"
  assumes enc: "encodable p v"
  shows "sent (cl_transport c') = sent (cl_transport c) @ wire p v \<and> iq_entries (cl_inflight c') = []"
proof -
  from run obtain len c1 c2 c3 n c4 c5 q c6 where
    1: "encode_tx (Connect (connect_packet (env_tick_hz env) (cl_options c))) 0 (c\<lparr>cl_state := ClientConnecting\<rparr>) =
       (Ok len :: ('t mqtt_error, _) outcome, c1)"
    and 2: "send_tx env len c1 = (Ok (), c2)" and 3: "touch_tx env c2 = (Ok () :: ('t mqtt_error, _) outcome, c3)"
    and 4: "recv_rx env c3 = (Ok n, c4)" and 5: "touch_rx env c4 = (Ok () :: ('t mqtt_error, _) outcome, c5)"
    and 7: "decode_rx n c5 = (Ok q :: ('t mqtt_error, _) outcome, c6)"
    and 6: "connect_reply q c6 = (Ok () :: ('t mqtt_error, _) outcome, c')"
    by (auto simp: client_connect_def bind_Ok set_state_def split: if_splits)
  have "sent (cl_transport c4) = sent (cl_transport c3)"
    using 4 by (auto simp: recv_rx_def split: prod.splits dest!: recv_len)
  moreover have "packet_content p v \<noteq> []" by (simp add: p_def)
  ultimately show ?thesis
    using encode_send_Ok [OF 1 2] enc touch_tx_Ok [OF 3] touch_rx_Ok [OF 5] connect_reply_state [OF 6] decode_rx_keeps [OF 7]
    by (simp add: p_def v_def)
qed

end

subsection \<open>Packet identifiers\<close>

lemma next_id_unat: "i \<noteq> 0 \<Longrightarrow> unat (next_id i) = unat i mod 65535 + 1"
proof -
  assume i: "i \<noteq> 0"
  have "unat i \<noteq> 0" using i by (simp add: unat_eq_0)
  moreover have "unat (i + 1) = (unat i + 1) mod 65536" by (simp add: unat_word_ariths)
  moreover have "i + 1 = 0 \<longleftrightarrow> unat (i + 1) = 0" by (simp add: unat_eq_0)
  ultimately show ?thesis
    using unat_u16_less [of i] by (cases "unat i = 65535") (auto simp: next_id_def)
qed

lemma next_id_nonzero: "i \<noteq> 0 \<Longrightarrow> next_id i \<noteq> 0"
  using next_id_unat [of i] by (auto simp: unat_eq_0 [symmetric])

lemma next_id_iterate:
  assumes "i \<noteq> 0"
  shows "(next_id ^^ n) i \<noteq> 0 \<and> unat ((next_id ^^ n) i) = (unat i - 1 + n) mod 65535 + 1"
proof (induction n)
  case 0
  have "0 < unat i" "unat i < 65536" using assms unat_u16_less by (simp_all add: unat_gt_0)
  with assms show ?case by simp
next
  case (Suc n)
  then show ?case
    using next_id_nonzero next_id_unat [of "(next_id ^^ n) i"] by (simp add: mod_Suc_eq)
qed

end
