(* ===== verification/Emb_Quic.thy ===== *)
theory Emb_Quic
  imports Client_Receive
begin

text \<open>
  The QUIC side of \<open>mqtt-embedded\<close>: \<open>QuicMqttClient\<close> of \<open>client.rs\<close> over the two datagram
  operations of its transport, and the adapters \<open>QuinnQuicTransport\<close>, \<open>QuinnSendStream\<close> and
  \<open>QuinnRecvStream\<close> of \<open>transport.rs\<close>. A \<open>quinn\<close> connection or stream is a state with the
  operations the adapters call; \<open>fmt\<close> is the \<open>Display\<close> text of its errors.
\<close>

subsection \<open>The datagram client\<close>

record ('w, 't) quic_env =
  qt_send_datagram :: "bytes \<Rightarrow> 'w \<Rightarrow> ('t, unit) outcome \<times> 'w"
  qt_recv_datagram :: "bytes \<Rightarrow> 'w \<Rightarrow> (('t, nat) outcome \<times> bytes) \<times> 'w"

record 'w quic_client =
  qc_transport :: 'w
  qc_options :: mqtt_options
  qc_rx_buf :: bytes

definition quic_client_new :: "nat \<Rightarrow> 'w \<Rightarrow> mqtt_options \<Rightarrow> 'w quic_client" where
  "quic_client_new buf_size transport mo =
     \<lparr>qc_transport = transport, qc_options = mo, qc_rx_buf = replicate buf_size 0\<rparr>"

text \<open>The datagram laid out in its buffer of 1024 bytes.\<close>

definition datagram_bytes :: "str \<Rightarrow> bytes \<Rightarrow> ('t mqtt_error, bytes) outcome" where
  "datagram_bytes topic payload =
     (case write_utf8_string topic (replicate 1024 0) of
        (r, buf) \<Rightarrow>
          and_then (map_err mqtt_error_from r) (\<lambda>cursor.
            if length buf < cursor + length payload then Err (QuicError DatagramTooLarge)
            else subslice (overwrite cursor payload buf) 0 (cursor + length payload)))"

definition publish_datagram ::
  "('w, 't) quic_env \<Rightarrow> str \<Rightarrow> bytes \<Rightarrow> ('t mqtt_error, 'w quic_client, unit) action" where
  "publish_datagram env topic payload c =
     (case datagram_bytes topic payload of
        Ok d \<Rightarrow> (case qt_send_datagram env d (qc_transport c) of
           (r, w) \<Rightarrow> (map_err Transport r, c\<lparr>qc_transport := w\<rparr>))
      | Err e \<Rightarrow> (Err e, c)
      | Panic \<Rightarrow> (Panic, c))"

definition recv_datagram ::
  "('w, 't) quic_env \<Rightarrow> ('t mqtt_error, 'w quic_client, mqtt_event option) action" where
  "recv_datagram env c =
     (case qt_recv_datagram env (qc_rx_buf c) (qc_transport c) of
        ((r, buf), w) \<Rightarrow>
          (and_then (map_err Transport r) (\<lambda>n.
             if n = 0 then Ok None
             else and_then (subslice buf 0 n) (\<lambda>b.
               and_then (map_err mqtt_error_from (decode b (mo_version (qc_options c)))) (\<lambda>p.
                 case p of Some (Publish p) \<Rightarrow> Ok (Some (PublishEvent p)) | _ \<Rightarrow> Ok None))),
           c\<lparr>qc_rx_buf := buf, qc_transport := w\<rparr>))"

subsection \<open>The adapters for \<open>quinn\<close>\<close>

datatype quinn_error = QuinnError str

definition quinn_error_of :: "string \<Rightarrow> ('e \<Rightarrow> str) \<Rightarrow> 'e \<Rightarrow> quinn_error" where
  "quinn_error_of prefix fmt e = QuinnError (text_of prefix @ fmt e)"

definition quinn_stream_write ::
  "('e \<Rightarrow> str) \<Rightarrow> (bytes \<Rightarrow> 's \<Rightarrow> ('e, unit) outcome \<times> 's) \<Rightarrow> bytes \<Rightarrow> 's \<Rightarrow> (quinn_error, unit) outcome \<times> 's" where
  "quinn_stream_write fmt write_all buf s =
     (case write_all buf s of (r, s') \<Rightarrow> (map_err (quinn_error_of ''Write error: '' fmt) r, s'))"

definition quinn_stream_finish ::
  "('e \<Rightarrow> str) \<Rightarrow> ('s \<Rightarrow> ('e, unit) outcome \<times> 's) \<Rightarrow> 's \<Rightarrow> (quinn_error, unit) outcome \<times> 's" where
  "quinn_stream_finish fmt finish s =
     (case finish s of (r, s') \<Rightarrow> (map_err (quinn_error_of ''Finish error: '' fmt) r, s'))"

text \<open>A \<open>quinn\<close> read returns \<open>None\<close> at the end of the stream.\<close>

definition quinn_stream_read ::
  "('e \<Rightarrow> str) \<Rightarrow> (bytes \<Rightarrow> 's \<Rightarrow> (('e, nat option) outcome \<times> bytes) \<times> 's) \<Rightarrow> bytes \<Rightarrow> 's \<Rightarrow>
   ((quinn_error, nat) outcome \<times> bytes) \<times> 's" where
  "quinn_stream_read fmt read buf s =
     (case read buf s of ((r, buf'), s') \<Rightarrow>
        ((and_then (map_err (quinn_error_of ''Read error: '' fmt) r)
           (\<lambda>n. case n of Some n \<Rightarrow> Ok n | None \<Rightarrow> Ok 0), buf'), s'))"

definition quinn_open_bi ::
  "('e \<Rightarrow> str) \<Rightarrow> ('c \<Rightarrow> ('e, 's \<times> 'r) outcome \<times> 'c) \<Rightarrow> 'c \<Rightarrow> (quinn_error, 's \<times> 'r) outcome \<times> 'c" where
  "quinn_open_bi fmt open_bi conn =
     (case open_bi conn of (r, conn') \<Rightarrow> (map_err (quinn_error_of ''Open bi error: '' fmt) r, conn'))"

definition quinn_open_uni ::
  "('e \<Rightarrow> str) \<Rightarrow> ('c \<Rightarrow> ('e, 's) outcome \<times> 'c) \<Rightarrow> 'c \<Rightarrow> (quinn_error, 's) outcome \<times> 'c" where
  "quinn_open_uni fmt open_uni conn =
     (case open_uni conn of (r, conn') \<Rightarrow> (map_err (quinn_error_of ''Open uni error: '' fmt) r, conn'))"

definition quinn_accept_bi ::
  "('e \<Rightarrow> str) \<Rightarrow> ('c \<Rightarrow> ('e, 's \<times> 'r) outcome \<times> 'c) \<Rightarrow> 'c \<Rightarrow> (quinn_error, 's \<times> 'r) outcome \<times> 'c" where
  "quinn_accept_bi fmt accept_bi conn =
     (case accept_bi conn of (r, conn') \<Rightarrow> (map_err (quinn_error_of ''Accept bi error: '' fmt) r, conn'))"

definition quinn_send_datagram ::
  "('e \<Rightarrow> str) \<Rightarrow> (bytes \<Rightarrow> 'c \<Rightarrow> ('e, unit) outcome \<times> 'c) \<Rightarrow> bytes \<Rightarrow> 'c \<Rightarrow> (quinn_error, unit) outcome \<times> 'c" where
  "quinn_send_datagram fmt send_op data conn =
     (case send_op data conn of (r, conn') \<Rightarrow> (map_err (quinn_error_of ''Datagram error: '' fmt) r, conn'))"

definition quinn_recv_datagram ::
  "('e \<Rightarrow> str) \<Rightarrow> ('c \<Rightarrow> ('e, bytes) outcome \<times> 'c) \<Rightarrow> bytes \<Rightarrow> 'c \<Rightarrow>
   ((quinn_error, nat) outcome \<times> bytes) \<times> 'c" where
  "quinn_recv_datagram fmt read_op buf conn =
     (case read_op conn of
        (Ok dgram, conn') \<Rightarrow>
          (if length buf < length dgram
           then ((Err (QuinnError (text_of ''Buffer too small for datagram'')), buf), conn')
           else ((Ok (length dgram), overwrite 0 dgram buf), conn'))
      | (Err e, conn') \<Rightarrow> ((Err (quinn_error_of ''Datagram recv error: '' fmt e), buf), conn')
      | (Panic, conn') \<Rightarrow> ((Panic, buf), conn'))"

definition quinn_env ::
  "('e \<Rightarrow> str) \<Rightarrow> (bytes \<Rightarrow> 'c \<Rightarrow> ('e, unit) outcome \<times> 'c) \<Rightarrow> ('c \<Rightarrow> ('e, bytes) outcome \<times> 'c) \<Rightarrow>
   ('c, quinn_error) quic_env" where
  "quinn_env fmt send_op read_op =
     \<lparr>qt_send_datagram = quinn_send_datagram fmt send_op,
      qt_recv_datagram = quinn_recv_datagram fmt read_op\<rparr>"

subsection \<open>What a datagram holds\<close>

lemma datagram_bytes_Ok:
  "datagram_bytes topic payload = Ok d \<longleftrightarrow>
     length topic + length payload \<le> 1022 \<and> d = prefixed topic @ payload"
proof (cases "length topic \<le> 1022")
  case True
  let ?b = "overwrite 0 (prefixed topic) (replicate 1024 0) :: bytes"
  have lp: "length (prefixed topic) = 2 + length topic" by simp
  have w: "write_utf8_string topic (replicate 1024 0) = (Ok (2 + length topic), ?b)"
    using True by (simp add: write_utf8_string_def prefixed_def Let_def)
  have lb: "length ?b = 1024" using True by simp
  show ?thesis
  proof (cases "2 + length topic + length payload \<le> 1024")
    case fits: True
    have "overwrite (2 + length topic) payload ?b = overwrite 0 (prefixed topic @ payload) (replicate 1024 0)"
      using overwrite_overwrite [of 0 "prefixed topic" payload "replicate 1024 0"] fits lp by simp
    moreover have "take (length (prefixed topic @ payload)) (overwrite 0 (prefixed topic @ payload)
        (replicate 1024 (0 :: byte))) = prefixed topic @ payload"
      using take_overwrite_end [of 0 "replicate 1024 0" "prefixed topic @ payload"] by simp
    ultimately show ?thesis
      using fits lb by (auto simp: datagram_bytes_def w subslice_def)
  qed (use lb in \<open>auto simp: datagram_bytes_def w\<close>)
next
  case False
  then show ?thesis by (auto simp: datagram_bytes_def write_utf8_string_def Let_def split: if_splits)
qed

lemma datagram_not_a_packet:
  assumes "length topic \<le> 1022"
  shows "decode (prefixed topic @ payload) v = Err (InvalidPacketType 0)"
proof -
  let ?b = "ucast (drop_bit 8 (of_nat (length topic) :: u16)) :: byte"
  have "unat (of_nat (length topic) :: u16) = length topic" using assms by simp
  then have "unat (drop_bit 8 (of_nat (length topic) :: u16)) = length topic div 256"
    by (simp add: drop_bit_eq_div unat_div_distrib)
  then have "unat ?b = length topic div 256"
    using assms by (simp add: unsigned_ucast_eq take_bit_eq_mod)
  then have "unat (drop_bit 4 ?b) = 0"
    using assms by (simp add: drop_bit_eq_div unat_div_distrib)
  then have "drop_bit 4 ?b = 0" by (simp add: unat_eq_0)
  then show ?thesis by (simp add: decode_def prefixed_def to_be16_def index_def)
qed

end
