(* ===== verification/Client_Progress.thy ===== *)
theory Client_Progress
  imports Emb_Quic
begin

text \<open>
  Success of the sending methods: when the transport accepts what it is given, the packets fit
  the buffer one by one and the inflight table has room, \<open>publish\<close> and \<open>publish_batch\<close> return \<open>Ok\<close>.
\<close>

definition transport_up :: "('w, 't) env \<Rightarrow> bool" where
  "transport_up env \<longleftrightarrow> (\<forall>b w. fst (tr_send env b w) = Ok ())"

text \<open>A message whose PUBLISH fits an empty transmit buffer of \<open>B\<close> bytes.\<close>

definition message_fits :: "nat \<Rightarrow> mqtt_version \<Rightarrow> publish_message \<Rightarrow> bool" where
  "message_fits B v m \<longleftrightarrow> length (pm_topic m) \<le> 65535 \<and>
     7 + length (pm_topic m) + (if pm_qos m = AtMostOnce then 0 else 2) + (if v = V5 then 1 else 0) +
       length (pm_payload m) \<le> B"

definition tracked :: "publish_message list \<Rightarrow> nat" where
  "tracked ms = length (filter (\<lambda>m. pm_qos m \<noteq> AtMostOnce) ms)"

definition publish_of :: "publish_message \<Rightarrow> u16 option \<Rightarrow> mqtt_packet" where
  "publish_of m pid = Publish (outgoing_publish (pm_topic m) (pm_payload m) (pm_qos m) pid (pm_retain m))"

lemma publish_of_fits:
  assumes "message_fits B v m" "small B"
  shows "5 + length (packet_content (publish_of m (allocated_id (pm_qos m) i)) v) \<le> B \<and>
    encodable (publish_of m (allocated_id (pm_qos m) i)) v"
proof -
  have l: "length (packet_content (publish_of m (allocated_id (pm_qos m) i)) v) =
      2 + length (pm_topic m) + (if pm_qos m = AtMostOnce then 0 else 2) + (if v = V5 then 1 else 0) + length (pm_payload m)"
    by (simp add: publish_of_def outgoing_publish_def publish_new_def allocated_id_def packet_id_content_def
        props_content_def properties_bytes_def props_bytes_def vbi.simps)
  with assms have "5 + length (packet_content (publish_of m (allocated_id (pm_qos m) i)) v) \<le> B"
    by (simp add: message_fits_def split: if_splits)
  moreover from this assms(2) have "length (packet_content (publish_of m (allocated_id (pm_qos m) i)) v) < 268435456"
    by (simp add: small_def)
  ultimately show ?thesis using assms(1)
    by (simp add: encodable_def message_fits_def publish_of_def outgoing_publish_def publish_new_def
        del: packet_content.simps)
qed

lemma allocate_progress:
  assumes "q = AtMostOnce \<or> length (iq_entries (cl_inflight c)) < N"
  shows "\<exists>c'. allocate_packet_id N q c = (Ok (allocated_id q (cl_next_packet_id c)), c') \<and>
    length (iq_entries (cl_inflight c')) \<le> length (iq_entries (cl_inflight c)) + (if q = AtMostOnce then 0 else 1) \<and>
    cl_tx_buffer c' = cl_tx_buffer c \<and> cl_options c' = cl_options c \<and> cl_state c' = cl_state c"
proof (cases q)
  case AtMostOnce
  then show ?thesis by (simp add: allocate_packet_id_def allocated_id_def)
qed (use assms in \<open>auto simp: allocate_packet_id_def allocated_id_def bind_def get_next_packet_id_def Let_def
    with_inflight_def track_outbound_def track_entry_def vec_push_def split: prod.splits\<close>)

lemma send_tx_progress:
  assumes "transport_up env" "n \<le> length (cl_tx_buffer c)"
  shows "\<exists>w. send_tx env n c = (Ok (), c\<lparr>cl_transport := w\<rparr>)"
proof -
  obtain w where "tr_send env (take n (cl_tx_buffer c)) (cl_transport c) = (Ok (), w)"
    using assms(1) unfolding transport_up_def by (metis prod.collapse)
  then show ?thesis using assms(2)
    by (simp add: send_tx_def bind_def subslice_def send_bytes_def exI [of _ w])
qed

lemma encode_raw_progress:
  assumes "encodable p v" "packet_content p v \<noteq> []" "v = mo_version (cl_options c)" "small (length (cl_tx_buffer c))"
    and "cursor \<le> length (cl_tx_buffer c)" "5 + length (packet_content p v) \<le> length (cl_tx_buffer c)"
  shows "\<exists>buf. length buf = length (cl_tx_buffer c) \<and>
    (encode_raw p cursor c = (Ok (length (wire p v)), c\<lparr>cl_tx_buffer := buf\<rparr>) \<and>
       cursor + length (wire p v) \<le> length (cl_tx_buffer c) \<or>
     0 < cursor \<and> encode_raw p cursor c = (Err BufferTooSmall, c\<lparr>cl_tx_buffer := buf\<rparr>))"
proof -
  let ?sub = "drop cursor (cl_tx_buffer c)"
  obtain r sub where e: "encode_packet p ?sub v = (r, sub)" by fastforce
  note bounds = encode_packet_bounds [OF e]
  have run: "encode_raw p cursor c = (r, c\<lparr>cl_tx_buffer := take cursor (cl_tx_buffer c) @ sub\<rparr>)"
    using assms(3,5) e by (simp add: encode_raw_def Let_def del: encode_packet.simps)
  have len: "length (take cursor (cl_tx_buffer c) @ sub) = length (cl_tx_buffer c)"
    using bounds assms(5) by simp
  show ?thesis
  proof (cases "5 + length (packet_content p v) \<le> length ?sub")
    case True
    obtain b where "encode_packet p ?sub v = (Ok (length (wire p v)), b)"
      by (rule encode_packet_Ok [OF assms(1) True]) auto
    with e have "r = Ok (length (wire p v))" by simp
    with run len bounds assms(5) show ?thesis by (intro exI conjI disjI1) auto
  next
    case False
    with encode_packet_too_small [OF assms(1,2), of ?sub] e have "r = Err BufferTooSmall" by simp
    moreover have "0 < cursor" using False assms(6) by (cases cursor) auto
    ultimately show ?thesis using run len by (intro exI conjI disjI2) auto
  qed
qed

lemma batch_encode_progress:
  assumes "transport_up env" "encodable p v" "packet_content p v \<noteq> []" "v = mo_version (cl_options c)"
    and "small (length (cl_tx_buffer c))" "cursor \<le> length (cl_tx_buffer c)"
    and "5 + length (packet_content p v) \<le> length (cl_tx_buffer c)"
  shows "\<exists>cur buf w. batch_encode env p cursor c = (Ok cur, c\<lparr>cl_tx_buffer := buf, cl_transport := w\<rparr>) \<and>
    length buf = length (cl_tx_buffer c) \<and> cur \<le> length buf"
proof -
  from encode_raw_progress [OF assms(2-7)] obtain buf where buf: "length buf = length (cl_tx_buffer c)"
    "encode_raw p cursor c = (Ok (length (wire p v)), c\<lparr>cl_tx_buffer := buf\<rparr>) \<and>
       cursor + length (wire p v) \<le> length (cl_tx_buffer c) \<or>
     0 < cursor \<and> encode_raw p cursor c = (Err BufferTooSmall, c\<lparr>cl_tx_buffer := buf\<rparr>)" by blast
  from buf(2) show ?thesis
  proof (elim disjE conjE)
    assume "encode_raw p cursor c = (Ok (length (wire p v)), c\<lparr>cl_tx_buffer := buf\<rparr>)"
      "cursor + length (wire p v) \<le> length (cl_tx_buffer c)"
    with buf(1) show ?thesis
      by (auto simp: batch_encode_def intro!: exI [of _ buf] exI [of _ "cl_transport c"])
  next
    assume too_small: "0 < cursor" "encode_raw p cursor c = (Err BufferTooSmall, c\<lparr>cl_tx_buffer := buf\<rparr>)"
    let ?c1 = "c\<lparr>cl_tx_buffer := buf\<rparr>"
    from send_tx_progress [OF assms(1), of cursor ?c1] assms(6) buf(1)
    obtain w where w: "send_tx env cursor ?c1 = (Ok (), ?c1\<lparr>cl_transport := w\<rparr>)" by auto
    obtain buf2 where b2: "length buf2 = length buf" "take (length (wire p v)) buf2 = wire p v"
      "encode_tx p 0 (?c1\<lparr>cl_transport := w\<rparr>) = (Ok (length (wire p v)) :: ('b mqtt_error, _) outcome, ?c1\<lparr>cl_transport := w, cl_tx_buffer := buf2\<rparr>)"
      using encode_tx_ready [OF assms(2), of "?c1\<lparr>cl_transport := w\<rparr>"] assms(4,7) buf(1) by auto
    have "length (wire p v) \<le> length buf2"
      using arg_cong [OF b2(2), of length] by simp
    with too_small w b2 buf(1) show ?thesis
      by (auto simp: batch_encode_def intro!: exI [of _ buf2] exI [of _ w])
  qed
qed

lemma batch_messages_progress:
  assumes "transport_up env" "small B"
  shows "length (cl_tx_buffer c) = B \<Longrightarrow> v = mo_version (cl_options c) \<Longrightarrow> \<forall>m \<in> set ms. message_fits B v m \<Longrightarrow>
    length (iq_entries (cl_inflight c)) + tracked ms \<le> N \<Longrightarrow> cursor \<le> B \<Longrightarrow>
    \<exists>cur c'. batch_messages env N ms cursor k c = (Ok (cur, k + length ms), c') \<and>
      cur \<le> length (cl_tx_buffer c')"
proof (induction ms arbitrary: c cursor k)
  case (Cons m ms)
  let ?q = "pm_qos m" and ?p = "publish_of m (allocated_id (pm_qos m) (cl_next_packet_id c))"
  have "?q = AtMostOnce \<or> length (iq_entries (cl_inflight c)) < N"
    using Cons.prems(4) by (auto simp: tracked_def split: if_splits)
  from allocate_progress [OF this] obtain c1 where al:
    "allocate_packet_id N ?q c = (Ok (allocated_id ?q (cl_next_packet_id c)) :: ('b mqtt_error, _) outcome, c1)"
    "length (iq_entries (cl_inflight c1)) \<le> length (iq_entries (cl_inflight c)) + (if ?q = AtMostOnce then 0 else 1)"
    "cl_tx_buffer c1 = cl_tx_buffer c" "cl_options c1 = cl_options c" by blast
  from Cons.prems(3) publish_of_fits [of B v m, OF _ assms(2)]
  have p: "5 + length (packet_content ?p v) \<le> B" "encodable ?p v" by (simp_all del: packet_content.simps)
  moreover have "packet_content ?p v \<noteq> []" by (simp add: publish_of_def)
  ultimately obtain cur buf w where enc:
    "batch_encode env ?p cursor c1 = (Ok cur, c1\<lparr>cl_tx_buffer := buf, cl_transport := w\<rparr>)"
    "length buf = B" "cur \<le> B"
    using batch_encode_progress [OF assms(1), of ?p v c1 cursor] al(3,4) Cons.prems(1,2,5) assms(2) by auto
  let ?c2 = "c1\<lparr>cl_tx_buffer := buf, cl_transport := w\<rparr>"
  have msg: "batch_message env N m cursor c = (Ok cur, ?c2)"
    using al(1) enc(1) by (simp add: batch_message_def publish_of_def)
  have "length (iq_entries (cl_inflight ?c2)) + tracked ms \<le> N"
    using al(2) Cons.prems(4) by (auto simp: tracked_def split: if_splits)
  from Cons.IH [of ?c2 cur "k + 1", OF _ _ _ this] enc(2,3) Cons.prems(2,3) al(4) msg
  show ?case by simp
qed simp

lemma publish_batch_progress:
  assumes "transport_up env" "small (length (cl_tx_buffer c))" "cl_state c = ClientConnected"
    and "\<forall>m \<in> set ms. message_fits (length (cl_tx_buffer c)) (mo_version (cl_options c)) m"
    and "length (iq_entries (cl_inflight c)) + tracked ms \<le> N"
  shows "fst (publish_batch env N ms c) = Ok (length ms)"
proof -
  from batch_messages_progress [OF assms(1,2) refl refl assms(4,5), of 0 0]
  obtain cur c1 where 1: "batch_messages env N ms 0 0 c = (Ok (cur, length ms), c1)" "cur \<le> length (cl_tx_buffer c1)"
    by auto
  from send_tx_progress [OF assms(1) 1(2)] obtain w where w: "send_tx env cur c1 = (Ok (), c1\<lparr>cl_transport := w\<rparr>)"
    by blast
  obtain c3 where t: "touch_tx env (c1\<lparr>cl_transport := w\<rparr>) = (Ok () :: ('b mqtt_error, _) outcome, c3)"
    using touch_tx_Ok by (metis prod.collapse)
  show ?thesis
    using assms(3) 1(1) w t by (simp add: publish_batch_def bind_def require_connected_def)
qed

lemma publish_progress:
  assumes "transport_up env" "small (length (cl_tx_buffer c))" "cl_state c = ClientConnected"
    and "message_fits (length (cl_tx_buffer c)) (mo_version (cl_options c)) (publish_message_new topic payload q)"
    and "q = AtMostOnce \<or> length (iq_entries (cl_inflight c)) < N"
  shows "fst (client_publish env N topic payload q c) = Ok ()"
proof -
  define v where "v = mo_version (cl_options c)"
  define p where "p = Publish (outgoing_publish topic payload q (allocated_id q (cl_next_packet_id c)) False)"
  define n where "n = length (wire p v)"
  from allocate_progress [OF assms(5)] obtain c1 where al:
    "allocate_packet_id N q c = (Ok (allocated_id q (cl_next_packet_id c)) :: ('b mqtt_error, _) outcome, c1)"
    "cl_tx_buffer c1 = cl_tx_buffer c" "cl_options c1 = cl_options c" by blast
  have "p = publish_of (publish_message_new topic payload q) (allocated_id (pm_qos (publish_message_new topic payload q)) (cl_next_packet_id c))"
    by (simp add: publish_of_def publish_message_new_def p_def)
  with publish_of_fits [OF assms(4,2), of "cl_next_packet_id c"]
  have p: "5 + length (packet_content p v) \<le> length (cl_tx_buffer c1)" "encodable p v"
    by (simp_all only: v_def al(2))
  from encode_tx_ready [OF p(2,1)] al(3) obtain buf where e: "length buf = length (cl_tx_buffer c1)"
    "take n buf = wire p v" "encode_tx p 0 c1 = (Ok n :: ('b mqtt_error, _) outcome, c1\<lparr>cl_tx_buffer := buf\<rparr>)"
    unfolding n_def v_def by auto
  from arg_cong [OF e(2), of length] have "n \<le> length buf" by (simp add: n_def)
  with send_tx_progress [OF assms(1), of n "c1\<lparr>cl_tx_buffer := buf\<rparr>"] obtain w where
    w: "send_tx env n (c1\<lparr>cl_tx_buffer := buf\<rparr>) = (Ok (), c1\<lparr>cl_tx_buffer := buf, cl_transport := w\<rparr>)" by auto
  obtain c3 where t: "touch_tx env (c1\<lparr>cl_tx_buffer := buf, cl_transport := w\<rparr>) = (Ok () :: ('b mqtt_error, _) outcome, c3)"
    using touch_tx_Ok by (metis prod.collapse)
  show ?thesis
    using assms(3) al(1) e(3) w t unfolding p_def by (simp add: client_publish_def bind_def require_connected_def)
qed

end
