(* ===== verification/Client_Theorems.thy ===== *)
theory Client_Theorems
  imports Client_Progress
begin

text \<open>
  The properties of the embedded client over any transport that keeps \<open>transport_contract\<close>,
  with the repository's own \<open>MockTransport\<close> as the instance the witnesses run on.
\<close>

definition sample_transport :: "bytes \<Rightarrow> mock_transport" where
  "sample_transport b = \<lparr>mt_outgoing = [], mt_incoming = b\<rparr>"

definition sample_env :: "(mock_transport, unit) env" where
  "sample_env = mock_env (\<lambda>k. 0) 1"

definition sample_client :: "bytes \<Rightarrow> connection_state \<Rightarrow> mock_transport client" where
  "sample_client b st =
     (client_new sample_env 24 (sample_transport b) (mqtt_options_new 1 [99] [104] 1883))\<lparr>cl_state := st\<rparr>"

lemma sample_contract: "transport_contract sample_env mt_outgoing"
  unfolding sample_env_def by (rule mock.transport_contract_axioms)

lemma sample_inv: "client_inv N 24 (sample_client b st)"
  by (simp add: client_inv_def sample_client_def client_new_def)

lemma sample_small: "small (length (cl_tx_buffer (sample_client b st)))" "small 24"
  by (simp_all add: small_def sample_client_def client_new_def)

text \<open>C11. Every method keeps the client's invariant, whatever it returns: the next packet
  identifier is not 0, the two buffers keep their size, and the inflight table has no
  identifier twice and no more entries than its capacity.\<close>

theorem client_methods_keep_invariant:
  fixes env :: "('w, 't) env"
  assumes "transport_contract env sent" "client_inv N B c"
  shows "client_inv N B (snd (client_connect env c)) \<and>
    client_inv N B (snd (client_publish env N topic payload q c)) \<and>
    client_inv N B (snd (publish_batch env N messages c)) \<and>
    client_inv N B (snd (begin_stream_publish env N topic len q c)) \<and>
    client_inv N B (snd (client_subscribe env filters c)) \<and>
    client_inv N B (snd (client_unsubscribe env topics c)) \<and>
    client_inv N B (snd (client_poll env N c)) \<and>
    client_inv N B (snd (poll_batch env N m c)) \<and>
    client_inv N B (snd (client_disconnect env c))"
proof -
  note t = assms(1)
  have *: "valid False (client_inv N B) m any \<Longrightarrow> client_inv N B (snd (m c))"
    for m :: "('w, 't, 'x) client_action"
    using assms(2) by (simp add: valid_def)
  show ?thesis
    by (intro conjI; rule *;
        rule transport_contract.valid_connect [OF t] transport_contract.valid_publish [OF t]
          transport_contract.valid_publish_batch [OF t] transport_contract.valid_begin_stream [OF t]
          transport_contract.valid_subscribe [OF t] transport_contract.valid_unsubscribe [OF t]
          transport_contract.valid_poll [OF t] transport_contract.valid_poll_batch [OF t]
          transport_contract.valid_disconnect [OF t]; simp)
qed

theorem client_methods_keep_invariant_witness:
  "client_inv 4 24 (snd (client_connect sample_env (sample_client [] ClientDisconnected)))"
  using client_methods_keep_invariant [OF sample_contract sample_inv] by simp

text \<open>C27. With buffers below 2^28 bytes, publishing, subscribing, unsubscribing and the batch
  methods do not panic on any argument, on any bytes received and on any transport failure.\<close>

theorem client_methods_never_panic:
  fixes env :: "('w, 't) env"
  assumes "transport_contract env sent" "client_inv N B c" "small B"
  shows "fst (client_publish env N topic payload q c) \<noteq> Panic \<and>
    fst (publish_batch env N messages c) \<noteq> Panic \<and>
    fst (client_subscribe env filters c) \<noteq> Panic \<and>
    fst (client_unsubscribe env topics c) \<noteq> Panic \<and>
    fst (poll_batch env N m c) \<noteq> Panic"
proof -
  note t = assms(1)
  have *: "valid True (client_inv N B) m any \<Longrightarrow> fst (m c) \<noteq> Panic" for m :: "('w, 't, 'x) client_action"
    using assms(2) by (simp add: valid_def)
  show ?thesis
    by (intro conjI; rule *;
        rule transport_contract.valid_publish [OF t] transport_contract.valid_publish_batch [OF t]
          transport_contract.valid_subscribe [OF t] transport_contract.valid_unsubscribe [OF t]
          transport_contract.valid_poll_batch [OF t]; simp add: assms(3))
qed

theorem client_methods_never_panic_witness:
  "fst (poll_batch sample_env 4 2 (sample_client [0x30, 2, 0, 1, 0x61] ClientConnected)) \<noteq> Panic"
  using client_methods_never_panic [OF sample_contract sample_inv sample_small(2)] by blast

text \<open>C14. A \<open>publish\<close> that returns \<open>Ok\<close> was made in the connected state and has put on the
  stream exactly one PUBLISH packet in wire format, with the packet identifier allocated for it.\<close>

theorem publish_sends_packet:
  assumes "transport_contract env sent" "client_publish env N topic payload q c = (Ok u, c')"
    and "small (length (cl_tx_buffer c))"
  shows "cl_state c = ClientConnected \<and> cl_state c' = ClientConnected \<and>
    cl_next_packet_id c' = id_after q (cl_next_packet_id c) \<and>
    sent (cl_transport c') = sent (cl_transport c) @
      wire (Publish (outgoing_publish topic payload q (allocated_id q (cl_next_packet_id c)) False))
        (mo_version (cl_options c))"
  using transport_contract.publish_Ok [OF assms] by blast

lemma Ok_pair: "fst x = Ok k \<Longrightarrow> x = (Ok k, snd x)"
  by (cases x) simp

lemma sample_up: "transport_up sample_env"
  by (simp add: transport_up_def sample_env_def mock_env_def mock_send_def)

lemma sample_simps [simp]:
  "cl_state (sample_client b st) = st" "mo_version (cl_options (sample_client b st)) = V3_1_1"
  "cl_tx_buffer (sample_client b st) = replicate 24 0" "cl_next_packet_id (sample_client b st) = 1"
  "iq_entries (cl_inflight (sample_client b st)) = []"
  "cl_transport (sample_client b st) = sample_transport b" "mt_outgoing (sample_transport b) = []"
  "cl_rx_buffer (sample_client b st) = replicate 24 0" "cl_last_tx_time (sample_client b st) = 0"
  by (simp_all add: sample_client_def client_new_def mqtt_options_new_def inflight_new_def sample_transport_def
      sample_env_def mock_env_def)

lemma sample_publish_run:
  "client_publish sample_env 4 [116] [1, 2] AtLeastOnce (sample_client [] ClientConnected) =
     (Ok (), snd (client_publish sample_env 4 [116] [1, 2] AtLeastOnce (sample_client [] ClientConnected)))"
  by (rule Ok_pair, rule publish_progress [OF sample_up sample_small(1)])
    (simp_all add: message_fits_def publish_message_new_def)

theorem publish_sends_packet_witness:
  "mt_outgoing (cl_transport (snd (client_publish sample_env 4 [116] [1, 2] AtLeastOnce
     (sample_client [] ClientConnected)))) = [0x32, 7, 0, 1, 116, 0, 1, 1, 2]"
proof -
  have "wire (Publish (outgoing_publish [116] [1, 2] AtLeastOnce (allocated_id AtLeastOnce 1) False)) V3_1_1 =
      [0x32, 7, 0, 1, 116, 0, 1, 1, 2]"
    by code_simp
  with publish_sends_packet [OF sample_contract sample_publish_run sample_small(1)] show ?thesis
    by simp
qed

text \<open>C17. A \<open>publish_batch\<close> that returns \<open>Ok\<close> counts all the messages and has put their PUBLISH
  packets on the stream in order, each once, however the packets were packed into the buffer.\<close>

theorem batch_sends_packets:
  assumes "transport_contract env sent" "publish_batch env N messages c = (Ok k, c')"
    and "small (length (cl_tx_buffer c))"
  shows "k = length messages \<and> sent (cl_transport c') =
    sent (cl_transport c) @ batch_wire (mo_version (cl_options c)) (cl_next_packet_id c) messages"
  by (rule transport_contract.publish_batch_Ok [OF assms])

definition sample_messages :: "publish_message list" where
  "sample_messages = [publish_message_new [116] [1, 2, 3, 4, 5] AtLeastOnce,
     publish_message_new [117] [6, 7, 8, 9, 10] AtMostOnce, publish_message_new [118] [11] ExactlyOnce]"

lemma sample_batch_run:
  "publish_batch sample_env 4 sample_messages (sample_client [] ClientConnected) =
     (Ok 3, snd (publish_batch sample_env 4 sample_messages (sample_client [] ClientConnected)))"
proof (rule Ok_pair)
  have "length sample_messages = 3" by (simp add: sample_messages_def)
  with publish_batch_progress [OF sample_up sample_small(1), of "[]" ClientConnected sample_messages 4]
  show "fst (publish_batch sample_env 4 sample_messages (sample_client [] ClientConnected)) = Ok 3"
    by (simp add: message_fits_def sample_messages_def publish_message_new_def tracked_def)
qed

theorem batch_sends_packets_witness:
  "mt_outgoing (cl_transport (snd (publish_batch sample_env 4 sample_messages (sample_client [] ClientConnected)))) =
     batch_wire V3_1_1 1 sample_messages"
  using batch_sends_packets [OF sample_contract sample_batch_run sample_small(1)] by simp

text \<open>C4. A payload streamed through the writer of \<open>begin_stream_publish\<close> in any chunks and by
  any of its write methods, up to a successful \<open>finish\<close>, has put on the stream the bytes of the
  one PUBLISH packet with the concatenated payload.\<close>

theorem streamed_publish_is_packet:
  fixes env :: "('w, 't) env"
  assumes "transport_contract env sent" "begin_stream_publish env N topic tot q c = (Ok wr, c')"
    and "stream_writes env xs wr = (Ok u, wr')" "stream_finish wr' = (Ok () :: ('t mqtt_error, unit) outcome)"
  shows "sent (cl_transport (end_stream wr' c')) = sent (cl_transport c) @
    wire (Publish (outgoing_publish topic (concat (map stream_write_bytes xs)) q
      (allocated_id q (cl_next_packet_id c)) False)) (mo_version (cl_options c))"
  using transport_contract.stream_publish_wire [OF assms] by (simp add: end_stream_def)


lemma sample_stream_headers:
  "stream_fixed_header AtMostOnce 6 = Ok [0x30, 6]"
  "stream_variable_header [116] None V3_1_1 = Ok [0, 1, 116]"
proof -
  show "stream_fixed_header AtMostOnce 6 = Ok [0x30, 6]" by code_simp
  show "stream_variable_header [116] None V3_1_1 = Ok [0, 1, 116]"
    by (simp add: stream_variable_header_def write_utf8_string_def overwrite_def subslice_def to_be16_def)
qed

definition sample_stream :: "(unit mqtt_error, mock_transport stream_writer) outcome \<times> mock_transport client" where
  "sample_stream = begin_stream_publish sample_env 4 [116] 3 AtMostOnce (sample_client [] ClientConnected)"

lemma sample_stream_run:
  "\<exists>c' wr wr'. sample_stream = (Ok wr, c') \<and>
     stream_writes sample_env [Chunk [1], DmaVectored [[2], [3]]] wr = (Ok (), wr') \<and>
     stream_finish wr' = (Ok () :: (unit mqtt_error, unit) outcome)"
  by (simp add: sample_stream_def begin_stream_publish_def bind_def require_connected_def allocate_packet_id_def
      sample_stream_headers send_bytes_def touch_tx_def read_clock_def stream_writer_new_def write_chunk_def
      write_dma_vectored_def sample_env_def mock_env_def mock_send_def stream_finish_def total_bytes_def)

theorem streamed_publish_is_packet_witness:
  "\<exists>c' wr'. mt_outgoing (cl_transport (end_stream wr' c') :: mock_transport) =
     wire (Publish (outgoing_publish [116] [1, 2, 3] AtMostOnce None False)) V3_1_1 \<and> sw_bytes_remaining wr' = 0"
proof -
  from sample_stream_run obtain c' wr wr' where run: "sample_stream = (Ok wr, c')"
    "stream_writes sample_env [Chunk [1], DmaVectored [[2], [3]]] wr = (Ok (), wr')"
    "stream_finish wr' = (Ok () :: (unit mqtt_error, unit) outcome)" by blast
  from streamed_publish_is_packet [OF sample_contract run(1) [unfolded sample_stream_def] run(2,3)] run(3)
  have "mt_outgoing (cl_transport (end_stream wr' c')) =
      wire (Publish (outgoing_publish [116] [1, 2, 3] AtMostOnce None False)) V3_1_1 \<and> sw_bytes_remaining wr' = 0"
    by (simp add: allocated_id_def stream_finish_def split: if_splits)
  then show ?thesis by blast
qed

text \<open>C28. \<open>publish_batch\<close> succeeds on all its messages when the client is connected, the
  transport accepts what it is sent, each message by itself fits the transmit buffer and the
  inflight table has room for those of QoS 1 and 2.\<close>

theorem batch_succeeds:
  assumes "transport_up env" "small (length (cl_tx_buffer c))" "cl_state c = ClientConnected"
    and "\<forall>m \<in> set messages. message_fits (length (cl_tx_buffer c)) (mo_version (cl_options c)) m"
    and "length (iq_entries (cl_inflight c)) + tracked messages \<le> N"
  shows "fst (publish_batch env N messages c) = Ok (length messages)"
  by (rule publish_batch_progress [OF assms])

theorem batch_succeeds_witness:
  "fst (publish_batch sample_env 2 sample_messages (sample_client [] ClientConnected)) = Ok 3"
  using batch_succeeds [OF sample_up sample_small(1), of "[]" ClientConnected sample_messages 2]
  by (simp add: message_fits_def sample_messages_def publish_message_new_def tracked_def)

text \<open>The client is in the connected state after \<open>connect\<close> exactly when \<open>connect\<close> has
  returned \<open>Ok\<close>, whatever the transport does and the server answers.\<close>

lemma connected_iff_connect_ok:
  "cl_state (snd (client_connect env c)) = ClientConnected \<longleftrightarrow> fst (client_connect env c) = Ok ()"
  by (rule connect_state [OF prod.collapse [symmetric]])

text \<open>C29. A \<open>connect\<close> that returns \<open>Ok\<close> has put exactly the CONNECT packet of the options on the
  stream and starts the session with an empty inflight table.\<close>

theorem connect_sends_packet:
  assumes "transport_contract env sent" "client_connect env c = (Ok (), c')"
    and "encodable (Connect (connect_packet (env_tick_hz env) (cl_options c))) (mo_version (cl_options c))"
  shows "sent (cl_transport c') = sent (cl_transport c) @
      wire (Connect (connect_packet (env_tick_hz env) (cl_options c))) (mo_version (cl_options c)) \<and>
    iq_entries (cl_inflight c') = []"
  by (rule transport_contract.connect_Ok [OF assms])

lemma sample_connect_packet:
  "encodable (Connect (connect_packet 1 (cl_options (sample_client b st)))) V3_1_1"
  "length (packet_content (Connect (connect_packet 1 (cl_options (sample_client b st)))) V3_1_1) = 13"
  by (simp_all add: encodable_def connect_packet_def connect_new_def sample_client_def client_new_def
      mqtt_options_new_def will_content_def optional_string_content_def mqtt_name_def props_content_def)

lemma sample_decode_connack:
  "decode [0x20, 2, 0, 0] V3_1_1 = Ok (Some (ConnAck \<lparr>ca_session_present = False, ca_reason_code = 0, ca_properties = []\<rparr>))"
  by (simp add: decode_def index_def connack_decode_def read_head_def read_variable_byte_integer_def
      read_vbi_loop.simps get_or_def read_optional_properties_def)

definition sample_connect :: "(unit mqtt_error, unit) outcome \<times> mock_transport client" where
  "sample_connect = client_connect sample_env (sample_client [0x20, 2, 0, 0] ClientDisconnected)"

lemma sample_connect_run: "sample_connect = (Ok (), snd sample_connect)"
proof (rule Ok_pair)
  define c where "c = sample_client [0x20, 2, 0, 0] ClientDisconnected"
  define p where "p = Connect (connect_packet 1 (cl_options c))"
  let ?c = "c\<lparr>cl_state := ClientConnecting\<rparr>"
  have "encodable p V3_1_1" "5 + length (packet_content p V3_1_1) \<le> length (cl_tx_buffer ?c)" "V3_1_1 = mo_version (cl_options ?c)"
    using sample_connect_packet by (simp_all add: p_def c_def del: packet_content.simps)
  from encode_tx_ready [OF this] obtain buf where buf: "length buf = 24" "take (length (wire p V3_1_1)) buf = wire p V3_1_1"
    "encode_tx p 0 ?c = (Ok (length (wire p V3_1_1)) :: (unit mqtt_error, _) outcome, ?c\<lparr>cl_tx_buffer := buf\<rparr>)"
    by (auto simp: c_def)
  let ?c1 = "?c\<lparr>cl_tx_buffer := buf\<rparr>"
  from arg_cong [OF buf(2), of length] have "length (wire p V3_1_1) \<le> length (cl_tx_buffer ?c1)" by simp
  then have send: "send_tx sample_env (length (wire p V3_1_1)) ?c1 =
      (Ok (), ?c1\<lparr>cl_transport := (sample_transport [0x20, 2, 0, 0])\<lparr>mt_outgoing := wire p V3_1_1\<rparr>\<rparr>)"
    using buf(1,2) by (simp add: send_tx_def bind_def subslice_def send_bytes_def sample_env_def mock_env_def mock_send_def c_def)
  let ?c2 = "?c1\<lparr>cl_transport := (sample_transport [0x20, 2, 0, 0])\<lparr>mt_outgoing := wire p V3_1_1\<rparr>\<rparr>"
  have env: "env_tick_hz sample_env = 1" "env_now sample_env k = 0" for k
    by (simp_all add: sample_env_def mock_env_def)
  have recv: "tr_recv sample_env (replicate 24 0) ((sample_transport [0x20, 2, 0, 0])\<lparr>mt_outgoing := x\<rparr>) =
      ((Ok 4, [0x20, 2, 0, 0] @ replicate 20 0), (sample_transport [])\<lparr>mt_outgoing := x\<rparr>)" for x
    by (simp add: sample_env_def mock_env_def mock_recv_def sample_transport_def overwrite_def)
  have rx: "cl_rx_buffer c = replicate 24 0" "mo_version (cl_options c) = V3_1_1" by (simp_all add: c_def)
  show "fst sample_connect = Ok ()"
    unfolding sample_connect_def c_def [symmetric] client_connect_def set_state_def
    using buf(3) send sample_decode_connack
    by (simp add: bind_def p_def [symmetric, simplified] env touch_tx_def touch_rx_def read_clock_def recv_rx_def
        recv rx decode_rx_def subslice_def connect_reply_def set_state_def del: encode_packet.simps)
qed

theorem connect_sends_packet_witness:
  "mt_outgoing (cl_transport (snd sample_connect)) =
     wire (Connect (connect_packet 1 (cl_options (sample_client [0x20, 2, 0, 0] ClientDisconnected)))) V3_1_1 \<and>
   iq_entries (cl_inflight (snd sample_connect)) = []"
proof -
  have "env_tick_hz sample_env = 1" by (simp add: sample_env_def mock_env_def)
  with connect_sends_packet [OF sample_contract sample_connect_run [unfolded sample_connect_def]]
    sample_connect_packet(1) [of "[0x20, 2, 0, 0]" ClientDisconnected]
  show ?thesis by (simp add: sample_connect_def)
qed

text \<open>C18. A \<open>poll_batch\<close> that returns \<open>Ok\<close> has decoded every whole frame of the bytes received,
  has answered each with its acknowledgement in order (QoS 1 PUBLISH with PUBACK, QoS 2 PUBLISH
  with PUBREC, PUBREC with PUBREL, PUBREL with PUBCOMP), also those beyond the event limit,
  and returns the first \<open>m\<close> events.\<close>

theorem poll_batch_replies:
  assumes "transport_contract env sent" "poll_batch env N m c = (Ok evs, c')" "v = mo_version (cl_options c)"
  shows "\<exists>n buf w fs off. tr_recv env (cl_rx_buffer c) (cl_transport c) = ((Ok n, buf), w) \<and>
     frames (frame_iter_new (take n buf)) = (fs, None, off) \<and> (\<forall>f \<in> set fs. \<exists>p. decode f v = Ok p) \<and>
     evs = take m (List.map_filter event_of (frame_packets v fs)) \<and>
     sent (cl_transport c') = sent (cl_transport c) @ concat (map (reply_wire v) (frame_packets v fs))"
  by (rule transport_contract.poll_batch_Ok [OF assms])

definition sample_poll :: "(unit mqtt_error, mqtt_event list) outcome \<times> mock_transport client" where
  "sample_poll = poll_batch sample_env 4 2
     (sample_client [0x32, 6, 0, 1, 116, 0, 5, 9, 0x62, 2, 0, 7, 0xD0, 0] ClientConnected)"

lemma sample_poll_run: "\<exists>evs. sample_poll = (Ok evs, snd sample_poll) \<and> length evs = 2"
proof -
  have "(case fst sample_poll of Ok [_, _] \<Rightarrow> True | _ \<Rightarrow> False)" by code_simp
  then obtain a b where "fst sample_poll = Ok [a, b]" by (auto split: outcome.splits list.splits)
  from Ok_pair [OF this] show ?thesis by (intro exI [of _ "[a, b]"] conjI) simp_all
qed

theorem poll_batch_replies_witness:
  "\<exists>fs. mt_outgoing (cl_transport (snd sample_poll)) = concat (map (reply_wire V3_1_1) (frame_packets V3_1_1 fs))"
proof -
  from sample_poll_run obtain evs where "sample_poll = (Ok evs, snd sample_poll)" by blast
  from poll_batch_replies [OF sample_contract this [unfolded sample_poll_def] refl] show ?thesis
    by (auto simp: sample_poll_def)
qed

text \<open>From a client whose next packet identifier is not 0, the identifiers handed out run
  through 1 to 65535 in order and around, so 65535 consecutive ones are distinct and none is 0.\<close>

lemma packet_ids_cycle:
  assumes "cl_next_packet_id c \<noteq> 0"
  defines "alloc \<equiv> \<lambda>n. ((\<lambda>c. snd (get_next_packet_id c :: (unit mqtt_error, u16) outcome \<times> 'w client)) ^^ n) c"
  shows "unat (cl_next_packet_id (alloc n)) = (unat (cl_next_packet_id c) - 1 + n) mod 65535 + 1 \<and>
    fst (get_next_packet_id (alloc n)) = (Ok (cl_next_packet_id (alloc n)) :: (unit mqtt_error, u16) outcome)"
proof -
  have "cl_next_packet_id (alloc n) = (next_id ^^ n) (cl_next_packet_id c)"
    unfolding alloc_def by (induction n) (simp_all add: get_next_packet_id_def next_id_def Let_def)
  with next_id_iterate [OF assms(1), of n] show ?thesis by (simp add: get_next_packet_id_def Let_def)
qed

theorem packet_ids_cycle_witness:
  "unat (cl_next_packet_id (((\<lambda>c. snd (get_next_packet_id c :: (unit mqtt_error, u16) outcome \<times> mock_transport client)) ^^ 65538)
     (sample_client [] ClientConnected))) = 4"
  using packet_ids_cycle [of "sample_client [] ClientConnected" 65538] by simp

text \<open>A datagram that \<open>publish_datagram\<close> hands to the transport is the topic with its length
  followed by the payload; it has no packet type, and \<open>recv_datagram\<close> of the same client code
  rejects every such datagram with an invalid packet type.\<close>

lemma datagrams_are_not_received:
  fixes env :: "('w, 't) quic_env"
  assumes "publish_datagram env topic payload c = (Ok u, c')"
    and "qt_recv_datagram env2 (qc_rx_buf d) (qc_transport d) = ((Ok n, buf), w)" "n \<le> length buf"
    and "take n buf = prefixed topic @ payload"
  shows "datagram_bytes topic payload = (Ok (prefixed topic @ payload) :: ('t mqtt_error, _) outcome) \<and>
    fst (recv_datagram env2 d) = Err (Protocol (P_InvalidPacketType 0))"
proof -
  from assms(1) obtain x where "datagram_bytes topic payload = (Ok x :: ('t mqtt_error, _) outcome)"
    by (cases "datagram_bytes topic payload :: ('t mqtt_error, _) outcome")
      (auto simp: publish_datagram_def datagram_bytes_def split: outcome.splits)
  note d = this [unfolded datagram_bytes_Ok]
  then have "length topic \<le> 1022" by simp
  note dec = datagram_not_a_packet [OF this, of payload "mo_version (qc_options d)"]
  have "n \<noteq> 0" using assms(4) by (cases n) auto
  with dec assms(2-4) d show ?thesis
    by (simp add: recv_datagram_def subslice_def datagram_bytes_Ok)
qed

definition sample_quic :: "(mock_transport, unit) quic_env" where
  "sample_quic = \<lparr>qt_send_datagram = mock_send, qt_recv_datagram = mock_recv\<rparr>"

definition sample_quic_client :: "bytes \<Rightarrow> mock_transport quic_client" where
  "sample_quic_client b = quic_client_new 8 (sample_transport b) (mqtt_options_new 1 [99] [104] 1883)"

theorem datagrams_are_not_received_witness:
  "fst (recv_datagram sample_quic (sample_quic_client [0, 1, 116, 9])) = Err (Protocol (P_InvalidPacketType 0))"
proof -
  have "datagram_bytes [116] [9] = (Ok (prefixed [116] @ [9]) :: (unit mqtt_error, _) outcome)"
    by (simp add: datagram_bytes_Ok)
  then have "\<exists>c'. publish_datagram sample_quic [116] [9] (sample_quic_client []) = (Ok (), c')"
    by (simp add: publish_datagram_def sample_quic_def mock_send_def)
  then obtain c' where run: "publish_datagram sample_quic [116] [9] (sample_quic_client []) = (Ok (), c')" by blast
  have recv: "qt_recv_datagram sample_quic (qc_rx_buf (sample_quic_client [0, 1, 116, 9]))
      (qc_transport (sample_quic_client [0, 1, 116, 9])) = ((Ok 4, [0, 1, 116, 9, 0, 0, 0, 0]), sample_transport [])"
    by (simp add: sample_quic_def sample_quic_client_def quic_client_new_def mock_recv_def sample_transport_def
        overwrite_def numeral_eq_Suc)
  have "take 4 [0, 1, 116, 9, 0, 0, 0, 0] = prefixed [116] @ ([9] :: bytes)"
    by (simp add: prefixed_def to_be16_def numeral_eq_Suc)
  with datagrams_are_not_received [OF run recv] show ?thesis by simp
qed

text \<open>A QoS 1 or 2 \<open>publish\<close> of a packet too large for the transmit buffer returns
  \<open>BufferTooSmall\<close> and sends nothing, but its packet identifier takes a place of the inflight
  table: the table has one entry more than before the failed call.\<close>

lemma failed_publish_occupies_inflight:
  fixes env :: "('w, 't) env"
  defines "p \<equiv> \<lambda>topic payload q c. Publish (outgoing_publish topic payload q (allocated_id q (cl_next_packet_id c)) False)"
  assumes "cl_state c = ClientConnected" "q \<noteq> AtMostOnce" "client_inv N B c" "length (iq_entries (cl_inflight c)) < N"
    and "inflight_entry_of (cl_inflight c) (cl_next_packet_id c) = None"
    and "encodable (p topic payload q c) (mo_version (cl_options c))"
    and "B < 5 + length (packet_content (p topic payload q c) (mo_version (cl_options c)))"
  shows "fst (client_publish env N topic payload q c) = Err ME_BufferTooSmall \<and>
    cl_transport (snd (client_publish env N topic payload q c)) = cl_transport c \<and>
    length (iq_entries (cl_inflight (snd (client_publish env N topic payload q c)))) =
      Suc (length (iq_entries (cl_inflight c)))"
proof -
  let ?id = "cl_next_packet_id c" and ?v = "mo_version (cl_options c)"
  have "\<not> list_ex (\<lambda>e. ie_packet_id e = ?id) (iq_entries (cl_inflight c))"
    using assms(6) by (force simp: inflight_entry_None list_ex_iff)
  with assms(3,5) obtain c1 where al: "allocate_packet_id N q c = (Ok (allocated_id q ?id) :: ('t mqtt_error, _) outcome, c1)"
    "length (iq_entries (cl_inflight c1)) = Suc (length (iq_entries (cl_inflight c)))"
    "cl_transport c1 = cl_transport c" "cl_tx_buffer c1 = cl_tx_buffer c" "cl_options c1 = cl_options c"
    by (cases q) (auto simp: allocate_packet_id_def allocated_id_def bind_def get_next_packet_id_def Let_def
      with_inflight_def track_outbound_def track_entry_def vec_push_def)
  obtain r sub where e: "encode_packet (p topic payload q c) (cl_tx_buffer c) ?v = (r, sub)" by fastforce
  have "packet_content (p topic payload q c) ?v \<noteq> []" by (simp add: p_def)
  from encode_packet_too_small [OF assms(7) this, of "cl_tx_buffer c"] assms(4,8) e have "r = Err BufferTooSmall"
    by (simp add: client_inv_def del: encode_packet.simps)
  with e al(4,5) have "encode_tx (p topic payload q c) 0 c1 = (Err ME_BufferTooSmall :: ('t mqtt_error, _) outcome, c1\<lparr>cl_tx_buffer := sub\<rparr>)"
    by (simp add: encode_tx_def encode_raw_def Let_def del: encode_packet.simps)
  with al assms(2) show ?thesis
    unfolding p_def by (simp add: client_publish_def bind_def require_connected_def)
qed

theorem failed_publish_occupies_inflight_witness:
  "fst (client_publish sample_env 4 [116] (replicate 30 0) AtLeastOnce (sample_client [] ClientConnected)) = Err ME_BufferTooSmall \<and>
   length (iq_entries (cl_inflight (snd (client_publish sample_env 4 [116] (replicate 30 0) AtLeastOnce (sample_client [] ClientConnected))))) = 1"
  using failed_publish_occupies_inflight [OF _ _ sample_inv, of "[]" ClientConnected AtLeastOnce 4 "[116]" "replicate 30 0" sample_env]
  by (simp add: inflight_entry_None encodable_def outgoing_publish_def publish_new_def allocated_id_def
      packet_id_content_def props_content_def)

end
