(* ===== verification/Error_Texts.thy ===== *)
theory Error_Texts
  imports Core_Error Emb_Error Mem_Store
begin

text \<open>
  The \<open>Display\<close> texts and \<open>source\<close> of the error types. Formatting a nested error calls its own
  \<open>Display\<close>; that of the transport's error type is the argument \<open>fmt\<close>.
\<close>

subsection \<open>Decimal numerals\<close>

fun decimal :: "nat \<Rightarrow> string" where
  "decimal n = (if n < 10 then [hex_digit n] else decimal (n div 10) @ [hex_digit (n mod 10)])"

declare decimal.simps [simp del]

subsection \<open>\<open>mqtt-packet\<close> and \<open>mqtt-storage\<close>\<close>

fun display_packet_error :: "packet_error \<Rightarrow> string" where
  "display_packet_error BufferTooSmall = ''Buffer is too small''"
| "display_packet_error IncompletePacket = ''Packet is incomplete''"
| "display_packet_error MalformedPacket = ''Packet structure is malformed''"
| "display_packet_error (InvalidPacketType t) = ''Invalid MQTT packet type: '' @ decimal (unat t)"
| "display_packet_error InvalidUtf8String = ''Invalid UTF-8 string''"
| "display_packet_error TooManyProperties = ''Too many MQTT v5 properties''"
| "display_packet_error BatchCapacityExceeded = ''Batch or array capacity exceeded''"
| "display_packet_error PayloadTooLarge = ''Payload exceeds maximum allowed length''"
| "display_packet_error UnsupportedQoS = ''Unsupported QoS level''"

fun display_mem_storage_error :: "mem_storage_error \<Rightarrow> string" where
  "display_mem_storage_error KeyNotFound = ''Key not found in memory store''"
| "display_mem_storage_error CapacityFull = ''Memory store capacity is full''"
| "display_mem_storage_error MemBufferTooSmall = ''Provided read buffer is too small''"

subsection \<open>\<open>mqtt-core\<close>\<close>

fun display_core_protocol_error :: "core_protocol_error \<Rightarrow> string" where
  "display_core_protocol_error (CP_InvalidPacketType t) = ''Invalid packet type byte: 0x'' @ hex2 t"
| "display_core_protocol_error CP_InvalidResponse = ''Invalid broker response packet''"
| "display_core_protocol_error CP_MalformedPacket = ''Malformed or truncated packet''"
| "display_core_protocol_error CP_IncompletePacket = ''Incomplete packet frame received''"
| "display_core_protocol_error CP_PayloadTooLarge = ''Payload exceeds maximum allowed length''"
| "display_core_protocol_error CP_InvalidUtf8String = ''Invalid UTF-8 string in packet''"
| "display_core_protocol_error CP_TooManyProperties = ''Number of MQTT 5.0 properties exceeded capacity''"
| "display_core_protocol_error CP_InvalidTopic = ''Topic contains invalid characters or wildcards''"
| "display_core_protocol_error CP_UnsupportedQoS = ''Requested QoS level is not supported''"
| "display_core_protocol_error CP_StateMismatch = ''Action invalid in current connection state''"
| "display_core_protocol_error CP_UnexpectedPacket = ''Received unexpected packet for current state''"

fun display_codec_error :: "codec_error \<Rightarrow> string" where
  "display_codec_error CC_BufferTooSmall = ''Buffer is too small for packet''"
| "display_codec_error CC_IncompletePacket = ''Incomplete packet data''"
| "display_codec_error CC_MalformedPacket = ''Malformed packet structure''"
| "display_codec_error (CC_InvalidPacketType t) = ''Invalid packet type 0x'' @ hex2 t"
| "display_codec_error CC_InvalidUtf8String = ''Invalid UTF-8 string''"
| "display_codec_error CC_TooManyProperties = ''Too many MQTT 5 properties''"
| "display_codec_error CC_BatchCapacityExceeded = ''Batch capacity exceeded''"
| "display_codec_error CC_PayloadTooLarge = ''Payload too large''"
| "display_codec_error CC_UnsupportedQoS = ''Unsupported QoS level''"

fun display_storage_error_kind :: "storage_error_kind \<Rightarrow> string" where
  "display_storage_error_kind StorageNotFound = ''Storage key not found''"
| "display_storage_error_kind StorageCorrupted = ''Storage data corrupted''"
| "display_storage_error_kind StorageFull = ''Storage capacity full''"
| "display_storage_error_kind StorageIoFailure = ''Storage I/O failure''"

fun display_crypto_error_kind :: "crypto_error_kind \<Rightarrow> string" where
  "display_crypto_error_kind HandshakeFailed = ''TLS handshake failed''"
| "display_crypto_error_kind CertificateInvalid = ''Certificate validation failed''"
| "display_crypto_error_kind EncryptionError = ''Encryption operation error''"
| "display_crypto_error_kind DecryptionError = ''Decryption operation error''"
| "display_crypto_error_kind HardwareFault = ''Hardware crypto engine fault''"
| "display_crypto_error_kind UnsupportedAlgorithm = ''Unsupported cryptographic algorithm''"

fun display_core_mqtt_error :: "('e \<Rightarrow> string) \<Rightarrow> 'e core_mqtt_error \<Rightarrow> string" where
  "display_core_mqtt_error fmt (CoreTransport e) = ''Transport error: '' @ fmt e"
| "display_core_mqtt_error fmt (CoreProtocol p) = ''Protocol error: '' @ display_core_protocol_error p"
| "display_core_mqtt_error fmt (CoreCodec c) = ''Codec error: '' @ display_codec_error c"
| "display_core_mqtt_error fmt (CoreStorage s) = ''Storage error: '' @ display_storage_error_kind s"
| "display_core_mqtt_error fmt (CoreCrypto cr) = ''Crypto error: '' @ display_crypto_error_kind cr"
| "display_core_mqtt_error fmt (CoreConnectionRefused r) = ''Connection refused: '' @ display_reason_code r"
| "display_core_mqtt_error fmt CoreNotConnected = ''Client is not connected''"
| "display_core_mqtt_error fmt CoreBufferTooSmall = ''Buffer is too small for operation''"
| "display_core_mqtt_error fmt CoreTimeout = ''Operation timed out''"
| "display_core_mqtt_error fmt CoreBatchCapacityExceeded = ''Batch message capacity exceeded''"
| "display_core_mqtt_error fmt CoreInflightQueueFull = ''Inflight queue is full''"
| "display_core_mqtt_error fmt (CoreCollisionDetected i) = ''Packet ID collision detected for ID '' @ decimal (unat i)"

fun core_error_source :: "'e core_mqtt_error \<Rightarrow> 'e option" where
  "core_error_source (CoreTransport e) = Some e"
| "core_error_source _ = None"

subsection \<open>\<open>mqtt-embedded\<close>\<close>

fun display_connect_reason_code :: "connect_reason_code \<Rightarrow> string" where
  "display_connect_reason_code RC_Success = ''Success''"
| "display_connect_reason_code RC_UnacceptableProtocolVersion = ''Unacceptable Protocol Version''"
| "display_connect_reason_code RC_IdentifierRejected = ''Identifier Rejected''"
| "display_connect_reason_code RC_ServerUnavailable = ''Server Unavailable''"
| "display_connect_reason_code RC_BadUserNameOrPassword = ''Bad Username or Password''"
| "display_connect_reason_code RC_NotAuthorized = ''Not Authorized''"
| "display_connect_reason_code (RC_Other code) = ''Other reason code ('' @ decimal (unat code) @ '')''"

fun display_protocol_error :: "protocol_error \<Rightarrow> string" where
  "display_protocol_error (P_InvalidPacketType t) = ''Invalid packet type byte: 0x'' @ hex2 t"
| "display_protocol_error InvalidResponse = ''Invalid broker response packet''"
| "display_protocol_error P_MalformedPacket = ''Malformed or truncated packet''"
| "display_protocol_error P_IncompletePacket = ''Incomplete packet frame received''"
| "display_protocol_error P_PayloadTooLarge = ''Payload exceeds maximum allowed length''"
| "display_protocol_error P_InvalidUtf8String = ''Invalid UTF-8 string in packet''"
| "display_protocol_error P_TooManyProperties = ''Number of MQTT 5.0 properties exceeded capacity''"
| "display_protocol_error InvalidTopic = ''Topic contains invalid characters or wildcards''"
| "display_protocol_error P_UnsupportedQoS = ''Requested QoS level is not supported''"

fun display_quic_error_kind :: "quic_error_kind \<Rightarrow> string" where
  "display_quic_error_kind StreamClosed = ''QUIC stream closed''"
| "display_quic_error_kind (StreamReset code) = ''QUIC stream reset (code '' @ decimal (unat code) @ '')''"
| "display_quic_error_kind ConnectionLost = ''QUIC connection lost''"
| "display_quic_error_kind DatagramTooLarge = ''QUIC datagram exceeds MTU size''"
| "display_quic_error_kind UnsupportedOperation = ''QUIC operation not supported''"

fun display_mqtt_error :: "('t \<Rightarrow> string) \<Rightarrow> 't mqtt_error \<Rightarrow> string" where
  "display_mqtt_error fmt (Transport t) = ''Transport I/O error: '' @ fmt t"
| "display_mqtt_error fmt (Protocol p) = ''Protocol violation: '' @ display_protocol_error p"
| "display_mqtt_error fmt (ConnectionRefused c) = ''Connection refused: '' @ display_connect_reason_code c"
| "display_mqtt_error fmt NotConnected = ''Client is not connected''"
| "display_mqtt_error fmt ME_BufferTooSmall = ''Buffer is too small for operation''"
| "display_mqtt_error fmt Timeout = ''Network/keep-alive operation timed out''"
| "display_mqtt_error fmt ME_BatchCapacityExceeded = ''Batch message capacity exceeded''"
| "display_mqtt_error fmt InflightQueueFull = ''Inflight queue is full''"
| "display_mqtt_error fmt (QuicError q) = ''QUIC error: '' @ display_quic_error_kind q"

fun mqtt_error_source :: "'t mqtt_error \<Rightarrow> 't option" where
  "mqtt_error_source (Transport t) = Some t"
| "mqtt_error_source _ = None"

end
