(* ===== verification/Tokio_Types.thy ===== *)
theory Tokio_Types
  imports Error_Texts Utf8
begin

text \<open>
  \<open>mqtt-tokio/src/types.rs\<close>: the owned message, the connection status, the client's error
  type and the recovery policy. \<open>std::io::Error\<close> is the type parameter \<open>'io\<close>; the debug text
  of a protocol error and the text of an I/O error are arguments of the \<open>Display\<close> function.
\<close>

record tokio_message =
  tm_topic :: str
  tm_payload :: bytes
  tm_qos :: qos
  tm_retain :: bool
  tm_dup :: bool
  tm_packet_id :: "u16 option"
  tm_user_properties :: "(str \<times> str) list"

definition tokio_message_new :: "str \<Rightarrow> bytes \<Rightarrow> tokio_message" where
  "tokio_message_new topic payload =
     \<lparr>tm_topic = topic, tm_payload = payload, tm_qos = AtMostOnce, tm_retain = False, tm_dup = False,
      tm_packet_id = None, tm_user_properties = []\<rparr>"

definition tm_with_qos :: "qos \<Rightarrow> tokio_message \<Rightarrow> tokio_message" where
  "tm_with_qos q msg = msg\<lparr>tm_qos := q\<rparr>"

definition tm_with_retain :: "bool \<Rightarrow> tokio_message \<Rightarrow> tokio_message" where
  "tm_with_retain retain msg = msg\<lparr>tm_retain := retain\<rparr>"

definition tm_with_dup :: "bool \<Rightarrow> tokio_message \<Rightarrow> tokio_message" where
  "tm_with_dup dup msg = msg\<lparr>tm_dup := dup\<rparr>"

definition tm_with_user_property :: "str \<Rightarrow> str \<Rightarrow> tokio_message \<Rightarrow> tokio_message" where
  "tm_with_user_property key value msg = msg\<lparr>tm_user_properties := tm_user_properties msg @ [(key, value)]\<rparr>"

definition tm_payload_as_str :: "tokio_message \<Rightarrow> (unit, str) outcome" where
  "tm_payload_as_str msg = from_utf8 () (tm_payload msg)"

record data_recovery_policy =
  rp_resend_unacked_inflight :: bool
  rp_auto_resubscribe :: bool
  rp_max_inflight :: nat

definition data_recovery_policy_default :: data_recovery_policy where
  "data_recovery_policy_default =
     \<lparr>rp_resend_unacked_inflight = True, rp_auto_resubscribe = True, rp_max_inflight = 256\<rparr>"

text \<open>Durations are in nanoseconds.\<close>

datatype connection_status =
    StatusDisconnected
  | StatusConnecting
  | StatusConnected
  | StatusReconnecting nat nat
  | StatusStopped

text \<open>\<open>dur\<close> is the text of a duration under \<open>{:.2?}\<close>.\<close>

fun display_connection_status :: "(nat \<Rightarrow> string) \<Rightarrow> connection_status \<Rightarrow> string" where
  "display_connection_status dur StatusDisconnected = ''Disconnected''"
| "display_connection_status dur StatusConnecting = ''Connecting''"
| "display_connection_status dur StatusConnected = ''Connected''"
| "display_connection_status dur (StatusReconnecting attempt next_retry) =
     ''Reconnecting (attempt '' @ decimal attempt @ '', retry in '' @ dur next_retry @ '')''"
| "display_connection_status dur StatusStopped = ''Stopped''"

datatype 'io client_error =
    CE_Io 'io
  | CE_Protocol protocol_error
  | CE_ConnectionRefused byte
  | CE_InvalidTopic str
  | CE_QueueFull
  | CE_NotConnected
  | CE_ClientClosed
  | CE_Timeout
  | CE_Tls str
  | CE_Quic str
  | CE_Cancelled

definition client_error_from_io :: "'io \<Rightarrow> 'io client_error" where
  "client_error_from_io e = CE_Io e"

definition client_error_from_protocol :: "protocol_error \<Rightarrow> 'io client_error" where
  "client_error_from_protocol p = CE_Protocol p"

fun display_client_error :: "('io \<Rightarrow> str) \<Rightarrow> (protocol_error \<Rightarrow> str) \<Rightarrow> 'io client_error \<Rightarrow> str" where
  "display_client_error io dbg (CE_Io e) = text_of ''I/O error: '' @ io e"
| "display_client_error io dbg (CE_Protocol p) = text_of ''Protocol error: '' @ dbg p"
| "display_client_error io dbg (CE_ConnectionRefused code) =
     text_of (''Connection refused with reason '' @ decimal (unat code))"
| "display_client_error io dbg (CE_InvalidTopic t) =
     text_of ''Invalid topic filter: '' @ [0x27] @ t @ [0x27]"
| "display_client_error io dbg CE_QueueFull = text_of ''Client request queue is full''"
| "display_client_error io dbg CE_NotConnected = text_of ''Client is not connected''"
| "display_client_error io dbg CE_ClientClosed = text_of ''Client is closed''"
| "display_client_error io dbg CE_Timeout = text_of ''Operation timed out''"
| "display_client_error io dbg (CE_Tls msg) = text_of ''TLS error: '' @ msg"
| "display_client_error io dbg (CE_Quic msg) = text_of ''QUIC error: '' @ msg"
| "display_client_error io dbg CE_Cancelled = text_of ''Operation cancelled''"

fun client_error_source :: "'io client_error \<Rightarrow> 'io option" where
  "client_error_source (CE_Io e) = Some e"
| "client_error_source _ = None"

end
