(* ===== verification/Router.thy ===== *)
theory Router
  imports Tokio_Types "HOL-Library.AList"
begin

text \<open>
  \<open>mqtt-tokio/src/router.rs\<close>: topic validation and the trie of subscriptions. A node's
  \<open>HashMap\<close> of children is an association list. The senders are \<open>tokio\<close> channels: \<open>is_closed\<close>
  and \<open>try_send\<close> act on a state \<open>'w\<close> of the channels, under the contract \<open>channels\<close>.
\<close>

subsection \<open>Levels and validation\<close>

text \<open>\<open>s.split('/')\<close>\<close>

fun split_on :: "'a \<Rightarrow> 'a list \<Rightarrow> 'a list list" where
  "split_on c [] = [[]]"
| "split_on c (x # xs) =
     (if x = c then [] # split_on c xs
      else case split_on c xs of [] \<Rightarrow> [[x]] | y # ys \<Rightarrow> (x # y) # ys)"

abbreviation slash :: byte where "slash \<equiv> 0x2F"
abbreviation hash_level :: str where "hash_level \<equiv> [0x23]"
abbreviation plus_level :: str where "plus_level \<equiv> [0x2B]"

definition levels_of :: "str \<Rightarrow> str list" where
  "levels_of s = split_on slash s"

text \<open>The loop over the levels; \<open>level\<close> is the last one when no others follow.\<close>

fun validate_levels :: "str list \<Rightarrow> ('io client_error, unit) outcome" where
  "validate_levels [] = Ok ()"
| "validate_levels (level # rest) =
     (if level = hash_level then
        (if rest \<noteq> [] then
           Err (CE_InvalidTopic (text_of ''Multi-level wildcard '' @ [0x27] @ text_of ''#'' @ [0x27] @
             text_of '' must be the last token in topic filter''))
         else validate_levels rest)
      else if 0x23 \<in> set level then
        Err (CE_InvalidTopic (text_of ''Invalid multi-level wildcard placement''))
      else if 0x2B \<in> set level \<and> level \<noteq> plus_level then
        Err (CE_InvalidTopic (text_of ''Single-level wildcard '' @ [0x27] @ text_of ''+'' @ [0x27] @
          text_of '' must occupy an entire level''))
      else validate_levels rest)"

definition validate_topic_filter :: "str \<Rightarrow> ('io client_error, unit) outcome" where
  "validate_topic_filter f =
     (if f = [] then Err (CE_InvalidTopic (text_of ''Topic filter cannot be empty''))
      else if 0 \<in> set f then
        Err (CE_InvalidTopic (text_of ''Topic filter cannot contain null characters''))
      else validate_levels (levels_of f))"

definition validate_publish_topic :: "str \<Rightarrow> ('io client_error, unit) outcome" where
  "validate_publish_topic topic =
     (if topic = [] then Err (CE_InvalidTopic (text_of ''Publish topic cannot be empty''))
      else if 0 \<in> set topic then
        Err (CE_InvalidTopic (text_of ''Publish topic cannot contain null characters''))
      else if 0x2B \<in> set topic \<or> 0x23 \<in> set topic then
        Err (CE_InvalidTopic (text_of ''Publish topic cannot contain wildcards ('' @ [0x27] @ text_of ''+'' @
          [0x27] @ text_of '' or '' @ [0x27] @ text_of ''#'' @ [0x27] @ text_of '')''))
      else Ok ())"

subsection \<open>The trie\<close>

datatype 'c trie_node = TrieNode
  (exact_children: "(str \<times> 'c trie_node) list")
  (plus_child: "'c trie_node option")
  (hash_subscribers: "'c list")
  (exact_subscribers: "'c list")

definition trie_default :: "'c trie_node" where
  "trie_default = TrieNode [] None [] []"

fun trie_is_empty :: "'c trie_node \<Rightarrow> bool" where
  "trie_is_empty (TrieNode cs p hs es) \<longleftrightarrow> cs = [] \<and> p = None \<and> hs = [] \<and> es = []"

definition or_default :: "'c trie_node option \<Rightarrow> 'c trie_node" where
  "or_default n = (case n of Some c \<Rightarrow> c | None \<Rightarrow> trie_default)"

text \<open>The loop of \<open>insert\<close> from the node \<open>curr\<close> on; after the last level the sender is pushed there.\<close>

fun trie_insert :: "str list \<Rightarrow> 'c \<Rightarrow> 'c trie_node \<Rightarrow> 'c trie_node" where
  "trie_insert [] sender (TrieNode cs p hs es) = TrieNode cs p hs (es @ [sender])"
| "trie_insert (level # rest) sender (TrieNode cs p hs es) =
     (if level = hash_level then TrieNode cs p (hs @ [sender]) es
      else if level = plus_level then
        TrieNode cs (Some (trie_insert rest sender (or_default p))) hs es
      else TrieNode (AList.update level (trie_insert rest sender (or_default (map_of cs level))) cs) p hs es)"

text \<open>\<open>remove_recursive\<close> returns whether the node has become empty.\<close>

fun trie_remove :: "str list \<Rightarrow> 'c trie_node \<Rightarrow> bool \<times> 'c trie_node" where
  "trie_remove [] (TrieNode cs p hs es) =
     (let node = TrieNode cs p hs [] in (trie_is_empty node, node))"
| "trie_remove (level # rest) (TrieNode cs p hs es) =
     (let node =
        (if level = hash_level then TrieNode cs p [] es
         else if level = plus_level then
           (case p of
              Some pl \<Rightarrow> (case trie_remove rest pl of
                  (True, _) \<Rightarrow> TrieNode cs None hs es
                | (False, pl') \<Rightarrow> TrieNode cs (Some pl') hs es)
            | None \<Rightarrow> TrieNode cs p hs es)
         else
           (case map_of cs level of
              Some child \<Rightarrow> (case trie_remove rest child of
                  (True, _) \<Rightarrow> TrieNode (AList.delete level cs) p hs es
                | (False, child') \<Rightarrow> TrieNode (AList.update level child' cs) p hs es)
            | None \<Rightarrow> TrieNode cs p hs es))
      in (trie_is_empty node, node))"

record ('w, 'c) channel_ops =
  ch_is_closed :: "'w \<Rightarrow> 'c \<Rightarrow> bool"
  ch_try_send :: "'c \<Rightarrow> tokio_message \<Rightarrow> 'w \<Rightarrow> 'w"

text \<open>\<open>subscribers.retain(|sender| \<dots>)\<close>\<close>

fun retain_send :: "('w, 'c) channel_ops \<Rightarrow> tokio_message \<Rightarrow> 'c list \<Rightarrow> 'w \<Rightarrow> 'c list \<times> 'w" where
  "retain_send ops msg [] w = ([], w)"
| "retain_send ops msg (sender # senders) w =
     (if ch_is_closed ops w sender then retain_send ops msg senders w
      else case retain_send ops msg senders (ch_try_send ops sender msg w) of
        (kept, w') \<Rightarrow> (sender # kept, w'))"

fun match_and_dispatch ::
  "('w, 'c) channel_ops \<Rightarrow> tokio_message \<Rightarrow> str list \<Rightarrow> 'c trie_node \<Rightarrow> 'w \<Rightarrow> 'c trie_node \<times> 'w" where
  "match_and_dispatch ops msg [] (TrieNode cs p hs es) w =
     (case retain_send ops msg hs w of
        (hs', w1) \<Rightarrow> (case retain_send ops msg es w1 of (es', w2) \<Rightarrow> (TrieNode cs p hs' es', w2)))"
| "match_and_dispatch ops msg (level # rest) (TrieNode cs p hs es) w =
     (case retain_send ops msg hs w of
        (hs', w1) \<Rightarrow>
          (case (case map_of cs level of
                   Some child \<Rightarrow> (case match_and_dispatch ops msg rest child w1 of
                       (child', w2) \<Rightarrow> (AList.update level child' cs, w2))
                 | None \<Rightarrow> (cs, w1)) of
             (cs', w2) \<Rightarrow>
               (case (case p of
                        Some pl \<Rightarrow> (case match_and_dispatch ops msg rest pl w2 of
                            (pl', w3) \<Rightarrow> (Some pl', w3))
                      | None \<Rightarrow> (None, w2)) of
                  (p', w3) \<Rightarrow> (TrieNode cs' p' hs' es, w3))))"

record 'c topic_router =
  tr_root :: "'c trie_node"

definition router_new :: "'c topic_router" where
  "router_new = \<lparr>tr_root = trie_default\<rparr>"

definition router_insert ::
  "str \<Rightarrow> 'c \<Rightarrow> 'c topic_router \<Rightarrow> ('io client_error, unit) outcome \<times> 'c topic_router" where
  "router_insert f sender r =
     (case validate_topic_filter f of
        Ok _ \<Rightarrow> (Ok (), r\<lparr>tr_root := trie_insert (levels_of f) sender (tr_root r)\<rparr>)
      | Err e \<Rightarrow> (Err e, r)
      | Panic \<Rightarrow> (Panic, r))"

definition router_remove :: "str \<Rightarrow> 'c topic_router \<Rightarrow> ('io client_error, unit) outcome \<times> 'c topic_router" where
  "router_remove f r =
     (case validate_topic_filter f of
        Ok _ \<Rightarrow> (Ok (), r\<lparr>tr_root := snd (trie_remove (levels_of f) (tr_root r))\<rparr>)
      | Err e \<Rightarrow> (Err e, r)
      | Panic \<Rightarrow> (Panic, r))"

definition router_dispatch ::
  "('w, 'c) channel_ops \<Rightarrow> tokio_message \<Rightarrow> 'c topic_router \<Rightarrow> 'w \<Rightarrow> 'c topic_router \<times> 'w" where
  "router_dispatch ops msg r w =
     (case match_and_dispatch ops msg (levels_of (tm_topic msg)) (tr_root r) w of
        (root, w') \<Rightarrow> (r\<lparr>tr_root := root\<rparr>, w'))"

end
