(* ===== verification/Router_Facts.thy ===== *)
theory Router_Facts
  imports Router
begin

text \<open>
  The router as a map from filters to lists of subscribers: \<open>subs_at\<close> is the abstraction,
  insertion and removal are updates of that map, and a dispatch delivers along the filters
  \<open>filters_for\<close>, which are the ones that match the topic.
\<close>

subsection \<open>Levels\<close>

lemma split_on_not_Nil [simp]: "split_on c xs \<noteq> []"
  by (induction xs) (auto split: list.splits)

fun join_with :: "'a \<Rightarrow> 'a list list \<Rightarrow> 'a list" where
  "join_with c [] = []"
| "join_with c [x] = x"
| "join_with c (x # y # ys) = x @ c # join_with c (y # ys)"

lemma join_with_Cons: "ys \<noteq> [] \<Longrightarrow> join_with c (x # ys) = x @ c # join_with c ys"
  by (cases ys) simp_all

lemma join_split: "join_with c (split_on c xs) = xs"
proof (induction xs)
  case (Cons x xs)
  obtain y ys where s: "split_on c xs = y # ys" by (cases "split_on c xs") simp_all
  with Cons show ?case by (cases ys) (simp_all add: join_with_Cons)
qed simp

lemma levels_of_inject [simp]: "levels_of a = levels_of b \<longleftrightarrow> a = b"
  using join_split unfolding levels_of_def by metis

lemma levels_of_not_Nil [simp]: "levels_of s \<noteq> []"
  by (simp add: levels_of_def)

lemma split_on_elems: "l \<in> set (split_on c xs) \<Longrightarrow> set l \<subseteq> set xs"
proof (induction xs arbitrary: l)
  case (Cons x xs)
  obtain y ys where s: "split_on c xs = y # ys" by (cases "split_on c xs") simp_all
  with Cons.IH have "set y \<subseteq> set xs" "\<forall>l \<in> set ys. set l \<subseteq> set xs" by auto
  with Cons.prems s show ?case by (auto split: if_splits)
qed simp

definition clean_level :: "str \<Rightarrow> bool" where
  "clean_level l \<longleftrightarrow> l \<noteq> hash_level \<and> l \<noteq> plus_level"

lemma publish_topic_clean:
  "validate_publish_topic t = (Ok () :: ('io client_error, unit) outcome) \<Longrightarrow> l \<in> set (levels_of t) \<Longrightarrow> clean_level l"
  using split_on_elems [of l slash t]
  by (auto simp: validate_publish_topic_def levels_of_def clean_level_def split: if_splits)

text \<open>A filter's levels: the multi-level wildcard only at the end.\<close>

definition good_levels :: "str list \<Rightarrow> bool" where
  "good_levels ls \<longleftrightarrow> hash_level \<notin> set (butlast ls)"

lemma good_levels_simps [simp]:
  "good_levels []" "good_levels (l # ls) \<longleftrightarrow> (l = hash_level \<longrightarrow> ls = []) \<and> good_levels ls"
  by (auto simp: good_levels_def)

lemma validate_levels_Ok:
  "validate_levels ls = Ok () \<longleftrightarrow>
     good_levels ls \<and> (\<forall>l \<in> set ls. (0x23 \<in> set l \<longrightarrow> l = hash_level) \<and> (0x2B \<in> set l \<longrightarrow> l = plus_level))"
  by (induction ls rule: validate_levels.induct) auto

lemma validate_levels_not_Panic: "validate_levels ls \<noteq> Panic"
  by (induction ls rule: validate_levels.induct) auto

lemma validate_topic_filter_not_Panic: "validate_topic_filter f \<noteq> Panic"
  by (simp add: validate_topic_filter_def validate_levels_not_Panic)

definition valid_filter :: "str \<Rightarrow> bool" where
  "valid_filter f \<longleftrightarrow> validate_topic_filter f = (Ok () :: (unit client_error, unit) outcome)"

lemma valid_filter_iff: "validate_topic_filter f = Ok () \<longleftrightarrow> valid_filter f"
  by (simp add: valid_filter_def validate_topic_filter_def validate_levels_Ok)

lemma valid_filter_good: "valid_filter f \<Longrightarrow> good_levels (levels_of f)"
  by (simp add: valid_filter_def validate_topic_filter_def validate_levels_Ok split: if_splits)

lemma validate_cases:
  obtains "valid_filter f" "validate_topic_filter f = (Ok () :: ('io client_error, unit) outcome)"
  | e where "\<not> valid_filter f" "validate_topic_filter f = (Err e :: ('io client_error, unit) outcome)"
proof (cases "validate_topic_filter f :: ('io client_error, unit) outcome")
  case (Ok u)
  then have ok: "validate_topic_filter f = (Ok () :: ('io client_error, unit) outcome)" by simp
  from iffD1 [OF valid_filter_iff ok] ok show ?thesis by (rule that(1))
next
  case (Err e)
  have "\<not> valid_filter f"
  proof
    assume "valid_filter f"
    then have "validate_topic_filter f = (Ok () :: ('io client_error, unit) outcome)"
      by (rule valid_filter_iff [THEN iffD2])
    with Err show False by simp
  qed
  with Err that(2) show ?thesis by blast
qed (simp add: validate_topic_filter_not_Panic)

subsection \<open>Subscribers of a filter\<close>

fun subs_at :: "str list \<Rightarrow> 'c trie_node \<Rightarrow> 'c list" where
  "subs_at [] (TrieNode cs p hs es) = es"
| "subs_at (l # ls) (TrieNode cs p hs es) =
     (if l = hash_level then (if ls = [] then hs else [])
      else if l = plus_level then (case p of Some c \<Rightarrow> subs_at ls c | None \<Rightarrow> [])
      else (case map_of cs l of Some c \<Rightarrow> subs_at ls c | None \<Rightarrow> []))"

lemma subs_at_empty: "trie_is_empty n \<Longrightarrow> subs_at f n = []"
  by (cases n; cases f) auto

lemma subs_at_default [simp]: "subs_at f trie_default = []"
  by (rule subs_at_empty) (simp add: trie_default_def)

lemma subs_at_or_default: "subs_at f (or_default n) = (case n of Some c \<Rightarrow> subs_at f c | None \<Rightarrow> [])"
  by (simp add: or_default_def split: option.split)

lemma subs_at_insert:
  "good_levels ls \<Longrightarrow> subs_at f (trie_insert ls s n) = (if f = ls then subs_at f n @ [s] else subs_at f n)"
proof (induction ls s n arbitrary: f rule: trie_insert.induct)
  case (1 s cs p hs es)
  then show ?case by (cases f) auto
next
  case (2 l ls s cs p hs es)
  then show ?case
    by (cases f) (auto simp: update_conv' subs_at_or_default split: option.splits)
qed

lemma trie_remove_empty: "fst (trie_remove ls n) = trie_is_empty (snd (trie_remove ls n))"
  by (cases ls; cases n) (simp_all add: Let_def)

lemma trie_remove_cases:
  "trie_remove ls n = (b, n') \<Longrightarrow> b = trie_is_empty n'"
  using trie_remove_empty [of ls n] by simp

lemma subs_at_remove:
  "good_levels ls \<Longrightarrow> subs_at f (snd (trie_remove ls n)) = (if f = ls then [] else subs_at f n)"
proof (induction ls n arbitrary: f rule: trie_remove.induct)
  case (1 cs p hs es)
  then show ?case by (cases f) (auto simp: Let_def)
next
  case (2 l ls cs p hs es)
  note gone = trie_remove_cases [of ls _ True] subs_at_empty
  show ?case
  proof (cases "l = hash_level")
    case True
    with 2 show ?thesis by (cases f) (auto simp: Let_def)
  next
    case nh: False
    show ?thesis
    proof (cases "l = plus_level")
      case True
      show ?thesis
      proof (cases p)
        case (Some c)
        obtain b c' where r: "trie_remove ls c = (b, c')" by fastforce
        with 2(1) [OF nh True Some, of "tl f"] 2(3)
        have ih: "subs_at (tl f) c' = (if tl f = ls then [] else subs_at (tl f) c)" by simp
        show ?thesis
          using True Some r ih trie_remove_cases [OF r] subs_at_empty [of c' "tl f"]
          by (cases f; cases b) (auto simp: Let_def)
      qed (use True in \<open>cases f; auto simp: Let_def\<close>)
    next
      case np: False
      show ?thesis
      proof (cases "map_of cs l")
        case (Some c)
        obtain b c' where r: "trie_remove ls c = (b, c')" by fastforce
        with 2(2) [OF nh np Some, of "tl f"] 2(3)
        have ih: "subs_at (tl f) c' = (if tl f = ls then [] else subs_at (tl f) c)" by simp
        show ?thesis
          using nh np Some r ih trie_remove_cases [OF r] subs_at_empty [of c' "tl f"]
          by (cases f; cases b) (auto simp: Let_def update_conv' delete_conv')
      qed (use nh np in \<open>cases f; auto simp: Let_def\<close>)
    qed
  qed
qed

subsection \<open>Matching\<close>

text \<open>Matching level by level: \<open>+\<close> stands for one level, and a last \<open>#\<close> for any number of them, the parent
  included. The MQTT specification also keeps filters that start with a wildcard from matching topics that start
  with \<open>$\<close>; the router knows no such exception, and neither does this relation.\<close>

fun topic_matches :: "str list \<Rightarrow> str list \<Rightarrow> bool" where
  "topic_matches [] ts \<longleftrightarrow> ts = []"
| "topic_matches (f # fs) ts \<longleftrightarrow>
     (f = hash_level \<and> fs = []) \<or>
     (case ts of [] \<Rightarrow> False | t # ts' \<Rightarrow> (f = plus_level \<or> f = t) \<and> topic_matches fs ts')"

text \<open>The filters that match a topic, in the order in which a dispatch visits them.\<close>

fun filters_for :: "str list \<Rightarrow> str list list" where
  "filters_for [] = [[hash_level], []]"
| "filters_for (t # ts) = [hash_level] # map ((#) t) (filters_for ts) @ map ((#) plus_level) (filters_for ts)"

lemma filters_for_matches:
  "\<forall>t \<in> set ts. clean_level t \<Longrightarrow> f \<in> set (filters_for ts) \<longleftrightarrow> topic_matches f ts"
proof (induction ts arbitrary: f)
  case Nil
  show ?case by (cases f) auto
next
  case (Cons t ts)
  then have ih: "g \<in> set (filters_for ts) \<longleftrightarrow> topic_matches g ts" for g by simp
  show ?case
  proof (cases f)
    case (Cons l g)
    with Cons.prems ih [of g] show ?thesis by (auto simp: clean_level_def)
  qed (simp add: image_iff)
qed

lemma filters_for_distinct: "\<forall>t \<in> set ts. clean_level t \<Longrightarrow> distinct (filters_for ts)"
proof (induction ts)
  case (Cons t ts)
  then have d: "distinct (filters_for ts)" and t: "t \<noteq> hash_level" "t \<noteq> plus_level"
    by (simp_all add: clean_level_def)
  have m: "distinct (map ((#) x) (filters_for ts))" for x using d by (simp add: distinct_map)
  have "plus_level \<noteq> hash_level" by simp
  with t m show ?case unfolding filters_for.simps by (auto simp del: list.inject)
qed simp

definition deliver :: "('w, 'c) channel_ops \<Rightarrow> tokio_message \<Rightarrow> 'c \<Rightarrow> 'w \<Rightarrow> 'w" where
  "deliver ops msg s w = (if ch_is_closed ops w s then w else ch_try_send ops s msg w)"

lemma retain_send_world: "snd (retain_send ops msg ss w) = fold (deliver ops msg) ss w"
proof (induction ss arbitrary: w)
  case (Cons s ss)
  obtain k w' where r: "retain_send ops msg ss (ch_try_send ops s msg w) = (k, w')" by fastforce
  with Cons.IH [of "ch_try_send ops s msg w"] have "fold (deliver ops msg) ss (ch_try_send ops s msg w) = w'"
    by simp
  with r Cons.IH [of w] show ?case by (simp add: deliver_def [of _ _ s])
qed simp

lemma concat_map_Nil [simp]: "concat (map (\<lambda>x. []) xs) = []"
  by (induction xs) simp_all

lemma dispatch_world:
  "\<forall>t \<in> set ts. clean_level t \<Longrightarrow>
   snd (match_and_dispatch ops msg ts n w) =
     fold (deliver ops msg) (concat (map (\<lambda>f. subs_at f n) (filters_for ts))) w"
proof (induction ops msg ts n w rule: match_and_dispatch.induct)
  case (1 ops msg cs p hs es w)
  show ?case by (auto simp flip: retain_send_world split: prod.splits)
next
  case (2 ops msg l ls cs p hs es w)
  obtain hs' w1 where h: "retain_send ops msg hs w = (hs', w1)" by fastforce
  then have w1: "fold (deliver ops msg) hs w = w1" using retain_send_world [of ops msg hs w] by simp
  have clean: "l \<noteq> hash_level" "l \<noteq> plus_level" "\<forall>t \<in> set ls. clean_level t"
    using 2(3) by (simp_all add: clean_level_def)
  let ?c = "case map_of cs l of Some child \<Rightarrow> (case match_and_dispatch ops msg ls child w1 of
      (child', w2) \<Rightarrow> (AList.update l child' cs, w2)) | None \<Rightarrow> (cs, w1)"
  obtain cs' w2 where c: "?c = (cs', w2)" by fastforce
  have w2: "fold (deliver ops msg) (concat (map (\<lambda>f. subs_at (l # f) (TrieNode cs p hs es)) (filters_for ls))) w1 = w2"
  proof (cases "map_of cs l")
    case (Some child)
    with 2(1) [OF h [symmetric] Some clean(3)] c clean show ?thesis
      by (simp split: prod.splits)
  qed (use c clean in simp)
  let ?p = "case p of Some pl \<Rightarrow> (case match_and_dispatch ops msg ls pl w2 of (pl', w3) \<Rightarrow> (Some pl', w3))
      | None \<Rightarrow> (None, w2)"
  obtain p' w3 where p: "?p = (p', w3)" by fastforce
  have w3: "fold (deliver ops msg) (concat (map (\<lambda>f. subs_at (plus_level # f) (TrieNode cs p hs es)) (filters_for ls))) w2 = w3"
  proof (cases p)
    case (Some pl)
    with 2(2) [OF h [symmetric] c [symmetric] Some clean(3)] p show ?thesis
      by (simp split: prod.splits)
  qed (use p in simp)
  have "snd (match_and_dispatch ops msg (l # ls) (TrieNode cs p hs es) w) = w3"
    using h c p by simp
  moreover have "fold (deliver ops msg) (concat (map (\<lambda>f. subs_at f (TrieNode cs p hs es)) (filters_for (l # ls)))) w = w3"
    using w2 w3 unfolding filters_for.simps by (simp only: list.map map_append map_map concat.simps concat_append
      fold_append comp_def w1 subs_at.simps if_True simp_thms list.distinct refl)
  ultimately show ?case by simp
qed

subsection \<open>Closed channels\<close>

locale channels =
  fixes ops :: "('w, 'c) channel_ops"
  assumes closed_stable: "ch_is_closed ops (ch_try_send ops c msg w) d = ch_is_closed ops w d"
begin

lemma deliver_closed [simp]: "ch_is_closed ops (fold (deliver ops msg) ss w) d = ch_is_closed ops w d"
  by (induction ss arbitrary: w) (simp_all add: deliver_def closed_stable)

lemma retain_send_kept: "fst (retain_send ops msg ss w) = filter (\<lambda>s. \<not> ch_is_closed ops w s) ss"
proof (induction ss arbitrary: w)
  case (Cons s ss)
  obtain k w' where r: "retain_send ops msg ss (ch_try_send ops s msg w) = (k, w')" by fastforce
  with Cons.IH [of "ch_try_send ops s msg w"] have "k = filter (\<lambda>s. \<not> ch_is_closed ops w s) ss"
    by (simp add: closed_stable)
  with r Cons.IH [of w] show ?case by simp
qed simp

lemma retain_send_result:
  assumes "retain_send ops msg ss w = (kept, w')"
  shows "kept = filter (\<lambda>s. \<not> ch_is_closed ops w s) ss \<and> (\<forall>d. ch_is_closed ops w' d = ch_is_closed ops w d)"
  using retain_send_kept [of msg ss w] retain_send_world [of ops msg ss w] assms by auto

lemma dispatch_result:
  "\<forall>t \<in> set ts. clean_level t \<Longrightarrow> match_and_dispatch ops msg ts n w = (n', w') \<Longrightarrow>
   (\<forall>d. ch_is_closed ops w' d = ch_is_closed ops w d) \<and>
   (\<forall>f. subs_at f n' = (if f \<in> set (filters_for ts) then filter (\<lambda>s. \<not> ch_is_closed ops w s) (subs_at f n)
      else subs_at f n))"
proof (induction ts arbitrary: n w n' w')
  case Nil
  obtain cs p hs es where n: "n = TrieNode cs p hs es" by (cases n)
  obtain hs' w1 where h: "retain_send ops msg hs w = (hs', w1)" by fastforce
  obtain es' w2 where e: "retain_send ops msg es w1 = (es', w2)" by fastforce
  from Nil(2) n h e have r: "n' = TrieNode cs p hs' es'" "w' = w2" by simp_all
  have "subs_at f n' = (if f \<in> {[hash_level], []} then filter (\<lambda>s. \<not> ch_is_closed ops w s) (subs_at f n)
      else subs_at f n)" for f
    using n r retain_send_result [OF h] retain_send_result [OF e] by (cases f) auto
  then show ?case using r retain_send_result [OF h] retain_send_result [OF e] by simp
next
  case (Cons l ls)
  let ?live = "filter (\<lambda>s. \<not> ch_is_closed ops w s)"
  obtain cs p hs es where n: "n = TrieNode cs p hs es" by (cases n)
  obtain hs' w1 where h: "retain_send ops msg hs w = (hs', w1)" by fastforce
  note h' = retain_send_result [OF h]
  have clean: "l \<noteq> hash_level" "l \<noteq> plus_level" "\<forall>t \<in> set ls. clean_level t"
    using Cons.prems(1) by (simp_all add: clean_level_def)
  obtain cs' w2 where c: "(case map_of cs l of Some child \<Rightarrow> (case match_and_dispatch ops msg ls child w1 of
      (child', w2) \<Rightarrow> (AList.update l child' cs, w2)) | None \<Rightarrow> (cs, w1)) = (cs', w2)" by fastforce
  obtain p' w3 where p: "(case p of Some pl \<Rightarrow> (case match_and_dispatch ops msg ls pl w2 of (pl', w3) \<Rightarrow> (Some pl', w3))
      | None \<Rightarrow> (None, w2)) = (p', w3)" by fastforce
  from Cons.prems(2) n h c p have r: "n' = TrieNode cs' p' hs' es" "w' = w3" by simp_all
  let ?sub = "\<lambda>f c. case c of Some m \<Rightarrow> subs_at f m | None \<Rightarrow> []"
  let ?upd = "\<lambda>f xs. if f \<in> set (filters_for ls) then ?live xs else xs"
  have child: "(\<forall>d. ch_is_closed ops w2 d = ch_is_closed ops w d) \<and> (\<forall>k. k \<noteq> l \<longrightarrow> map_of cs' k = map_of cs k) \<and>
      (\<forall>f. ?sub f (map_of cs' l) = ?upd f (?sub f (map_of cs l)))"
  proof (cases "map_of cs l")
    case (Some m)
    obtain m' w4 where m: "match_and_dispatch ops msg ls m w1 = (m', w4)" by fastforce
    with c Some have "cs' = AList.update l m' cs" "w4 = w2" by simp_all
    with Cons.IH [OF clean(3) m] h' Some show ?thesis by (simp add: update_conv')
  qed (use c h' in auto)
  have plus: "(\<forall>d. ch_is_closed ops w3 d = ch_is_closed ops w d) \<and> (\<forall>f. ?sub f p' = ?upd f (?sub f p))"
  proof (cases p)
    case (Some m)
    obtain m' w4 where m: "match_and_dispatch ops msg ls m w2 = (m', w4)" by fastforce
    with p Some have "p' = Some m'" "w4 = w3" by simp_all
    with Cons.IH [OF clean(3) m] child Some show ?thesis by simp
  qed (use p child in auto)
  have "subs_at f n' = (if f \<in> set (filters_for (l # ls)) then ?live (subs_at f n) else subs_at f n)" for f
  proof (cases f)
    case (Cons k g)
    consider "k = hash_level" | "k = plus_level" | "k = l" | "k \<notin> {hash_level, plus_level, l}" by blast
    then show ?thesis
    proof cases
      case 1 then show ?thesis using Cons n r h' clean by (auto simp: image_iff)
    next
      case 2 then show ?thesis using Cons n r clean plus [THEN conjunct2, THEN spec, of g] by (auto simp: image_iff)
    next
      case 3 then show ?thesis using Cons n r clean child [THEN conjunct2, THEN conjunct2, THEN spec, of g] by (auto simp: image_iff)
    next
      case 4 then show ?thesis using Cons n r clean child by (auto simp: image_iff)
    qed
  qed (use n r in \<open>simp add: image_iff\<close>)
  then show ?case using r plus by simp
qed

end

text \<open>A bounded \<open>mpsc\<close> channel as documented: \<open>try_send\<close> queues the message unless the channel is
  closed or full.\<close>

record bounded_channel =
  bc_capacity :: nat
  bc_queue :: "tokio_message list"
  bc_closed :: bool

definition bounded_ops :: "(nat \<Rightarrow> bounded_channel, nat) channel_ops" where
  "bounded_ops =
     \<lparr>ch_is_closed = (\<lambda>w c. bc_closed (w c)),
      ch_try_send = (\<lambda>c msg w. if bc_closed (w c) \<or> bc_capacity (w c) \<le> length (bc_queue (w c)) then w
         else w(c := (w c)\<lparr>bc_queue := bc_queue (w c) @ [msg]\<rparr>))\<rparr>"

interpretation bounded: channels bounded_ops
  by unfold_locales (auto simp: bounded_ops_def)

end
