(* ===== verification/Router_Theorems.thy ===== *)
theory Router_Theorems
  imports Router_Facts
begin

text \<open>
  The properties of the topic router: validation, the history of insertions and removals
  against a plain map of filters, delivery, closed channels and the absence of left-over nodes.
\<close>

subsection \<open>No empty nodes\<close>

function tidy :: "'c trie_node \<Rightarrow> bool" where
  "tidy (TrieNode cs p hs es) \<longleftrightarrow>
     (\<forall>x \<in> set cs. clean_level (fst x) \<and> \<not> trie_is_empty (snd x) \<and> tidy (snd x)) \<and>
     (case p of None \<Rightarrow> True | Some c \<Rightarrow> \<not> trie_is_empty c \<and> tidy c)"
  by pat_completeness auto
termination
proof (relation "measure size", goal_cases)
  case (2 cs p hs es x)
  then have "size (snd x) < Suc (size_list (\<lambda>x. Suc (size (snd x))) cs)"
    by (induction cs) auto
  then show ?case by (simp add: size_prod_simp)
qed auto

lemma set_AList_update: "set (AList.update k v cs) \<subseteq> insert (k, v) (set cs)"
  by (induction cs) auto

lemma set_AList_delete: "set (AList.delete k cs) \<subseteq> set cs"
  by (auto simp: AList.delete_eq)

lemma insert_not_empty: "\<not> trie_is_empty (trie_insert ls s n)"
proof (cases n)
  case (TrieNode cs p hs es)
  have "AList.update k v al \<noteq> []" for k :: str and v :: "'a trie_node" and al by (cases al) auto
  with TrieNode show ?thesis by (cases ls) auto
qed

lemma tidy_update: "\<forall>x \<in> set cs. P x \<Longrightarrow> P (k, v) \<Longrightarrow> \<forall>x \<in> set (AList.update k v cs). P x"
  using set_AList_update [of k v cs] by auto

lemma tidy_child: "tidy (TrieNode cs p hs es) \<Longrightarrow> map_of cs l = Some c \<Longrightarrow> tidy c"
  by (auto dest!: map_of_SomeD)

lemma tidy_insert: "tidy n \<Longrightarrow> tidy (trie_insert ls s n)"
proof (induction ls s n rule: trie_insert.induct)
  case (2 l ls s cs p hs es)
  have d: "tidy trie_default" by (simp add: trie_default_def)
  show ?case
  proof (cases "l = hash_level \<or> l = plus_level")
    case True
    with 2 d show ?thesis by (auto simp: or_default_def insert_not_empty split: option.splits)
  next
    case False
    have "tidy (or_default (map_of cs l))"
      using tidy_child [OF 2(3), of l] d by (cases "map_of cs l") (simp_all add: or_default_def)
    with 2(2) False have "tidy (trie_insert ls s (or_default (map_of cs l)))" by simp
    moreover have "clean_level l" using False by (simp add: clean_level_def)
    ultimately show ?thesis
      using False 2(3) by (auto simp: insert_not_empty intro!: tidy_update dest: set_AList_update [THEN subsetD])
  qed
qed simp

lemma tidy_remove: "tidy n \<Longrightarrow> tidy (snd (trie_remove ls n))"
proof (induction ls n rule: trie_remove.induct)
  case (2 l ls cs p hs es)
  show ?case
  proof (cases "l = hash_level")
    case nh: False
    show ?thesis
    proof (cases "l = plus_level")
      case True
      show ?thesis
      proof (cases p)
        case (Some c)
        obtain b c' where r: "trie_remove ls c = (b, c')" by fastforce
        with 2(1) [OF nh True Some] 2(3) Some have "tidy c'" by simp
        with True Some r 2(3) trie_remove_cases [OF r] show ?thesis by (cases b) (auto simp: Let_def)
      qed (use 2(3) True in \<open>auto simp: Let_def\<close>)
    next
      case np: False
      show ?thesis
      proof (cases "map_of cs l")
        case (Some c)
        obtain b c' where r: "trie_remove ls c = (b, c')" by fastforce
        with 2(2) [OF nh np Some] tidy_child [OF 2(3) Some] have "tidy c'" by simp
        moreover have "clean_level l" using nh np by (simp add: clean_level_def)
        ultimately show ?thesis
          using nh np Some r 2(3) trie_remove_cases [OF r] set_AList_update [of l c' cs] set_AList_delete [of l cs]
          by (cases b) (auto simp: Let_def)
      qed (use 2(3) nh np in \<open>auto simp: Let_def\<close>)
    qed
  qed (use 2(3) in \<open>auto simp: Let_def\<close>)
qed (auto simp: Let_def)

lemma tidy_has_subscriber: "tidy n \<Longrightarrow> \<not> trie_is_empty n \<Longrightarrow> \<exists>f. subs_at f n \<noteq> []"
proof (induction n rule: tidy.induct)
  case (1 cs p hs es)
  consider "hs \<noteq> []" | "es \<noteq> []" | c where "p = Some c" | k c ks where "cs = (k, c) # ks"
    using 1(4) by (cases p; cases cs) auto
  then show ?case
  proof cases
    case 1 then show ?thesis by (intro exI [of _ "[hash_level]"]) simp
  next
    case 2 then show ?thesis by (intro exI [of _ "[]"]) simp
  next
    case (3 c)
    with 1(2) [of c] 1(3) obtain f where "subs_at f c \<noteq> []" by auto
    with 3 show ?thesis by (intro exI [of _ "plus_level # f"]) simp
  next
    case (4 k c ks)
    with 1(1) [of "(k, c)"] 1(3) obtain f where "subs_at f c \<noteq> []" by auto
    with 4 1(3) show ?thesis by (intro exI [of _ "k # f"]) (auto simp: clean_level_def)
  qed
qed

subsection \<open>Properties\<close>

text \<open>C31. A topic filter is accepted exactly when it is not empty, has no null character, its
  multi-level wildcard is the whole last level and its single-level wildcards are whole levels.\<close>

theorem topic_filter_accepted:
  "validate_topic_filter f = (Ok () :: ('io client_error, unit) outcome) \<longleftrightarrow>
     f \<noteq> [] \<and> 0 \<notin> set f \<and>
     (\<forall>i < length (levels_of f).
        (0x23 \<in> set (levels_of f ! i) \<longrightarrow> levels_of f ! i = [0x23] \<and> i = length (levels_of f) - 1) \<and>
        (0x2B \<in> set (levels_of f ! i) \<longrightarrow> levels_of f ! i = [0x2B]))"
proof -
  let ?ls = "levels_of f"
  have "validate_levels ?ls = (Ok () :: ('io client_error, unit) outcome) \<longleftrightarrow> (\<forall>i < length ?ls.
        (0x23 \<in> set (?ls ! i) \<longrightarrow> ?ls ! i = hash_level \<and> i = length ?ls - 1) \<and>
        (0x2B \<in> set (?ls ! i) \<longrightarrow> ?ls ! i = plus_level))" (is "_ \<longleftrightarrow> ?R")
  proof -
    have "good_levels ?ls \<longleftrightarrow> (\<forall>i < length ?ls. ?ls ! i = hash_level \<longrightarrow> i = length ?ls - 1)"
    proof -
      have "hash_level \<in> set (butlast ?ls) \<longleftrightarrow> (\<exists>i < length ?ls - 1. ?ls ! i = hash_level)"
        by (auto simp: in_set_conv_nth nth_butlast)
      moreover have "i < length ?ls - 1 \<longleftrightarrow> i < length ?ls \<and> i \<noteq> length ?ls - 1" for i by auto
      ultimately show ?thesis unfolding good_levels_def by blast
    qed
    then show ?thesis unfolding validate_levels_Ok all_set_conv_all_nth
      by (metis list.set_intros(1))
  qed
  then show ?thesis by (simp add: validate_topic_filter_def)
qed

theorem topic_filter_accepted_witness:
  "validate_topic_filter [0x61, 0x2F, 0x23] = (Ok () :: (unit client_error, unit) outcome)"
proof (rule iffD2 [OF topic_filter_accepted])
  have l: "levels_of [0x61, 0x2F, 0x23] = [[0x61], [0x23]]" by code_simp
  show "[0x61, 0x2F, 0x23] \<noteq> [] \<and> 0 \<notin> set [0x61, 0x2F, 0x23 :: byte] \<and>
     (\<forall>i < length (levels_of [0x61, 0x2F, 0x23]).
        (0x23 \<in> set (levels_of [0x61, 0x2F, 0x23] ! i) \<longrightarrow>
          levels_of [0x61, 0x2F, 0x23] ! i = [0x23] \<and> i = length (levels_of [0x61, 0x2F, 0x23]) - 1) \<and>
        (0x2B \<in> set (levels_of [0x61, 0x2F, 0x23] ! i) \<longrightarrow> levels_of [0x61, 0x2F, 0x23] ! i = [0x2B]))"
    unfolding l by (simp add: less_Suc_eq)
qed

datatype 'c router_op = Subscribe_to str 'c | Unsubscribe_from str

fun router_step :: "'c router_op \<Rightarrow> 'c topic_router \<Rightarrow> 'c topic_router" where
  "router_step (Subscribe_to f s) r = snd (router_insert f s r :: (unit client_error, unit) outcome \<times> _)"
| "router_step (Unsubscribe_from f) r = snd (router_remove f r :: (unit client_error, unit) outcome \<times> _)"

text \<open>The specification: a map from filters to their subscribers.\<close>

fun subs_step :: "'c router_op \<Rightarrow> (str \<Rightarrow> 'c list) \<Rightarrow> (str \<Rightarrow> 'c list)" where
  "subs_step (Subscribe_to f s) m = (if valid_filter f then m(f := m f @ [s]) else m)"
| "subs_step (Unsubscribe_from f) m = (if valid_filter f then m(f := []) else m)"

definition subscribers :: "'c topic_router \<Rightarrow> str \<Rightarrow> 'c list" where
  "subscribers r f = subs_at (levels_of f) (tr_root r)"

lemma router_step_subs: "subscribers (router_step op r) = subs_step op (subscribers r)"
proof (cases op)
  case (Subscribe_to f s)
  show ?thesis
    by (rule validate_cases [of f, where 'io = unit])
      (auto simp: Subscribe_to subscribers_def router_insert_def subs_at_insert valid_filter_good intro!: ext)
next
  case (Unsubscribe_from f)
  show ?thesis
    by (rule validate_cases [of f, where 'io = unit])
      (auto simp: Unsubscribe_from subscribers_def router_remove_def subs_at_remove valid_filter_good intro!: ext)
qed

lemma router_step_tidy: "tidy (tr_root r) \<Longrightarrow> tidy (tr_root (router_step op r))"
  by (cases op) (auto simp: router_insert_def router_remove_def tidy_insert tidy_remove split: outcome.splits)

lemma router_history_aux:
  "subscribers (fold router_step ops r) = fold subs_step ops (subscribers r) \<and>
   (tidy (tr_root r) \<longrightarrow> tidy (tr_root (fold router_step ops r)))"
  by (induction ops arbitrary: r) (simp_all add: router_step_subs router_step_tidy)

text \<open>C10. Under every history of subscriptions and unsubscriptions, with valid and invalid
  filters, the trie holds for each filter the senders subscribed to it since it was last
  removed, in order.\<close>

theorem router_history:
  "subscribers (fold router_step ops router_new) = fold subs_step ops (\<lambda>_. [])"
  using router_history_aux [of ops router_new]
  by (simp add: router_new_def subscribers_def [abs_def])

text \<open>C32. After a history of insertions and removals, valid and invalid ones, that leaves no subscription, the
  trie is empty again: insertions and removals leave no node behind. (Dispatches are not part of these histories:
  a dispatch drops subscribers without their nodes, as \<open>dispatch_leaves_nodes\<close> shows.)\<close>

theorem router_leaves_nothing:
  assumes "\<forall>f. subs_at f (tr_root (fold router_step ops router_new)) = []"
  shows "tr_root (fold router_step ops router_new) = trie_default"
proof -
  have "tidy (tr_root (fold router_step ops router_new))"
    using router_history_aux [of ops router_new] by (simp add: router_new_def trie_default_def)
  with tidy_has_subscriber assms have "trie_is_empty (tr_root (fold router_step ops router_new))" by blast
  then show ?thesis by (cases "tr_root (fold router_step ops router_new)") (simp add: trie_default_def)
qed

definition sample_ops :: "nat router_op list" where
  "sample_ops = [Subscribe_to [0x61, 0x2F, 0x2B] 1, Subscribe_to [0x61, 0x2F, 0x23] 2, Subscribe_to [0x61] 3]"

definition sample_router :: "nat topic_router" where
  "sample_router = fold router_step sample_ops router_new"

lemma sample_removed:
  "tr_root (fold router_step [Subscribe_to [0x61, 0x2F, 0x2B] (1 :: nat), Unsubscribe_from [0x61, 0x2F, 0x2B]] router_new) =
     trie_default"
  by code_simp

theorem router_leaves_nothing_witness:
  "tr_root (fold router_step [Subscribe_to [0x61, 0x2F, 0x2B] (1 :: nat), Unsubscribe_from [0x61, 0x2F, 0x2B]] router_new) =
     trie_default"
  by (rule router_leaves_nothing) (unfold sample_removed, simp)

text \<open>C30. A dispatch under a valid topic name offers the message to exactly the subscribers of the filters that
  match the topic level by level (\<open>+\<close> one level, a last \<open>#\<close> the rest and the parent, and that also for topics
  that start with \<open>$\<close>, which the MQTT specification excepts), each subscription once and every other never, and
  forgets the closed subscribers it met and no others. Sending to a channel is taken to close none.\<close>

theorem dispatch_delivers:
  assumes "channels ops" "validate_publish_topic (tm_topic msg) = (Ok () :: ('io client_error, unit) outcome)"
    and "router_dispatch ops msg r w = (r', w')"
  shows "\<exists>fs. distinct fs \<and> (\<forall>f. f \<in> set fs \<longleftrightarrow> topic_matches f (levels_of (tm_topic msg))) \<and>
    w' = fold (deliver ops msg) (concat (map (\<lambda>f. subs_at f (tr_root r)) fs)) w \<and>
    (\<forall>f. subs_at f (tr_root r') = (if f \<in> set fs then filter (\<lambda>s. \<not> ch_is_closed ops w s) (subs_at f (tr_root r))
       else subs_at f (tr_root r)))"
proof -
  let ?ts = "levels_of (tm_topic msg)"
  have clean: "\<forall>t \<in> set ?ts. clean_level t" using publish_topic_clean [OF assms(2)] by blast
  obtain n where m: "match_and_dispatch ops msg ?ts (tr_root r) w = (n, w')" "r' = r\<lparr>tr_root := n\<rparr>"
    using assms(3) by (auto simp: router_dispatch_def split: prod.splits)
  from dispatch_world [OF clean, of ops msg "tr_root r" w] m
    channels.dispatch_result [OF assms(1) clean m(1)]
    filters_for_matches [OF clean] filters_for_distinct [OF clean]
  show ?thesis by (intro exI [of _ "filters_for ?ts"]) simp
qed

definition sample_world :: "nat \<Rightarrow> bounded_channel" where
  "sample_world = (\<lambda>c. \<lparr>bc_capacity = 4, bc_queue = [], bc_closed = (c = 2)\<rparr>)"

theorem dispatch_delivers_witness:
  "\<exists>fs. distinct fs \<and> (\<forall>f. f \<in> set fs \<longleftrightarrow> topic_matches f [[0x61], [0x62]]) \<and>
     snd (router_dispatch bounded_ops (tokio_message_new [0x61, 0x2F, 0x62] [7]) sample_router sample_world) =
     fold (deliver bounded_ops (tokio_message_new [0x61, 0x2F, 0x62] [7]))
       (concat (map (\<lambda>f. subs_at f (tr_root sample_router)) fs)) sample_world"
proof -
  let ?m = "tokio_message_new [0x61, 0x2F, 0x62] [7]"
  have valid: "validate_publish_topic (tm_topic ?m) = (Ok () :: (unit client_error, unit) outcome)"
    by (simp add: tokio_message_new_def validate_publish_topic_def)
  have "levels_of (tm_topic ?m) = [[0x61], [0x62]]" by (simp add: tokio_message_new_def levels_of_def)
  with dispatch_delivers [OF bounded.channels_axioms valid prod.collapse [symmetric], of sample_router sample_world]
  show ?thesis by metis
qed

subsection \<open>Where the router differs from the specification\<close>

text \<open>Section 4.7.2 of the MQTT specification: a filter that starts with a wildcard does not match a topic that starts
  with \<open>$\<close>. Here the filters \<open>#\<close> and \<open>+/a\<close> match the topic \<open>$/a\<close>, and a dispatch offers the message to both.\<close>

lemma dollar_topics_match:
  "topic_matches (levels_of [0x23]) (levels_of [0x24, 0x2F, 0x61])"
  "topic_matches (levels_of [0x2B, 0x2F, 0x61]) (levels_of [0x24, 0x2F, 0x61])"
  "let msg = tokio_message_new [0x24, 0x2F, 0x61] [7];
       r = fold router_step [Subscribe_to [0x23] 0, Subscribe_to [0x2B, 0x2F, 0x61] 1] router_new in
   map (\<lambda>c. bc_queue (snd (router_dispatch bounded_ops msg r sample_world) c)) [0, 1] = [[msg], [msg]]"
  by code_simp+

text \<open>A closed subscriber of \<open>a/b\<close> is dropped by the dispatch that meets it, but its nodes stay.\<close>

definition closed_dispatched :: "nat topic_router" where
  "closed_dispatched = fst (router_dispatch bounded_ops (tokio_message_new [0x61, 0x2F, 0x62] [7])
     (fold router_step [Subscribe_to [0x61, 0x2F, 0x62] 2] router_new) sample_world)"

lemma closed_dispatched_root:
  "tr_root closed_dispatched = TrieNode [([0x61], TrieNode [([0x62], trie_default)] None [] [])] None [] []"
  by code_simp

lemma dispatch_leaves_nodes:
  "(\<forall>f. subs_at f (tr_root closed_dispatched) = []) \<and> tr_root closed_dispatched \<noteq> trie_default"
proof -
  have none: "subs_at f trie_default = []" for f by (cases f) (simp_all add: trie_default_def)
  have "subs_at f (tr_root closed_dispatched) = []" for f
    by (cases f; cases "tl f") (auto simp: closed_dispatched_root none)
  then show ?thesis by (simp add: closed_dispatched_root trie_default_def)
qed

end
