(* ===== verification/Sensor_Data.thy ===== *)
theory Sensor_Data
  imports Tokio_Types
begin

text \<open>
  \<open>mqtt-tokio/src/stream.rs\<close>, the wire formats: \<open>SensorDataType\<close> and \<open>StreamChunk\<close>. Floats are
  their bit patterns, which is what \<open>put_f64\<close> and \<open>get_f64\<close> copy. The readers of the \<open>bytes\<close>
  crate take from the front of the slice; every read is guarded by the length checks of the code.
\<close>

subsection \<open>\<open>String::from_utf8_lossy\<close>\<close>

text \<open>One character: whether it is well formed and how many bytes follow the first one in it, or
  in the ill-formed prefix that is replaced.\<close>

definition utf8_scan :: "byte \<Rightarrow> bytes \<Rightarrow> bool \<times> nat" where
  "utf8_scan b0 bs =
     (if b0 < 0x80 then (True, 0)
      else if 0xC2 \<le> b0 \<and> b0 \<le> 0xDF then
        (case bs of b1 # _ \<Rightarrow> if utf8_cont b1 then (True, 1) else (False, 0) | [] \<Rightarrow> (False, 0))
      else if 0xE0 \<le> b0 \<and> b0 \<le> 0xEF then
        (case bs of
           b1 # r \<Rightarrow>
             if utf8_second_3 b0 b1 then
               (case r of b2 # _ \<Rightarrow> if utf8_cont b2 then (True, 2) else (False, 1) | [] \<Rightarrow> (False, 1))
             else (False, 0)
         | [] \<Rightarrow> (False, 0))
      else if 0xF0 \<le> b0 \<and> b0 \<le> 0xF4 then
        (case bs of
           b1 # r \<Rightarrow>
             if utf8_second_4 b0 b1 then
               (case r of
                  b2 # q \<Rightarrow>
                    if utf8_cont b2 then
                      (case q of b3 # _ \<Rightarrow> if utf8_cont b3 then (True, 3) else (False, 2) | [] \<Rightarrow> (False, 2))
                    else (False, 1)
                | [] \<Rightarrow> (False, 1))
             else (False, 0)
         | [] \<Rightarrow> (False, 0))
      else (False, 0))"

definition replacement_character :: bytes where
  "replacement_character = [0xEF, 0xBF, 0xBD]"

function utf8_lossy :: "bytes \<Rightarrow> str" where
  "utf8_lossy [] = []"
| "utf8_lossy (b0 # bs) =
     (case utf8_scan b0 bs of (ok, n) \<Rightarrow>
        (if ok then b0 # take n bs else replacement_character) @ utf8_lossy (drop n bs))"
  by pat_completeness auto
termination
  by (relation "measure length") auto

lemma scan_shape:
  assumes "if A then V bs
    else if B then (case bs of b1 # rest \<Rightarrow> k b1 \<and> V rest | _ \<Rightarrow> False)
    else if C then (case bs of b1 # b2 # rest \<Rightarrow> s3 b1 \<and> k b2 \<and> V rest | _ \<Rightarrow> False)
    else if D then (case bs of b1 # b2 # b3 # rest \<Rightarrow> s4 b1 \<and> k b2 \<and> k b3 \<and> V rest | _ \<Rightarrow> False)
    else False"
  shows "\<exists>n. (if A then (True, 0)
      else if B then (case bs of b1 # _ \<Rightarrow> if k b1 then (True, 1) else (False, 0) | [] \<Rightarrow> (False, 0))
      else if C then (case bs of b1 # r \<Rightarrow>
             if s3 b1 then (case r of b2 # _ \<Rightarrow> if k b2 then (True, 2) else (False, 1) | [] \<Rightarrow> (False, 1))
             else (False, 0) | [] \<Rightarrow> (False, 0))
      else if D then (case bs of b1 # r \<Rightarrow>
             if s4 b1 then (case r of b2 # q \<Rightarrow>
                    if k b2 then (case q of b3 # _ \<Rightarrow> if k b3 then (True, 3) else (False, 2) | [] \<Rightarrow> (False, 2))
                    else (False, 1) | [] \<Rightarrow> (False, 1))
             else (False, 0) | [] \<Rightarrow> (False, 0))
      else (False, 0)) = (True, n) \<and> V (drop n bs)"
  using assms by (auto split: if_split_asm list.split_asm)

lemma utf8_scan_valid: "valid_utf8 (b0 # bs) \<Longrightarrow> \<exists>n. utf8_scan b0 bs = (True, n) \<and> valid_utf8 (drop n bs)"
  unfolding valid_utf8.simps(2) utf8_scan_def by (rule scan_shape)

lemma utf8_lossy_valid: "valid_utf8 bs \<Longrightarrow> utf8_lossy bs = bs"
proof (induction bs rule: utf8_lossy.induct)
  case (2 b0 bs)
  obtain n where n: "utf8_scan b0 bs = (True, n)" "valid_utf8 (drop n bs)"
    using utf8_scan_valid [OF 2(2)] by blast
  have "utf8_lossy (drop n bs) = drop n bs" using 2(1) n by simp
  then show ?case using n by (simp only: utf8_lossy.simps prod.case if_True append_Cons append_take_drop_id)
qed simp

subsection \<open>Big-endian words\<close>

definition to_be32 :: "u32 \<Rightarrow> bytes" where
  "to_be32 w = to_be16 (ucast (drop_bit 16 w)) @ to_be16 (ucast w)"

definition to_be64 :: "u64 \<Rightarrow> bytes" where
  "to_be64 w = to_be32 (ucast (drop_bit 32 w)) @ to_be32 (ucast w)"

definition from_be32 :: "bytes \<Rightarrow> u32" where
  "from_be32 b = push_bit 16 (ucast (from_be16 (b ! 0) (b ! 1))) OR ucast (from_be16 (b ! 2) (b ! 3))"

definition from_be64 :: "bytes \<Rightarrow> u64" where
  "from_be64 b = push_bit 32 (ucast (from_be32 b)) OR ucast (from_be32 (drop 4 b))"

lemma be16_count: "from_be16 (to_be16 w ! 0) (to_be16 w ! Suc 0) = w"
  by (simp add: to_be16_def)

lemma length_be [simp]: "length (to_be32 w) = 4" "length (to_be64 v) = 8"
  by (simp_all add: to_be32_def to_be64_def)

lemma from_to_be32 [simp]: "from_be32 (to_be32 w @ rest) = w"
proof -
  have "push_bit 16 (ucast (ucast (drop_bit 16 w) :: u16)) OR ucast (ucast w :: u16) = w"
    by (rule bit_word_eqI) (auto simp: bit_simps)
  then show ?thesis using be16_count [of "ucast (drop_bit 16 w)"] be16_count [of "ucast w"]
    by (simp add: from_be32_def to_be32_def nth_append)
qed

lemma from_to_be64 [simp]: "from_be64 (to_be64 w @ rest) = w"
proof -
  have "push_bit 32 (ucast (ucast (drop_bit 32 w) :: u32)) OR ucast (ucast w :: u32) = w"
    by (rule bit_word_eqI) (auto simp: bit_simps)
  then show ?thesis by (simp add: from_be64_def to_be64_def)
qed

subsection \<open>Sensor payloads\<close>

datatype sensor_data =
    Raw bytes
  | TimeSeries "u64 list"
  | TimeSeriesF32 "u32 list"
  | Json str
  | AudioPcm u32 byte bytes
  | ImageFrame str bytes

fun sensor_encode :: "sensor_data \<Rightarrow> bytes" where
  "sensor_encode (Raw b) = 0x01 # b"
| "sensor_encode (TimeSeries vs) = 0x02 # to_be16 (of_nat (length vs)) @ concat (map to_be64 vs)"
| "sensor_encode (TimeSeriesF32 vs) = 0x03 # to_be16 (of_nat (length vs)) @ concat (map to_be32 vs)"
| "sensor_encode (Json json) = 0x04 # json"
| "sensor_encode (AudioPcm sample_rate channels d) = 0x05 # to_be32 sample_rate @ channels # d"
| "sensor_encode (ImageFrame mime d) = 0x06 # of_nat (length mime) # mime @ d"

fun get_f64s :: "nat \<Rightarrow> bytes \<Rightarrow> u64 list" where
  "get_f64s 0 b = []"
| "get_f64s (Suc n) b = from_be64 b # get_f64s n (drop 8 b)"

fun get_f32s :: "nat \<Rightarrow> bytes \<Rightarrow> u32 list" where
  "get_f32s 0 b = []"
| "get_f32s (Suc n) b = from_be32 b # get_f32s n (drop 4 b)"

definition sensor_decode :: "bytes \<Rightarrow> sensor_data" where
  "sensor_decode payload =
     (case payload of
        [] \<Rightarrow> Raw payload
      | tag # sl \<Rightarrow>
          if tag = 0x01 then Raw sl
          else if tag = 0x02 then
            (if 2 \<le> length sl then
               let count = unat (from_be16 (sl ! 0) (sl ! 1)); sl = drop 2 sl in
               if count * 8 \<le> length sl then TimeSeries (get_f64s count sl) else Raw payload
             else Raw payload)
          else if tag = 0x03 then
            (if 2 \<le> length sl then
               let count = unat (from_be16 (sl ! 0) (sl ! 1)); sl = drop 2 sl in
               if count * 4 \<le> length sl then TimeSeriesF32 (get_f32s count sl) else Raw payload
             else Raw payload)
          else if tag = 0x04 then Json (utf8_lossy sl)
          else if tag = 0x05 then
            (if 5 \<le> length sl then AudioPcm (from_be32 sl) (sl ! 4) (drop 5 sl) else Raw payload)
          else if tag = 0x06 then
            (if sl \<noteq> [] then
               let mime_len = unat (hd sl); sl = tl sl in
               if mime_len \<le> length sl
               then ImageFrame (utf8_lossy (take mime_len sl)) (drop mime_len sl) else Raw payload
             else Raw payload)
          else Raw payload)"

lemma get_f64s_concat: "n \<le> length vs \<Longrightarrow> get_f64s n (concat (map to_be64 vs) @ rest) = take n vs"
proof (induction n arbitrary: vs)
  case (Suc n)
  then show ?case by (cases vs) simp_all
qed simp

lemma get_f32s_concat: "n \<le> length vs \<Longrightarrow> get_f32s n (concat (map to_be32 vs) @ rest) = take n vs"
proof (induction n arbitrary: vs)
  case (Suc n)
  then show ?case by (cases vs) simp_all
qed simp

lemma length_concat_be: "length (concat (map to_be64 vs)) = length vs * 8" "length (concat (map to_be32 ws)) = length ws * 4"
  by (induction vs, simp_all) (induction ws, simp_all)

lemma sensor_decode_timeseries:
  "sensor_decode (sensor_encode (TimeSeries vs)) = TimeSeries (take (length vs mod 65536) vs)"
  "sensor_decode (sensor_encode (TimeSeriesF32 ws)) = TimeSeriesF32 (take (length ws mod 65536) ws)"
  using get_f64s_concat [of "length vs mod 65536" vs "[]"] get_f32s_concat [of "length ws mod 65536" ws "[]"]
  by (simp_all add: sensor_decode_def nth_append be16_count unat_of_nat Let_def length_concat_be)

lemma sensor_decode_image:
  "length mime \<le> 255 \<Longrightarrow> valid_utf8 mime \<Longrightarrow> sensor_decode (sensor_encode (ImageFrame mime d)) = ImageFrame mime d"
  by (simp add: sensor_decode_def unat_of_nat Let_def utf8_lossy_valid)

lemma sensor_decode_audio: "sensor_decode (sensor_encode (AudioPcm sr ch d)) = AudioPcm sr ch d"
  by (simp add: sensor_decode_def nth_append)

subsection \<open>Chunks\<close>

record stream_chunk =
  sc_seq_id :: u64
  sc_timestamp_ns :: u64
  sc_topic :: str
  sc_payload :: bytes
  sc_is_recovery :: bool

definition encode_wire :: "stream_chunk \<Rightarrow> bytes" where
  "encode_wire c = to_be64 (sc_seq_id c) @ to_be64 (sc_timestamp_ns c) @ sc_payload c"

definition decode_wire :: "str \<Rightarrow> bytes \<Rightarrow> ('io client_error, stream_chunk) outcome" where
  "decode_wire topic d =
     (if length d < 16 then
        Ok \<lparr>sc_seq_id = 0, sc_timestamp_ns = 0, sc_topic = topic, sc_payload = d, sc_is_recovery = False\<rparr>
      else Ok \<lparr>sc_seq_id = from_be64 d, sc_timestamp_ns = from_be64 (drop 8 d), sc_topic = topic,
               sc_payload = drop 16 d, sc_is_recovery = False\<rparr>)"

definition to_sensor_data :: "stream_chunk \<Rightarrow> sensor_data" where
  "to_sensor_data c = sensor_decode (sc_payload c)"

lemma decode_encode_wire: "decode_wire topic (encode_wire c) = Ok (c\<lparr>sc_topic := topic, sc_is_recovery := False\<rparr>)"
  by (simp add: decode_wire_def encode_wire_def)

end
