(* ===== verification/Async_Client.thy ===== *)
theory Async_Client
  imports Tokio_Types
begin

text \<open>
  \<open>mqtt-tokio/src/client.rs\<close>: the cloneable handle, and the requests it sends to the event loop
  (\<open>ClientRequest\<close> of \<open>types.rs\<close>). The \<open>tokio\<close> channels are the argument \<open>async_channels\<close>
  over a state \<open>'w\<close>: \<open>'r\<close> are the senders of \<open>oneshot\<close> channels, \<open>'c\<close> and \<open>'rx\<close>
  the two ends of a subscription channel.
\<close>

subsection \<open>Requests\<close>

datatype ('r, 'c) client_request =
    ReqPublish tokio_message "'r option"
  | ReqPublishBatch "tokio_message list" "'r option"
  | ReqPublishDatagram str bytes "'r option"
  | ReqSubscribe str qos 'r "'c option"
  | ReqUnsubscribe str 'r
  | ReqDisconnect 'r

text \<open>
  \<open>ac_send\<close> tells whether the event loop still receives; \<open>ac_await_unit\<close>, \<open>ac_await_id\<close> and
  \<open>ac_await_count\<close> yield \<open>None\<close> when the sender was dropped without an answer.
\<close>

record ('w, 'r, 'c, 'rx, 'io) async_channels =
  ac_send :: "('r, 'c) client_request \<Rightarrow> 'w \<Rightarrow> bool \<times> 'w"
  ac_oneshot :: "'w \<Rightarrow> 'r \<times> 'w"
  ac_channel :: "nat \<Rightarrow> 'w \<Rightarrow> ('c \<times> 'rx) \<times> 'w"
  ac_await_unit :: "'r \<Rightarrow> 'w \<Rightarrow> ('io client_error, unit) outcome option \<times> 'w"
  ac_await_id :: "'r \<Rightarrow> 'w \<Rightarrow> ('io client_error, u16) outcome option \<times> 'w"
  ac_await_count :: "'r \<Rightarrow> 'w \<Rightarrow> ('io client_error, nat) outcome option \<times> 'w"

definition or_closed :: "bool \<times> 'w \<Rightarrow> ('io client_error, unit) outcome \<times> 'w" where
  "or_closed sw = (if fst sw then Ok () else Err CE_ClientClosed, snd sw)"

definition or_cancelled :: "('io client_error, 'a) outcome option \<times> 'w \<Rightarrow> ('io client_error, 'a) outcome \<times> 'w" where
  "or_cancelled aw = (case fst aw of Some r \<Rightarrow> r | None \<Rightarrow> Err CE_Cancelled, snd aw)"

text \<open>Sending a request and, when that succeeded, awaiting its answer.\<close>

definition request ::
  "('w, 'r, 'c, 'rx, 'io) async_channels \<Rightarrow> ('r, 'c) client_request \<Rightarrow>
   ('w \<Rightarrow> ('io client_error, 'a) outcome option \<times> 'w) \<Rightarrow> 'w \<Rightarrow> ('io client_error, 'a) outcome \<times> 'w" where
  "request ch req await w =
     (case or_closed (ac_send ch req w) of
        (Ok _, w1) \<Rightarrow> or_cancelled (await w1)
      | (Err e, w1) \<Rightarrow> (Err e, w1)
      | (Panic, w1) \<Rightarrow> (Panic, w1))"

subsection \<open>The handle\<close>

definition request_message :: "str \<Rightarrow> qos \<Rightarrow> bool \<Rightarrow> bytes \<Rightarrow> tokio_message" where
  "request_message topic q retain payload =
     \<lparr>tm_topic = topic, tm_payload = payload, tm_qos = q, tm_retain = retain, tm_dup = False,
      tm_packet_id = None, tm_user_properties = []\<rparr>"

definition async_publish ::
  "('w, 'r, 'c, 'rx, 'io) async_channels \<Rightarrow> str \<Rightarrow> qos \<Rightarrow> bool \<Rightarrow> bytes \<Rightarrow> 'w \<Rightarrow>
   ('io client_error, unit) outcome \<times> 'w" where
  "async_publish ch topic q retain payload w =
     or_closed (ac_send ch (ReqPublish (request_message topic q retain payload) None) w)"

definition async_publish_with_ack ::
  "('w, 'r, 'c, 'rx, 'io) async_channels \<Rightarrow> str \<Rightarrow> qos \<Rightarrow> bool \<Rightarrow> bytes \<Rightarrow> 'w \<Rightarrow>
   ('io client_error, unit) outcome \<times> 'w" where
  "async_publish_with_ack ch topic q retain payload w =
     (case ac_oneshot ch w of
        (r, w1) \<Rightarrow> request ch (ReqPublish (request_message topic q retain payload) (Some r)) (ac_await_unit ch r) w1)"

definition async_publish_batch ::
  "('w, 'r, 'c, 'rx, 'io) async_channels \<Rightarrow> tokio_message list \<Rightarrow> 'w \<Rightarrow> ('io client_error, nat) outcome \<times> 'w" where
  "async_publish_batch ch messages w =
     (case ac_oneshot ch w of
        (r, w1) \<Rightarrow> request ch (ReqPublishBatch messages (Some r)) (ac_await_count ch r) w1)"

definition async_publish_datagram ::
  "('w, 'r, 'c, 'rx, 'io) async_channels \<Rightarrow> str \<Rightarrow> bytes \<Rightarrow> 'w \<Rightarrow> ('io client_error, unit) outcome \<times> 'w" where
  "async_publish_datagram ch topic payload w =
     (case ac_oneshot ch w of
        (r, w1) \<Rightarrow> request ch (ReqPublishDatagram topic payload (Some r)) (ac_await_unit ch r) w1)"

definition async_subscribe ::
  "('w, 'r, 'c, 'rx, 'io) async_channels \<Rightarrow> str \<Rightarrow> qos \<Rightarrow> 'w \<Rightarrow> ('io client_error, u16) outcome \<times> 'w" where
  "async_subscribe ch topic q w =
     (case ac_oneshot ch w of
        (r, w1) \<Rightarrow> request ch (ReqSubscribe topic q r None) (ac_await_id ch r) w1)"

record 'rx topic_subscription =
  ts_topic_filter :: str
  ts_receiver :: 'rx

definition topic_subscription_new :: "str \<Rightarrow> 'rx \<Rightarrow> 'rx topic_subscription" where
  "topic_subscription_new f rx = \<lparr>ts_topic_filter = f, ts_receiver = rx\<rparr>"

text \<open>\<open>recv\<close>, \<open>close\<close> and \<open>poll_next\<close> are those of the receiving end of the channel.\<close>

definition ts_recv ::
  "('rx \<Rightarrow> 'w \<Rightarrow> (tokio_message option \<times> 'rx) \<times> 'w) \<Rightarrow> 'rx topic_subscription \<Rightarrow> 'w \<Rightarrow>
   (tokio_message option \<times> 'rx topic_subscription) \<times> 'w" where
  "ts_recv rx_recv sub w =
     (case rx_recv (ts_receiver sub) w of ((m, rx), w1) \<Rightarrow> ((m, sub\<lparr>ts_receiver := rx\<rparr>), w1))"

definition ts_close ::
  "('rx \<Rightarrow> 'w \<Rightarrow> 'rx \<times> 'w) \<Rightarrow> 'rx topic_subscription \<Rightarrow> 'w \<Rightarrow> 'rx topic_subscription \<times> 'w" where
  "ts_close rx_close sub w =
     (case rx_close (ts_receiver sub) w of (rx, w1) \<Rightarrow> (sub\<lparr>ts_receiver := rx\<rparr>, w1))"

definition async_subscribe_stream ::
  "('w, 'r, 'c, 'rx, 'io) async_channels \<Rightarrow> str \<Rightarrow> qos \<Rightarrow> 'w \<Rightarrow>
   ('io client_error, 'rx topic_subscription) outcome \<times> 'w" where
  "async_subscribe_stream ch topic q w =
     (case ac_channel ch 128 w of
        ((tx, rx), w1) \<Rightarrow>
          (case ac_oneshot ch w1 of
             (r, w2) \<Rightarrow>
               (case request ch (ReqSubscribe topic q r (Some tx)) (ac_await_id ch r) w2 of
                  (Ok _, w3) \<Rightarrow> (Ok (topic_subscription_new topic rx), w3)
                | (Err e, w3) \<Rightarrow> (Err e, w3)
                | (Panic, w3) \<Rightarrow> (Panic, w3))))"

definition async_unsubscribe ::
  "('w, 'r, 'c, 'rx, 'io) async_channels \<Rightarrow> str \<Rightarrow> 'w \<Rightarrow> ('io client_error, u16) outcome \<times> 'w" where
  "async_unsubscribe ch topic w =
     (case ac_oneshot ch w of
        (r, w1) \<Rightarrow> request ch (ReqUnsubscribe topic r) (ac_await_id ch r) w1)"

definition async_disconnect ::
  "('w, 'r, 'c, 'rx, 'io) async_channels \<Rightarrow> 'w \<Rightarrow> ('io client_error, unit) outcome \<times> 'w" where
  "async_disconnect ch w =
     (case ac_oneshot ch w of (r, w1) \<Rightarrow> request ch (ReqDisconnect r) (ac_await_unit ch r) w1)"

text \<open>\<open>status\<close> is the value the \<open>watch\<close> channel currently holds.\<close>

definition async_is_connected :: "connection_status \<Rightarrow> bool" where
  "async_is_connected status \<longleftrightarrow> status = StatusConnected"

subsection \<open>Facts\<close>

lemma async_publish_Ok:
  "async_publish ch topic q retain payload w = (Ok (), w') \<longleftrightarrow>
   ac_send ch (ReqPublish (request_message topic q retain payload) None) w = (True, w')"
  by (auto simp: async_publish_def or_closed_def prod_eq_iff)

lemma request_not_Panic:
  "(\<And>w r w'. await w = (Some r, w') \<Longrightarrow> r \<noteq> Panic) \<Longrightarrow> fst (request ch req await w) \<noteq> Panic"
  by (auto simp: request_def or_closed_def or_cancelled_def split: option.splits prod.splits)
     (metis prod.collapse)

end
