(* ===== verification/Data_Stream.thy ===== *)
theory Data_Stream
  imports Sensor_Data Async_Client "HOL-Library.Multiset"
begin

text \<open>
  \<open>mqtt-tokio/src/stream.rs\<close>: the sequenced producer with its recovery journal and the consumer
  that puts chunks back in order. The producer is shared by many threads: its three shared-state
  accesses (\<open>fetch_add\<close>, the journal behind its lock, the request channel) are one definition
  each, and \<open>producer_step\<close> interleaves them. Sums of \<open>u64\<close> panic on overflow, as in a build with
  overflow checks; \<open>fetch_add\<close> wraps.
\<close>

subsection \<open>The producer\<close>

record stream_producer =
  sp_topic :: str
  sp_sequence :: u64
  sp_qos :: qos
  sp_recovery_journal :: "stream_chunk list"
  sp_journal_capacity :: nat

definition producer_new :: "str \<Rightarrow> qos \<Rightarrow> nat \<Rightarrow> stream_producer" where
  "producer_new topic q journal_capacity =
     \<lparr>sp_topic = topic, sp_sequence = 1, sp_qos = q, sp_recovery_journal = [],
      sp_journal_capacity = journal_capacity\<rparr>"

definition take_sequence :: "stream_producer \<Rightarrow> u64 \<times> stream_producer" where
  "take_sequence p = (sp_sequence p, p\<lparr>sp_sequence := sp_sequence p + 1\<rparr>)"

definition make_chunk :: "stream_producer \<Rightarrow> u64 \<Rightarrow> u64 \<Rightarrow> bytes \<Rightarrow> stream_chunk" where
  "make_chunk p sq now payload =
     \<lparr>sc_seq_id = sq, sc_timestamp_ns = now, sc_topic = sp_topic p, sc_payload = payload,
      sc_is_recovery = False\<rparr>"

definition journal_chunk :: "stream_chunk \<Rightarrow> stream_producer \<Rightarrow> stream_producer" where
  "journal_chunk chunk p =
     (let journal = sp_recovery_journal p;
          kept = (if sp_journal_capacity p \<le> length journal then tl journal else journal)
      in p\<lparr>sp_recovery_journal := kept @ [chunk]\<rparr>)"

definition publish_chunk ::
  "('w, 'r, 'c, 'rx, 'io) async_channels \<Rightarrow> stream_producer \<Rightarrow> stream_chunk \<Rightarrow> 'w \<Rightarrow>
   ('io client_error, unit) outcome \<times> 'w" where
  "publish_chunk ch p chunk w = async_publish ch (sp_topic p) (sp_qos p) False (encode_wire chunk) w"

definition producer_send ::
  "('w, 'r, 'c, 'rx, 'io) async_channels \<Rightarrow> u64 \<Rightarrow> bytes \<Rightarrow> stream_producer \<Rightarrow> 'w \<Rightarrow>
   ('io client_error, u64) outcome \<times> stream_producer \<times> 'w" where
  "producer_send ch now payload p w =
     (case take_sequence p of
        (sq, p1) \<Rightarrow>
          (let chunk = make_chunk p1 sq now payload;
               p2 = journal_chunk chunk p1 in
           case publish_chunk ch p2 chunk w of
             (Ok _, w1) \<Rightarrow> (Ok sq, p2, w1)
           | (Err e, w1) \<Rightarrow> (Err e, p2, w1)
           | (Panic, w1) \<Rightarrow> (Panic, p2, w1)))"

definition send_raw where
  "send_raw ch now d = producer_send ch now (sensor_encode (Raw d))"

definition send_timeseries where
  "send_timeseries ch now values = producer_send ch now (sensor_encode (TimeSeries values))"

definition send_timeseries_f32 where
  "send_timeseries_f32 ch now values = producer_send ch now (sensor_encode (TimeSeriesF32 values))"

definition send_json where
  "send_json ch now json = producer_send ch now (sensor_encode (Json json))"

definition send_audio where
  "send_audio ch now sample_rate channels pcm = producer_send ch now (sensor_encode (AudioPcm sample_rate channels pcm))"

definition send_image where
  "send_image ch now mime image_data = producer_send ch now (sensor_encode (ImageFrame mime image_data))"

text \<open>The loop over the journal; \<open>replayed\<close> counts the chunks that were handed over.\<close>

fun replay_chunks ::
  "('w, 'r, 'c, 'rx, 'io) async_channels \<Rightarrow> stream_producer \<Rightarrow> nat \<Rightarrow> stream_chunk list \<Rightarrow> 'w \<Rightarrow>
   ('io client_error, nat) outcome \<times> 'w" where
  "replay_chunks ch p replayed [] w = (Ok replayed, w)"
| "replay_chunks ch p replayed (chunk # rest) w =
     (let wire_chunk = chunk\<lparr>sc_is_recovery := True\<rparr>;
          msg = (tokio_message_new (sp_topic p) (encode_wire wire_chunk))\<lparr>tm_dup := True, tm_qos := sp_qos p\<rparr> in
      case async_publish ch (sp_topic p) (sp_qos p) False (tm_payload msg) w of
        (Ok _, w1) \<Rightarrow> replay_chunks ch p (replayed + 1) rest w1
      | (Err e, w1) \<Rightarrow> (Err e, w1)
      | (Panic, w1) \<Rightarrow> (Panic, w1))"

definition replay_recovery_journal ::
  "('w, 'r, 'c, 'rx, 'io) async_channels \<Rightarrow> stream_producer \<Rightarrow> 'w \<Rightarrow> ('io client_error, nat) outcome \<times> 'w" where
  "replay_recovery_journal ch p w = replay_chunks ch p 0 (sp_recovery_journal p) w"

definition current_sequence :: "stream_producer \<Rightarrow> u64" where
  "current_sequence p = sp_sequence p"

definition create_datastream_producer :: "str \<Rightarrow> qos \<Rightarrow> nat \<Rightarrow> stream_producer" where
  "create_datastream_producer topic q journal_capacity = producer_new topic q journal_capacity"

subsection \<open>The consumer\<close>

text \<open>
  The receiver is the list of messages it still yields before it reports that the channel is
  closed. The \<open>BTreeMap\<close> is an association list in the order of its keys.
\<close>

record stream_consumer =
  co_subscription :: "tokio_message list topic_subscription"
  co_expected_seq :: u64
  co_reorder_buffer :: "(u64 \<times> stream_chunk) list"
  co_max_reorder_window :: nat

definition consumer_new :: "tokio_message list topic_subscription \<Rightarrow> nat \<Rightarrow> stream_consumer" where
  "consumer_new sub max_reorder_window =
     \<lparr>co_subscription = sub, co_expected_seq = 1, co_reorder_buffer = [],
      co_max_reorder_window = max_reorder_window\<rparr>"

fun btree_insert :: "u64 \<Rightarrow> 'a \<Rightarrow> (u64 \<times> 'a) list \<Rightarrow> (u64 \<times> 'a) list" where
  "btree_insert k v [] = [(k, v)]"
| "btree_insert k v ((k', v') # rest) =
     (if k < k' then (k, v) # (k', v') # rest
      else if k = k' then (k, v) # rest
      else (k', v') # btree_insert k v rest)"

definition btree_remove :: "u64 \<Rightarrow> (u64 \<times> 'a) list \<Rightarrow> (u64 \<times> 'a) list" where
  "btree_remove k m = filter (\<lambda>e. fst e \<noteq> k) m"

text \<open>\<open>n + 1\<close> with the overflow check.\<close>

definition checked_succ :: "u64 \<Rightarrow> ('e, u64) outcome" where
  "checked_succ n = (if n = - 1 then Panic else Ok (n + 1))"

text \<open>Handing out \<open>chunk\<close> after moving \<open>expected_seq\<close> behind \<open>sq\<close>.\<close>

definition deliver_chunk ::
  "stream_chunk \<Rightarrow> u64 \<Rightarrow> stream_consumer \<Rightarrow> ('io client_error, stream_chunk option) outcome \<times> stream_consumer" where
  "deliver_chunk chunk sq c =
     (case checked_succ sq of
        Ok n \<Rightarrow> (Ok (Some chunk), c\<lparr>co_expected_seq := n\<rparr>)
      | Err e \<Rightarrow> (Err e, c)
      | Panic \<Rightarrow> (Panic, c))"

definition set_receiver :: "tokio_message list \<Rightarrow> stream_consumer \<Rightarrow> stream_consumer" where
  "set_receiver msgs c = c\<lparr>co_subscription := (co_subscription c)\<lparr>ts_receiver := msgs\<rparr>\<rparr>"

text \<open>The loop over the messages the receiver yields.\<close>

fun recv_loop ::
  "tokio_message list \<Rightarrow> stream_consumer \<Rightarrow> ('io client_error, stream_chunk option) outcome \<times> stream_consumer" where
  "recv_loop [] c = (Ok None, set_receiver [] c)"
| "recv_loop (msg # msgs) c =
     (let c = set_receiver msgs c in
      case decode_wire (tm_topic msg) (tm_payload msg) of
        Err e \<Rightarrow> (Err e, c)
      | Panic \<Rightarrow> (Panic, c)
      | Ok chunk \<Rightarrow>
          if sc_seq_id chunk = 0 then (Ok (Some chunk), c)
          else if sc_seq_id chunk = co_expected_seq c then deliver_chunk chunk (co_expected_seq c) c
          else if co_expected_seq c < sc_seq_id chunk then
            (let buffer = btree_insert (sc_seq_id chunk) chunk (co_reorder_buffer c);
                 c = c\<lparr>co_reorder_buffer := buffer\<rparr> in
             if co_max_reorder_window c < length buffer then
               (case buffer of
                  [] \<Rightarrow> recv_loop msgs c
                | (first_key, popped) # _ \<Rightarrow>
                    deliver_chunk popped (sc_seq_id popped)
                      (c\<lparr>co_reorder_buffer := btree_remove first_key buffer\<rparr>))
             else recv_loop msgs c)
          else recv_loop msgs c)"

definition recv_ordered ::
  "stream_consumer \<Rightarrow> ('io client_error, stream_chunk option) outcome \<times> stream_consumer" where
  "recv_ordered c =
     (case map_of (co_reorder_buffer c) (co_expected_seq c) of
        Some chunk \<Rightarrow>
          deliver_chunk chunk (co_expected_seq c)
            (c\<lparr>co_reorder_buffer := btree_remove (co_expected_seq c) (co_reorder_buffer c)\<rparr>)
      | None \<Rightarrow> recv_loop (ts_receiver (co_subscription c)) c)"

definition recv_sensor_data ::
  "stream_consumer \<Rightarrow> ('io client_error, (u64 \<times> sensor_data) option) outcome \<times> stream_consumer" where
  "recv_sensor_data c =
     (case recv_ordered c of
        (Ok (Some chunk), c') \<Rightarrow> (Ok (Some (sc_seq_id chunk, to_sensor_data chunk)), c')
      | (Ok None, c') \<Rightarrow> (Ok None, c')
      | (Err e, c') \<Rightarrow> (Err e, c')
      | (Panic, c') \<Rightarrow> (Panic, c'))"

definition consumer_topic_filter :: "stream_consumer \<Rightarrow> str" where
  "consumer_topic_filter c = ts_topic_filter (co_subscription c)"

definition subscribe_datastream ::
  "('w, 'r, 'c, tokio_message list, 'io) async_channels \<Rightarrow> str \<Rightarrow> qos \<Rightarrow> nat \<Rightarrow> 'w \<Rightarrow>
   ('io client_error, stream_consumer) outcome \<times> 'w" where
  "subscribe_datastream ch topic q reorder_window w =
     (case async_subscribe_stream ch topic q w of
        (Ok sub, w1) \<Rightarrow> (Ok (consumer_new sub reorder_window), w1)
      | (Err e, w1) \<Rightarrow> (Err e, w1)
      | (Panic, w1) \<Rightarrow> (Panic, w1))"

end
