(* ===== verification/Stream_Facts.thy ===== *)
theory Stream_Facts
  imports Data_Stream
begin

text \<open>
  Facts about the consumer: its reorder buffer as a sorted map, the invariant of its state, how
  much work is left, and \<open>recv_all\<close>, the chunks that repeated calls of \<open>recv_ordered\<close> yield.
\<close>

subsection \<open>The ordered map\<close>

named_theorems btree_simps \<open>the reorder buffer as a sorted map\<close>

lemma set_btree_insert [btree_simps]:
  "fst ` set (btree_insert k v m) = insert k (fst ` set m)"
  by (induction k v m rule: btree_insert.induct) auto

lemma set_btree_insert_subset: "set (btree_insert k v m) \<subseteq> insert (k, v) (set m)"
  by (induction k v m rule: btree_insert.induct) auto

lemma sorted_btree_insert [btree_simps]:
  "sorted_wrt (<) (map fst m) \<Longrightarrow> sorted_wrt (<) (map fst (btree_insert k v m))"
proof (induction k v m rule: btree_insert.induct)
  case (2 k v k' v' rest)
  then show ?case using set_btree_insert [of k v rest]
    by auto
qed simp

lemma length_btree_insert_le [btree_simps]: "length (btree_insert k v m) \<le> Suc (length m)"
  by (induction k v m rule: btree_insert.induct) auto

lemma btree_insert_neq_Nil [simp]: "btree_insert k v m \<noteq> []"
  by (cases m) (auto simp: split_paired_all)

lemma set_btree_remove [btree_simps]: "set (btree_remove k m) = {e \<in> set m. fst e \<noteq> k}"
  by (simp add: btree_remove_def)

lemma keys_btree_remove [btree_simps]: "fst ` set (btree_remove k m) = fst ` set m - {k}"
  by (auto simp: btree_remove_def)

lemma sorted_btree_remove [btree_simps]:
  "sorted_wrt (<) (map fst m) \<Longrightarrow> sorted_wrt (<) (map fst (btree_remove k m))"
  by (induction m) (auto simp: btree_remove_def)

lemma length_btree_remove: "k \<in> fst ` set m \<Longrightarrow> length (btree_remove k m) < length m"
  by (auto simp: btree_remove_def intro!: length_filter_less)

subsection \<open>Draining the consumer\<close>

definition pending :: "stream_consumer \<Rightarrow> nat" where
  "pending c = length (ts_receiver (co_subscription c)) + length (co_reorder_buffer c)"

lemma set_receiver_sel [simp]:
  "ts_receiver (co_subscription (set_receiver ms c)) = ms"
  "co_expected_seq (set_receiver ms c) = co_expected_seq c"
  "co_reorder_buffer (set_receiver ms c) = co_reorder_buffer c"
  "co_max_reorder_window (set_receiver ms c) = co_max_reorder_window c"
  by (simp_all add: set_receiver_def)

lemma deliver_chunk_Ok:
  "deliver_chunk chunk sq c = (Ok r, c') \<longleftrightarrow> r = Some chunk \<and> sq \<noteq> - 1 \<and> c' = c\<lparr>co_expected_seq := sq + 1\<rparr>"
  by (auto simp: deliver_chunk_def checked_succ_def)

text \<open>The chunk a message carries; \<open>decode_wire\<close> never fails.\<close>

definition chunk_of :: "tokio_message \<Rightarrow> stream_chunk" where
  "chunk_of msg = (case decode_wire (tm_topic msg) (tm_payload msg) :: (unit client_error, stream_chunk) outcome of
     Ok chunk \<Rightarrow> chunk | _ \<Rightarrow> undefined)"

lemma decode_wire_chunk_of: "decode_wire (tm_topic msg) (tm_payload msg) = Ok (chunk_of msg)"
  by (simp add: chunk_of_def decode_wire_def)

text \<open>One pass of the loop, by what the message is: to be handed out, to be kept, or old.\<close>

lemma recv_loop_Cons:
  fixes c msgs defines "c1 \<equiv> set_receiver msgs c"
  shows "recv_loop (msg # msgs) c =
     (if sc_seq_id (chunk_of msg) = 0 then (Ok (Some (chunk_of msg)), c1)
      else if sc_seq_id (chunk_of msg) = co_expected_seq c
      then deliver_chunk (chunk_of msg) (co_expected_seq c) c1
      else if sc_seq_id (chunk_of msg) < co_expected_seq c then recv_loop msgs c1
      else let buffer = btree_insert (sc_seq_id (chunk_of msg)) (chunk_of msg) (co_reorder_buffer c);
               c2 = c1\<lparr>co_reorder_buffer := buffer\<rparr> in
        if length buffer \<le> co_max_reorder_window c then recv_loop msgs c2
        else deliver_chunk (snd (hd buffer)) (sc_seq_id (snd (hd buffer)))
               (c1\<lparr>co_reorder_buffer := btree_remove (fst (hd buffer)) buffer\<rparr>))"
  by (auto simp: c1_def decode_wire_chunk_of Let_def split: list.splits)

declare recv_loop.simps(2) [simp del]

lemma recv_loop_pending:
  "recv_loop msgs c = (Ok (Some chunk), c') \<Longrightarrow> pending c' < length msgs + length (co_reorder_buffer c)"
proof (induction msgs arbitrary: c)
  case (Cons msg msgs)
  let ?b = "btree_insert (sc_seq_id (chunk_of msg)) (chunk_of msg) (co_reorder_buffer c)"
  have len: "length ?b \<le> Suc (length (co_reorder_buffer c))" by (rule length_btree_insert_le)
  have "length (btree_remove (fst (hd ?b)) ?b) < length ?b"
    by (intro length_btree_remove imageI hd_in_set) simp
  with Cons len show ?case
    by (fastforce simp: recv_loop_Cons deliver_chunk_Ok pending_def Let_def split: if_splits)
qed simp

lemma recv_ordered_pending: "recv_ordered c = (Ok (Some chunk), c') \<Longrightarrow> pending c' < pending c"
  using recv_loop_pending [of "ts_receiver (co_subscription c)" c chunk c']
  by (auto simp: recv_ordered_def pending_def deliver_chunk_Ok btree_remove_def map_of_SomeD
        intro!: length_filter_less [of "(co_expected_seq c, chunk)"] split: option.splits dest!: map_of_SomeD)

text \<open>All the chunks \<open>recv_ordered\<close> yields until it returns \<open>Ok None\<close> (or fails).\<close>

function recv_all :: "stream_consumer \<Rightarrow> stream_chunk list" where
  "recv_all c =
     (case recv_ordered c :: (unit client_error, stream_chunk option) outcome \<times> stream_consumer of
        (Ok (Some chunk), c') \<Rightarrow> chunk # recv_all c'
      | _ \<Rightarrow> [])"
  by auto
termination
  by (relation "measure pending") (auto dest!: recv_ordered_pending [OF sym])

declare recv_all.simps [simp del]

subsection \<open>The invariant\<close>

definition buffer_ok :: "u64 \<Rightarrow> (u64 \<times> stream_chunk) list \<Rightarrow> bool" where
  "buffer_ok e b \<longleftrightarrow> sorted_wrt (<) (map fst b) \<and> (\<forall>(k, chunk) \<in> set b. sc_seq_id chunk = k \<and> e \<le> k)"

definition consumer_inv :: "stream_consumer \<Rightarrow> bool" where
  "consumer_inv c \<longleftrightarrow> co_expected_seq c \<noteq> 0 \<and> buffer_ok (co_expected_seq c) (co_reorder_buffer c) \<and>
     length (co_reorder_buffer c) \<le> co_max_reorder_window c"

lemma consumer_inv_new: "consumer_inv (consumer_new sub w)"
  by (simp add: consumer_inv_def consumer_new_def buffer_ok_def)

text \<open>What a delivery does: a chunk without sequence leaves the expectation alone, any other is not
  older than expected and moves the expectation just behind itself.\<close>

definition delivers :: "stream_consumer \<Rightarrow> stream_chunk \<Rightarrow> stream_consumer \<Rightarrow> bool" where
  "delivers c chunk c' \<longleftrightarrow> consumer_inv c' \<and>
     (if sc_seq_id chunk = 0 then co_expected_seq c' = co_expected_seq c
      else co_expected_seq c \<le> sc_seq_id chunk \<and> sc_seq_id chunk < co_expected_seq c' \<and>
           co_expected_seq c' = sc_seq_id chunk + 1)"

lemma unat_max_u64: "unat (- 1 :: u64) = 2 ^ 64 - 1"
  by (simp add: unsigned_minus_1_eq_mask mask_eq_exp_minus_1)

lemma unat_succ_u64: "(n :: u64) \<noteq> - 1 \<Longrightarrow> unat (n + 1) = Suc (unat n)"
  by (metis add.commute eq_neg_iff_add_eq_0 unatSuc)

lemma less_succ_u64: "(n :: u64) \<noteq> - 1 \<Longrightarrow> n < n + 1 \<and> n + 1 \<noteq> 0"
  by (simp add: word_less_nat_alt unat_succ_u64) (simp add: eq_neg_iff_add_eq_0)

lemma succ_le_u64: "(n :: u64) < m \<Longrightarrow> n \<noteq> - 1 \<and> n + 1 \<le> m"
  by (metis (no_types) Suc_leI unat_succ_u64 word_le_nat_alt word_less_nat_alt word_order.extremum_strict)

lemma buffer_ok_insert:
  assumes "buffer_ok e b" "e \<le> sc_seq_id chunk"
  shows "buffer_ok e (btree_insert (sc_seq_id chunk) chunk b)"
  using assms set_btree_insert_subset [of "sc_seq_id chunk" chunk b]
  by (auto simp: buffer_ok_def btree_simps)

lemma buffer_ok_next:
  assumes "buffer_ok e b" "e \<noteq> - 1" "e \<notin> fst ` set b"
  shows "buffer_ok (e + 1) b"
proof -
  have "e + 1 \<le> k" if "(k, chunk) \<in> set b" for k chunk
  proof -
    have "e \<le> k" "e \<noteq> k" using assms that by (force simp: buffer_ok_def)+
    then show ?thesis using succ_le_u64 [of e k] by simp
  qed
  with assms(1) show ?thesis by (auto simp: buffer_ok_def)
qed

lemma buffer_ok_remove: "buffer_ok e b \<Longrightarrow> buffer_ok e (btree_remove k b)"
  by (auto simp: buffer_ok_def btree_simps)

lemma buffer_ok_hd: "buffer_ok e b \<Longrightarrow> b \<noteq> [] \<Longrightarrow> sc_seq_id (snd (hd b)) = fst (hd b) \<and> e \<le> fst (hd b)"
  by (cases b) (auto simp: buffer_ok_def)

lemma buffer_ok_pop:
  assumes "buffer_ok e b" "b \<noteq> []" "fst (hd b) \<noteq> - 1"
  shows "buffer_ok (fst (hd b) + 1) (btree_remove (fst (hd b)) b)"
proof -
  have "buffer_ok (fst (hd b)) b"
    using assms by (cases b) (fastforce simp: buffer_ok_def)+
  then show ?thesis
    using assms(3) by (intro buffer_ok_next buffer_ok_remove) (auto simp: btree_simps)
qed

lemma recv_loop_delivers:
  "recv_loop msgs c = (Ok (Some chunk), c') \<Longrightarrow> consumer_inv c \<Longrightarrow>
   co_expected_seq c \<notin> fst ` set (co_reorder_buffer c) \<Longrightarrow> delivers c chunk c'"
proof (induction msgs arbitrary: c)
  case (Cons msg msgs)
  let ?ch = "chunk_of msg" and ?e = "co_expected_seq c"
  let ?b = "btree_insert (sc_seq_id ?ch) ?ch (co_reorder_buffer c)"
  have ok: "buffer_ok ?e (co_reorder_buffer c)" and len: "length ?b \<le> Suc (co_max_reorder_window c)"
    using Cons.prems(2) length_btree_insert_le [of "sc_seq_id ?ch" ?ch "co_reorder_buffer c"]
    by (simp_all add: consumer_inv_def)
  have pop: "length (btree_remove (fst (hd ?b)) ?b) < length ?b"
    by (intro length_btree_remove imageI hd_in_set) simp
  consider "sc_seq_id ?ch = 0" | "sc_seq_id ?ch \<noteq> 0" "sc_seq_id ?ch = ?e"
    | "sc_seq_id ?ch \<noteq> 0" "sc_seq_id ?ch \<noteq> ?e" "sc_seq_id ?ch < ?e"
    | "sc_seq_id ?ch \<noteq> 0" "sc_seq_id ?ch \<noteq> ?e" "\<not> sc_seq_id ?ch < ?e" "?e < sc_seq_id ?ch"
    using less_linear [of "sc_seq_id ?ch" ?e] less_asym [of "sc_seq_id ?ch" ?e] less_irrefl [of ?e] by metis
  then show ?case
  proof cases
    case 1
    then show ?thesis using Cons.prems(1,2) by (auto simp: recv_loop_Cons delivers_def consumer_inv_def)
  next
    case 2
    then show ?thesis using Cons.prems buffer_ok_next [OF ok] less_succ_u64
      by (auto simp: recv_loop_Cons delivers_def consumer_inv_def deliver_chunk_Ok)
  next
    case 3
    then show ?thesis using Cons.IH [of "set_receiver msgs c"] Cons.prems
      by (auto simp: recv_loop_Cons delivers_def consumer_inv_def split: if_splits)
  next
    case 4
    have b: "buffer_ok ?e ?b" using ok 4 by (intro buffer_ok_insert) simp_all
    have hd: "sc_seq_id (snd (hd ?b)) = fst (hd ?b)" "?e \<le> fst (hd ?b)"
      using buffer_ok_hd [OF b] by simp_all
    have nz: "fst (hd ?b) \<noteq> 0" using hd(2) Cons.prems(2) by (auto simp: consumer_inv_def)
    show ?thesis
    proof (cases "length ?b \<le> co_max_reorder_window c")
      case True
      then show ?thesis
        using Cons.IH [of "(set_receiver msgs c)\<lparr>co_reorder_buffer := ?b\<rparr>"] Cons.prems 4 b
        by (auto simp: recv_loop_Cons Let_def delivers_def consumer_inv_def btree_simps split: if_splits)
    next
      case False
      then show ?thesis
        using Cons.prems(1) 4 b hd nz buffer_ok_pop [OF b] pop len less_succ_u64 [of "fst (hd ?b)"]
        by (auto simp: recv_loop_Cons Let_def deliver_chunk_Ok delivers_def consumer_inv_def)
    qed
  qed
qed simp

lemma recv_ordered_delivers:
  assumes "recv_ordered c = (Ok (Some chunk), c')" "consumer_inv c"
  shows "delivers c chunk c'"
proof (cases "map_of (co_reorder_buffer c) (co_expected_seq c)")
  case None
  with assms recv_loop_delivers show ?thesis by (simp add: recv_ordered_def map_of_eq_None_iff)
next
  case (Some x)
  let ?e = "co_expected_seq c"
  have ok: "buffer_ok ?e (co_reorder_buffer c)" using assms(2) by (simp add: consumer_inv_def)
  have "sc_seq_id x = ?e" using ok map_of_SomeD [OF Some] by (auto simp: buffer_ok_def)
  moreover have "?e \<noteq> - 1" "chunk = x"
    "c' = c\<lparr>co_reorder_buffer := btree_remove ?e (co_reorder_buffer c), co_expected_seq := ?e + 1\<rparr>"
    using assms(1) Some by (simp_all add: recv_ordered_def deliver_chunk_Ok)
  moreover have "buffer_ok (?e + 1) (btree_remove ?e (co_reorder_buffer c))"
    using ok calculation by (intro buffer_ok_next buffer_ok_remove) (auto simp: btree_simps)
  moreover have "length (btree_remove ?e (co_reorder_buffer c)) \<le> co_max_reorder_window c"
    using assms(2) length_filter_le order_trans unfolding consumer_inv_def btree_remove_def by blast
  ultimately show ?thesis using less_succ_u64
    assms(2) by (auto simp: delivers_def consumer_inv_def)
qed

lemma recv_all_increasing:
  "consumer_inv c \<Longrightarrow>
   sorted_wrt (<) (map sc_seq_id (filter (\<lambda>x. sc_seq_id x \<noteq> 0) (recv_all c))) \<and>
   (\<forall>x \<in> set (recv_all c). sc_seq_id x \<noteq> 0 \<longrightarrow> co_expected_seq c \<le> sc_seq_id x)"
proof (induction c rule: recv_all.induct)
  case (1 c)
  let ?r = "recv_ordered c :: (unit client_error, stream_chunk option) outcome \<times> stream_consumer"
  show ?case
  proof (cases "\<exists>chunk c'. ?r = (Ok (Some chunk), c')")
    case True
    then obtain chunk c' where r: "?r = (Ok (Some chunk), c')" by blast
    have d: "delivers c chunk c'" by (rule recv_ordered_delivers [OF r 1(2)])
    have all: "recv_all c = chunk # recv_all c'" by (simp add: recv_all.simps [of c] r)
    have "consumer_inv c'" using d by (simp add: delivers_def)
    then have "sorted_wrt (<) (map sc_seq_id (filter (\<lambda>x. sc_seq_id x \<noteq> 0) (recv_all c'))) \<and>
        (\<forall>x \<in> set (recv_all c'). sc_seq_id x \<noteq> 0 \<longrightarrow> co_expected_seq c' \<le> sc_seq_id x)"
      using 1(1) r by simp
    with d show ?thesis by (fastforce simp: all delivers_def split: if_splits)
  next
    case False
    then have "recv_all c = []"
      by (simp add: recv_all.simps [of c] split: prod.splits outcome.splits option.splits)
    then show ?thesis by simp
  qed
qed

subsection \<open>Reordering within the window\<close>

lemma mset_btree_insert:
  "k \<notin> fst ` set m \<Longrightarrow> mset (btree_insert k v m) = add_mset (k, v) (mset m)"
  by (induction k v m rule: btree_insert.induct) auto

lemma mset_btree_remove:
  "sorted_wrt (<) (map fst m) \<Longrightarrow> map_of m k = Some v \<Longrightarrow>
   mset m = add_mset (k, v) (mset (btree_remove k m))"
proof (induction m)
  case (Cons x m)
  show ?case
  proof (cases "fst x = k")
    case True
    then have "filter (\<lambda>e. fst e \<noteq> k) m = m" using Cons.prems(1) by (auto intro!: filter_True)
    with True Cons.prems show ?thesis by (cases x) (simp add: btree_remove_def)
  next
    case False
    with Cons show ?thesis by (cases x) (simp add: btree_remove_def)
  qed
qed simp

text \<open>The chunks the consumer holds or will still receive.\<close>

definition held :: "stream_consumer \<Rightarrow> tokio_message list \<Rightarrow> stream_chunk multiset" where
  "held c msgs = image_mset snd (mset (co_reorder_buffer c)) + mset (map chunk_of msgs)"

text \<open>Of the numbers \<open>S\<close> that arrived, those that wait for a smaller one, counted from \<open>e\<close> on; and the
  streams in which at no time more of them wait than the window holds.\<close>

definition behind :: "nat \<Rightarrow> nat set \<Rightarrow> nat set" where
  "behind e S = {s \<in> S. \<exists>j \<in> {e..<s}. j \<notin> S}"

definition ahead :: "nat list \<Rightarrow> nat" where
  "ahead ss = length (filter (\<lambda>s. \<exists>j \<in> {1..<s}. j \<notin> set ss) ss)"

definition within_window :: "nat \<Rightarrow> nat list \<Rightarrow> bool" where
  "within_window w ss \<longleftrightarrow> (\<forall>k \<in> {0..length ss}. ahead (take k ss) \<le> w)"

abbreviation seq_number :: "tokio_message \<Rightarrow> nat" where
  "seq_number msg \<equiv> unat (sc_seq_id (chunk_of msg))"

definition windowed :: "stream_consumer \<Rightarrow> tokio_message list \<Rightarrow> bool" where
  "windowed c msgs \<longleftrightarrow> (\<forall>xs ys. map seq_number msgs = xs @ ys \<longrightarrow>
     card (behind (unat (co_expected_seq c)) (unat ` fst ` set (co_reorder_buffer c) \<union> set xs)) \<le> co_max_reorder_window c)"

lemma card_behind_mono: "behind e S \<subseteq> behind e' S' \<Longrightarrow> finite S' \<Longrightarrow> card (behind e S) \<le> card (behind e' S')"
  by (rule card_mono) (auto simp: behind_def)

lemma behind_all: "(\<And>s. s \<in> S \<Longrightarrow> e < s) \<Longrightarrow> behind e S = S"
  unfolding behind_def by (auto intro!: bexI [of _ e])

text \<open>The three ways a message or a buffered chunk is taken up.\<close>

lemma windowed_keep:
  assumes "windowed c (msg # msgs)" "co_expected_seq c' = co_expected_seq c" "co_max_reorder_window c' = co_max_reorder_window c"
    "fst ` set (co_reorder_buffer c') = insert (sc_seq_id (chunk_of msg)) (fst ` set (co_reorder_buffer c))"
  shows "windowed c' msgs"
  unfolding windowed_def
proof (intro allI impI)
  fix xs ys assume "map seq_number msgs = xs @ ys"
  then have "map seq_number (msg # msgs) = (seq_number msg # xs) @ ys" by simp
  with assms(1) have "card (behind (unat (co_expected_seq c)) (unat ` fst ` set (co_reorder_buffer c) \<union> set (seq_number msg # xs)))
      \<le> co_max_reorder_window c" unfolding windowed_def by blast
  then show "card (behind (unat (co_expected_seq c')) (unat ` fst ` set (co_reorder_buffer c') \<union> set xs)) \<le> co_max_reorder_window c'"
    by (simp add: assms(2-4))
qed

lemma windowed_next:
  assumes "windowed c msgs" "unat (co_expected_seq c') = Suc (unat (co_expected_seq c))"
    "co_max_reorder_window c' = co_max_reorder_window c"
    "fst ` set (co_reorder_buffer c') = fst ` set (co_reorder_buffer c) - {co_expected_seq c}"
    "msgs' = msgs \<or> msgs = msg # msgs' \<and> sc_seq_id (chunk_of msg) = co_expected_seq c"
  shows "windowed c' msgs'"
  unfolding windowed_def
proof (intro allI impI)
  let ?e = "unat (co_expected_seq c)" and ?K = "unat ` fst ` set (co_reorder_buffer c)"
  fix xs ys assume xs: "map seq_number msgs' = xs @ ys"
  obtain zs where zs: "map seq_number msgs = zs @ ys" "set zs = set xs \<or> set zs = insert ?e (set xs)"
    using assms(5)
  proof (elim disjE conjE)
    assume "msgs' = msgs"
    with xs that [of xs] show thesis by simp
  next
    assume "msgs = msg # msgs'" "sc_seq_id (chunk_of msg) = co_expected_seq c"
    with xs that [of "?e # xs"] show thesis by simp
  qed
  have K': "unat ` fst ` set (co_reorder_buffer c') = ?K - {?e}"
    unfolding assms(4) by (subst image_set_diff) (simp_all add: inj_on_def word_unat_eq_iff)
  have "behind (Suc ?e) ((?K - {?e}) \<union> set xs) \<subseteq> behind ?e (?K \<union> set zs)"
  proof
    fix s assume "s \<in> behind (Suc ?e) ((?K - {?e}) \<union> set xs)"
    then obtain j where "j \<in> {Suc ?e..<s}" "j \<notin> (?K - {?e}) \<union> set xs" "s \<in> (?K - {?e}) \<union> set xs"
      unfolding behind_def by blast
    then have "s \<in> ?K \<union> set zs" "j \<in> {?e..<s}" "j \<notin> ?K \<union> set zs" using zs(2) by auto
    then show "s \<in> behind ?e (?K \<union> set zs)" unfolding behind_def by blast
  qed
  then have "card (behind (Suc ?e) ((?K - {?e}) \<union> set xs)) \<le> card (behind ?e (?K \<union> set zs))"
    by (rule card_behind_mono) simp
  also have "\<dots> \<le> co_max_reorder_window c" using assms(1) zs(1) unfolding windowed_def by blast
  finally show "card (behind (unat (co_expected_seq c')) (unat ` fst ` set (co_reorder_buffer c') \<union> set xs)) \<le> co_max_reorder_window c'"
    by (simp add: assms(2,3) K')
qed

lemma windowed_insert:
  assumes "windowed c (msg # msgs)" "buffer_ok (co_expected_seq c) (co_reorder_buffer c)"
    "co_expected_seq c \<notin> fst ` set (co_reorder_buffer c)" "co_expected_seq c < sc_seq_id (chunk_of msg)"
  shows "card (insert (sc_seq_id (chunk_of msg)) (fst ` set (co_reorder_buffer c))) \<le> co_max_reorder_window c"
proof -
  let ?e = "co_expected_seq c" and ?S = "insert (sc_seq_id (chunk_of msg)) (fst ` set (co_reorder_buffer c))"
  have "?e < k" if "k \<in> ?S" for k
  proof (cases "k \<in> fst ` set (co_reorder_buffer c)")
    case True
    then have "k \<noteq> ?e" using assms(3) by blast
    moreover have "?e \<le> k" using True assms(2) by (auto simp: buffer_ok_def)
    ultimately show ?thesis by simp
  qed (use that assms(4) in simp)
  then have gt: "unat ?e < unat k" if "k \<in> ?S" for k using that by (simp add: word_less_nat_alt)
  have "behind (unat ?e) (unat ` ?S) = unat ` ?S" by (rule behind_all) (use gt in blast)
  moreover have "map seq_number (msg # msgs) = [seq_number msg] @ map seq_number msgs" by simp
  with assms(1) have "card (behind (unat ?e) (unat ` fst ` set (co_reorder_buffer c) \<union> set [seq_number msg])) \<le> co_max_reorder_window c"
    unfolding windowed_def by blast
  then have "card (behind (unat ?e) (unat ` ?S)) \<le> co_max_reorder_window c" by simp
  ultimately have "card (unat ` ?S) \<le> co_max_reorder_window c" by simp
  moreover have "inj_on unat ?S" by (simp add: inj_on_def word_unat_eq_iff)
  ultimately show ?thesis by (simp only: card_image)
qed

lemma windowed_start:
  assumes "within_window w (map seq_number msgs)"
  shows "windowed (consumer_new sub w) msgs"
  unfolding windowed_def
proof (intro allI impI)
  fix xs ys assume "map seq_number msgs = xs @ ys"
  then have xs: "xs = take (length xs) (map seq_number msgs)" "length xs \<in> {0..length (map seq_number msgs)}"
    by (simp_all add: append_eq_conv_conj)
  have "behind 1 (set xs) = set (filter (\<lambda>s. \<exists>j \<in> {1..<s}. j \<notin> set xs) xs)" by (auto simp: behind_def)
  then have "card (behind 1 (set xs)) \<le> ahead xs" by (simp only: ahead_def card_length)
  also have "\<dots> \<le> w" using assms xs unfolding within_window_def by metis
  finally show "card (behind (unat (co_expected_seq (consumer_new sub w)))
      (unat ` fst ` set (co_reorder_buffer (consumer_new sub w)) \<union> set xs)) \<le> co_max_reorder_window (consumer_new sub w)"
    by (simp add: consumer_new_def)
qed

text \<open>A stream of at most one message more than the window holds is within it.\<close>

lemma ahead_complete: "set ss = {1..<n} \<Longrightarrow> ahead ss = 0"
  by (auto simp: ahead_def filter_empty_conv)

lemma short_within_window:
  assumes "mset ss = mset_set {1..<n}" "n \<le> w + 2"
  shows "within_window w ss"
  unfolding within_window_def
proof
  fix k assume k: "k \<in> {0..length ss}"
  have len: "length ss = n - 1" using arg_cong [OF assms(1), of size] by simp
  show "ahead (take k ss) \<le> w"
  proof (cases "k = length ss")
    case True
    have "set ss = {1..<n}" using arg_cong [OF assms(1), of set_mset] by simp
    with True show ?thesis by (simp add: ahead_complete)
  next
    case False
    then have "length (take k ss) \<le> w" using k len assms(2) by simp
    then show ?thesis unfolding ahead_def by (meson length_filter_le order_trans)
  qed
qed

text \<open>They are exactly the ones numbered from the expected one up to below \<open>m\<close>, and keep to the window.\<close>

definition gap_free :: "stream_consumer \<Rightarrow> tokio_message list \<Rightarrow> nat \<Rightarrow> bool" where
  "gap_free c msgs m \<longleftrightarrow>
     image_mset (\<lambda>x. unat (sc_seq_id x)) (held c msgs) = mset_set {unat (co_expected_seq c)..<m} \<and>
     m < 2 ^ 64 \<and> windowed c msgs"

lemma gap_free_size: "gap_free c msgs m \<Longrightarrow>
    length (co_reorder_buffer c) + length msgs = m - unat (co_expected_seq c)"
  unfolding gap_free_def held_def by (drule conjunct1, drule arg_cong [where f = size]) simp

lemma gap_free_ids: "gap_free c msgs m \<Longrightarrow>
    (\<lambda>x. unat (sc_seq_id x)) ` set_mset (held c msgs) = {unat (co_expected_seq c)..<m}"
  unfolding gap_free_def by (drule conjunct1, drule arg_cong [where f = set_mset]) simp

lemma gap_free_distinct: "gap_free c msgs m \<Longrightarrow> held c msgs = add_mset x M \<Longrightarrow> y \<in># M \<Longrightarrow> sc_seq_id x \<noteq> sc_seq_id y"
proof
  assume gf: "gap_free c msgs m" and M: "held c msgs = add_mset x M" "y \<in># M" and eq: "sc_seq_id x = sc_seq_id y"
  let ?f = "\<lambda>x. unat (sc_seq_id x)"
  let ?S = "{unat (co_expected_seq c)..<m}"
  have "mset_set ?S = add_mset (?f x) (image_mset ?f M)"
    using gf M(1) unfolding gap_free_def by (metis image_mset_add_mset)
  moreover have "0 < count (image_mset ?f M) (?f x)"
    using M(2) eq unfolding count_greater_zero_iff by auto
  ultimately have "1 < count (mset_set ?S) (?f x)" by simp
  moreover have "count (mset_set ?S) (?f x) \<le> 1" by (simp add: count_mset_set')
  ultimately show False by linarith
qed

lemma length_btree_insert: "k \<notin> fst ` set b \<Longrightarrow> length (btree_insert k v b) = Suc (length b)"
  using arg_cong [OF mset_btree_insert, where f = size] by fastforce

text \<open>Delivering the chunk with the expected number leaves the rest gap-free.\<close>

definition next_delivered :: "stream_consumer \<Rightarrow> tokio_message list \<Rightarrow> nat \<Rightarrow> stream_chunk \<Rightarrow> stream_consumer \<Rightarrow> bool" where
  "next_delivered c msgs m chunk c' \<longleftrightarrow>
     sc_seq_id chunk = co_expected_seq c \<and> unat (co_expected_seq c') = Suc (unat (co_expected_seq c)) \<and>
     held c msgs = add_mset chunk (held c' (ts_receiver (co_subscription c'))) \<and>
     gap_free c' (ts_receiver (co_subscription c')) m"

lemma next_deliveredI:
  assumes "gap_free c msgs m" "unat (co_expected_seq c) < m" "sc_seq_id chunk = co_expected_seq c"
    "co_expected_seq c' = co_expected_seq c + 1" "co_max_reorder_window c' = co_max_reorder_window c"
    "held c msgs = add_mset chunk (held c' (ts_receiver (co_subscription c')))"
    "fst ` set (co_reorder_buffer c') = fst ` set (co_reorder_buffer c) - {co_expected_seq c}"
    "ts_receiver (co_subscription c') = msgs \<or>
      msgs = msg # ts_receiver (co_subscription c') \<and> sc_seq_id (chunk_of msg) = co_expected_seq c"
  shows "next_delivered c msgs m chunk c'"
proof -
  let ?e = "unat (co_expected_seq c)"
  have "co_expected_seq c \<noteq> - 1" using assms(1,2) by (auto simp: gap_free_def unat_max_u64)
  then have suc: "unat (co_expected_seq c') = Suc ?e" using assms(4) by (simp add: unat_succ_u64)
  have "{?e..<m} = insert ?e {Suc ?e..<m}" using assms(2) by auto
  then have "mset_set {?e..<m} = add_mset ?e (mset_set {Suc ?e..<m})" by simp
  moreover have "windowed c' (ts_receiver (co_subscription c'))"
    using windowed_next [OF _ suc assms(5,7,8)] assms(1) by (simp add: gap_free_def)
  ultimately have "gap_free c' (ts_receiver (co_subscription c')) m"
    using assms suc by (simp add: gap_free_def)
  with assms suc show ?thesis by (simp add: next_delivered_def)
qed

lemma gap_free_expected:
  assumes "gap_free c msgs m" "unat (co_expected_seq c) < m"
  obtains x where "x \<in># held c msgs" "sc_seq_id x = co_expected_seq c"
proof -
  have "unat (co_expected_seq c) \<in> (\<lambda>x. unat (sc_seq_id x)) ` set_mset (held c msgs)"
    using gap_free_ids [OF assms(1)] assms(2) by simp
  with that show thesis by (auto simp: word_unat_eq_iff)
qed

lemma buffered_key: "buffer_ok e b \<Longrightarrow> x \<in># image_mset snd (mset b) \<Longrightarrow> sc_seq_id x \<in> fst ` set b"
  by (force simp: buffer_ok_def)

lemma recv_loop_next:
  "gap_free c msgs m \<Longrightarrow> consumer_inv c \<Longrightarrow> co_expected_seq c \<notin> fst ` set (co_reorder_buffer c) \<Longrightarrow>
   unat (co_expected_seq c) < m \<Longrightarrow>
   \<exists>chunk c'. recv_loop msgs c = (Ok (Some chunk) :: ('io client_error, _) outcome, c') \<and> next_delivered c msgs m chunk c'"
proof (induction msgs arbitrary: c)
  case Nil
  from Nil(1,4) obtain x where "x \<in># held c []" "sc_seq_id x = co_expected_seq c"
    by (rule gap_free_expected)
  with Nil(2,3) buffered_key [of "co_expected_seq c" "co_reorder_buffer c" x] show ?case
    by (simp add: held_def consumer_inv_def)
next
  case (Cons msg msgs)
  let ?x = "chunk_of msg" and ?e = "co_expected_seq c" and ?buf = "co_reorder_buffer c"
  let ?c1 = "set_receiver msgs c" and ?b = "btree_insert (sc_seq_id (chunk_of msg)) (chunk_of msg) (co_reorder_buffer c)"
  have ok: "buffer_ok ?e ?buf" and e0: "?e \<noteq> 0" using Cons.prems(2) by (simp_all add: consumer_inv_def)
  have held: "held c (msg # msgs) = add_mset ?x (image_mset snd (mset ?buf) + mset (map chunk_of msgs))"
    by (simp add: held_def)
  have "unat (sc_seq_id ?x) \<in> {unat ?e..<m}" using gap_free_ids [OF Cons.prems(1)] held by auto
  then have ex: "?e \<le> sc_seq_id ?x" by (simp add: word_le_nat_alt)
  then have x0: "sc_seq_id ?x \<noteq> 0" using e0 by auto
  show ?case
  proof (cases "sc_seq_id ?x = ?e")
    case True
    have "?e \<noteq> - 1" using Cons.prems(1,4) by (auto simp: gap_free_def unat_max_u64)
    then have "recv_loop (msg # msgs) c = (Ok (Some ?x), ?c1\<lparr>co_expected_seq := ?e + 1\<rparr>)"
      using True x0 by (simp add: recv_loop_Cons deliver_chunk_Ok)
    moreover have "next_delivered c (msg # msgs) m ?x (?c1\<lparr>co_expected_seq := ?e + 1\<rparr>)"
      using Cons.prems True by (intro next_deliveredI [where msg = msg]) (simp_all add: held_def)
    ultimately show ?thesis by blast
  next
    case False
    have fresh: "sc_seq_id ?x \<notin> fst ` set ?buf"
    proof
      assume "sc_seq_id ?x \<in> fst ` set ?buf"
      then obtain ch where "(sc_seq_id ?x, ch) \<in> set ?buf" by auto
      with ok have "ch \<in># image_mset snd (mset ?buf)" "sc_seq_id ch = sc_seq_id ?x"
        by (force simp: buffer_ok_def)+
      with gap_free_distinct [OF Cons.prems(1) held, of ch] show False by simp
    qed
    have "card (fst ` set ?b) \<le> co_max_reorder_window c"
      using windowed_insert [of c msg msgs, OF _ ok Cons.prems(3)] Cons.prems(1) False ex
      by (simp add: gap_free_def btree_simps)
    moreover have "sorted_wrt (<) (map fst ?b)" using ok by (simp add: buffer_ok_def btree_simps)
    then have "card (fst ` set ?b) = length ?b" using distinct_card [of "map fst ?b"] by (simp add: strict_sorted_iff)
    ultimately have fits: "length ?b \<le> co_max_reorder_window c" by simp
    let ?c2 = "?c1\<lparr>co_reorder_buffer := ?b\<rparr>"
    have h2: "held ?c2 msgs = held c (msg # msgs)" by (simp add: held_def mset_btree_insert [OF fresh])
    have w: "windowed c (msg # msgs)" using Cons.prems(1) by (simp only: gap_free_def)
    have "windowed ?c2 msgs" by (rule windowed_keep [OF w]) (simp_all add: set_btree_insert)
    then have "gap_free ?c2 msgs m" using Cons.prems(1) h2 by (simp add: gap_free_def)
    moreover have "consumer_inv ?c2"
      using Cons.prems(2) fits buffer_ok_insert [OF ok ex] by (simp add: consumer_inv_def)
    moreover have "?e \<notin> fst ` set ?b" using False Cons.prems(3) by (auto simp: btree_simps)
    ultimately obtain ch c' where
      "recv_loop msgs ?c2 = (Ok (Some ch) :: ('io client_error, _) outcome, c')" "next_delivered ?c2 msgs m ch c'"
      using Cons.IH [of ?c2] Cons.prems(4) by auto
    moreover have "recv_loop (msg # msgs) c = (recv_loop msgs ?c2 :: ('io client_error, _) outcome \<times> _)"
      using x0 False ex fits by (auto simp: recv_loop_Cons Let_def)
    ultimately show ?thesis using h2 by (auto simp: next_delivered_def)
  qed
qed

lemma recv_ordered_next:
  assumes gf: "gap_free c (ts_receiver (co_subscription c)) m" and inv: "consumer_inv c"
    and less: "unat (co_expected_seq c) < m"
  shows "\<exists>chunk c'. recv_ordered c = (Ok (Some chunk), c') \<and>
    next_delivered c (ts_receiver (co_subscription c)) m chunk c'"
proof (cases "map_of (co_reorder_buffer c) (co_expected_seq c)")
  case None
  then have "co_expected_seq c \<notin> fst ` set (co_reorder_buffer c)" by (simp add: map_of_eq_None_iff)
  from recv_loop_next [OF gf inv this less] show ?thesis by (simp add: recv_ordered_def None)
next
  case (Some x)
  let ?e = "co_expected_seq c"
  let ?c' = "c\<lparr>co_reorder_buffer := btree_remove ?e (co_reorder_buffer c), co_expected_seq := ?e + 1\<rparr>"
  have ok: "buffer_ok ?e (co_reorder_buffer c)" using inv by (simp add: consumer_inv_def)
  have "?e \<noteq> - 1" using gf less by (auto simp: gap_free_def unat_max_u64)
  then have "recv_ordered c = (Ok (Some x), ?c')" using Some by (simp add: recv_ordered_def deliver_chunk_Ok)
  moreover have "sc_seq_id x = ?e" using ok map_of_SomeD [OF Some] by (auto simp: buffer_ok_def)
  moreover have "mset (co_reorder_buffer c) = add_mset (?e, x) (mset (btree_remove ?e (co_reorder_buffer c)))"
    using ok Some by (intro mset_btree_remove) (simp_all add: buffer_ok_def)
  ultimately have "next_delivered c (ts_receiver (co_subscription c)) m x ?c'"
    using gf less by (intro next_deliveredI) (simp_all add: held_def keys_btree_remove)
  then show ?thesis using \<open>recv_ordered c = (Ok (Some x), ?c')\<close> by blast
qed

lemma recv_all_in_order:
  "consumer_inv c \<Longrightarrow> gap_free c (ts_receiver (co_subscription c)) m \<Longrightarrow>
   map (\<lambda>x. unat (sc_seq_id x)) (recv_all c) = [unat (co_expected_seq c)..<m] \<and>
   mset (recv_all c) = held c (ts_receiver (co_subscription c))"
proof (induction c rule: recv_all.induct)
  case (1 c)
  let ?q = "ts_receiver (co_subscription c)"
  let ?r = "recv_ordered c :: (unit client_error, stream_chunk option) outcome \<times> stream_consumer"
  show ?case
  proof (cases "unat (co_expected_seq c) < m")
    case True
    obtain ch c' where r: "?r = (Ok (Some ch), c')" and nd: "next_delivered c ?q m ch c'"
      using recv_ordered_next [OF 1(3,2) True] by blast
    have "consumer_inv c'" using recv_ordered_delivers [OF r 1(2)] by (simp add: delivers_def)
    then have "map (\<lambda>x. unat (sc_seq_id x)) (recv_all c') = [unat (co_expected_seq c')..<m] \<and>
      mset (recv_all c') = held c' (ts_receiver (co_subscription c'))"
      using 1(1) r nd by (simp add: next_delivered_def)
    moreover have "recv_all c = ch # recv_all c'" by (simp add: recv_all.simps [of c] r)
    ultimately show ?thesis using nd True by (simp add: next_delivered_def upt_conv_Cons)
  next
    case False
    then have e: "?q = []" "co_reorder_buffer c = []" using gap_free_size [OF 1(3)] by auto
    then have "recv_all c = []" by (simp add: recv_all.simps [of c] recv_ordered_def)
    with e False show ?thesis by (simp add: held_def)
  qed
qed

end
