(* ===== verification/Stream_Theorems.thy ===== *)
theory Stream_Theorems
  imports Stream_Facts
begin

text \<open>
  The data streams: payload round trips, the interleaved sends of a shared producer, the recovery
  journal, and the path from concurrent sends to ordered delivery.
\<close>

subsection \<open>Interleaved sends\<close>

text \<open>Where one call of \<open>send\<close> stands: before \<open>fetch_add\<close>, before the journal, before the request
  channel, or returned with \<open>Ok\<close> or \<open>ClientClosed\<close>.\<close>

datatype send_pc =
    Waiting bytes
  | Numbered u64 bytes
  | Journaled stream_chunk
  | SendDone stream_chunk
  | SendFailed stream_chunk

definition wire_message :: "stream_producer \<Rightarrow> stream_chunk \<Rightarrow> tokio_message" where
  "wire_message p chunk = request_message (sp_topic p) (sp_qos p) False (encode_wire chunk)"

type_synonym send_state = "stream_producer \<times> send_pc multiset \<times> tokio_message list"

text \<open>One atomic access of one of the calls; the messages are in the order of the request channel.\<close>

inductive producer_step :: "send_state \<Rightarrow> send_state \<Rightarrow> bool" where
  step_number: "take_sequence p = (sq, p') \<Longrightarrow>
    producer_step (p, add_mset (Waiting payload) calls, out) (p', add_mset (Numbered sq payload) calls, out)"
| step_journal: "chunk = make_chunk p sq now payload \<Longrightarrow>
    producer_step (p, add_mset (Numbered sq payload) calls, out)
      (journal_chunk chunk p, add_mset (Journaled chunk) calls, out)"
| step_publish: "producer_step (p, add_mset (Journaled chunk) calls, out)
    (p, add_mset (SendDone chunk) calls, out @ [wire_message p chunk])"
| step_closed: "producer_step (p, add_mset (Journaled chunk) calls, out) (p, add_mset (SendFailed chunk) calls, out)"

inductive_simps producer_step_iff: "producer_step (p, calls, out) (p', calls', out')"

definition send_start :: "str \<Rightarrow> qos \<Rightarrow> nat \<Rightarrow> bytes multiset \<Rightarrow> send_state" where
  "send_start topic q cap payloads = (producer_new topic q cap, image_mset Waiting payloads, [])"

definition send_reachable :: "str \<Rightarrow> qos \<Rightarrow> nat \<Rightarrow> bytes multiset \<Rightarrow> send_state \<Rightarrow> bool" where
  "send_reachable topic q cap payloads s \<longleftrightarrow> producer_step\<^sup>*\<^sup>* (send_start topic q cap payloads) s"

fun pc_seq :: "send_pc \<Rightarrow> u64 option" where
  "pc_seq (Waiting _) = None"
| "pc_seq (Numbered sq _) = Some sq"
| "pc_seq (Journaled chunk) = Some (sc_seq_id chunk)"
| "pc_seq (SendDone chunk) = Some (sc_seq_id chunk)"
| "pc_seq (SendFailed chunk) = Some (sc_seq_id chunk)"

fun pc_payload :: "send_pc \<Rightarrow> bytes" where
  "pc_payload (Waiting b) = b"
| "pc_payload (Numbered _ b) = b"
| "pc_payload (Journaled chunk) = sc_payload chunk"
| "pc_payload (SendDone chunk) = sc_payload chunk"
| "pc_payload (SendFailed chunk) = sc_payload chunk"

fun pc_sent :: "send_pc \<Rightarrow> stream_chunk multiset" where
  "pc_sent (SendDone chunk) = {#chunk#}"
| "pc_sent _ = {#}"

text \<open>The numbers handed out so far.\<close>

definition issued :: "send_pc multiset \<Rightarrow> nat multiset" where
  "issued calls = image_mset (\<lambda>t. unat (the (pc_seq t))) (filter_mset (\<lambda>t. pc_seq t \<noteq> None) calls)"

definition sent_chunks :: "send_pc multiset \<Rightarrow> stream_chunk multiset" where
  "sent_chunks calls = \<Sum>\<^sub># (image_mset pc_sent calls)"

lemma calls_simps [simp]:
  "issued (add_mset t calls) = (case pc_seq t of None \<Rightarrow> issued calls | Some sq \<Rightarrow> add_mset (unat sq) (issued calls))"
  "sent_chunks (add_mset t calls) = pc_sent t + sent_chunks calls"
  "issued {#} = {#}" "sent_chunks {#} = {#}"
  by (auto simp: issued_def sent_chunks_def split: option.splits)

definition send_inv :: "str \<Rightarrow> nat \<Rightarrow> bytes multiset \<Rightarrow> send_state \<Rightarrow> bool" where
  "send_inv topic cap payloads s \<longleftrightarrow>
     (case s of (p, calls, out) \<Rightarrow>
        sp_topic p = topic \<and> sp_journal_capacity p = cap \<and>
        length (sp_recovery_journal p) \<le> max 1 cap \<and>
        0 < unat (sp_sequence p) \<and>
        unat (sp_sequence p) + size (filter_mset (\<lambda>t. pc_seq t = None) calls) = size calls + 1 \<and>
        issued calls = mset_set {1..<unat (sp_sequence p)} \<and>
        image_mset pc_payload calls = payloads \<and>
        (\<exists>chunks. out = map (wire_message p) chunks \<and> mset chunks = sent_chunks calls))"

lemma wire_message_updates [simp]:
  "wire_message (p\<lparr>sp_sequence := sq\<rparr>) = wire_message p"
  "wire_message (p\<lparr>sp_recovery_journal := j\<rparr>) = wire_message p"
  by (simp_all add: wire_message_def fun_eq_iff)

lemma send_inv_start: "send_inv topic cap payloads (send_start topic q cap payloads)"
proof -
  have "issued (image_mset Waiting payloads) = {#}" "sent_chunks (image_mset Waiting payloads) = {#}"
    "filter_mset (\<lambda>t. pc_seq t = None) (image_mset Waiting payloads) = image_mset Waiting payloads"
    by (induction payloads) simp_all
  then show ?thesis by (simp add: send_inv_def send_start_def producer_new_def image_mset.compositionality comp_def)
qed

lemma send_inv_step:
  "producer_step s s' \<Longrightarrow> send_inv topic cap payloads s \<Longrightarrow> size payloads < 2 ^ 64 - 1 \<Longrightarrow>
   send_inv topic cap payloads s'"
proof (induction rule: producer_step.induct)
  case (step_number p sq p' payload calls out)
  let ?n = "sp_sequence p"
  have "size calls < 2 ^ 64 - 2" using step_number(2,3) by (auto simp: send_inv_def)
  then have "?n \<noteq> - 1" using step_number(2) size_filter_mset_lesseq [of "\<lambda>t. pc_seq t = None" calls]
    by (auto simp: send_inv_def unat_max_u64)
  then have n: "unat (?n + 1) = Suc (unat ?n)" by (rule unat_succ_u64)
  have "{1..<Suc (unat ?n)} = insert (unat ?n) {1..<unat ?n}" using step_number(2) by (auto simp: send_inv_def)
  with n step_number show ?case by (auto simp: send_inv_def take_sequence_def)
next
  case (step_journal chunk p sq now payload calls out)
  then show ?case by (auto simp: send_inv_def make_chunk_def journal_chunk_def Let_def)
next
  case (step_publish p chunk calls out)
  then obtain chunks where "out = map (wire_message p) chunks" "mset chunks = sent_chunks calls"
    by (auto simp: send_inv_def)
  then have "\<exists>cs. out @ [wire_message p chunk] = map (wire_message p) cs \<and> mset cs = add_mset chunk (sent_chunks calls)"
    by (intro exI [of _ "chunks @ [chunk]"]) simp
  with step_publish show ?case by (auto simp: send_inv_def)
next
  case (step_closed p chunk calls out)
  then show ?case by (auto simp: send_inv_def)
qed

lemma send_inv_reachable:
  assumes "send_reachable topic q cap payloads s" "size payloads < 2 ^ 64 - 1"
  shows "send_inv topic cap payloads s"
  using assms(1) unfolding send_reachable_def
  by (induction rule: rtranclp_induct) (auto intro: send_inv_start send_inv_step assms(2))

lemma chunk_of_wire_message: "chunk_of (wire_message p chunk) = chunk\<lparr>sc_topic := sp_topic p, sc_is_recovery := False\<rparr>"
  using decode_wire_chunk_of [of "wire_message p chunk"]
  by (simp add: wire_message_def request_message_def decode_encode_wire)

lemma all_sent: "\<forall>t \<in># calls. \<exists>chunk. t = SendDone chunk \<Longrightarrow>
    issued calls = image_mset (\<lambda>c. unat (sc_seq_id c)) (sent_chunks calls) \<and>
    image_mset pc_payload calls = image_mset sc_payload (sent_chunks calls) \<and>
    filter_mset (\<lambda>t. pc_seq t = None) calls = {#}"
  by (induction calls) auto

subsection \<open>Properties\<close>

text \<open>While any number of threads (below \<open>2 ^ 64 - 1\<close>) send over one shared producer, in every
  interleaving of their accesses, the sequence numbers handed out are exactly \<open>1\<close> up to below the
  shared counter, each once; the journal never holds more than the larger of \<open>1\<close> and its capacity;
  and the request channel holds, once each, the messages of the calls that returned \<open>Ok\<close>.\<close>

lemma concurrent_sends_are_numbered:
  assumes "send_reachable topic q cap payloads (p, calls, out)" "size payloads < 2 ^ 64 - 1"
  shows "issued calls = mset_set {1..<unat (sp_sequence p)} \<and>
    length (sp_recovery_journal p) \<le> max 1 cap \<and>
    mset out = image_mset (wire_message p) (sent_chunks calls)"
  using send_inv_reachable [OF assms] by (auto simp: send_inv_def)

text \<open>Two calls: the second takes its number later but publishes first.\<close>

lemma interleaved_run:
  "\<exists>p c1 c2 out. send_reachable [0x74] AtLeastOnce 8 {#[1], [2]#} (p, {#SendDone c1, SendDone c2#}, out)"
proof -
  let ?steps = "producer_step\<^sup>*\<^sup>*"
  obtain p0 where p0: "send_start [0x74] AtLeastOnce 8 {#[1], [2]#} = (p0, {#Waiting [1], Waiting [2]#}, [])"
    by (simp add: send_start_def)
  obtain s1 p1 where "take_sequence p0 = (s1, p1)" by fastforce
  then have "producer_step (p0, {#Waiting [1], Waiting [2]#}, []) (p1, {#Numbered s1 [1], Waiting [2]#}, [])"
    by (rule step_number)
  then have 1: "producer_step (p0, {#Waiting [1], Waiting [2]#}, []) (p1, {#Waiting [2], Numbered s1 [1]#}, [])"
    unfolding add_mset_commute [of "Numbered s1 [1]"] .
  obtain s2 p2 where "take_sequence p1 = (s2, p2)" by fastforce
  then have 2: "producer_step (p1, {#Waiting [2], Numbered s1 [1]#}, []) (p2, {#Numbered s2 [2], Numbered s1 [1]#}, [])"
    by (rule step_number)
  obtain p3 c2 where 3: "producer_step (p2, {#Numbered s2 [2], Numbered s1 [1]#}, []) (p3, {#Journaled c2, Numbered s1 [1]#}, [])"
    using step_journal by blast
  have 4: "producer_step (p3, {#Journaled c2, Numbered s1 [1]#}, []) (p3, {#Numbered s1 [1], SendDone c2#}, [] @ [wire_message p3 c2])"
    unfolding add_mset_commute [of "Numbered s1 [1]"] by (rule step_publish)
  obtain p5 c1 where 5: "producer_step (p3, {#Numbered s1 [1], SendDone c2#}, [] @ [wire_message p3 c2])
      (p5, {#Journaled c1, SendDone c2#}, [] @ [wire_message p3 c2])"
    using step_journal by blast
  have "?steps (p0, {#Waiting [1], Waiting [2]#}, [])
      (p5, {#SendDone c1, SendDone c2#}, ([] @ [wire_message p3 c2]) @ [wire_message p5 c1])"
    by (rule converse_rtranclp_into_rtranclp, rule 1 2 3 4 5 step_publish)+ (rule rtranclp.rtrancl_refl)
  then show ?thesis unfolding send_reachable_def p0 by blast
qed

lemma concurrent_sends_are_numbered_witness:
  "\<exists>p calls out. send_reachable [0x74] AtLeastOnce 8 {#[1], [2]#} (p, calls, out) \<and>
    issued calls = mset_set {1..<unat (sp_sequence p)}"
proof -
  obtain p c1 c2 out where "send_reachable [0x74] AtLeastOnce 8 {#[1], [2]#} (p, {#SendDone c1, SendDone c2#}, out)"
    using interleaved_run by blast
  then show ?thesis using concurrent_sends_are_numbered by fastforce
qed

text \<open>The chunks that were sent, as the receiver of their messages sees them.\<close>

lemma sent_chunks:
  assumes "send_reachable topic q cap payloads (p, calls, out)" "size payloads < 2 ^ 64 - 1"
    and "\<forall>t \<in># calls. \<exists>chunk. t = SendDone chunk"
  shows "image_mset (\<lambda>c. unat (sc_seq_id c)) (mset (map chunk_of out)) = mset_set {1..<size payloads + 1}"
    and "image_mset sc_payload (mset (map chunk_of out)) = payloads"
proof -
  let ?norm = "\<lambda>c. c\<lparr>sc_topic := sp_topic p, sc_is_recovery := False\<rparr>"
  have inv: "send_inv topic cap payloads (p, calls, out)" by (rule send_inv_reachable [OF assms(1,2)])
  note sent = all_sent [OF assms(3)]
  have n: "unat (sp_sequence p) = size payloads + 1" using inv sent by (auto simp: send_inv_def)
  obtain chunks where "out = map (wire_message p) chunks" "mset chunks = sent_chunks calls"
    using inv by (auto simp: send_inv_def)
  then have out: "mset (map chunk_of out) = image_mset ?norm (sent_chunks calls)"
    by (simp flip: mset_map) (simp add: comp_def chunk_of_wire_message image_mset.compositionality)
  show "image_mset (\<lambda>c. unat (sc_seq_id c)) (mset (map chunk_of out)) = mset_set {1..<size payloads + 1}"
    using inv n sent unfolding out by (simp add: send_inv_def image_mset.compositionality comp_def)
  show "image_mset sc_payload (mset (map chunk_of out)) = payloads"
    using inv sent unfolding out by (simp add: send_inv_def image_mset.compositionality comp_def)
qed

text \<open>The consumer only looks at the chunks of the messages, not at what the broker does to the rest of
  them.\<close>

lemma sent_chunks_arrive_in_order:
  assumes "send_reachable topic q cap payloads (p, calls, out)" "size payloads < 2 ^ 64 - 1"
    and "\<forall>t \<in># calls. \<exists>chunk. t = SendDone chunk"
    and "mset (map chunk_of msgs) = mset (map chunk_of out)" "within_window max_window (map seq_number msgs)"
  shows "map (\<lambda>c. unat (sc_seq_id c)) (recv_all (consumer_new (topic_subscription_new f msgs) max_window)) =
      [1..<size payloads + 1] \<and>
    mset (map sc_payload (recv_all (consumer_new (topic_subscription_new f msgs) max_window))) = payloads"
proof -
  let ?c = "consumer_new (topic_subscription_new f msgs) max_window"
  note sent = sent_chunks [OF assms(1-3), folded assms(4)]
  have held: "held ?c msgs = mset (map chunk_of msgs)" by (simp add: held_def consumer_new_def)
  then have "gap_free ?c msgs (size payloads + 1)"
    using assms(2) windowed_start [OF assms(5)] sent(1) by (simp add: gap_free_def consumer_new_def)
  then have "map (\<lambda>c. unat (sc_seq_id c)) (recv_all ?c) = [1..<size payloads + 1] \<and> mset (recv_all ?c) = held ?c msgs"
    using recv_all_in_order [OF consumer_inv_new, of "topic_subscription_new f msgs" max_window "size payloads + 1"]
    by (simp add: consumer_new_def topic_subscription_new_def)
  with sent(2) show ?thesis by (simp add: held)
qed

text \<open>What the sends put into the request channel.\<close>

lemma sent_messages:
  assumes "send_reachable topic q cap payloads (p, calls, out)" "size payloads < 2 ^ 64 - 1"
    and "\<forall>t \<in># calls. \<exists>chunk. t = SendDone chunk"
  shows "length out = size payloads"
    and "m \<in> set out \<Longrightarrow> tm_topic m = topic \<and> (\<exists>b \<in># payloads. length (tm_payload m) = 16 + length b)"
proof -
  have inv: "send_inv topic cap payloads (p, calls, out)" by (rule send_inv_reachable [OF assms(1,2)])
  note sent = all_sent [OF assms(3)]
  obtain chunks where out: "out = map (wire_message p) chunks" "mset chunks = sent_chunks calls" and p: "sp_topic p = topic"
    using inv by (auto simp: send_inv_def)
  have pay: "mset (map sc_payload chunks) = payloads" using inv sent out(2) by (simp add: send_inv_def)
  then have "length chunks = size payloads" by (metis length_map size_mset)
  with out(1) show "length out = size payloads" by simp
  assume "m \<in> set out"
  then obtain x where x: "x \<in> set chunks" "m = wire_message p x" using out(1) by auto
  have "set_mset payloads = sc_payload ` set chunks" by (simp flip: pay)
  with x have "sc_payload x \<in># payloads" by simp
  then show "tm_topic m = topic \<and> (\<exists>b \<in># payloads. length (tm_payload m) = 16 + length b)"
    using x(2) p by (intro conjI bexI [of _ "sc_payload x"]) (simp_all add: wire_message_def request_message_def encode_wire_def)
qed

text \<open>C6. If all the concurrent sends, fewer than \<open>2^64 - 1\<close>, succeed and the broker delivers their messages
  once each, in an order in which at no time more than \<open>max_window\<close> of the messages that have arrived wait
  for a smaller number, then the consumer yields them numbered \<open>1, 2, \<dots>\<close> in this order, and their payloads are
  those that were sent. Streams of any length are meant; those of up to \<open>max_window + 1\<close> messages are always
  within the window.\<close>

theorem concurrent_sends_arrive_in_order:
  assumes "send_reachable topic q cap payloads (p, calls, out)" "size payloads < 2 ^ 64 - 1"
    and "\<forall>t \<in># calls. \<exists>chunk. t = SendDone chunk"
    and "mset msgs = mset out" "within_window max_window (map seq_number msgs)"
  shows "map (\<lambda>c. unat (sc_seq_id c)) (recv_all (consumer_new (topic_subscription_new f msgs) max_window)) =
      [1..<size payloads + 1] \<and>
    mset (map sc_payload (recv_all (consumer_new (topic_subscription_new f msgs) max_window))) = payloads"
proof -
  have "mset (map chunk_of msgs) = mset (map chunk_of out)" using assms(4) by simp
  then show ?thesis by (rule sent_chunks_arrive_in_order [OF assms(1-3) _ assms(5)])
qed

lemma concurrent_sends_arrive_in_order_witness:
  "\<exists>p calls out. send_reachable [0x74] AtLeastOnce 8 {#[1], [2]#} (p, calls, out) \<and>
    map (\<lambda>c. unat (sc_seq_id c)) (recv_all (consumer_new (topic_subscription_new [0x74] (rev out)) 1)) = [1, 2]"
proof -
  obtain p c1 c2 out where r: "send_reachable [0x74] AtLeastOnce 8 {#[1], [2]#} (p, {#SendDone c1, SendDone c2#}, out)"
    using interleaved_run by blast
  have "within_window 1 (map seq_number (rev out))"
    by (rule short_within_window [of _ 3]) (use sent_chunks(1) [OF r] in \<open>simp_all add: comp_def image_mset.compositionality numeral_3_eq_3\<close>)
  then have "map (\<lambda>c. unat (sc_seq_id c)) (recv_all (consumer_new (topic_subscription_new [0x74] (rev out)) 1)) =
      [1..<size {#[1], [2 :: byte]#} + 1]"
    using concurrent_sends_arrive_in_order [OF r, of "rev out" 1 "[0x74]"] by simp
  also have "\<dots> = [1, 2]" by (simp add: upt_rec)
  finally show ?thesis by (intro exI conjI) (rule r)
qed

text \<open>C33. Whatever arrives, in whatever order and with whatever losses and repetitions, the numbered
  chunks a consumer yields have strictly increasing numbers: none is delivered twice or late.\<close>

theorem delivered_ids_increase:
  "sorted_wrt (<) (map sc_seq_id (filter (\<lambda>x. sc_seq_id x \<noteq> 0) (recv_all (consumer_new sub max_window))))"
  using recv_all_increasing [OF consumer_inv_new] by blast

subsection \<open>The recovery journal\<close>

lemma journal_capacity_fold [simp]:
  "sp_journal_capacity (fold journal_chunk cs p) = sp_journal_capacity p"
  "sp_topic (fold journal_chunk cs p) = sp_topic p" "sp_qos (fold journal_chunk cs p) = sp_qos p"
  by (induction cs arbitrary: p) (simp_all add: journal_chunk_def Let_def)

lemma journal_chunk_sel:
  "sp_recovery_journal (journal_chunk c p) =
   (if sp_journal_capacity p \<le> length (sp_recovery_journal p) then tl (sp_recovery_journal p)
    else sp_recovery_journal p) @ [c]"
  by (simp add: journal_chunk_def Let_def)

lemma journal_keeps_latest:
  "sp_recovery_journal (fold journal_chunk cs (producer_new topic q cap)) = drop (length cs - max 1 cap) cs"
proof (induction cs rule: rev_induct)
  case Nil
  then show ?case by (simp add: producer_new_def)
next
  case (snoc c cs)
  let ?j = "drop (length cs - max 1 cap) cs"
  have cap: "sp_journal_capacity (producer_new topic q cap) = cap" by (simp add: producer_new_def)
  have "sp_recovery_journal (fold journal_chunk (cs @ [c]) (producer_new topic q cap)) =
      (if cap \<le> length ?j then tl ?j else ?j) @ [c]"
    unfolding fold_append comp_apply fold.simps id_apply journal_chunk_sel snoc cap journal_capacity_fold by (rule refl)
  also have "(if cap \<le> length ?j then tl ?j else ?j) = drop (Suc (length cs) - max 1 cap) cs"
  proof (cases "max 1 cap \<le> length cs")
    case True
    then show ?thesis by (simp add: tl_drop Suc_diff_le) (simp flip: drop_Suc tl_drop)
  next
    case False
    then show ?thesis by (cases cs) auto
  qed
  finally show ?case by simp
qed

lemma wire_message_recovery [simp]:
  fixes c :: stream_chunk
  shows "wire_message p (c\<lparr>sc_is_recovery := bl\<rparr>) = wire_message p c"
  by (simp add: wire_message_def encode_wire_def)

lemma replay_chunks_accepted:
  fixes ch :: "('w, 'r, 'c, 'rx, 'io) async_channels"
  assumes "\<And>req w. ac_send ch req w = (True, store req w)"
  shows "replay_chunks ch p n cs w =
    (Ok (n + length cs), fold (\<lambda>c. store (ReqPublish (wire_message p c) None)) cs w)"
proof (induction cs arbitrary: n w)
  case (Cons c cs)
  have "request_message (sp_topic p) (sp_qos p) False (encode_wire (c\<lparr>sc_is_recovery := True\<rparr>)) = wire_message p c"
    using wire_message_recovery [of p True c] by (simp add: wire_message_def)
  with Cons show ?case
    by (simp add: Let_def async_publish_def or_closed_def assms tokio_message_new_def)
qed simp

text \<open>Replaying the journal after the chunks \<open>cs\<close> were journaled publishes again, oldest first, the
  latest of them, as many as the larger of \<open>1\<close> and the capacity, each as the message of its first
  transmission: with its old number and without the DUP flag.\<close>

lemma replay_resends_latest:
  fixes ch :: "('w, 'r, 'c, 'rx, 'io) async_channels"
  assumes "\<And>req w. ac_send ch req w = (True, store req w)"
    and "p = fold journal_chunk cs (producer_new topic q cap)"
  shows "replay_recovery_journal ch p w =
    (Ok (min (length cs) (max 1 cap)),
     fold (\<lambda>c. store (ReqPublish (wire_message p c) None)) (drop (length cs - max 1 cap) cs) w)"
  unfolding replay_recovery_journal_def replay_chunks_accepted [OF assms(1)] assms(2) journal_keeps_latest
  by simp

lemma replay_resends_latest_witness:
  "\<exists>(ch :: (stream_chunk list, unit, unit, unit, unit) async_channels) p c. sp_journal_capacity p = 1 \<and>
     replay_recovery_journal ch p w = (Ok 1, c # w)"
proof -
  let ?p = "producer_new [0x74] AtLeastOnce 1"
  let ?c = "\<lambda>n. make_chunk ?p n 0 [1]"
  let ?ch = "\<lparr>ac_send = \<lambda>req w. (True, ?c 2 # w), ac_oneshot = Pair (), ac_channel = \<lambda>_. Pair ((), ()),
    ac_await_unit = \<lambda>_. Pair None, ac_await_id = \<lambda>_. Pair None, ac_await_count = \<lambda>_. Pair None\<rparr>
    :: (stream_chunk list, unit, unit, unit, unit) async_channels"
  show ?thesis
    using replay_resends_latest [of ?ch "\<lambda>req w. ?c 2 # w" "fold journal_chunk [?c 1, ?c 2] ?p" "[?c 1, ?c 2]"
        "[0x74]" AtLeastOnce 1 w]
    by (intro exI [of _ ?ch] exI [of _ "fold journal_chunk [?c 1, ?c 2] ?p"] exI [of _ "?c 2"])
       (simp add: journal_chunk_def Let_def producer_new_def)
qed

subsection \<open>Typed payloads\<close>

text \<open>What the length fields can express; \<open>String\<close>s are valid UTF-8.\<close>

fun sensor_fits :: "sensor_data \<Rightarrow> bool" where
  "sensor_fits (TimeSeries vs) \<longleftrightarrow> length vs \<le> 65535"
| "sensor_fits (TimeSeriesF32 vs) \<longleftrightarrow> length vs \<le> 65535"
| "sensor_fits (Json json) \<longleftrightarrow> valid_utf8 json"
| "sensor_fits (ImageFrame mime d) \<longleftrightarrow> valid_utf8 mime \<and> length mime \<le> 255"
| "sensor_fits _ \<longleftrightarrow> True"

lemma sensor_roundtrip: "sensor_fits d \<Longrightarrow> sensor_decode (sensor_encode d) = d"
proof (cases d)
  case (TimeSeries vs)
  moreover assume "sensor_fits d"
  ultimately show ?thesis using sensor_decode_timeseries(1) [of vs] by (simp add: mod_less)
next
  case (TimeSeriesF32 vs)
  moreover assume "sensor_fits d"
  ultimately show ?thesis using sensor_decode_timeseries(2) [of vs] by (simp add: mod_less)
next
  case (ImageFrame mime img)
  moreover assume "sensor_fits d"
  ultimately show ?thesis using sensor_decode_image [of mime img] by simp
next
  case (AudioPcm sr chs pcm)
  then show ?thesis using sensor_decode_audio by simp
qed (simp_all add: sensor_decode_def utf8_lossy_valid)

text \<open>C34. A typed payload that fits its length fields survives the whole way: encoded, wrapped in a
  chunk, put on the wire, decoded from the message and read back, with number and time stamp. (Without
  the first hypothesis it does not: \<open>sensor_decode_timeseries\<close>.)\<close>

theorem typed_payload_roundtrip:
  assumes "sensor_fits d" "sc_payload chunk = sensor_encode d"
  shows "\<exists>chunk'. decode_wire topic (encode_wire chunk) = (Ok chunk' :: ('io client_error, _) outcome) \<and>
      to_sensor_data chunk' = d \<and> sc_seq_id chunk' = sc_seq_id chunk \<and>
      sc_timestamp_ns chunk' = sc_timestamp_ns chunk \<and> sc_topic chunk' = topic"
  using assms by (simp add: decode_encode_wire to_sensor_data_def sensor_roundtrip)

lemma typed_payload_roundtrip_witness:
  "\<exists>chunk'. decode_wire [0x74] (encode_wire (make_chunk (producer_new [0x74] AtMostOnce 4) 1 7 (sensor_encode (Json [0x7B, 0x7D])))) =
      (Ok chunk' :: (unit client_error, _) outcome) \<and> to_sensor_data chunk' = Json [0x7B, 0x7D]"
  using typed_payload_roundtrip [of "Json [0x7B, 0x7D]"
      "make_chunk (producer_new [0x74] AtMostOnce 4) 1 7 (sensor_encode (Json [0x7B, 0x7D]))" "[0x74]"]
  by (auto simp: make_chunk_def)

end
