(* ===== verification/Tokio_Options.thy ===== *)
theory Tokio_Options
  imports Tokio_Types Packet_Types
begin

text \<open>
  \<open>mqtt-tokio/src/options.rs\<close>: the client's configuration and the parser of broker URIs. Durations
  are in nanoseconds. The \<open>f64\<close> arithmetic of the backoff is the argument \<open>f64_ops\<close> over a type
  \<open>'f\<close>; the cargo features \<open>tokio-tls\<close> and \<open>transport-quic\<close> are arguments of \<open>from_uri\<close>.
\<close>

subsection \<open>Policies\<close>

datatype drop_strategy = DropOldest | ErrorOnFull | Block

record offline_queue_policy =
  oq_capacity :: nat
  oq_drop_strategy :: drop_strategy

definition offline_queue_policy_default :: offline_queue_policy where
  "offline_queue_policy_default = \<lparr>oq_capacity = 512, oq_drop_strategy = DropOldest\<rparr>"

record 'f reconnect_policy =
  rc_enabled :: bool
  rc_initial_delay :: nat
  rc_max_delay :: nat
  rc_multiplier :: 'f
  rc_max_retries :: "nat option"

text \<open>\<open>fo_from_secs\<close> is \<open>Duration::from_secs_f64\<close>, which panics on what is no duration.\<close>

record 'f f64_ops =
  fo_two :: 'f
  fo_powi :: "'f \<Rightarrow> nat \<Rightarrow> 'f"
  fo_mult :: "'f \<Rightarrow> 'f \<Rightarrow> 'f"
  fo_min :: "'f \<Rightarrow> 'f \<Rightarrow> 'f"
  fo_as_secs :: "nat \<Rightarrow> 'f"
  fo_from_secs :: "'f \<Rightarrow> nat option"

definition reconnect_policy_default :: "'f f64_ops \<Rightarrow> 'f reconnect_policy" where
  "reconnect_policy_default fo =
     \<lparr>rc_enabled = True, rc_initial_delay = 500 * 1000000, rc_max_delay = 30 * 1000000000,
      rc_multiplier = fo_two fo, rc_max_retries = None\<rparr>"

definition compute_delay :: "'f f64_ops \<Rightarrow> 'f reconnect_policy \<Rightarrow> nat \<Rightarrow> ('e, nat) outcome" where
  "compute_delay fo policy attempt =
     (if attempt \<le> 1 then Ok 0
      else
        (let exp = min (attempt - 2) 10;
             factor = fo_powi fo (rc_multiplier policy) exp;
             computed = fo_mult fo (fo_as_secs fo (rc_initial_delay policy)) factor;
             clamped = fo_min fo computed (fo_as_secs fo (rc_max_delay policy)) in
         case fo_from_secs fo clamped of Some d \<Rightarrow> Ok d | None \<Rightarrow> Panic))"

subsection \<open>Options\<close>

datatype transport_target =
    Tcp str u16
  | Tls str u16 str
  | Quic str u16 str
  | Unix str
  | NamedPipe str

record 'f client_options =
  op_target :: transport_target
  op_client_id :: str
  op_keep_alive :: nat
  op_clean_session :: bool
  op_username :: "str option"
  op_password :: "str option"
  op_version :: mqtt_version
  op_will :: "tokio_message option"
  op_reconnect :: "'f reconnect_policy"
  op_offline_queue :: offline_queue_policy
  op_recovery :: data_recovery_policy
  op_channel_capacity :: nat
  op_max_packet_size :: nat

definition client_options_new :: "'f f64_ops \<Rightarrow> str \<Rightarrow> str \<Rightarrow> u16 \<Rightarrow> 'f client_options" where
  "client_options_new fo client_id host port =
     \<lparr>op_target = Tcp host port, op_client_id = client_id, op_keep_alive = 30 * 1000000000,
      op_clean_session = True, op_username = None, op_password = None, op_version = V3_1_1,
      op_will = None, op_reconnect = reconnect_policy_default fo,
      op_offline_queue = offline_queue_policy_default, op_recovery = data_recovery_policy_default,
      op_channel_capacity = 1024, op_max_packet_size = 65536\<rparr>"

definition opts_with_credentials :: "str \<Rightarrow> str \<Rightarrow> 'f client_options \<Rightarrow> 'f client_options" where
  "opts_with_credentials username password opts = opts\<lparr>op_username := Some username, op_password := Some password\<rparr>"

definition opts_with_keep_alive :: "nat \<Rightarrow> 'f client_options \<Rightarrow> 'f client_options" where
  "opts_with_keep_alive keep_alive opts = opts\<lparr>op_keep_alive := keep_alive\<rparr>"

definition opts_with_clean_session :: "bool \<Rightarrow> 'f client_options \<Rightarrow> 'f client_options" where
  "opts_with_clean_session clean opts = opts\<lparr>op_clean_session := clean\<rparr>"

definition opts_with_version :: "mqtt_version \<Rightarrow> 'f client_options \<Rightarrow> 'f client_options" where
  "opts_with_version version opts = opts\<lparr>op_version := version\<rparr>"

definition opts_with_will :: "tokio_message \<Rightarrow> 'f client_options \<Rightarrow> 'f client_options" where
  "opts_with_will will opts = opts\<lparr>op_will := Some will\<rparr>"

definition opts_with_reconnect :: "'f reconnect_policy \<Rightarrow> 'f client_options \<Rightarrow> 'f client_options" where
  "opts_with_reconnect reconnect opts = opts\<lparr>op_reconnect := reconnect\<rparr>"

definition opts_with_offline_queue :: "offline_queue_policy \<Rightarrow> 'f client_options \<Rightarrow> 'f client_options" where
  "opts_with_offline_queue offline_queue opts = opts\<lparr>op_offline_queue := offline_queue\<rparr>"

definition opts_with_recovery :: "data_recovery_policy \<Rightarrow> 'f client_options \<Rightarrow> 'f client_options" where
  "opts_with_recovery recovery opts = opts\<lparr>op_recovery := recovery\<rparr>"

definition opts_with_channel_capacity :: "nat \<Rightarrow> 'f client_options \<Rightarrow> 'f client_options" where
  "opts_with_channel_capacity capacity opts = opts\<lparr>op_channel_capacity := capacity\<rparr>"

definition opts_with_max_packet_size :: "nat \<Rightarrow> 'f client_options \<Rightarrow> 'f client_options" where
  "opts_with_max_packet_size max_size opts = opts\<lparr>op_max_packet_size := max_size\<rparr>"

subsection \<open>URIs\<close>

text \<open>\<open>str::parse::<u16>\<close>: an optional plus sign and at least one decimal digit, below 65536.\<close>

fun parse_digits :: "nat \<Rightarrow> bytes \<Rightarrow> nat option" where
  "parse_digits acc [] = Some acc"
| "parse_digits acc (d # ds) =
     (if 0x30 \<le> d \<and> d \<le> 0x39 \<and> acc * 10 + (unat d - 0x30) < 65536
      then parse_digits (acc * 10 + (unat d - 0x30)) ds else None)"

definition parse_u16 :: "str \<Rightarrow> u16 option" where
  "parse_u16 s =
     (let digits = (case s of [] \<Rightarrow> [] | c # rest \<Rightarrow> if c = 0x2B then rest else s) in
      if digits = [] then None else map_option of_nat (parse_digits 0 digits))"

text \<open>\<open>s.split_once(c)\<close>\<close>

fun split_once :: "byte \<Rightarrow> str \<Rightarrow> (str \<times> str) option" where
  "split_once c [] = None"
| "split_once c (x # xs) =
     (if x = c then Some ([], xs) else map_option (\<lambda>(a, b). (x # a, b)) (split_once c xs))"

definition parse_host_port :: "str \<Rightarrow> u16 \<Rightarrow> ('io client_error, str \<times> u16) outcome" where
  "parse_host_port s default_port =
     (case split_once 0x3A s of
        Some (host, port_str) \<Rightarrow>
          (case parse_u16 port_str of
             Some port \<Rightarrow> Ok (host, port)
           | None \<Rightarrow> Err (CE_InvalidTopic (text_of ''Invalid port '' @ [0x27] @ port_str @ [0x27] @ text_of '' in URI'')))
      | None \<Rightarrow> Ok (s, default_port))"

definition strip_prefix :: "str \<Rightarrow> str \<Rightarrow> str option" where
  "strip_prefix pre s = (if take (length pre) s = pre then Some (drop (length pre) s) else None)"

definition quoted :: "string \<Rightarrow> str" where
  "quoted s = [0x27] @ text_of s @ [0x27]"

definition from_uri ::
  "'f f64_ops \<Rightarrow> bool \<Rightarrow> bool \<Rightarrow> str \<Rightarrow> str \<Rightarrow> ('io client_error, 'f client_options) outcome" where
  "from_uri fo tokio_tls transport_quic client_id uri =
     (case strip_prefix (text_of ''mqtt://'') uri of
        Some rest \<Rightarrow>
          and_then (parse_host_port rest 1883) (\<lambda>(host, port). Ok (client_options_new fo client_id host port))
      | None \<Rightarrow>
     (case strip_prefix (text_of ''mqtts://'') uri of
        Some rest \<Rightarrow>
          (if tokio_tls then
             and_then (parse_host_port rest 8883) (\<lambda>(host, port).
               Ok ((client_options_new fo client_id host port)\<lparr>op_target := Tls host port host\<rparr>))
           else Err (CE_Tls (text_of ''Feature '' @ quoted ''tokio-tls'' @ text_of '' is required for mqtts:// URIs'')))
      | None \<Rightarrow>
     (case strip_prefix (text_of ''quic://'') uri of
        Some rest \<Rightarrow>
          (if transport_quic then
             and_then (parse_host_port rest 14567) (\<lambda>(host, port).
               Ok ((client_options_new fo client_id host port)\<lparr>op_target := Quic host port host\<rparr>))
           else Err (CE_Quic (text_of ''Feature '' @ quoted ''transport-quic'' @ text_of '' is required for quic:// URIs'')))
      | None \<Rightarrow>
     (case strip_prefix (text_of ''unix://'') uri of
        Some path \<Rightarrow> Ok ((client_options_new fo client_id (text_of ''localhost'') 0)\<lparr>op_target := Unix path\<rparr>)
      | None \<Rightarrow>
     (case strip_prefix (text_of ''pipe://'') uri of
        Some path \<Rightarrow> Ok ((client_options_new fo client_id (text_of ''localhost'') 0)\<lparr>op_target := NamedPipe path\<rparr>)
      | None \<Rightarrow>
          Err (CE_InvalidTopic (text_of ''Unsupported scheme in URI '' @ [0x27] @ uri @ [0x27] @
            text_of ''. Expected '' @ quoted ''mqtt://'' @ text_of '', '' @ quoted ''mqtts://'' @ text_of '', '' @
            quoted ''quic://'' @ text_of '', '' @ quoted ''unix://'' @ text_of '', or '' @ quoted ''pipe://'')))))))"

subsection \<open>Facts\<close>

lemma strip_prefix_append [simp]: "strip_prefix pre (pre @ s) = Some s"
  by (simp add: strip_prefix_def)

lemma split_once_append [simp]: "c \<notin> set a \<Longrightarrow> split_once c (a @ c # rest) = Some (a, rest)"
  by (induction a) auto

lemma split_once_None: "split_once c s = None \<longleftrightarrow> c \<notin> set s"
  by (induction s) auto

lemma parse_digits_append:
  "parse_digits acc (a @ b) = (case parse_digits acc a of Some n \<Rightarrow> parse_digits n b | None \<Rightarrow> None)"
  by (induction acc a rule: parse_digits.induct) auto

lemma text_of_append [simp]: "text_of (a @ b) = text_of a @ text_of b"
  by (simp add: text_of_def)

lemma parse_digit:
  assumes "n < 10" "acc * 10 + n < 65536"
  shows "parse_digits acc (text_of [hex_digit n]) = Some (acc * 10 + n)"
proof -
  have "n \<in> {0, 1, 2, 3, 4, 5, 6, 7, 8, 9}" using assms(1) by auto
  then show ?thesis using assms(2) by (auto simp: text_of_def hex_digit_def)
qed

lemma parse_decimal: "n < 65536 \<Longrightarrow> parse_digits 0 (text_of (decimal n)) = Some n"
proof (induction n rule: decimal.induct)
  case (1 n)
  show ?case
  proof (cases "n < 10")
    case True
    then show ?thesis using parse_digit [of n 0] by (simp add: decimal.simps)
  next
    case False
    with 1 have "parse_digits 0 (text_of (decimal (n div 10))) = Some (n div 10)" by simp
    moreover have "n div 10 * 10 + n mod 10 = n" by simp
    ultimately show ?thesis
      using False 1(2) parse_digit [of "n mod 10" "n div 10"] decimal.simps [of n]
      by (simp add: parse_digits_append)
  qed
qed

lemma decimal_no_plus: "c \<in> set (text_of (decimal n)) \<Longrightarrow> c \<noteq> 0x2B"
proof (induction n rule: decimal.induct)
  case (1 n)
  have digit: "of_nat (of_char (hex_digit m)) \<noteq> (0x2B :: byte)" if "m < 10" for m
  proof -
    have "m \<in> {0, 1, 2, 3, 4, 5, 6, 7, 8, 9}" using that by auto
    then show ?thesis by (auto simp: hex_digit_def)
  qed
  show ?case
  proof (cases "n < 10")
    case True
    then show ?thesis using 1(2) digit [of n] by (auto simp: decimal.simps text_of_def)
  next
    case False
    then show ?thesis using 1 digit [of "n mod 10"] decimal.simps [of n] by (auto simp: text_of_def)
  qed
qed

lemma decimal_neq_Nil: "decimal n \<noteq> []"
  by (subst decimal.simps) simp

lemma parse_u16_decimal: "n < 65536 \<Longrightarrow> parse_u16 (text_of (decimal n)) = Some (of_nat n)"
  using parse_decimal [of n] decimal_no_plus [of _ n] decimal_neq_Nil [of n]
  by (auto simp: parse_u16_def Let_def text_of_def split: list.splits)

end
