(* ===== verification/Tokio_Transport.thy ===== *)
theory Tokio_Transport
  imports Tokio_Options
begin

text \<open>
  \<open>mqtt-tokio/src/transport.rs\<close> and \<open>fallback.rs\<close>: how a target is connected and what a boxed
  transport offers. Sockets, TLS and QUIC are the \<open>tokio\<close>, \<open>tokio-rustls\<close> and \<open>quinn\<close> crates: their
  operations are the fields of \<open>net_ops\<close>, over a state \<open>'w\<close> of the network, streams \<open>'s\<close>, host
  addresses \<open>'a\<close> and QUIC connections \<open>'q\<close>; their error texts are \<open>str\<close>.
\<close>

subsection \<open>Transports\<close>

text \<open>The \<open>AsyncTransport\<close> trait object, as the event loop uses it. \<open>bt_read n\<close> reads into a buffer of
  \<open>n\<close> bytes and yields the bytes that came.\<close>

record ('w, 'io) boxed_transport =
  bt_read :: "nat \<Rightarrow> 'w \<Rightarrow> ('io, bytes) outcome \<times> 'w"
  bt_write_all :: "bytes \<Rightarrow> 'w \<Rightarrow> ('io, unit) outcome \<times> 'w"
  bt_flush :: "'w \<Rightarrow> ('io, unit) outcome \<times> 'w"
  bt_send_datagram :: "bytes \<Rightarrow> 'w \<Rightarrow> ('io client_error, unit) outcome \<times> 'w"

text \<open>The default method of the trait.\<close>

definition send_datagram_default :: "bytes \<Rightarrow> 'w \<Rightarrow> ('io client_error, unit) outcome \<times> 'w" where
  "send_datagram_default d w =
     (Err (CE_Quic (text_of ''Datagrams are only supported over QUIC transports'')), w)"

text \<open>\<open>impl AsyncTransport for TcpStream {}\<close>, and the same for the other byte streams.\<close>

definition boxed_stream ::
  "(nat \<Rightarrow> 'w \<Rightarrow> ('io, bytes) outcome \<times> 'w) \<Rightarrow> (bytes \<Rightarrow> 'w \<Rightarrow> ('io, unit) outcome \<times> 'w) \<Rightarrow>
   ('w \<Rightarrow> ('io, unit) outcome \<times> 'w) \<Rightarrow> ('w, 'io) boxed_transport" where
  "boxed_stream rd wr fl =
     \<lparr>bt_read = rd, bt_write_all = wr, bt_flush = fl, bt_send_datagram = send_datagram_default\<rparr>"

record ('s, 'q) quic_transport_stream =
  qt_send_stream :: 's
  qt_recv_stream :: 's
  qt_connection :: 'q

text \<open>\<open>QuicTransportStream\<close> over the operations of \<open>quinn\<close>.\<close>

definition quic_send_datagram ::
  "('q \<Rightarrow> bytes \<Rightarrow> 'w \<Rightarrow> (str, unit) outcome \<times> 'w) \<Rightarrow> bytes \<Rightarrow> ('s, 'q) quic_transport_stream \<Rightarrow> 'w \<Rightarrow>
   ('io client_error, unit) outcome \<times> 'w" where
  "quic_send_datagram snd_op d t w =
     (case snd_op (qt_connection t) d w of
        (r, w') \<Rightarrow> (map_err (\<lambda>e. CE_Quic (text_of ''Datagram send failed: '' @ e)) r, w'))"

datatype 'a poll = Ready 'a | Pending

definition quic_poll_read ::
  "('s \<Rightarrow> 'w \<Rightarrow> ('io, bytes) outcome poll \<times> 'w) \<Rightarrow> ('s, 'q) quic_transport_stream \<Rightarrow> 'w \<Rightarrow>
   ('io, bytes) outcome poll \<times> 'w" where
  "quic_poll_read recv_op t w = recv_op (qt_recv_stream t) w"

text \<open>\<open>other\<close> is \<open>std::io::Error::other\<close>.\<close>

definition quic_poll_write ::
  "('e \<Rightarrow> 'io) \<Rightarrow> ('s \<Rightarrow> bytes \<Rightarrow> 'w \<Rightarrow> ('e, nat) outcome poll \<times> 'w) \<Rightarrow> bytes \<Rightarrow> ('s, 'q) quic_transport_stream \<Rightarrow>
   'w \<Rightarrow> ('io, nat) outcome poll \<times> 'w" where
  "quic_poll_write other write_op buf t w =
     (case write_op (qt_send_stream t) buf w of
        (Ready (Ok n), w') \<Rightarrow> (Ready (Ok n), w')
      | (Ready (Err e), w') \<Rightarrow> (Ready (Err (other e)), w')
      | (Ready Panic, w') \<Rightarrow> (Ready Panic, w')
      | (Pending, w') \<Rightarrow> (Pending, w'))"

definition quic_poll_flush :: "('s, 'q) quic_transport_stream \<Rightarrow> 'w \<Rightarrow> ('io, unit) outcome poll \<times> 'w" where
  "quic_poll_flush t w = (Ready (Ok ()), w)"

definition quic_poll_shutdown ::
  "('e \<Rightarrow> 'io) \<Rightarrow> ('s \<Rightarrow> 'w \<Rightarrow> ('e, unit) outcome \<times> 'w) \<Rightarrow> ('s, 'q) quic_transport_stream \<Rightarrow> 'w \<Rightarrow>
   ('io, unit) outcome poll \<times> 'w" where
  "quic_poll_shutdown other finish t w =
     (case finish (qt_send_stream t) w of (r, w') \<Rightarrow> (Ready (map_err other r), w'))"

subsection \<open>Connecting\<close>

text \<open>\<open>target_unix\<close> and \<open>target_windows\<close> are the platform the crate is compiled for; \<open>io_not_found\<close> and
  \<open>io_unsupported\<close> are \<open>std::io::Error::new\<close> with these kinds and the given text.\<close>

record ('w, 's, 'a, 'q, 'io) net_ops =
  target_unix :: bool
  target_windows :: bool
  io_not_found :: "str \<Rightarrow> 'io"
  io_unsupported :: "str \<Rightarrow> 'io"
  tcp_connect :: "str \<Rightarrow> 'w \<Rightarrow> ('io, 's) outcome \<times> 'w"
  set_nodelay :: "'s \<Rightarrow> bool \<Rightarrow> 'w \<Rightarrow> 'w"
  server_name :: "str \<Rightarrow> (str, unit) outcome"
  tls_connect :: "str \<Rightarrow> 's \<Rightarrow> 'w \<Rightarrow> (str, 's) outcome \<times> 'w"
  quic_endpoint :: "'w \<Rightarrow> (str, unit) outcome \<times> 'w"
  quic_crypto :: "'w \<Rightarrow> (str, unit) outcome \<times> 'w"
  lookup_host :: "str \<Rightarrow> 'w \<Rightarrow> ('io, 'a list) outcome \<times> 'w"
  quic_connect :: "'a \<Rightarrow> str \<Rightarrow> 'w \<Rightarrow> (str, unit) outcome \<times> 'w"
  quic_await :: "'w \<Rightarrow> (str, 'q) outcome \<times> 'w"
  quic_open_bi :: "'q \<Rightarrow> 'w \<Rightarrow> (str, 's \<times> 's) outcome \<times> 'w"
  unix_connect :: "str \<Rightarrow> 'w \<Rightarrow> ('io, 's) outcome \<times> 'w"
  pipe_open :: "str \<Rightarrow> 'w \<Rightarrow> ('io, 's) outcome \<times> 'w"

datatype ('s, 'q) connected_stream = ByteStream 's | TlsByteStream 's | QuicStream "('s, 'q) quic_transport_stream"

text \<open>The sequencing of \<open>.await\<close>, \<open>map_err\<close> and \<open>?\<close>.\<close>

definition step_or ::
  "('e \<Rightarrow> 'f) \<Rightarrow> ('e, 'a) outcome \<times> 'w \<Rightarrow> ('a \<Rightarrow> 'w \<Rightarrow> ('f, 'b) outcome \<times> 'w) \<Rightarrow> ('f, 'b) outcome \<times> 'w" where
  "step_or conv rw k =
     (case rw of
        (Ok a, w) \<Rightarrow> k a w
      | (Err e, w) \<Rightarrow> (Err (conv e), w)
      | (Panic, w) \<Rightarrow> (Panic, w))"

definition quic_text :: "string \<Rightarrow> str \<Rightarrow> 'io client_error" where
  "quic_text s e = CE_Quic (text_of s @ e)"

definition host_port :: "str \<Rightarrow> u16 \<Rightarrow> str" where
  "host_port host port = host @ [0x3A] @ text_of (decimal (unat port))"

definition connect_quic ::
  "('w, 's, 'a, 'q, 'io) net_ops \<Rightarrow> str \<Rightarrow> u16 \<Rightarrow> str \<Rightarrow> 'w \<Rightarrow>
   ('io client_error, ('s, 'q) connected_stream) outcome \<times> 'w" where
  "connect_quic net host port name w0 =
     step_or (quic_text ''Failed to create QUIC endpoint: '') (quic_endpoint net w0) (\<lambda>_ w1.
     step_or (quic_text ''Crypto config error: '') (quic_crypto net w1) (\<lambda>_ w2.
     step_or CE_Io (lookup_host net (host_port host port) w2) (\<lambda>addrs w3.
     (case addrs of
        [] \<Rightarrow> (Err (CE_Io (io_not_found net (text_of ''Could not resolve host''))), w3)
      | remote_addr # _ \<Rightarrow>
          step_or (quic_text ''QUIC connect error: '') (quic_connect net remote_addr name w3) (\<lambda>_ w4.
          step_or (quic_text ''QUIC connection failed: '') (quic_await net w4) (\<lambda>connection w5.
          step_or (quic_text ''Failed to open control stream: '') (quic_open_bi net connection w5) (\<lambda>(s, r) w6.
          (Ok (QuicStream \<lparr>qt_send_stream = s, qt_recv_stream = r, qt_connection = connection\<rparr>), w6))))))))"

definition connect_transport ::
  "('w, 's, 'a, 'q, 'io) net_ops \<Rightarrow> transport_target \<Rightarrow> 'w \<Rightarrow>
   ('io client_error, ('s, 'q) connected_stream) outcome \<times> 'w" where
  "connect_transport net target w =
     (case target of
        Tcp host port \<Rightarrow>
          step_or CE_Io (tcp_connect net (host_port host port) w) (\<lambda>stream w1.
          (Ok (ByteStream stream), set_nodelay net stream True w1))
      | Tls host port name \<Rightarrow>
          step_or CE_Io (tcp_connect net (host_port host port) w) (\<lambda>tcp_stream w1.
          step_or (\<lambda>e. CE_Tls (text_of ''Invalid DNS name: '' @ e))
            (server_name net name, set_nodelay net tcp_stream True w1) (\<lambda>_ w2.
          step_or (\<lambda>e. CE_Tls (text_of ''TLS handshake failed: '' @ e)) (tls_connect net name tcp_stream w2)
            (\<lambda>tls_stream w3. (Ok (TlsByteStream tls_stream), w3))))
      | Quic host port name \<Rightarrow> connect_quic net host port name w
      | Unix path \<Rightarrow>
          (if target_unix net then
             (case strip_prefix [0x40] path of
                Some abstract_name \<Rightarrow>
                  step_or CE_Io (unix_connect net (0 # abstract_name) w) (\<lambda>stream w1. (Ok (ByteStream stream), w1))
              | None \<Rightarrow> step_or CE_Io (unix_connect net path w) (\<lambda>stream w1. (Ok (ByteStream stream), w1)))
           else (Err (CE_Io (io_unsupported net
             (text_of ''Unix domain sockets are not supported on this platform''))), w))
      | NamedPipe path \<Rightarrow>
          (if target_windows net then
             step_or CE_Io (pipe_open net path w) (\<lambda>client w1. (Ok (ByteStream client), w1))
           else (Err (CE_Io (io_unsupported net
             (text_of ''Windows Named Pipes are only supported on Windows targets''))), w)))"

subsection \<open>Fallback\<close>

text \<open>\<open>connect\<close> is \<open>connect_transport\<close>; \<open>timed\<close> is the same under \<open>tokio::time::timeout\<close> of five
  seconds, \<open>None\<close> when the time ran out. \<open>quic\<close> tells whether the crate has a QUIC feature.\<close>

definition attempt_fallback ::
  "bool \<Rightarrow> (transport_target \<Rightarrow> 'w \<Rightarrow> ('io client_error, 't) outcome \<times> 'w) \<Rightarrow> 'f client_options \<Rightarrow>
   'io client_error \<Rightarrow> 'w \<Rightarrow> ('io client_error, 't) outcome \<times> 'w" where
  "attempt_fallback quic connect opts original_error w =
     (case op_target opts of
        Quic host port _ \<Rightarrow> if quic then connect (Tcp host port) w else (Err original_error, w)
      | _ \<Rightarrow> (Err original_error, w))"

definition smart_connect ::
  "bool \<Rightarrow> (transport_target \<Rightarrow> 'w \<Rightarrow> ('io client_error, 't) outcome option \<times> 'w) \<Rightarrow>
   (transport_target \<Rightarrow> 'w \<Rightarrow> ('io client_error, 't) outcome \<times> 'w) \<Rightarrow> 'f client_options \<Rightarrow> 'w \<Rightarrow>
   ('io client_error, 't) outcome \<times> 'w" where
  "smart_connect quic timed connect opts w =
     (case timed (op_target opts) w of
        (Some (Ok transport), w1) \<Rightarrow> (Ok transport, w1)
      | (Some (Err err), w1) \<Rightarrow> attempt_fallback quic connect opts err w1
      | (Some Panic, w1) \<Rightarrow> (Panic, w1)
      | (None, w1) \<Rightarrow> attempt_fallback quic connect opts (CE_ConnectionRefused 3) w1)"

end
