(* ===== verification/Options_Theorems.thy ===== *)
theory Options_Theorems
  imports Tokio_Transport
begin

text \<open>
  The properties of the options and of the choice of a transport: URIs are read back, and the
  fallback only ever replaces QUIC by TCP to the same host and port.
\<close>

subsection \<open>URIs\<close>

text \<open>How a target is written as a URI; the name TLS and QUIC verify is the host.\<close>

fun uri_of :: "transport_target \<Rightarrow> str" where
  "uri_of (Tcp host port) = text_of ''mqtt://'' @ host_port host port"
| "uri_of (Tls host port name) = text_of ''mqtts://'' @ host_port host port"
| "uri_of (Quic host port name) = text_of ''quic://'' @ host_port host port"
| "uri_of (Unix path) = text_of ''unix://'' @ path"
| "uri_of (NamedPipe path) = text_of ''pipe://'' @ path"

fun plain_target :: "transport_target \<Rightarrow> bool" where
  "plain_target (Tcp host port) \<longleftrightarrow> 0x3A \<notin> set host"
| "plain_target (Tls host port name) \<longleftrightarrow> 0x3A \<notin> set host \<and> name = host"
| "plain_target (Quic host port name) \<longleftrightarrow> 0x3A \<notin> set host \<and> name = host"
| "plain_target _ \<longleftrightarrow> True"

lemma parse_host_port_printed:
  "0x3A \<notin> set host \<Longrightarrow> parse_host_port (host_port host port) d = Ok (host, port)"
  using parse_u16_decimal [of "unat port"] by (simp add: parse_host_port_def host_port_def unat_u16_less)

lemma schemes:
  "strip_prefix (text_of ''mqtt://'') (text_of ''mqtts://'' @ s) = None"
  "strip_prefix (text_of ''mqtt://'') (text_of ''quic://'' @ s) = None"
  "strip_prefix (text_of ''mqtts://'') (text_of ''quic://'' @ s) = None"
  "strip_prefix (text_of ''mqtt://'') (text_of ''unix://'' @ s) = None"
  "strip_prefix (text_of ''mqtts://'') (text_of ''unix://'' @ s) = None"
  "strip_prefix (text_of ''quic://'') (text_of ''unix://'' @ s) = None"
  "strip_prefix (text_of ''mqtt://'') (text_of ''pipe://'' @ s) = None"
  "strip_prefix (text_of ''mqtts://'') (text_of ''pipe://'' @ s) = None"
  "strip_prefix (text_of ''quic://'') (text_of ''pipe://'' @ s) = None"
  "strip_prefix (text_of ''unix://'') (text_of ''pipe://'' @ s) = None"
  by (simp_all add: strip_prefix_def text_of_def)

text \<open>An arithmetic on whole seconds, for examples.\<close>

definition whole_seconds :: "nat f64_ops" where
  "whole_seconds = \<lparr>fo_two = 2, fo_powi = (^), fo_mult = (*), fo_min = min, fo_as_secs = (\<lambda>ns. ns div 10 ^ 9),
     fo_from_secs = (\<lambda>s. Some (s * 10 ^ 9))\<rparr>"

text \<open>A target written as a URI is read back by \<open>from_uri\<close>, when its host has no colon and the
  features are compiled in; the rest of the options are the defaults. (The first colon ends the
  host, so an IPv6 address cannot be written.)\<close>

lemma uri_roundtrip:
  assumes "plain_target target"
  shows "\<exists>host port. from_uri fo True True client_id (uri_of target) =
    Ok ((client_options_new fo client_id host port)\<lparr>op_target := target\<rparr>)"
proof (cases target)
  case (Tcp host port)
  with assms show ?thesis
    by (intro exI [of _ host] exI [of _ port]) (simp add: from_uri_def parse_host_port_printed client_options_new_def)
next
  case (Tls host port name)
  with assms show ?thesis
    by (intro exI [of _ host] exI [of _ port]) (simp add: from_uri_def parse_host_port_printed schemes)
next
  case (Quic host port name)
  with assms show ?thesis
    by (intro exI [of _ host] exI [of _ port]) (simp add: from_uri_def parse_host_port_printed schemes)
qed (auto simp: from_uri_def schemes)

theorem uri_roundtrip_witness:
  "\<exists>host port. from_uri whole_seconds True True [0x61] (text_of ''mqtts://h:8883'') =
    Ok ((client_options_new whole_seconds [0x61] host port)\<lparr>op_target := Tls [0x68] 8883 [0x68]\<rparr>)"
  using uri_roundtrip [of "Tls [0x68] 8883 [0x68]" whole_seconds "[0x61]"]
  by (simp add: host_port_def decimal.simps text_of_def hex_digit_def)

text \<open>A host with a colon is never read back: what follows its first colon is not a port.\<close>

lemma parse_digits_colon: "0x3A \<in> set s \<Longrightarrow> parse_digits acc s = None"
  by (induction s arbitrary: acc) auto

lemma split_once_rest: "split_once c s = Some (a, b) \<Longrightarrow> s = a @ c # b \<and> c \<notin> set a"
  by (induction s arbitrary: a) (auto split: if_splits)

lemma ipv6_host_rejected:
  assumes "0x3A \<in> set host"
  shows "\<exists>e. from_uri fo tls quic client_id (uri_of (Tcp host port)) = Err (CE_InvalidTopic e)"
proof -
  obtain h rest where s: "split_once 0x3A (host_port host port) = Some (h, rest)"
    by (cases "split_once 0x3A (host_port host port)") (auto simp: split_once_None host_port_def)
  from split_once_rest [OF s] have "host @ 0x3A # text_of (decimal (unat port)) = h @ 0x3A # rest" "0x3A \<notin> set h"
    by (simp_all add: host_port_def)
  with assms have "0x3A \<in> set rest" by (auto simp: append_eq_append_conv2 Cons_eq_append_conv append_eq_Cons_conv)
  then have "parse_u16 rest = None"
    by (auto simp: parse_u16_def Let_def parse_digits_colon split: list.split)
  with s show ?thesis by (simp add: from_uri_def parse_host_port_def)
qed

subsection \<open>Fallback\<close>

text \<open>A transport that \<open>SmartTransport::connect\<close> returns is the one of the configured target,
  or, when that target is QUIC and did not connect in time, one over TCP to the same host and port,
  never one over TLS.\<close>

lemma fallback_is_same_host:
  assumes "smart_connect quic timed connect opts w = (Ok t, w')"
  shows "timed (op_target opts) w = (Some (Ok t), w') \<or>
    (\<exists>host port name w1. op_target opts = Quic host port name \<and> quic \<and>
      (\<forall>t. fst (timed (op_target opts) w) \<noteq> Some (Ok t)) \<and> connect (Tcp host port) w1 = (Ok t, w'))"
  using assms
  by (auto simp: smart_connect_def attempt_fallback_def split: prod.splits option.splits outcome.splits
      transport_target.splits if_splits)


theorem fallback_is_same_host_witness:
  "\<exists>w1. (Ok (Tcp [0x68] 14567) :: ('io client_error, _) outcome, w1 + 1) = (Ok (Tcp [0x68] 14567), 2 :: nat)"
proof -
  let ?opts = "(client_options_new fo [0x61] [0x68] 14567)\<lparr>op_target := Quic [0x68] 14567 [0x68]\<rparr>"
  have "smart_connect True (\<lambda>_ w. (None, w + 1)) (\<lambda>target w. (Ok target, w + 1)) ?opts (0 :: nat) =
      (Ok (Tcp [0x68] 14567) :: ('io client_error, _) outcome, 2)"
    by (simp add: smart_connect_def attempt_fallback_def)
  from fallback_is_same_host [OF this] show ?thesis by auto
qed

end
