(* ===== verification/Bridges.thy ===== *)
theory Bridges
  imports Stream_Facts Tokio_Transport
begin

text \<open>
  \<open>mqtt-bridges\<close>: the broadcast hub and its HTTP streams (\<open>web.rs\<close>) and the bindings to a user
  interface (\<open>slint_support.rs\<close>). The \<open>broadcast\<close> and \<open>mpsc\<close> channels of \<open>tokio\<close> and the callbacks
  are arguments over a state \<open>'w\<close>; a subscription delivers the list of messages it receives before
  it closes, as in \<open>Data_Stream\<close>.
\<close>

subsection \<open>The broadcast hub\<close>

text \<open>The spawned worker: every payload goes to the broadcast channel, a failed send is ignored.\<close>

fun hub_worker :: "(bytes \<Rightarrow> 'w \<Rightarrow> bool \<times> 'w) \<Rightarrow> tokio_message list \<Rightarrow> 'w \<Rightarrow> 'w" where
  "hub_worker send [] w = w"
| "hub_worker send (msg # msgs) w = hub_worker send msgs (snd (send (tm_payload msg) w))"

record 'b broadcast_hub =
  bh_topic :: str
  bh_sender :: 'b

definition broadcast_hub_new ::
  "('w, 'r, 'c, 'rx, 'io) async_channels \<Rightarrow> (nat \<Rightarrow> 'w \<Rightarrow> 'b \<times> 'w) \<Rightarrow> str \<Rightarrow> qos \<Rightarrow> nat \<Rightarrow> 'w \<Rightarrow>
   ('io client_error, 'b broadcast_hub \<times> 'rx topic_subscription) outcome \<times> 'w" where
  "broadcast_hub_new ch broadcast_channel topic q broadcast_capacity w =
     (case async_subscribe_stream ch topic q w of
        (Ok sub_stream, w1) \<Rightarrow>
          (case broadcast_channel broadcast_capacity w1 of
             (tx, w2) \<Rightarrow> (Ok (\<lparr>bh_topic = topic, bh_sender = tx\<rparr>, sub_stream), w2))
      | (Err e, w1) \<Rightarrow> (Err e, w1)
      | (Panic, w1) \<Rightarrow> (Panic, w1))"

text \<open>What \<open>bcast_rx.recv()\<close> yields, and the task that \<open>subscribe\<close> spawns: it forwards payloads until
  the channel closes or the web client is gone, and skips over what it was too slow to see.\<close>

datatype broadcast_event = Received bytes | Lagged | Closed

fun forward_task :: "(bytes \<Rightarrow> 'w \<Rightarrow> bool \<times> 'w) \<Rightarrow> broadcast_event list \<Rightarrow> 'w \<Rightarrow> 'w" where
  "forward_task send [] w = w"
| "forward_task send (Received payload # events) w =
     (case send payload w of
        (ok, w1) \<Rightarrow> if ok then forward_task send events w1 else w1)"
| "forward_task send (Lagged # events) w = forward_task send events w"
| "forward_task send (Closed # events) w = w"

text \<open>\<open>subscribe\<close>: a receiver of the broadcast channel, a channel of 64 places for this client, and the
  task spawned between the two; the client holds the receiving end as its \<open>WebClientStream\<close>. The two
  channels and \<open>tokio::spawn\<close> are \<open>tokio\<close>'s.\<close>

definition hub_subscribe ::
  "('b \<Rightarrow> 'w \<Rightarrow> 'brx \<times> 'w) \<Rightarrow> (nat \<Rightarrow> 'w \<Rightarrow> ('tx \<times> 'rx) \<times> 'w) \<Rightarrow> ('brx \<Rightarrow> 'tx \<Rightarrow> 'w \<Rightarrow> 'w) \<Rightarrow>
   'b broadcast_hub \<Rightarrow> 'w \<Rightarrow> 'rx \<times> 'w" where
  "hub_subscribe subscribe mpsc_channel spawn_forward hub w =
     (case subscribe (bh_sender hub) w of
        (bcast_rx, w1) \<Rightarrow>
          (case mpsc_channel 64 w1 of
             ((mpsc_tx, mpsc_rx), w2) \<Rightarrow> (mpsc_rx, spawn_forward bcast_rx mpsc_tx w2)))"

subsection \<open>HTTP streams\<close>

text \<open>\<open>WebClientStream\<close>: \<open>poll_recv\<close> of the receiver.\<close>

definition web_poll_next ::
  "('w \<Rightarrow> bytes option poll \<times> 'w) \<Rightarrow> 'w \<Rightarrow> ('io client_error, bytes) outcome option poll \<times> 'w" where
  "web_poll_next poll_recv w =
     (case poll_recv w of
        (Ready (Some bs), w1) \<Rightarrow> (Ready (Some (Ok bs)), w1)
      | (Ready None, w1) \<Rightarrow> (Ready None, w1)
      | (Pending, w1) \<Rightarrow> (Pending, w1))"

abbreviation crlf :: bytes where "crlf \<equiv> [0x0D, 0x0A]"

definition mjpeg_content_type :: str where
  "mjpeg_content_type = text_of ''multipart/x-mixed-replace; boundary=frame''"

definition mjpeg_part :: "str \<Rightarrow> bytes \<Rightarrow> bytes" where
  "mjpeg_part boundary jpeg =
     text_of ''--'' @ boundary @ crlf @ text_of ''Content-Type: image/jpeg'' @ crlf @
     text_of ''Content-Length: '' @ text_of (decimal (length jpeg)) @ crlf @ crlf @ jpeg @ crlf"

definition sse_content_type :: str where
  "sse_content_type = text_of ''text/event-stream''"

definition sse_event :: "bytes \<Rightarrow> bytes" where
  "sse_event payload = text_of ''data: '' @ payload @ [0x0A, 0x0A]"

text \<open>A bridge polls the inner stream and formats what it yields.\<close>

definition bridge_poll_next ::
  "(bytes \<Rightarrow> bytes) \<Rightarrow> ('w \<Rightarrow> ('io client_error, bytes) outcome option poll \<times> 'w) \<Rightarrow> 'w \<Rightarrow>
   ('io client_error, bytes) outcome option poll \<times> 'w" where
  "bridge_poll_next format inner w =
     (case inner w of
        (Ready (Some (Ok bs)), w1) \<Rightarrow> (Ready (Some (Ok (format bs))), w1)
      | (Ready (Some (Err e)), w1) \<Rightarrow> (Ready (Some (Err e)), w1)
      | (Ready (Some Panic), w1) \<Rightarrow> (Ready (Some Panic), w1)
      | (Ready None, w1) \<Rightarrow> (Ready None, w1)
      | (Pending, w1) \<Rightarrow> (Pending, w1))"

text \<open>The constructors subscribe to the hub; \<open>subscribe\<close> is \<open>hub_subscribe\<close> of that hub.\<close>

record 'rx mjpeg_bridge =
  mj_stream :: 'rx
  mj_boundary :: str

definition mjpeg_new :: "('w \<Rightarrow> 'rx \<times> 'w) \<Rightarrow> 'w \<Rightarrow> 'rx mjpeg_bridge \<times> 'w" where
  "mjpeg_new subscribe w =
     (case subscribe w of (rx, w1) \<Rightarrow> (\<lparr>mj_stream = rx, mj_boundary = text_of ''frame''\<rparr>, w1))"

definition mjpeg_with_boundary :: "('w \<Rightarrow> 'rx \<times> 'w) \<Rightarrow> str \<Rightarrow> 'w \<Rightarrow> 'rx mjpeg_bridge \<times> 'w" where
  "mjpeg_with_boundary subscribe boundary w =
     (case subscribe w of (rx, w1) \<Rightarrow> (\<lparr>mj_stream = rx, mj_boundary = boundary\<rparr>, w1))"

definition mjpeg_poll_next ::
  "('rx \<Rightarrow> 'w \<Rightarrow> bytes option poll \<times> 'w) \<Rightarrow> 'rx mjpeg_bridge \<Rightarrow> 'w \<Rightarrow>
   ('io client_error, bytes) outcome option poll \<times> 'w" where
  "mjpeg_poll_next poll_recv br =
     bridge_poll_next (mjpeg_part (mj_boundary br)) (web_poll_next (poll_recv (mj_stream br)))"

record 'rx sse_bridge = sse_stream :: 'rx

definition sse_new :: "('w \<Rightarrow> 'rx \<times> 'w) \<Rightarrow> 'w \<Rightarrow> 'rx sse_bridge \<times> 'w" where
  "sse_new subscribe w = (case subscribe w of (rx, w1) \<Rightarrow> (\<lparr>sse_stream = rx\<rparr>, w1))"

definition sse_poll_next ::
  "('rx \<Rightarrow> 'w \<Rightarrow> bytes option poll \<times> 'w) \<Rightarrow> 'rx sse_bridge \<Rightarrow> 'w \<Rightarrow>
   ('io client_error, bytes) outcome option poll \<times> 'w" where
  "sse_poll_next poll_recv br = bridge_poll_next sse_event (web_poll_next (poll_recv (sse_stream br)))"

subsection \<open>Bindings of a user interface\<close>

text \<open>The spawned loops, over the messages of the subscription.\<close>

fun string_binding :: "(str \<Rightarrow> str \<Rightarrow> 'w \<Rightarrow> 'w) \<Rightarrow> tokio_message list \<Rightarrow> 'w \<Rightarrow> 'w" where
  "string_binding callback [] w = w"
| "string_binding callback (msg # msgs) w =
     (let text = (case tm_payload_as_str msg of Ok s \<Rightarrow> s | _ \<Rightarrow> []) in
      string_binding callback msgs (callback (tm_topic msg) text w))"

fun camera_binding :: "(bytes \<Rightarrow> 'w \<Rightarrow> 'w) \<Rightarrow> tokio_message list \<Rightarrow> 'w \<Rightarrow> 'w" where
  "camera_binding callback [] w = w"
| "camera_binding callback (msg # msgs) w = camera_binding callback msgs (callback (tm_payload msg) w)"


function ordered_binding :: "(stream_chunk \<Rightarrow> 'w \<Rightarrow> 'w) \<Rightarrow> stream_consumer \<Rightarrow> 'w \<Rightarrow> 'w" where
  "ordered_binding callback c w =
     (case recv_ordered c :: (unit client_error, stream_chunk option) outcome \<times> stream_consumer of
        (Ok (Some chunk), c') \<Rightarrow> ordered_binding callback c' (callback chunk w)
      | _ \<Rightarrow> w)"
  by pat_completeness auto
termination
  by (relation "measure (\<lambda>(_, c, _). pending c)") (auto dest!: recv_ordered_pending [OF sym])

declare ordered_binding.simps [simp del]

text \<open>A binding: its topic and the subscription its task reads.\<close>

definition slint_bind ::
  "('w, 'r, 'c, 'rx, 'io) async_channels \<Rightarrow> str \<Rightarrow> qos \<Rightarrow> 'w \<Rightarrow>
   ('io client_error, str \<times> 'rx topic_subscription) outcome \<times> 'w" where
  "slint_bind ch topic q w =
     (case async_subscribe_stream ch topic q w of
        (Ok sub_stream, w1) \<Rightarrow> (Ok (topic, sub_stream), w1)
      | (Err e, w1) \<Rightarrow> (Err e, w1)
      | (Panic, w1) \<Rightarrow> (Panic, w1))"

definition slint_bind_ordered ::
  "('w, 'r, 'c, tokio_message list, 'io) async_channels \<Rightarrow> str \<Rightarrow> qos \<Rightarrow> nat \<Rightarrow> 'w \<Rightarrow>
   ('io client_error, str \<times> stream_consumer) outcome \<times> 'w" where
  "slint_bind_ordered ch topic q reorder_window w =
     (case subscribe_datastream ch topic q reorder_window w of
        (Ok consumer, w1) \<Rightarrow> (Ok (topic, consumer), w1)
      | (Err e, w1) \<Rightarrow> (Err e, w1)
      | (Panic, w1) \<Rightarrow> (Panic, w1))"

subsection \<open>What reaches a client\<close>

text \<open>The payloads a web client is offered: those received before the channel closed.\<close>

fun offered :: "broadcast_event list \<Rightarrow> bytes list" where
  "offered (Received p # events) = p # offered events"
| "offered (Lagged # events) = offered events"
| "offered _ = []"

lemma forward_offered:
  "(\<And>p w. fst (send p w)) \<Longrightarrow> forward_task send events w = fold (\<lambda>p w. snd (send p w)) (offered events) w"
proof (induction events arbitrary: w)
  case (Cons e events)
  then show ?case by (cases e) (simp_all add: case_prod_unfold)
qed simp

text \<open>A user interface sees the chunks in the order of the consumer, which \<open>recv_all\<close> lists.\<close>

lemma ordered_binding_recv_all: "ordered_binding callback c w = fold callback (recv_all c) w"
proof (induction callback c w rule: ordered_binding.induct)
  case (1 callback c w)
  obtain r c' where r: "(recv_ordered c :: (unit client_error, _) outcome \<times> _) = (r, c')" by fastforce
  show ?case
  proof (cases "\<exists>chunk. r = Ok (Some chunk)")
    case True
    then obtain chunk where c: "r = Ok (Some chunk)" by blast
    from 1 [OF r [symmetric] c refl] show ?thesis
      by (simp add: ordered_binding.simps [of callback c] recv_all.simps [of c] r c)
  next
    case False
    then show ?thesis
      by (cases r) (auto simp: ordered_binding.simps [of callback c] recv_all.simps [of c] r split: option.splits)
  qed
qed

subsection \<open>Reading the HTTP streams back\<close>

text \<open>A decimal number of any size.\<close>

fun decimal_value :: "nat \<Rightarrow> str \<Rightarrow> nat option" where
  "decimal_value acc [] = Some acc"
| "decimal_value acc (d # ds) =
     (if 0x30 \<le> d \<and> d \<le> 0x39 then decimal_value (acc * 10 + (unat d - 0x30)) ds else None)"

lemma decimal_value_append:
  "decimal_value acc (a @ b) = (case decimal_value acc a of Some n \<Rightarrow> decimal_value n b | None \<Rightarrow> None)"
  by (induction acc a rule: decimal_value.induct) auto

lemma decimal_value_digit:
  assumes "n < 10"
  shows "decimal_value acc (text_of [hex_digit n]) = Some (acc * 10 + n)"
proof -
  have "n \<in> {0, 1, 2, 3, 4, 5, 6, 7, 8, 9}" using assms by auto
  then show ?thesis by (auto simp: text_of_def hex_digit_def)
qed

lemma decimal_value_decimal: "decimal_value 0 (text_of (decimal n)) = Some n"
proof (induction n rule: decimal.induct)
  case (1 n)
  show ?case
  proof (cases "n < 10")
    case True
    then show ?thesis using decimal_value_digit [of n 0] by (simp add: decimal.simps)
  next
    case False
    with 1 have "decimal_value 0 (text_of (decimal (n div 10))) = Some (n div 10)" by simp
    then show ?thesis using False decimal_value_digit [of "n mod 10" "n div 10"] decimal.simps [of n]
      by (simp add: decimal_value_append)
  qed
qed

lemma decimal_no_return: "0x0D \<notin> set (text_of (decimal n))"
proof
  assume "0x0D \<in> set (text_of (decimal n))"
  then obtain a b where "text_of (decimal n) = a @ 0x0D # b" by (auto simp: in_set_conv_decomp)
  with decimal_value_decimal [of n] show False
    by (auto simp: decimal_value_append split: option.splits)
qed


text \<open>A stream of items, cut by what takes the first one off.\<close>

function parse_items :: "(bytes \<Rightarrow> (bytes \<times> bytes) option) \<Rightarrow> bytes \<Rightarrow> bytes list option" where
  "parse_items first s =
     (if s = [] then Some []
      else case first s of
        None \<Rightarrow> None
      | Some (item, rest) \<Rightarrow>
          if length rest < length s then map_option (Cons item) (parse_items first rest) else None)"
  by pat_completeness auto
termination by (relation "measure (length \<circ> snd)") auto

declare parse_items.simps [simp del]

lemma parse_items_concat:
  assumes "\<And>x rest. x \<in> set xs \<Longrightarrow> first (f x @ rest) = Some (x, rest)" "\<And>x. f x \<noteq> []"
  shows "parse_items first (concat (map f xs)) = Some xs"
  using assms(1)
proof (induction xs)
  case (Cons x xs)
  have "parse_items first (concat (map f xs)) = Some xs" by (rule Cons.IH) (use Cons.prems in simp)
  with Cons.prems assms(2) [of x] show ?case by (simp add: parse_items.simps [of first "f x @ _"])
qed (simp add: parse_items.simps)

text \<open>A multipart reader that trusts the content length, and a reader of one-line events.\<close>

definition mjpeg_head :: "str \<Rightarrow> bytes" where
  "mjpeg_head boundary = text_of ''--'' @ boundary @ crlf @ text_of ''Content-Type: image/jpeg'' @ crlf @
     text_of ''Content-Length: ''"

definition mjpeg_first :: "str \<Rightarrow> bytes \<Rightarrow> (bytes \<times> bytes) option" where
  "mjpeg_first boundary s =
     Option.bind (strip_prefix (mjpeg_head boundary) s) (\<lambda>rest.
     Option.bind (split_once 0x0D rest) (\<lambda>(digits, rest).
     Option.bind (decimal_value 0 digits) (\<lambda>n.
     Option.bind (strip_prefix [0x0A, 0x0D, 0x0A] rest) (\<lambda>body.
     map_option (Pair (take n body)) (strip_prefix crlf (drop n body))))))"

definition sse_first :: "bytes \<Rightarrow> (bytes \<times> bytes) option" where
  "sse_first s =
     Option.bind (strip_prefix (text_of ''data: '') s) (\<lambda>rest.
     Option.bind (split_once 0x0A rest) (\<lambda>(line, rest).
     map_option (Pair line) (strip_prefix [0x0A] rest)))"

lemma mjpeg_first_part: "mjpeg_first boundary (mjpeg_part boundary jpeg @ rest) = Some (jpeg, rest)"
proof -
  have p: "mjpeg_part boundary jpeg @ rest =
      mjpeg_head boundary @ text_of (decimal (length jpeg)) @ 0x0D # [0x0A, 0x0D, 0x0A] @ jpeg @ crlf @ rest"
    by (simp add: mjpeg_part_def mjpeg_head_def)
  show ?thesis
    unfolding p mjpeg_first_def strip_prefix_append Option.bind.bind_lunit
      split_once_append [OF decimal_no_return] prod.case decimal_value_decimal
    by (simp add: strip_prefix_def)
qed

lemma sse_first_event: "0x0A \<notin> set payload \<Longrightarrow> sse_first (sse_event payload @ rest) = Some (payload, rest)"
proof -
  assume n: "0x0A \<notin> set payload"
  have p: "sse_event payload @ rest = text_of ''data: '' @ payload @ 0x0A # [0x0A] @ rest"
    by (simp add: sse_event_def)
  show ?thesis
    unfolding p sse_first_def strip_prefix_append Option.bind.bind_lunit split_once_append [OF n] prod.case
    by simp
qed

subsection \<open>Properties\<close>

text \<open>The MJPEG stream of any frames, with any boundary, is read back frame by frame by a
  multipart reader that uses the content length, whatever bytes the frames hold.\<close>

lemma mjpeg_stream_roundtrip:
  "parse_items (mjpeg_first boundary) (concat (map (mjpeg_part boundary) frames)) = Some frames"
  by (rule parse_items_concat) (simp_all add: mjpeg_first_part, simp add: mjpeg_part_def text_of_def)

text \<open>The event stream of payloads without a line feed is read back event by event; a payload
  with an empty line in it is not one event but two, and reads the same as two payloads.\<close>

lemma sse_stream_lines:
  "((\<forall>p \<in> set payloads. 0x0A \<notin> set p) \<longrightarrow>
     parse_items sse_first (concat (map sse_event payloads)) = Some payloads) \<and>
   sse_event (p1 @ [0x0A, 0x0A] @ text_of ''data: '' @ p2) = sse_event p1 @ sse_event p2"
proof -
  have "parse_items sse_first (concat (map sse_event payloads)) = Some payloads" if "\<forall>p \<in> set payloads. 0x0A \<notin> set p"
    by (rule parse_items_concat) (use that in \<open>simp add: sse_first_event\<close>, simp add: sse_event_def)
  then show ?thesis by (simp add: sse_event_def)
qed

theorem sse_stream_lines_witness:
  "parse_items sse_first (concat (map sse_event [[0x31], []])) = Some [[0x31], []]"
  using sse_stream_lines [of "[[0x31], []]"] by simp

end
