(* ===== verification/Event_Loop.thy ===== *)
theory Event_Loop
  imports Frames Actions Router Tokio_Transport Async_Client "HOL-Library.AList"
begin

text \<open>
  \<open>mqtt-tokio/src/eventloop.rs\<close>: the background task that owns the connection. Every method is an
  action on \<open>event_loop\<close>; the network, the channels and the clock are its component \<open>el_world\<close>,
  reached through the transport and through \<open>loop_env\<close>. \<open>HashMap\<close>s are association lists, whose
  order stands for the unspecified order of their iteration; replacing or dropping the sender of a
  \<open>oneshot\<close> channel has no other effect here (its receiver reports \<open>Cancelled\<close>).
\<close>

subsection \<open>State\<close>

record ('f, 'r, 'c, 'w, 'io) event_loop =
  el_world :: 'w
  el_options :: "'f client_options"
  el_router :: "'c topic_router"
  el_transport :: "('w, 'io) boxed_transport option"
  el_offline_queue :: "tokio_message list"
  el_active_subscriptions :: "(str \<times> qos) list"
  el_inflight_publishes :: "(u16 \<times> tokio_message \<times> 'r option) list"
  el_inflight_subscribes :: "(u16 \<times> 'r) list"
  el_inflight_unsubscribes :: "(u16 \<times> 'r) list"
  el_next_packet_id :: u16
  el_rx_buf :: bytes
  el_tx_buf :: bytes
  el_last_tx :: nat
  el_reconnect_attempt :: nat

type_synonym ('f, 'r, 'c, 'w, 'io, 'a) loop_action =
  "('io client_error, ('f, 'r, 'c, 'w, 'io) event_loop, 'a) action"

text \<open>
  The \<open>tokio\<close> primitives: answering a \<open>oneshot\<close> channel, the status channel, the subscription
  channels, the clock, \<open>sleep\<close>, the request channel (\<open>None\<close> when all handles are gone), \<open>timeout\<close>
  around a read (\<open>None\<close> when it ran out), which branch of \<open>select!\<close> is taken, whether \<open>interval\<close>
  accepts a period (it panics on others), and \<open>connect_transport\<close>.
\<close>

datatype select_branch = Readable | Requested | Ticked

record ('f, 'r, 'c, 'w, 'io) loop_env =
  le_reply_unit :: "'r \<Rightarrow> ('io client_error, unit) outcome \<Rightarrow> 'w \<Rightarrow> 'w"
  le_reply_id :: "'r \<Rightarrow> ('io client_error, u16) outcome \<Rightarrow> 'w \<Rightarrow> 'w"
  le_reply_count :: "'r \<Rightarrow> ('io client_error, nat) outcome \<Rightarrow> 'w \<Rightarrow> 'w"
  le_status :: "connection_status \<Rightarrow> 'w \<Rightarrow> 'w"
  le_channels :: "('w, 'c) channel_ops"
  le_now :: "'w \<Rightarrow> nat"
  le_sleep :: "nat \<Rightarrow> 'w \<Rightarrow> 'w"
  le_recv :: "'w \<Rightarrow> ('r, 'c) client_request option \<times> 'w"
  le_timed_read :: "('w, 'io) boxed_transport \<Rightarrow> nat \<Rightarrow> 'w \<Rightarrow> ('io, bytes) outcome option \<times> 'w"
  le_select :: "'w \<Rightarrow> select_branch \<times> 'w"
  le_interval :: "nat \<Rightarrow> bool"
  le_connect :: "transport_target \<Rightarrow> 'w \<Rightarrow> ('io client_error, ('w, 'io) boxed_transport) outcome \<times> 'w"
  le_unexpected_eof :: 'io
  le_f64 :: "'f f64_ops"

definition event_loop_new ::
  "('f, 'r, 'c, 'w, 'io) loop_env \<Rightarrow> 'f client_options \<Rightarrow> 'w \<Rightarrow> ('f, 'r, 'c, 'w, 'io) event_loop" where
  "event_loop_new le opts w =
     \<lparr>el_world = w, el_options = opts, el_router = router_new, el_transport = None,
      el_offline_queue = [], el_active_subscriptions = [], el_inflight_publishes = [],
      el_inflight_subscribes = [], el_inflight_unsubscribes = [], el_next_packet_id = 1,
      el_rx_buf = replicate (op_max_packet_size opts) 0, el_tx_buf = replicate (op_max_packet_size opts) 0,
      el_last_tx = le_now le w, el_reconnect_attempt = 0\<rparr>"

definition loop_next_packet_id :: "('f, 'r, 'c, 'w, 'io, u16) loop_action" where
  "loop_next_packet_id l =
     (let pid = el_next_packet_id l;
          next_id = pid + 1;
          next_id = (if next_id = 0 then 1 else next_id)
      in (Ok pid, l\<lparr>el_next_packet_id := next_id\<rparr>))"

subsection \<open>The steps the methods share\<close>

definition on_world :: "('w \<Rightarrow> 'w) \<Rightarrow> ('f, 'r, 'c, 'w, 'io, unit) loop_action" where
  "on_world f = modify (\<lambda>l. l\<lparr>el_world := f (el_world l)\<rparr>)"

text \<open>An operation of the transport under \<open>?\<close>.\<close>

definition io_call :: "('w \<Rightarrow> ('io, 'a) outcome \<times> 'w) \<Rightarrow> ('f, 'r, 'c, 'w, 'io, 'a) loop_action" where
  "io_call f l = (case f (el_world l) of (r, w) \<Rightarrow> (map_err client_error_from_io r, l\<lparr>el_world := w\<rparr>))"

definition touch_last_tx :: "('f, 'r, 'c, 'w, 'io) loop_env \<Rightarrow> ('f, 'r, 'c, 'w, 'io, unit) loop_action" where
  "touch_last_tx le = modify (\<lambda>l. l\<lparr>el_last_tx := le_now le (el_world l)\<rparr>)"

text \<open>\<open>packet.encode(&mut self.tx_buf[cursor..], version)\<close>, with the codec's own error and with the
  client's.\<close>

definition loop_encode ::
  "mqtt_packet \<Rightarrow> nat \<Rightarrow> ('f, 'r, 'c, 'w, 'io) event_loop \<Rightarrow>
   (packet_error, nat) outcome \<times> ('f, 'r, 'c, 'w, 'io) event_loop" where
  "loop_encode p cursor l =
     (let buf = el_tx_buf l in
      if length buf < cursor then (Panic, l)
      else case encode_packet p (drop cursor buf) (op_version (el_options l)) of
        (r, sub) \<Rightarrow> (r, l\<lparr>el_tx_buf := take cursor buf @ sub\<rparr>))"

definition encode_or_malformed :: "mqtt_packet \<Rightarrow> ('f, 'r, 'c, 'w, 'io, nat) loop_action" where
  "encode_or_malformed p l =
     (case loop_encode p 0 l of (r, l') \<Rightarrow> (map_err (\<lambda>_. CE_Protocol P_MalformedPacket) r, l'))"

text \<open>\<open>transport.write_all(&self.tx_buf[..len]).await\<close>\<close>

definition write_tx :: "('w, 'io) boxed_transport \<Rightarrow> nat \<Rightarrow> ('f, 'r, 'c, 'w, 'io, unit) loop_action" where
  "write_tx t len =
     bind (gets el_tx_buf) (\<lambda>buf.
     bind (lift (subslice buf 0 len)) (\<lambda>b. io_call (bt_write_all t b)))"

definition loop_send ::
  "('f, 'r, 'c, 'w, 'io) loop_env \<Rightarrow> ('w, 'io) boxed_transport \<Rightarrow> nat \<Rightarrow> ('f, 'r, 'c, 'w, 'io, unit) loop_action" where
  "loop_send le t len =
     bind (write_tx t len) (\<lambda>_. bind (io_call (bt_flush t)) (\<lambda>_. touch_last_tx le))"

definition announce :: "('f, 'r, 'c, 'w, 'io) loop_env \<Rightarrow> connection_status \<Rightarrow> ('f, 'r, 'c, 'w, 'io, unit) loop_action" where
  "announce le st = on_world (le_status le st)"

subsection \<open>Publishing\<close>

text \<open>The packet that is built from a message.\<close>

definition publish_packet :: "tokio_message \<Rightarrow> u16 option \<Rightarrow> publish" where
  "publish_packet msg packet_id =
     (publish_new (tm_topic msg) (tm_payload msg) (tm_qos msg))
       \<lparr>pub_packet_id := packet_id, pub_retain := tm_retain msg, pub_dup := tm_dup msg\<rparr>"

text \<open>A message above QoS 0 gets a packet id and an in-flight entry.\<close>

definition track_publish ::
  "tokio_message \<Rightarrow> 'r option \<Rightarrow> ('f, 'r, 'c, 'w, 'io, tokio_message \<times> u16 option) loop_action" where
  "track_publish msg ack_sender =
     bind loop_next_packet_id (\<lambda>pid.
       let msg = msg\<lparr>tm_packet_id := Some pid\<rparr> in
       bind (modify (\<lambda>l. l\<lparr>el_inflight_publishes := AList.update pid (msg, ack_sender) (el_inflight_publishes l)\<rparr>))
         (\<lambda>_. ret (msg, Some pid)))"

definition reply_published :: "('f, 'r, 'c, 'w, 'io) loop_env \<Rightarrow> 'r option \<Rightarrow> ('f, 'r, 'c, 'w, 'io, unit) loop_action" where
  "reply_published le ack_sender =
     (case ack_sender of Some ack \<Rightarrow> on_world (le_reply_unit le ack (Ok ())) | None \<Rightarrow> ret ())"

definition send_publish_direct ::
  "('f, 'r, 'c, 'w, 'io) loop_env \<Rightarrow> ('w, 'io) boxed_transport \<Rightarrow> tokio_message \<Rightarrow> 'r option \<Rightarrow>
   ('f, 'r, 'c, 'w, 'io, unit) loop_action" where
  "send_publish_direct le t msg ack_sender =
     bind (if tm_qos msg \<noteq> AtMostOnce then track_publish msg ack_sender
           else bind (reply_published le ack_sender) (\<lambda>_. ret (msg, None)))
       (\<lambda>(msg, packet_id).
         bind (encode_or_malformed (Publish (publish_packet msg packet_id))) (\<lambda>len. loop_send le t len))"

definition send_publish ::
  "('f, 'r, 'c, 'w, 'io) loop_env \<Rightarrow> tokio_message \<Rightarrow> 'r option \<Rightarrow> ('f, 'r, 'c, 'w, 'io, unit) loop_action" where
  "send_publish le msg ack_sender l =
     (case el_transport l of
        Some t \<Rightarrow>
          (case send_publish_direct le t msg ack_sender (l\<lparr>el_transport := None\<rparr>) of
             (Panic, l') \<Rightarrow> (Panic, l')
           | (r, l') \<Rightarrow> (r, l'\<lparr>el_transport := Some t\<rparr>))
      | None \<Rightarrow>
          (let policy = op_offline_queue (el_options l);
               push = bind (modify (\<lambda>l. l\<lparr>el_offline_queue := el_offline_queue l @ [msg]\<rparr>))
                        (\<lambda>_. reply_published le ack_sender) in
           if oq_capacity policy = 0 then throw CE_NotConnected l
           else if oq_capacity policy \<le> length (el_offline_queue l) then
             (case oq_drop_strategy policy of
                DropOldest \<Rightarrow> bind (modify (\<lambda>l. l\<lparr>el_offline_queue := tl (el_offline_queue l)\<rparr>)) (\<lambda>_. push) l
              | ErrorOnFull \<Rightarrow> throw CE_QueueFull l
              | Block \<Rightarrow> throw CE_QueueFull l)
           else push l))"

text \<open>The loop over a batch; a message that does not fit behind the others is encoded again into the
  emptied buffer, one that does not fit at all is left out.\<close>

fun publish_batch_loop ::
  "('f, 'r, 'c, 'w, 'io) loop_env \<Rightarrow> ('w, 'io) boxed_transport \<Rightarrow> tokio_message list \<Rightarrow> nat \<Rightarrow> nat \<Rightarrow>
   ('f, 'r, 'c, 'w, 'io, nat) loop_action" where
  "publish_batch_loop le t [] cursor sent_count =
     (if 0 < cursor then bind (loop_send le t cursor) (\<lambda>_. ret sent_count) else ret sent_count)"
| "publish_batch_loop le t (msg # msgs) cursor sent_count =
     bind (if tm_qos msg \<noteq> AtMostOnce then track_publish msg None else ret (msg, None))
       (\<lambda>(msg, packet_id).
         let p = Publish (publish_packet msg packet_id) in
         (\<lambda>l. case loop_encode p cursor l of
            (Ok len, l') \<Rightarrow> publish_batch_loop le t msgs (cursor + len) (sent_count + 1) l'
          | (Err _, l') \<Rightarrow>
              (if 0 < cursor then
                 bind (write_tx t cursor) (\<lambda>_.
                 bind (encode_or_malformed p) (\<lambda>len.
                 publish_batch_loop le t msgs len (sent_count + 1))) l'
               else publish_batch_loop le t msgs cursor sent_count l')
          | (Panic, l') \<Rightarrow> (Panic, l')))"

definition send_publish_batch_direct ::
  "('f, 'r, 'c, 'w, 'io) loop_env \<Rightarrow> ('w, 'io) boxed_transport \<Rightarrow> tokio_message list \<Rightarrow>
   ('f, 'r, 'c, 'w, 'io, nat) loop_action" where
  "send_publish_batch_direct le t messages = publish_batch_loop le t messages 0 0"

definition send_ping ::
  "('f, 'r, 'c, 'w, 'io) loop_env \<Rightarrow> ('w, 'io) boxed_transport \<Rightarrow> ('f, 'r, 'c, 'w, 'io, unit) loop_action" where
  "send_ping le t = bind (encode_or_malformed PingReq) (\<lambda>len. loop_send le t len)"

text \<open>Encoding whose failure only skips the writes behind it.\<close>

definition if_encoded ::
  "mqtt_packet \<Rightarrow> (nat \<Rightarrow> ('f, 'r, 'c, 'w, 'io, unit) loop_action) \<Rightarrow> ('f, 'r, 'c, 'w, 'io, unit) loop_action" where
  "if_encoded p k l =
     (case loop_encode p 0 l of
        (Ok len, l') \<Rightarrow> k len l'
      | (Err _, l') \<Rightarrow> (Ok (), l')
      | (Panic, l') \<Rightarrow> (Panic, l'))"

definition send_disconnect ::
  "('f, 'r, 'c, 'w, 'io) loop_env \<Rightarrow> ('w, 'io) boxed_transport \<Rightarrow> ('f, 'r, 'c, 'w, 'io, unit) loop_action" where
  "send_disconnect le t =
     bind (if_encoded (Disconnect disconnect_new) (\<lambda>len.
       bind (ignore_result (write_tx t len)) (\<lambda>_. ignore_result (io_call (bt_flush t)))))
     (\<lambda>_. announce le StatusStopped)"

subsection \<open>Requests of the handles\<close>

fun handle_client_request ::
  "('f, 'r, 'c, 'w, 'io) loop_env \<Rightarrow> ('w, 'io) boxed_transport \<Rightarrow> ('r, 'c) client_request \<Rightarrow>
   ('f, 'r, 'c, 'w, 'io, unit) loop_action" where
  "handle_client_request le t (ReqPublish message ack_sender) = send_publish_direct le t message ack_sender"
| "handle_client_request le t (ReqPublishBatch messages ack_sender) =
     bind (send_publish_batch_direct le t messages) (\<lambda>count.
       case ack_sender of Some sender \<Rightarrow> on_world (le_reply_count le sender (Ok count)) | None \<Rightarrow> ret ())"
| "handle_client_request le t (ReqPublishDatagram topic payload ack_sender) =
     (let msg = tokio_message_new topic payload in
      bind (encode_or_malformed (Publish (publish_new topic (tm_payload msg) AtMostOnce))) (\<lambda>len.
      bind (gets el_tx_buf) (\<lambda>buf.
      bind (lift (subslice buf 0 len)) (\<lambda>b.
      (\<lambda>l. case bt_send_datagram t b (el_world l) of
          (Panic, w) \<Rightarrow> (Panic, l\<lparr>el_world := w\<rparr>)
        | (res, w) \<Rightarrow>
            (Ok (), l\<lparr>el_world := (case ack_sender of Some sender \<Rightarrow> le_reply_unit le sender res w | None \<Rightarrow> w)\<rparr>)))))) "
| "handle_client_request le t (ReqSubscribe topic q resp_sender stream_sender) =
     bind loop_next_packet_id (\<lambda>pid.
     bind (case stream_sender of
             Some stream_tx \<Rightarrow> modify (\<lambda>l. l\<lparr>el_router :=
               snd (router_insert topic stream_tx (el_router l) :: ('io client_error, unit) outcome \<times> _)\<rparr>)
           | None \<Rightarrow> ret ()) (\<lambda>_.
     bind (modify (\<lambda>l. l\<lparr>el_active_subscriptions := AList.update topic q (el_active_subscriptions l)\<rparr>)) (\<lambda>_.
     bind (encode_or_malformed (Subscribe
             (case subscribe_add_topic (subscribe_new pid) topic q of Ok sub \<Rightarrow> sub | _ \<Rightarrow> subscribe_new pid))) (\<lambda>len.
     bind (loop_send le t len) (\<lambda>_.
     modify (\<lambda>l. l\<lparr>el_inflight_subscribes := AList.update pid resp_sender (el_inflight_subscribes l)\<rparr>))))))"
| "handle_client_request le t (ReqUnsubscribe topic resp_sender) =
     bind loop_next_packet_id (\<lambda>pid.
     bind (modify (\<lambda>l. l\<lparr>el_router :=
             snd (router_remove topic (el_router l) :: ('io client_error, unit) outcome \<times> _)\<rparr>)) (\<lambda>_.
     bind (modify (\<lambda>l. l\<lparr>el_active_subscriptions := AList.delete topic (el_active_subscriptions l)\<rparr>)) (\<lambda>_.
     bind (encode_or_malformed (Unsubscribe
             (case unsubscribe_add_topic (unsubscribe_new pid) topic of Ok unsub \<Rightarrow> unsub | _ \<Rightarrow> unsubscribe_new pid))) (\<lambda>len.
     bind (loop_send le t len) (\<lambda>_.
     modify (\<lambda>l. l\<lparr>el_inflight_unsubscribes := AList.update pid resp_sender (el_inflight_unsubscribes l)\<rparr>))))))"
| "handle_client_request le t (ReqDisconnect resp_sender) =
     (\<lambda>l. case send_disconnect le t l of
        (Panic, l') \<Rightarrow> (Panic, l')
      | (res, l') \<Rightarrow> bind (on_world (le_reply_unit le resp_sender res)) (\<lambda>_. throw CE_ClientClosed) l')"

subsection \<open>Connecting\<close>

definition keep_alive_secs :: "'f client_options \<Rightarrow> u16" where
  "keep_alive_secs opts = of_nat (min (op_keep_alive opts div 1000000000) 65535)"

definition loop_connect_packet :: "'f client_options \<Rightarrow> connect" where
  "loop_connect_packet opts =
     (connect_new (op_client_id opts) (keep_alive_secs opts) (op_clean_session opts))
       \<lparr>conn_username := op_username opts, conn_password := op_password opts,
        conn_will := (case op_will opts of
            Some will \<Rightarrow> Some (will_new (tm_topic will) (tm_payload will) (tm_qos will) (tm_retain will))
          | None \<Rightarrow> None)\<rparr>"

definition invalid_response :: "'io client_error" where
  "invalid_response = CE_Protocol InvalidResponse"

text \<open>The bytes a read put at \<open>cursor\<close> of the receive buffer.\<close>

definition store_rx :: "nat \<Rightarrow> bytes \<Rightarrow> ('f, 'r, 'c, 'w, 'io, unit) loop_action" where
  "store_rx cursor d = modify (\<lambda>l. l\<lparr>el_rx_buf := overwrite cursor d (el_rx_buf l)\<rparr>)"

definition perform_connect_handshake ::
  "('f, 'r, 'c, 'w, 'io) loop_env \<Rightarrow> ('w, 'io) boxed_transport \<Rightarrow> ('f, 'r, 'c, 'w, 'io, unit) loop_action" where
  "perform_connect_handshake le t =
     bind (gets el_options) (\<lambda>opts.
     bind (encode_or_malformed (Connect (loop_connect_packet opts))) (\<lambda>len.
     bind (write_tx t len) (\<lambda>_.
     bind (io_call (bt_flush t)) (\<lambda>_.
     bind (gets (\<lambda>l. length (el_rx_buf l))) (\<lambda>n.
     bind (\<lambda>l. case le_timed_read le t n (el_world l) of
             (None, w) \<Rightarrow> (Err CE_Timeout, l\<lparr>el_world := w\<rparr>)
           | (Some r, w) \<Rightarrow> (map_err client_error_from_io r, l\<lparr>el_world := w\<rparr>)) (\<lambda>d.
     bind (store_rx 0 d) (\<lambda>_.
     if d = [] then throw invalid_response
     else
       bind (gets (\<lambda>l. take (length d) (el_rx_buf l))) (\<lambda>received.
       bind (lift (map_err (\<lambda>_. invalid_response) (decode received (op_version opts)))) (\<lambda>packet.
       (case packet of
          Some (ConnAck connack) \<Rightarrow>
            if ca_reason_code connack = 0 then ret () else throw (CE_ConnectionRefused (ca_reason_code connack))
        | _ \<Rightarrow> throw invalid_response))))))))))"

subsection \<open>Session data recovery\<close>

fun resend_inflight ::
  "('w, 'io) boxed_transport \<Rightarrow> (u16 \<times> tokio_message) list \<Rightarrow> ('f, 'r, 'c, 'w, 'io, unit) loop_action" where
  "resend_inflight t [] = ret ()"
| "resend_inflight t ((pid, msg) # rest) =
     (let msg = msg\<lparr>tm_dup := True, tm_packet_id := Some pid\<rparr>;
          p = (publish_new (tm_topic msg) (tm_payload msg) (tm_qos msg))
                \<lparr>pub_packet_id := Some pid, pub_retain := tm_retain msg, pub_dup := True\<rparr> in
      bind (if_encoded (Publish p) (\<lambda>len. ignore_result (write_tx t len))) (\<lambda>_. resend_inflight t rest))"

fun resubscribe ::
  "('w, 'io) boxed_transport \<Rightarrow> (str \<times> qos) list \<Rightarrow> ('f, 'r, 'c, 'w, 'io, unit) loop_action" where
  "resubscribe t [] = ret ()"
| "resubscribe t ((topic, q) # rest) =
     bind loop_next_packet_id (\<lambda>pid.
     bind (if_encoded (Subscribe
             (case subscribe_add_topic (subscribe_new pid) topic q of Ok sub \<Rightarrow> sub | _ \<Rightarrow> subscribe_new pid))
             (\<lambda>len. ignore_result (write_tx t len))) (\<lambda>_. resubscribe t rest))"

text \<open>\<open>while let Some(msg) = self.offline_queue.pop_front()\<close>; sending does not touch the queue.\<close>

fun flush_offline ::
  "('f, 'r, 'c, 'w, 'io) loop_env \<Rightarrow> ('w, 'io) boxed_transport \<Rightarrow> tokio_message list \<Rightarrow>
   ('f, 'r, 'c, 'w, 'io, unit) loop_action" where
  "flush_offline le t [] = ret ()"
| "flush_offline le t (msg # rest) =
     bind (modify (\<lambda>l. l\<lparr>el_offline_queue := rest\<rparr>)) (\<lambda>_.
     bind (ignore_result (send_publish_direct le t msg None)) (\<lambda>_. flush_offline le t rest))"

definition recover_session ::
  "('f, 'r, 'c, 'w, 'io) loop_env \<Rightarrow> ('w, 'io) boxed_transport \<Rightarrow> ('f, 'r, 'c, 'w, 'io, unit) loop_action" where
  "recover_session le t =
     bind (gets (\<lambda>l. op_recovery (el_options l))) (\<lambda>policy.
     bind (gets el_inflight_publishes) (\<lambda>in_flight.
     bind (if rp_resend_unacked_inflight policy \<and> in_flight \<noteq> [] then
             bind (resend_inflight t (map (\<lambda>(pid, msg, _). (pid, msg)) in_flight))
               (\<lambda>_. ignore_result (io_call (bt_flush t)))
           else ret ()) (\<lambda>_.
     bind (gets el_active_subscriptions) (\<lambda>subs.
     bind (if rp_auto_resubscribe policy \<and> subs \<noteq> [] then
             bind (resubscribe t subs) (\<lambda>_. ignore_result (io_call (bt_flush t)))
           else ret ()) (\<lambda>_.
     bind (gets el_offline_queue) (\<lambda>queue. flush_offline le t queue))))))"

definition perform_session_data_recovery ::
  "('f, 'r, 'c, 'w, 'io) loop_env \<Rightarrow> ('f, 'r, 'c, 'w, 'io, unit) loop_action" where
  "perform_session_data_recovery le l =
     (case el_transport l of
        None \<Rightarrow> (Err CE_NotConnected, l)
      | Some t \<Rightarrow>
          bind (recover_session le t) (\<lambda>_. modify (\<lambda>l. l\<lparr>el_transport := Some t\<rparr>)) (l\<lparr>el_transport := None\<rparr>))"

subsection \<open>Receiving\<close>

datatype incoming_action =
    InPublish tokio_message
  | InPubAck u16
  | InSubAck u16
  | InUnsubAck u16
  | InPingResp
  | InDisconnect

definition owned_message :: "publish \<Rightarrow> tokio_message" where
  "owned_message p =
     \<lparr>tm_topic = pub_topic p, tm_payload = pub_payload p, tm_qos = pub_qos p, tm_retain = pub_retain p,
      tm_dup = pub_dup p, tm_packet_id = pub_packet_id p, tm_user_properties = []\<rparr>"

fun incoming_of :: "mqtt_packet \<Rightarrow> incoming_action list" where
  "incoming_of (Publish p) = [InPublish (owned_message p)]"
| "incoming_of (PubAck a) = [InPubAck (ack_packet_id a)]"
| "incoming_of (SubAck s) = [InSubAck (sa_packet_id s)]"
| "incoming_of (UnsubAck u) = [InUnsubAck (ua_packet_id u)]"
| "incoming_of PingResp = [InPingResp]"
| "incoming_of (Disconnect d) = [InDisconnect]"
| "incoming_of _ = []"

text \<open>The loop over \<open>iter.flatten()\<close>, with the bytes consumed and the actions so far; \<open>None\<close> is
  "does not return".\<close>

partial_function (option) parse_frames ::
  "mqtt_version \<Rightarrow> frame_iter \<Rightarrow> nat \<Rightarrow> incoming_action list \<Rightarrow>
   ('io client_error, nat \<times> incoming_action list) outcome option" where
  "parse_frames v it consumed actions =
     (case flatten_next it of
        None \<Rightarrow> None
      | Some (Ok None, it') \<Rightarrow> Some (Ok (consumed, actions))
      | Some (Ok (Some f), it') \<Rightarrow>
          (case decode f v of
             Ok None \<Rightarrow> parse_frames v it' (consumed + length f) actions
           | Ok (Some packet) \<Rightarrow> parse_frames v it' (consumed + length f) (actions @ incoming_of packet)
           | Err _ \<Rightarrow> Some (Err invalid_response)
           | Panic \<Rightarrow> Some Panic)
      | Some (Err e, it') \<Rightarrow> Some Panic
      | Some (Panic, it') \<Rightarrow> Some Panic)"

text \<open>\<open>HashMap::remove\<close>, with the value it returns.\<close>

definition take_entry ::
  "'k \<Rightarrow> (('f, 'r, 'c, 'w, 'io) event_loop \<Rightarrow> ('k \<times> 'v) list) \<Rightarrow>
   ((('k \<times> 'v) list \<Rightarrow> ('k \<times> 'v) list) \<Rightarrow> ('f, 'r, 'c, 'w, 'io) event_loop \<Rightarrow> ('f, 'r, 'c, 'w, 'io) event_loop) \<Rightarrow>
   ('f, 'r, 'c, 'w, 'io, 'v option) loop_action" where
  "take_entry k table upd l = (Ok (map_of (table l) k), upd (AList.delete k) l)"

definition dispatch_message ::
  "('f, 'r, 'c, 'w, 'io) loop_env \<Rightarrow> tokio_message \<Rightarrow> ('f, 'r, 'c, 'w, 'io, unit) loop_action" where
  "dispatch_message le msg l =
     (case router_dispatch (le_channels le) msg (el_router l) (el_world l) of
        (r, w) \<Rightarrow> (Ok (), l\<lparr>el_router := r, el_world := w\<rparr>))"

fun run_action ::
  "('f, 'r, 'c, 'w, 'io) loop_env \<Rightarrow> ('w, 'io) boxed_transport \<Rightarrow> incoming_action \<Rightarrow>
   ('f, 'r, 'c, 'w, 'io, unit) loop_action" where
  "run_action le t (InPublish owned_msg) =
     bind (case (tm_qos owned_msg, tm_packet_id owned_msg) of
             (AtLeastOnce, Some pid) \<Rightarrow> if_encoded (PubAck (ack_new pid)) (\<lambda>len. loop_send le t len)
           | _ \<Rightarrow> ret ()) (\<lambda>_. dispatch_message le owned_msg)"
| "run_action le t (InPubAck packet_id) =
     bind (take_entry packet_id el_inflight_publishes el_inflight_publishes_update) (\<lambda>entry.
       case entry of Some (_, Some sender) \<Rightarrow> on_world (le_reply_unit le sender (Ok ())) | _ \<Rightarrow> ret ())"
| "run_action le t (InSubAck packet_id) =
     bind (take_entry packet_id el_inflight_subscribes el_inflight_subscribes_update) (\<lambda>entry.
       case entry of Some sender \<Rightarrow> on_world (le_reply_id le sender (Ok packet_id)) | None \<Rightarrow> ret ())"
| "run_action le t (InUnsubAck packet_id) =
     bind (take_entry packet_id el_inflight_unsubscribes el_inflight_unsubscribes_update) (\<lambda>entry.
       case entry of Some sender \<Rightarrow> on_world (le_reply_id le sender (Ok packet_id)) | None \<Rightarrow> ret ())"
| "run_action le t InPingResp = ret ()"
| "run_action le t InDisconnect = throw CE_NotConnected"

fun run_actions ::
  "('f, 'r, 'c, 'w, 'io) loop_env \<Rightarrow> ('w, 'io) boxed_transport \<Rightarrow> incoming_action list \<Rightarrow>
   ('f, 'r, 'c, 'w, 'io, unit) loop_action" where
  "run_actions le t [] = ret ()"
| "run_actions le t (a # as) = bind (run_action le t a) (\<lambda>_. run_actions le t as)"

text \<open>The first branch of \<open>select!\<close> once \<open>transport.read\<close> has put \<open>d\<close> behind \<open>rx_cursor\<close>; the value is
  the new \<open>rx_cursor\<close>.\<close>

definition process_received ::
  "('f, 'r, 'c, 'w, 'io) loop_env \<Rightarrow> ('w, 'io) boxed_transport \<Rightarrow> nat \<Rightarrow> bytes \<Rightarrow>
   ('f, 'r, 'c, 'w, 'io) event_loop \<Rightarrow>
   (('io client_error, nat) outcome \<times> ('f, 'r, 'c, 'w, 'io) event_loop) option" where
  "process_received le t rx_cursor d l =
     (if d = [] then Some (Err (CE_Io (le_unexpected_eof le)), l)
      else
        (let l1 = l\<lparr>el_rx_buf := overwrite rx_cursor d (el_rx_buf l)\<rparr>;
             rx_cursor = rx_cursor + length d in
         case parse_frames (op_version (el_options l1)) (frame_iter_new (take rx_cursor (el_rx_buf l1))) 0 [] of
           None \<Rightarrow> None
         | Some (Err e) \<Rightarrow> Some (Err e, l1)
         | Some Panic \<Rightarrow> Some (Panic, l1)
         | Some (Ok (consumed, actions)) \<Rightarrow>
             Some (bind (if 0 < consumed then
                           bind (gets el_rx_buf) (\<lambda>buf.
                           bind (lift (copy_within consumed rx_cursor 0 buf)) (\<lambda>buf'.
                           modify (\<lambda>l. l\<lparr>el_rx_buf := buf'\<rparr>)))
                         else ret ())
                    (\<lambda>_. bind (run_actions le t actions) (\<lambda>_. ret (rx_cursor - consumed))) l1)))"

text \<open>\<open>&mut self.rx_buf[rx_cursor..]\<close> panics behind the end of the buffer.\<close>

definition receive_branch ::
  "('f, 'r, 'c, 'w, 'io) loop_env \<Rightarrow> ('w, 'io) boxed_transport \<Rightarrow> nat \<Rightarrow> ('f, 'r, 'c, 'w, 'io) event_loop \<Rightarrow>
   (('io client_error, nat) outcome \<times> ('f, 'r, 'c, 'w, 'io) event_loop) option" where
  "receive_branch le t rx_cursor l =
     (if length (el_rx_buf l) < rx_cursor then Some (Panic, l)
      else case io_call (bt_read t (length (el_rx_buf l) - rx_cursor)) l of
        (Ok d, l1) \<Rightarrow> process_received le t rx_cursor d l1
      | (Err e, l1) \<Rightarrow> Some (Err e, l1)
      | (Panic, l1) \<Rightarrow> Some (Panic, l1))"

subsection \<open>The connection cycle\<close>

text \<open>The second branch: a request, or the end of all handles. The value tells whether to go on.\<close>

definition request_branch ::
  "('f, 'r, 'c, 'w, 'io) loop_env \<Rightarrow> ('w, 'io) boxed_transport \<Rightarrow> ('f, 'r, 'c, 'w, 'io, bool) loop_action" where
  "request_branch le t l =
     (case le_recv le (el_world l) of
        (Some req, w) \<Rightarrow> bind (handle_client_request le t req) (\<lambda>_. ret True) (l\<lparr>el_world := w\<rparr>)
      | (None, w) \<Rightarrow> bind (ignore_result (send_disconnect le t)) (\<lambda>_. ret False) (l\<lparr>el_world := w\<rparr>))"

definition ping_branch ::
  "('f, 'r, 'c, 'w, 'io) loop_env \<Rightarrow> ('w, 'io) boxed_transport \<Rightarrow> ('f, 'r, 'c, 'w, 'io, unit) loop_action" where
  "ping_branch le t l =
     (if op_keep_alive (el_options l) \<le> le_now le (el_world l) - el_last_tx l then send_ping le t l else (Ok (), l))"

text \<open>\<open>loop { tokio::select! { \<dots> } }\<close>\<close>

partial_function (option) select_loop ::
  "('f, 'r, 'c, 'w, 'io) loop_env \<Rightarrow> ('w, 'io) boxed_transport \<Rightarrow> nat \<Rightarrow> ('f, 'r, 'c, 'w, 'io) event_loop \<Rightarrow>
   (('io client_error, unit) outcome \<times> ('f, 'r, 'c, 'w, 'io) event_loop) option" where
  "select_loop le t rx_cursor l =
     (case le_select le (el_world l) of
        (Readable, w) \<Rightarrow>
          Option.bind (receive_branch le t rx_cursor (l\<lparr>el_world := w\<rparr>)) (\<lambda>(r, l1).
            case r of Ok cursor \<Rightarrow> select_loop le t cursor l1 | Err e \<Rightarrow> Some (Err e, l1) | Panic \<Rightarrow> Some (Panic, l1))
      | (Requested, w) \<Rightarrow>
          (case request_branch le t (l\<lparr>el_world := w\<rparr>) of
             (Ok go_on, l1) \<Rightarrow> if go_on then select_loop le t rx_cursor l1 else Some (Ok (), l1)
           | (Err e, l1) \<Rightarrow> Some (Err e, l1)
           | (Panic, l1) \<Rightarrow> Some (Panic, l1))
      | (Ticked, w) \<Rightarrow>
          (case ping_branch le t (l\<lparr>el_world := w\<rparr>) of
             (Ok _, l1) \<Rightarrow> select_loop le t rx_cursor l1
           | (Err e, l1) \<Rightarrow> Some (Err e, l1)
           | (Panic, l1) \<Rightarrow> Some (Panic, l1)))"

definition drive_connection ::
  "('f, 'r, 'c, 'w, 'io) loop_env \<Rightarrow> ('f, 'r, 'c, 'w, 'io) event_loop \<Rightarrow>
   (('io client_error, unit) outcome \<times> ('f, 'r, 'c, 'w, 'io) event_loop) option" where
  "drive_connection le l =
     (if \<not> le_interval le (op_keep_alive (el_options l)) then Some (Panic, l)
      else case el_transport l of
        None \<Rightarrow> Some (Err CE_NotConnected, l)
      | Some t \<Rightarrow>
          map_option (\<lambda>(r, l1). case r of Panic \<Rightarrow> (Panic, l1) | _ \<Rightarrow> (r, l1\<lparr>el_transport := Some t\<rparr>))
            (select_loop le t 0 (l\<lparr>el_transport := None\<rparr>)))"

text \<open>One round of \<open>connect_with_backoff\<close>; the value tells whether the connection is up.\<close>

definition give_up :: "'io client_error \<Rightarrow> ('f, 'r, 'c, 'w, 'io, bool) loop_action" where
  "give_up e l =
     (case rc_max_retries (op_reconnect (el_options l)) of
        Some max_retries \<Rightarrow> if max_retries \<le> el_reconnect_attempt l then (Err e, l) else (Ok False, l)
      | None \<Rightarrow> (Ok False, l))"

definition try_connection ::
  "('f, 'r, 'c, 'w, 'io) loop_env \<Rightarrow> ('f, 'r, 'c, 'w, 'io, bool) loop_action" where
  "try_connection le l =
     (case le_connect le (op_target (el_options l)) (el_world l) of
        (Ok transport, w) \<Rightarrow>
          (case perform_connect_handshake le transport (l\<lparr>el_world := w\<rparr>) of
             (Ok _, l1) \<Rightarrow>
               bind (modify (\<lambda>l. l\<lparr>el_transport := Some transport, el_reconnect_attempt := 0\<rparr>)) (\<lambda>_.
               bind (announce le StatusConnected) (\<lambda>_.
               bind (touch_last_tx le) (\<lambda>_.
               bind (perform_session_data_recovery le) (\<lambda>_. ret True)))) l1
           | (Err e, l1) \<Rightarrow> give_up e l1
           | (Panic, l1) \<Rightarrow> (Panic, l1))
      | (Err e, w) \<Rightarrow> give_up e (l\<lparr>el_world := w\<rparr>)
      | (Panic, w) \<Rightarrow> (Panic, l\<lparr>el_world := w\<rparr>))"

definition connect_attempt ::
  "('f, 'r, 'c, 'w, 'io) loop_env \<Rightarrow> ('f, 'r, 'c, 'w, 'io, bool) loop_action" where
  "connect_attempt le =
     bind (modify (\<lambda>l. l\<lparr>el_reconnect_attempt := el_reconnect_attempt l + 1\<rparr>)) (\<lambda>_.
     bind (gets el_reconnect_attempt) (\<lambda>attempt.
     bind (gets el_options) (\<lambda>opts.
     bind (lift (compute_delay (le_f64 le) (op_reconnect opts) attempt)) (\<lambda>delay.
     bind (if 0 < delay then
             bind (announce le (StatusReconnecting attempt delay)) (\<lambda>_. on_world (le_sleep le delay))
           else ret ()) (\<lambda>_.
     bind (announce le StatusConnecting) (\<lambda>_. try_connection le))))))"

partial_function (option) connect_with_backoff ::
  "('f, 'r, 'c, 'w, 'io) loop_env \<Rightarrow> ('f, 'r, 'c, 'w, 'io) event_loop \<Rightarrow>
   (('io client_error, unit) outcome \<times> ('f, 'r, 'c, 'w, 'io) event_loop) option" where
  "connect_with_backoff le l =
     (case connect_attempt le l of
        (Ok connected, l1) \<Rightarrow> if connected then Some (Ok (), l1) else connect_with_backoff le l1
      | (Err e, l1) \<Rightarrow> Some (Err e, l1)
      | (Panic, l1) \<Rightarrow> Some (Panic, l1))"

text \<open>\<open>run\<close> stores a status and returns nothing; the value is \<open>Panic\<close> when a panic ends the task.\<close>

definition stopped ::
  "('f, 'r, 'c, 'w, 'io) loop_env \<Rightarrow> ('f, 'r, 'c, 'w, 'io) event_loop \<Rightarrow>
   (('io client_error, unit) outcome \<times> ('f, 'r, 'c, 'w, 'io) event_loop) option" where
  "stopped le l = Some (announce le StatusStopped l)"

partial_function (option) run_loop ::
  "('f, 'r, 'c, 'w, 'io) loop_env \<Rightarrow> ('f, 'r, 'c, 'w, 'io) event_loop \<Rightarrow>
   (('io client_error, unit) outcome \<times> ('f, 'r, 'c, 'w, 'io) event_loop) option" where
  "run_loop le l =
     Option.bind (if el_transport l = None then connect_with_backoff le l else Some (Ok (), l)) (\<lambda>(r, l1).
       case r of
         Err e \<Rightarrow> stopped le l1
       | Panic \<Rightarrow> Some (Panic, l1)
       | Ok _ \<Rightarrow>
           Option.bind (drive_connection le l1) (\<lambda>(r, l2).
             case r of
               Ok _ \<Rightarrow> run_loop le l2
             | Panic \<Rightarrow> Some (Panic, l2)
             | Err CE_ClientClosed \<Rightarrow> stopped le l2
             | Err err \<Rightarrow>
                 (let l3 = snd (announce le StatusDisconnected (l2\<lparr>el_transport := None\<rparr>)
                     :: ('io client_error, unit) outcome \<times> _) in
                  if \<not> rc_enabled (op_reconnect (el_options l3)) then stopped le l3 else run_loop le l3)))"

text \<open>\<open>Client::new_split\<close>, and \<open>Client::connect\<close>, whose spawned task is \<open>run_loop\<close>.\<close>

definition client_new_split ::
  "('f, 'r, 'c, 'w, 'io) loop_env \<Rightarrow> 'f client_options \<Rightarrow> 'w \<Rightarrow> ('f, 'r, 'c, 'w, 'io) event_loop" where
  "client_new_split le opts w = event_loop_new le opts (le_status le StatusDisconnected w)"

definition client_connect_task ::
  "('f, 'r, 'c, 'w, 'io) loop_env \<Rightarrow> 'f client_options \<Rightarrow> 'w \<Rightarrow>
   (('io client_error, unit) outcome \<times> ('f, 'r, 'c, 'w, 'io) event_loop) option" where
  "client_connect_task le opts w = run_loop le (client_new_split le opts w)"

end
