(* ===== verification/Loop_Facts.thy ===== *)
theory Loop_Facts
  imports Event_Loop Client_Facts
begin

text \<open>
  The invariant of the event loop and the proof that every step of a connection keeps it and does
  not panic, under the contracts \<open>byte_transport\<close> (of a boxed transport) and \<open>loop_wire\<close>.
\<close>

subsection \<open>The invariant\<close>

text \<open>The buffers keep their size, packet ids are never 0, no table has two entries for an id, every
  in-flight message carries its id and a QoS above 0, and nothing is ever queued offline.\<close>

definition inflight_ok :: "(u16 \<times> tokio_message \<times> 'r option) list \<Rightarrow> bool" where
  "inflight_ok tbl \<longleftrightarrow> distinct (map fst tbl) \<and>
     (\<forall>(k, msg, ack) \<in> set tbl. k \<noteq> 0 \<and> tm_packet_id msg = Some k \<and> tm_qos msg \<noteq> AtMostOnce)"

definition ids_ok :: "(u16 \<times> 'r) list \<Rightarrow> bool" where
  "ids_ok tbl \<longleftrightarrow> distinct (map fst tbl) \<and> 0 \<notin> fst ` set tbl"

definition loop_inv :: "nat \<Rightarrow> ('f, 'r, 'c, 'w, 'io) event_loop \<Rightarrow> bool" where
  "loop_inv N l \<longleftrightarrow>
     length (el_rx_buf l) = N \<and> length (el_tx_buf l) = N \<and> el_next_packet_id l \<noteq> 0 \<and>
     inflight_ok (el_inflight_publishes l) \<and> ids_ok (el_inflight_subscribes l) \<and>
     ids_ok (el_inflight_unsubscribes l) \<and> distinct (map fst (el_active_subscriptions l)) \<and>
     el_offline_queue l = []"

lemma loop_inv_new: "loop_inv (op_max_packet_size opts) (event_loop_new le opts w)"
  by (simp add: loop_inv_def event_loop_new_def inflight_ok_def ids_ok_def)

text \<open>The components the invariant does not look at.\<close>

lemma loop_inv_updates [simp]:
  "loop_inv N (l\<lparr>el_world := w\<rparr>) = loop_inv N l"
  "loop_inv N (l\<lparr>el_router := r\<rparr>) = loop_inv N l"
  "loop_inv N (l\<lparr>el_transport := tr\<rparr>) = loop_inv N l"
  "loop_inv N (l\<lparr>el_last_tx := n\<rparr>) = loop_inv N l"
  "loop_inv N (l\<lparr>el_reconnect_attempt := n\<rparr>) = loop_inv N l"
  by (simp_all add: loop_inv_def)

text \<open>The tables under insertion and removal.\<close>

lemma inflight_ok_update:
  assumes "inflight_ok tbl" "k \<noteq> 0" "tm_packet_id msg = Some k" "tm_qos msg \<noteq> AtMostOnce"
  shows "inflight_ok (AList.update k (msg, ack) tbl)"
proof -
  have "set (AList.update k (msg, ack) tbl) \<subseteq> insert (k, msg, ack) (set tbl)" by (induction tbl) auto
  with assms show ?thesis by (fastforce simp: inflight_ok_def distinct_update)
qed

lemma delete_subset: "set (AList.delete k tbl) \<subseteq> set tbl"
  by (auto simp: AList.delete_eq)

lemma inflight_ok_delete: "inflight_ok tbl \<Longrightarrow> inflight_ok (AList.delete k tbl)"
  using delete_subset [of k tbl] by (auto simp: inflight_ok_def intro: distinct_delete)

lemma ids_ok_update: "ids_ok tbl \<Longrightarrow> k \<noteq> 0 \<Longrightarrow> ids_ok (AList.update k s tbl)"
proof -
  assume a: "ids_ok tbl" "k \<noteq> 0"
  have "set (AList.update k s tbl) \<subseteq> insert (k, s) (set tbl)" by (induction tbl) auto
  with a show ?thesis by (fastforce simp: ids_ok_def distinct_update)
qed

lemma ids_ok_delete: "ids_ok tbl \<Longrightarrow> ids_ok (AList.delete k tbl)"
  using delete_subset [of k tbl] by (auto simp: ids_ok_def intro: distinct_delete)

lemmas table_rules = inflight_ok_update inflight_ok_delete ids_ok_update ids_ok_delete distinct_update distinct_delete


subsection \<open>Steps without the network\<close>

lemma valid_loop_next_packet_id [pres_intros]: "valid b (loop_inv N) loop_next_packet_id (\<lambda>pid. pid \<noteq> 0)"
  by (rule validI) (auto simp: loop_next_packet_id_def loop_inv_def Let_def split: if_splits)

lemma valid_on_world [pres_intros]: "valid b (loop_inv N) (on_world f) any"
  by (simp add: on_world_def valid_def)

lemma valid_touch_last_tx [pres_intros]: "valid b (loop_inv N) (touch_last_tx le) any"
  by (simp add: touch_last_tx_def valid_def)

lemma valid_announce [pres_intros]: "valid b (loop_inv N) (announce le st) any"
  unfolding announce_def by (rule pres_intros)

lemma valid_reply_published [pres_intros]: "valid b (loop_inv N) (reply_published le a) any"
  by (cases a) (auto simp: reply_published_def intro: pres_intros)

text \<open>Packets whose encoder cannot panic on a buffer of \<open>n\<close> bytes.\<close>

definition encode_safe :: "nat \<Rightarrow> mqtt_packet \<Rightarrow> bool" where
  "encode_safe n p \<longleftrightarrow> (\<forall>buf v. length buf = n \<longrightarrow> fst (encode_packet p buf v) \<noteq> Panic)"

lemma encode_safe_never_empty [simp]: "never_empty p \<Longrightarrow> small N \<Longrightarrow> encode_safe (N - cursor) p"
  using encode_packet_safe [of p] less_imp_diff_less [of N 268435456 cursor]
  by (auto simp: encode_safe_def never_empty_def small_def)

lemma encode_safe_0 [simp]: "never_empty p \<Longrightarrow> small N \<Longrightarrow> encode_safe N p"
  using encode_safe_never_empty [of p N 0] by simp

lemma encode_safe_disconnect [simp]: "5 \<le> N \<Longrightarrow> encode_safe N (Disconnect disconnect_new)"
  unfolding encode_safe_def
proof (intro allI impI)
  fix buf :: bytes and v assume "5 \<le> N" "length buf = N"
  then have "5 + length (packet_content (Disconnect disconnect_new) v) \<le> length buf"
    by (simp add: disconnect_new_def reason_content_def)
  moreover have "encodable (Disconnect disconnect_new) v"
    by (simp add: encodable_def disconnect_new_def reason_content_def)
  ultimately obtain n b where "encode_packet (Disconnect disconnect_new) buf v = (Ok n, b)"
    using encode_packet_Ok by blast
  then show "fst (encode_packet (Disconnect disconnect_new) buf v) \<noteq> Panic" by simp
qed

lemma loop_encode_bounds:
  assumes "loop_inv N l" "cursor \<le> N" "loop_encode p cursor l = (r, l')"
  shows "loop_inv N l' \<and> (\<forall>n. r = Ok n \<longrightarrow> cursor + n \<le> N) \<and> (encode_safe (N - cursor) p \<longrightarrow> r \<noteq> Panic)"
proof -
  let ?v = "op_version (el_options l)" and ?buf = "drop cursor (el_tx_buf l)"
  obtain r1 sub where e: "encode_packet p ?buf ?v = (r1, sub)" by fastforce
  have l: "length (el_tx_buf l) = N" using assms(1) by (simp add: loop_inv_def)
  from encode_packet_bounds [OF e] l assms(2)
  have "length sub = N - cursor" "\<forall>n. r1 = Ok n \<longrightarrow> cursor + n \<le> N" by auto
  moreover have "r = r1" "l' = l\<lparr>el_tx_buf := take cursor (el_tx_buf l) @ sub\<rparr>"
    using assms(2,3) e l by (simp_all add: loop_encode_def Let_def)
  moreover have "encode_safe (N - cursor) p \<Longrightarrow> r1 \<noteq> Panic"
    unfolding encode_safe_def using e l by (metis fst_conv length_drop)
  ultimately show ?thesis using assms(1,2) by (auto simp: loop_inv_def)
qed

lemma valid_encode_or_malformed [pres_intros]:
  assumes "b \<Longrightarrow> encode_safe N p"
  shows "valid b (loop_inv N) (encode_or_malformed p) (\<lambda>n. n \<le> N)"
proof (rule validI)
  fix l r l' assume l: "loop_inv N l" "encode_or_malformed p l = (r, l')"
  obtain r1 l1 where e: "loop_encode p 0 l = (r1, l1)" by fastforce
  from loop_encode_bounds [OF l(1) _ e] l(2) e assms
  show "loop_inv N l' \<and> (\<forall>a. r = Ok a \<longrightarrow> a \<le> N) \<and> (b \<longrightarrow> r \<noteq> Panic)"
    by (cases r1) (auto simp: encode_or_malformed_def)
qed

lemma valid_if_encoded [pres_intros]:
  assumes "b \<Longrightarrow> encode_safe N p" "\<And>len. len \<le> N \<Longrightarrow> valid b (loop_inv N) (k len) any"
  shows "valid b (loop_inv N) (if_encoded p k) any"
proof (rule validI)
  fix l r l' assume l: "loop_inv N l" "if_encoded p k l = (r, l')"
  obtain r1 l1 where e: "loop_encode p 0 l = (r1, l1)" by fastforce
  note bounds = loop_encode_bounds [OF l(1) _ e]
  show "loop_inv N l' \<and> (\<forall>a. r = Ok a \<longrightarrow> any a) \<and> (b \<longrightarrow> r \<noteq> Panic)"
  proof (cases r1)
    case (Ok len)
    with bounds have "len \<le> N" "loop_inv N l1" by simp_all
    with validD [OF assms(2)] l(2) e Ok show ?thesis by (simp add: if_encoded_def)
  qed (use bounds l(2) e assms(1) in \<open>auto simp: if_encoded_def\<close>)
qed

lemma valid_track_publish [pres_intros]:
  assumes "tm_qos msg \<noteq> AtMostOnce"
  shows "valid b (loop_inv N) (track_publish msg a) any"
  unfolding track_publish_def
  by (rule valid_bind [OF valid_loop_next_packet_id])
    (auto simp: Let_def loop_inv_def assms intro!: pres_intros inflight_ok_update)

text \<open>A \<open>match\<close> on the result of encoding behind \<open>cursor\<close>.\<close>

lemma valid_encoded_at:
  assumes "cursor \<le> N" "b \<Longrightarrow> encode_safe (N - cursor) p"
    and "\<And>len. cursor + len \<le> N \<Longrightarrow> valid b (loop_inv N) (f len) Q" "valid b (loop_inv N) g Q"
  shows "valid b (loop_inv N) (\<lambda>l. case loop_encode p cursor l of
      (Ok len, l') \<Rightarrow> f len l' | (Err _, l') \<Rightarrow> g l' | (Panic, l') \<Rightarrow> (Panic, l')) Q"
proof (rule validI)
  fix l r l'
  assume l: "loop_inv N l" "(case loop_encode p cursor l of
      (Ok len, l') \<Rightarrow> f len l' | (Err _, l') \<Rightarrow> g l' | (Panic, l') \<Rightarrow> (Panic, l')) = (r, l')"
  obtain r1 l1 where e: "loop_encode p cursor l = (r1, l1)" by fastforce
  note bounds = loop_encode_bounds [OF l(1) assms(1) e]
  show "loop_inv N l' \<and> (\<forall>a. r = Ok a \<longrightarrow> Q a) \<and> (b \<longrightarrow> r \<noteq> Panic)"
  proof (cases r1)
    case (Ok len)
    with bounds have "cursor + len \<le> N" "loop_inv N l1" by simp_all
    from validD [OF assms(3) [OF this(1)] this(2)] l(2) e Ok show ?thesis by simp
  next
    case (Err x)
    with validD [OF assms(4)] bounds l(2) e show ?thesis by simp
  qed (use bounds l(2) e assms(2) in auto)
qed

lemma valid_take_entry:
  "(\<And>l. loop_inv N l \<Longrightarrow> loop_inv N (upd (AList.delete k) l)) \<Longrightarrow> valid b (loop_inv N) (take_entry k table upd) any"
  by (simp add: valid_def take_entry_def)

lemma valid_dispatch [pres_intros]: "valid b (loop_inv N) (dispatch_message le msg) any"
  by (rule validI) (auto simp: dispatch_message_def split: prod.splits)

subsection \<open>Contracts\<close>

text \<open>A boxed transport: a successful write appends exactly the given bytes to what the peer will
  see, a failed one some bytes, reads fit the buffer, and nothing panics.\<close>

locale byte_transport =
  fixes t :: "('w, 'io) boxed_transport" and sent :: "'w \<Rightarrow> bytes"
  assumes write_Ok: "bt_write_all t b w = (Ok u, w') \<Longrightarrow> sent w' = sent w @ b"
    and write_grows: "bt_write_all t b w = (r, w') \<Longrightarrow> r \<noteq> Panic \<and> (\<exists>tl. sent w' = sent w @ tl)"
    and flush_same: "bt_flush t w = (r, w') \<Longrightarrow> r \<noteq> Panic \<and> sent w' = sent w"
    and datagram_same: "bt_send_datagram t b w = (r2, w') \<Longrightarrow> r2 \<noteq> Panic \<and> sent w' = sent w"
    and read_fits: "bt_read t n w = (x, w') \<Longrightarrow> x \<noteq> Panic \<and> sent w' = sent w \<and> (\<forall>d. x = Ok d \<longrightarrow> length d \<le> n)"

text \<open>The loop's other primitives send nothing to the peer.\<close>

locale loop_wire = byte_transport t sent
  for t :: "('w, 'io) boxed_transport" and sent :: "'w \<Rightarrow> bytes" +
  fixes le :: "('f, 'r, 'c, 'w, 'io) loop_env"
  assumes quiet_replies: "sent (le_reply_unit le r x w) = sent w" "sent (le_reply_id le r y w) = sent w"
      "sent (le_reply_count le r z w) = sent w"
    and quiet_status: "sent (le_status le st w) = sent w"
    and quiet_try_send: "sent (ch_try_send (le_channels le) c msg w) = sent w"
    and quiet_recv: "sent (snd (le_recv le w)) = sent w"
    and quiet_select: "sent (snd (le_select le w)) = sent w"

context byte_transport begin

lemma valid_io_write [pres_intros]: "valid b (loop_inv N) (io_call (bt_write_all t x)) any"
  by (rule validI) (auto simp: io_call_def split: prod.splits dest!: write_grows)

lemma valid_io_flush [pres_intros]: "valid b (loop_inv N) (io_call (bt_flush t)) any"
  by (rule validI) (auto simp: io_call_def split: prod.splits dest!: flush_same)

lemma valid_write_tx [pres_intros]: "len \<le> N \<Longrightarrow> valid b (loop_inv N) (write_tx t len) any"
  unfolding write_tx_def
  by (rule valid_bind [where Q = "\<lambda>buf. length buf = N"], rule valid_basic(3), simp add: loop_inv_def,
      rule valid_bind [where Q = any], rule valid_basic(4), simp, simp add: subslice_def, rule valid_io_write)

lemma valid_loop_send [pres_intros]: "len \<le> N \<Longrightarrow> valid b (loop_inv N) (loop_send le t len) any"
  unfolding loop_send_def by (intro pres_intros)

lemma valid_encode_send [pres_intros]:
  assumes "b \<Longrightarrow> encode_safe N p"
    and "\<And>len. len \<le> N \<Longrightarrow> valid b (loop_inv N) (k len) any"
  shows "valid b (loop_inv N) (bind (encode_or_malformed p) k) any"
  by (rule valid_bind [OF valid_encode_or_malformed [OF assms(1)]]) (simp_all add: assms(2))

lemma valid_send_publish_direct [pres_intros]:
  "(b \<Longrightarrow> small N) \<Longrightarrow> valid b (loop_inv N) (send_publish_direct le t msg ack_sender) any"
  unfolding send_publish_direct_def
  by (intro pres_intros; (clarsimp split: prod.split)?; intro pres_intros; simp?)

lemma valid_publish_batch_loop:
  "cursor \<le> N \<Longrightarrow> (b \<Longrightarrow> small N) \<Longrightarrow> valid b (loop_inv N) (publish_batch_loop le t msgs cursor k) any"
proof (induction msgs arbitrary: cursor k)
  case Nil
  then show ?case by (auto intro!: pres_intros)
next
  case (Cons msg msgs)
  have step: "valid b (loop_inv N) (\<lambda>l. case loop_encode (Publish (publish_packet m pid)) cursor l of
      (Ok len, l') \<Rightarrow> publish_batch_loop le t msgs (cursor + len) (k + 1) l'
    | (Err _, l') \<Rightarrow>
        (if 0 < cursor then
           bind (write_tx t cursor) (\<lambda>_. bind (encode_or_malformed (Publish (publish_packet m pid))) (\<lambda>len.
             publish_batch_loop le t msgs len (k + 1))) l'
         else publish_batch_loop le t msgs cursor k l')
    | (Panic, l') \<Rightarrow> (Panic, l')) any" for m pid
  proof (rule valid_encoded_at)
    show "valid b (loop_inv N) (\<lambda>l'. if 0 < cursor then
           bind (write_tx t cursor) (\<lambda>_. bind (encode_or_malformed (Publish (publish_packet m pid))) (\<lambda>len.
             publish_batch_loop le t msgs len (k + 1))) l'
         else publish_batch_loop le t msgs cursor k l') any"
      by (cases "0 < cursor"; simp only: if_True if_False; intro pres_intros Cons.IH Cons.prems)
         (simp_all add: Cons.prems)
  qed (use Cons.prems in \<open>auto intro: Cons.IH simp del: any_simp\<close>)
  show ?case
    unfolding publish_batch_loop.simps Let_def
    by (intro pres_intros; (simp only: split_paired_all prod.case)?; (rule step)?; simp?)
qed

lemma valid_ignored [pres_intros]:
  "len \<le> N \<Longrightarrow> valid b (loop_inv N) (ignore_result (write_tx t len)) any"
  "valid b (loop_inv N) (ignore_result (io_call (bt_flush t))) any"
  by (rule valid_ignore_result, rule valid_write_tx, assumption) (rule valid_ignore_result, rule valid_io_flush)

lemma valid_send_disconnect [pres_intros]:
  "(b \<Longrightarrow> 5 \<le> N) \<Longrightarrow> valid b (loop_inv N) (send_disconnect le t) any"
  unfolding send_disconnect_def by (intro pres_intros) simp_all

lemma valid_datagram:
  "valid b (loop_inv N) (\<lambda>l. case bt_send_datagram t x (el_world l) of
      (Panic, w) \<Rightarrow> (Panic, l\<lparr>el_world := w\<rparr>)
    | (res, w) \<Rightarrow> (Ok (), l\<lparr>el_world := f res w\<rparr>)) any"
  by (rule validI) (auto split: prod.splits outcome.splits dest!: datagram_same)

lemma valid_handle_client_request [pres_intros]:
  assumes "b \<Longrightarrow> small N \<and> 5 \<le> N"
  shows "valid b (loop_inv N) (handle_client_request le t req) any"
proof (cases req)
  case (ReqPublish msg a)
  then show ?thesis using assms by (auto intro: pres_intros)
next
  case (ReqPublishBatch msgs a)
  then show ?thesis using assms
    by (auto simp: send_publish_batch_direct_def intro!: pres_intros valid_publish_batch_loop split: option.split)
next
  case (ReqPublishDatagram topic payload a)
  have "valid b (loop_inv N) (bind (gets el_tx_buf) (\<lambda>buf. bind (lift (subslice buf 0 len)) (\<lambda>x l.
      case bt_send_datagram t x (el_world l) of
        (Panic, w) \<Rightarrow> (Panic, l\<lparr>el_world := w\<rparr>)
      | (res, w) \<Rightarrow> (Ok (), l\<lparr>el_world := (case a of Some sender \<Rightarrow> le_reply_unit le sender res w | None \<Rightarrow> w)\<rparr>)))) any"
    if "len \<le> N" for len
  proof (rule valid_bind [where Q = "\<lambda>buf. length buf = N"])
    fix buf :: bytes assume buf: "length buf = N"
    show "valid b (loop_inv N) (bind (lift (subslice buf 0 len)) (\<lambda>x l. case bt_send_datagram t x (el_world l) of
        (Panic, w) \<Rightarrow> (Panic, l\<lparr>el_world := w\<rparr>)
      | (res, w) \<Rightarrow> (Ok (), l\<lparr>el_world := (case a of Some sender \<Rightarrow> le_reply_unit le sender res w | None \<Rightarrow> w)\<rparr>))) any"
      by (rule valid_bind [where Q = any, OF valid_basic(4) valid_datagram]) (use that buf in \<open>simp_all add: subslice_def\<close>)
  qed (simp add: valid_def loop_inv_def)
  with assms show ?thesis
    unfolding ReqPublishDatagram handle_client_request.simps Let_def
    by (intro valid_encode_send) simp_all
next
  case (ReqSubscribe topic q r s)
  show ?thesis unfolding ReqSubscribe handle_client_request.simps
    by (rule valid_bind [OF valid_loop_next_packet_id])
       (use assms in \<open>cases s; auto simp: loop_inv_def intro!: pres_intros table_rules\<close>)
next
  case (ReqUnsubscribe topic r)
  show ?thesis unfolding ReqUnsubscribe handle_client_request.simps
    by (rule valid_bind [OF valid_loop_next_packet_id])
       (use assms in \<open>auto simp: loop_inv_def intro!: pres_intros table_rules\<close>)
next
  case (ReqDisconnect r)
  have "valid b (loop_inv N) (\<lambda>l. case send_disconnect le t l of (Panic, l') \<Rightarrow> (Panic, l')
      | (res, l') \<Rightarrow> bind (on_world (le_reply_unit le r res)) (\<lambda>_. throw CE_ClientClosed) l') any"
    (is "valid b _ ?m any")
  proof (rule validI)
    fix l x l' assume l: "loop_inv N l" "?m l = (x, l')"
    obtain res l1 where d: "send_disconnect le t l = (res, l1)" by fastforce
    have "loop_inv N l1" "b \<Longrightarrow> res \<noteq> Panic"
      using validD [OF valid_send_disconnect l(1) d] assms by blast+
    with l(2) d show "loop_inv N l' \<and> (\<forall>a. x = Ok a \<longrightarrow> any a) \<and> (b \<longrightarrow> x \<noteq> Panic)"
      by (cases res) (auto simp: on_world_def bind_def throw_def)
  qed
  then show ?thesis by (simp add: ReqDisconnect)
qed

end

subsection \<open>Parsing what was received\<close>

text \<open>What the loop over the frames makes of a list of them.\<close>

fun decode_frames ::
  "mqtt_version \<Rightarrow> bytes list \<Rightarrow> nat \<Rightarrow> incoming_action list \<Rightarrow> ('io client_error, nat \<times> incoming_action list) outcome" where
  "decode_frames v [] consumed actions = Ok (consumed, actions)"
| "decode_frames v (f # fs) consumed actions =
     (case decode f v of
        Ok None \<Rightarrow> decode_frames v fs (consumed + length f) actions
      | Ok (Some packet) \<Rightarrow> decode_frames v fs (consumed + length f) (actions @ incoming_of packet)
      | Err _ \<Rightarrow> Err invalid_response
      | Panic \<Rightarrow> Panic)"

lemma flatten_next_cases:
  "frame_next it = (None, it') \<Longrightarrow> flatten_next it = Some (Ok None, it')"
  "frame_next it = (Some (Ok f), it') \<Longrightarrow> flatten_next it = Some (Ok (Some f), it')"
  by (simp_all add: flatten_next.simps)

text \<open>The loop ends exactly when the iterator stops without an error; before an unreadable length it
  ends only by a frame that cannot be decoded.\<close>

lemma parse_frames_eq:
  "frames it = (fs, e, off) \<Longrightarrow>
   parse_frames v it consumed actions =
     (case decode_frames v fs consumed actions :: ('io client_error, _) outcome of
        Ok r \<Rightarrow> if e = None then Some (Ok r) else None | x \<Rightarrow> Some x)"
proof (induction it arbitrary: fs consumed actions rule: frames.induct)
  case (1 it)
  note IH0 = 1(1) and prem = 1(2)
  obtain o1 it' where n: "frame_next it = (o1, it')" by fastforce
  consider "o1 = None" | f where "o1 = Some (Ok f)" | err where "o1 = Some (Err err)"
    using n frame_next_not_Panic [of it it'] by (cases o1; (cases "the o1")?) auto
  then show ?case
  proof cases
    case 1
    with n prem show ?thesis by (simp add: frames.simps [of it] parse_frames.simps [of v it] flatten_next_cases)
  next
    case (2 f)
    obtain fs' e' off' where fr: "frames it' = (fs', e', off')" by (metis prod_cases3)
    have fs: "fs = f # fs'" "e' = e" "off' = off" using prem n 2 fr by (simp_all add: frames.simps [of it])
    have flat: "flatten_next it = Some (Ok (Some f), it')" using n 2 by (simp add: flatten_next_cases)
    have IH: "parse_frames v it' c a = (case decode_frames v fs' c a :: ('io client_error, _) outcome of
        Ok r \<Rightarrow> if e = None then Some (Ok r) else None | x \<Rightarrow> Some x)" for c a
      using IH0 [OF n [symmetric] 2, of f fs' c a] 2 fr fs by simp
    show ?thesis
      unfolding parse_frames.simps [of v it] flat fs(1)
      by (cases "decode f v") (auto simp: IH split: option.split)
  next
    case (3 err)
    with n have "frames it = ([], Some err, fi_offset it')" "flatten_next it = None"
      by (simp_all add: frames.simps [of it] flatten_next_diverges)
    with prem show ?thesis by (auto simp: parse_frames.simps [of v it])
  qed
qed

lemma frames_bounds:
  "frames it = (fs, e, off) \<Longrightarrow>
   (\<forall>f \<in> set fs. \<exists>it1 it2. frame_next it1 = (Some (Ok f), it2)) \<and>
   (fi_offset it \<le> length (fi_buffer it) \<longrightarrow> fi_offset it + length (concat fs) \<le> length (fi_buffer it))"
proof (induction it arbitrary: fs rule: frames.induct)
  case (1 it)
  obtain o1 it' where n: "frame_next it = (o1, it')" by fastforce
  show ?case
  proof (cases "\<exists>f. o1 = Some (Ok f)")
    case True
    then obtain f where f: "o1 = Some (Ok f)" by blast
    obtain fs' e' off' where fr: "frames it' = (fs', e', off')" by (metis prod_cases3)
    have fs: "fs = f # fs'" "e' = e" "off' = off" using 1(2) n f fr by (simp_all add: frames.simps [of it])
    have "frame_next it = (Some (Ok f), it')" using n f by simp
    note adv = frame_next_advances [OF this]
    have "(\<forall>f \<in> set fs'. \<exists>it1 it2. frame_next it1 = (Some (Ok f), it2)) \<and>
        (fi_offset it' \<le> length (fi_buffer it') \<longrightarrow> fi_offset it' + length (concat fs') \<le> length (fi_buffer it'))"
      using 1(1) [OF n [symmetric] f, of f fs'] f fr fs by simp
    with adv n f show ?thesis unfolding fs(1) by auto
  next
    case False
    then have "fs = []" using 1(2) n
      by (auto simp: frames.simps [of it] split: option.splits outcome.splits)
    then show ?thesis by simp
  qed
qed

lemma decode_frames_not_Panic:
  "\<forall>f \<in> set fs. \<exists>it1 it2. frame_next it1 = (Some (Ok f), it2) \<Longrightarrow> decode_frames v fs n acts \<noteq> Panic"
proof (induction fs arbitrary: n acts)
  case (Cons f fs)
  then obtain it1 it2 where "frame_next it1 = (Some (Ok f), it2)" by auto
  then have "decode f v \<noteq> Panic" using frame_next_exact decode_frame_not_Panic by blast
  with Cons show ?case by (cases "decode f v") (auto split: option.split)
qed simp

lemma decode_frames_consumed: "decode_frames v fs n acts = Ok (m, acts') \<Longrightarrow> m = n + length (concat fs)"
proof (induction fs arbitrary: n acts)
  case (Cons f fs)
  then show ?case by (auto split: outcome.splits option.splits dest!: Cons.IH)
qed simp

lemma parse_received:
  assumes "parse_frames v (frame_iter_new buf) 0 [] = Some r"
  shows "r \<noteq> Panic \<and> (\<forall>n acts. r = Ok (n, acts) \<longrightarrow> n \<le> length buf)"
proof -
  obtain fs e off where fr: "frames (frame_iter_new buf) = (fs, e, off)" by (metis prod_cases3)
  note b = frames_bounds [OF fr]
  from b have "decode_frames v fs 0 [] \<noteq> (Panic :: ('b client_error, _) outcome)"
    by (intro decode_frames_not_Panic) blast
  then show ?thesis
    using b assms unfolding parse_frames_eq [OF fr]
    by (auto simp: frame_iter_new_def dest: decode_frames_consumed split: outcome.splits if_splits)
qed

subsection \<open>The cycle of a connection\<close>

context byte_transport begin

lemma valid_run_action [pres_intros]:
  assumes "b \<Longrightarrow> small N"
  shows "valid b (loop_inv N) (run_action le t a) any"
proof (cases a)
  case (InPublish msg)
  then show ?thesis using assms by (auto intro!: pres_intros split: qos.split option.split)
next
  case (InPubAck k)
  then show ?thesis
    by (auto intro!: pres_intros valid_take_entry simp: loop_inv_def inflight_ok_delete split: option.split)
next
  case (InSubAck k)
  then show ?thesis by (auto intro!: pres_intros valid_take_entry simp: loop_inv_def ids_ok_delete split: option.split)
next
  case (InUnsubAck k)
  then show ?thesis by (auto intro!: pres_intros valid_take_entry simp: loop_inv_def ids_ok_delete split: option.split)
qed (auto intro: pres_intros)

lemma valid_run_actions [pres_intros]: "(b \<Longrightarrow> small N) \<Longrightarrow> valid b (loop_inv N) (run_actions le t as) any"
  by (induction "as") (auto intro!: pres_intros)

text \<open>The steps of \<open>select!\<close> whose value says how to go on.\<close>

lemma valid_copy_down:
  assumes "consumed \<le> cursor" "cursor \<le> N"
  shows "valid b (loop_inv N) (bind (gets el_rx_buf) (\<lambda>buf. bind (lift (copy_within consumed cursor 0 buf))
    (\<lambda>buf'. modify (\<lambda>l. l\<lparr>el_rx_buf := buf'\<rparr>)))) any"
  by (rule validI) (use assms in \<open>auto simp: bind_def lift_def copy_within_def loop_inv_def split: if_splits\<close>)

lemma process_received_inv:
  assumes "process_received le t cursor d l = Some (r, l')" "loop_inv N l" "cursor + length d \<le> N" "small N"
  shows "loop_inv N l' \<and> r \<noteq> Panic \<and> (\<forall>c. r = Ok c \<longrightarrow> c \<le> N)"
proof (cases "d = []")
  case False
  let ?l1 = "l\<lparr>el_rx_buf := overwrite cursor d (el_rx_buf l)\<rparr>" and ?cur = "cursor + length d"
  let ?buf = "take ?cur (el_rx_buf ?l1)"
  have l1: "loop_inv N ?l1" using assms(2,3) by (simp add: loop_inv_def)
  then have lb: "length ?buf = ?cur" using assms(3) by (simp add: loop_inv_def)
  obtain x where x: "parse_frames (op_version (el_options ?l1)) (frame_iter_new ?buf) 0 [] =
      Some (x :: ('io client_error, _) outcome)"
    using assms(1) False by (auto simp: process_received_def Let_def split: option.splits)
  note pr = parse_received [OF x]
  show ?thesis
  proof (cases x)
    case (Ok na)
    then obtain n acts where x': "x = Ok (n, acts)" by (cases na) auto
    have n: "n \<le> ?cur" using pr x' lb by simp
    let ?m = "bind (if 0 < n then bind (gets el_rx_buf) (\<lambda>buf. bind (lift (copy_within n ?cur 0 buf))
        (\<lambda>buf'. modify (\<lambda>l. l\<lparr>el_rx_buf := buf'\<rparr>))) else ret ())
      (\<lambda>_. bind (run_actions le t acts) (\<lambda>_. ret (?cur - n)))"
    have "valid True (loop_inv N) ?m (\<lambda>c. c \<le> N)"
      by (rule valid_then, use n assms(3) valid_copy_down in \<open>auto intro: pres_intros\<close>)
         (rule valid_then, use assms(3,4) in \<open>auto intro!: pres_intros\<close>)
    moreover have "?m ?l1 = (r, l')" using assms(1) False x x' by (simp add: process_received_def Let_def)
    ultimately show ?thesis using l1 by (auto dest: validD)
  next
    case (Err e)
    then show ?thesis using assms(1) False x l1 by (auto simp: process_received_def Let_def)
  qed (use pr in simp)
qed (use assms in \<open>auto simp: process_received_def\<close>)

lemma receive_branch_inv:
  assumes "receive_branch le t cursor l = Some (r, l')" "loop_inv N l" "cursor \<le> N" "small N"
  shows "loop_inv N l' \<and> r \<noteq> Panic \<and> (\<forall>c. r = Ok c \<longrightarrow> c \<le> N)"
proof -
  have len: "length (el_rx_buf l) = N" using assms(2) by (simp add: loop_inv_def)
  obtain x w where rd: "bt_read t (N - cursor) (el_world l) = (x, w)" by fastforce
  note fits = read_fits [OF rd]
  show ?thesis
  proof (cases x)
    case (Ok d)
    with fits assms(3) have "cursor + length d \<le> N" by auto
    with Ok show ?thesis
      using assms len rd process_received_inv [of le cursor d "l\<lparr>el_world := w\<rparr>" r l' N]
      by (simp add: receive_branch_def io_call_def)
  qed (use assms len rd fits in \<open>auto simp: receive_branch_def io_call_def\<close>)
qed

lemma valid_request_branch: "small N \<Longrightarrow> 5 \<le> N \<Longrightarrow> valid True (loop_inv N) (request_branch le t) any"
proof (rule validI)
  fix l r l' assume N: "small N" "5 \<le> N" and l: "loop_inv N l" "request_branch le t l = (r, l')"
  obtain x w where "le_recv le (el_world l) = (x, w)" by fastforce
  with l(2) have eq: "(case x of Some req \<Rightarrow> bind (handle_client_request le t req) (\<lambda>_. ret True) (l\<lparr>el_world := w\<rparr>)
      | None \<Rightarrow> bind (ignore_result (send_disconnect le t)) (\<lambda>_. ret False) (l\<lparr>el_world := w\<rparr>)) = (r, l')"
    by (simp add: request_branch_def split: option.splits)
  show "loop_inv N l' \<and> (\<forall>a. r = Ok a \<longrightarrow> any a) \<and> (True \<longrightarrow> r \<noteq> Panic)"
  proof (cases x)
    case None
    have "valid True (loop_inv N) (bind (ignore_result (send_disconnect le t)) (\<lambda>_. ret False)) any"
      by (rule valid_then, rule valid_ignore_result, rule valid_send_disconnect) (use N in \<open>auto intro: pres_intros\<close>)
    from validD [OF this, of "l\<lparr>el_world := w\<rparr>" r l'] eq None l(1) show ?thesis by simp
  next
    case (Some req)
    have "valid True (loop_inv N) (bind (handle_client_request le t req) (\<lambda>_. ret True)) any"
      by (rule valid_then, rule valid_handle_client_request) (use N in \<open>auto intro: pres_intros\<close>)
    from validD [OF this, of "l\<lparr>el_world := w\<rparr>" r l'] eq Some l(1) show ?thesis by simp
  qed
qed

lemma valid_ping_branch: "small N \<Longrightarrow> valid True (loop_inv N) (ping_branch le t) any"
proof (rule validI)
  fix l r l' assume N: "small N" and l: "loop_inv N l" "ping_branch le t l = (r, l')"
  have "valid True (loop_inv N) (send_ping le t) any"
    unfolding send_ping_def by (intro pres_intros) (use N in simp_all)
  with l show "loop_inv N l' \<and> (\<forall>a. r = Ok a \<longrightarrow> any a) \<and> (True \<longrightarrow> r \<noteq> Panic)"
    by (auto simp: ping_branch_def split: if_splits dest!: validD)
qed

lemma select_loop_inv:
  assumes "small N" "5 \<le> N" "select_loop le t cursor l = Some x"
  shows "loop_inv N l \<Longrightarrow> cursor \<le> N \<Longrightarrow> loop_inv N (snd x) \<and> fst x \<noteq> Panic"
proof (rule select_loop.raw_induct [where P = "\<lambda>le' t' cursor l x. le' = le \<longrightarrow> t' = t \<longrightarrow>
    loop_inv N l \<longrightarrow> cursor \<le> N \<longrightarrow> loop_inv N (snd x) \<and> fst x \<noteq> Panic",
    OF _ assms(3), THEN mp, THEN mp, THEN mp, THEN mp], goal_cases)
  case (1 f le' t' cursor l x)
  show ?case
  proof (intro impI)
    assume eq: "le' = le" "t' = t" and inv: "loop_inv N l" "cursor \<le> N"
    obtain br w where br: "le_select le (el_world l) = (br, w)" by fastforce
    let ?l = "l\<lparr>el_world := w\<rparr>"
    show "loop_inv N (snd x) \<and> fst x \<noteq> Panic"
    proof (cases br)
      case Readable
      with 1(4) br eq obtain r l1 where rb: "receive_branch le t cursor ?l = Some (r, l1)"
        by (cases "receive_branch le t cursor ?l") auto
      from receive_branch_inv [OF this] inv assms(1)
      have "loop_inv N l1 \<and> r \<noteq> Panic \<and> (\<forall>c. r = Ok c \<longrightarrow> c \<le> N)" by simp
      with 1(3,4) Readable br eq rb show ?thesis by (cases r) auto
    next
      case Requested
      obtain r l1 where rb: "request_branch le t ?l = (r, l1)" by fastforce
      from validD [OF valid_request_branch [OF assms(1,2)] _ rb] inv(1)
      have "loop_inv N l1" "r \<noteq> Panic" by simp_all
      with 1(3,4) Requested br eq rb inv(2) show ?thesis by (cases r) (auto split: if_splits)
    next
      case Ticked
      obtain r l1 where rb: "ping_branch le t ?l = (r, l1)" by fastforce
      from validD [OF valid_ping_branch [OF assms(1)] _ rb] inv(1)
      have "loop_inv N l1" "r \<noteq> Panic" by simp_all
      with 1(3,4) Ticked br eq rb inv(2) show ?thesis by (cases r) auto
    qed
  qed
qed simp_all

end

end
