(* ===== verification/Loop_Wire.thy ===== *)
theory Loop_Wire
  imports Loop_Facts Client_Progress
begin

text \<open>
  What the event loop puts on the wire: sending a packet, publishing, a batch, the recovery of a
  session. \<open>sent\<close> is what the peer has been given so far.
\<close>

subsection \<open>Encoding into the transmit buffer\<close>

abbreviation version_of :: "('f, 'r, 'c, 'w, 'io) event_loop \<Rightarrow> mqtt_version" where
  "version_of l \<equiv> op_version (el_options l)"

text \<open>Equal up to the world, the transmit buffer and the time of the last transmission.\<close>

definition net_only :: "('f, 'r, 'c, 'w, 'io) event_loop \<Rightarrow> ('f, 'r, 'c, 'w, 'io) event_loop \<Rightarrow> bool" where
  "net_only l l' \<longleftrightarrow> (\<exists>w b n. l' = l\<lparr>el_world := w, el_tx_buf := b, el_last_tx := n\<rparr> \<and> length b = length (el_tx_buf l))"

lemma net_onlyI:
  "net_only l l"
  "net_only l (l\<lparr>el_world := w\<rparr>)"
  "net_only l (l\<lparr>el_last_tx := n\<rparr>)"
  "length b = length (el_tx_buf l) \<Longrightarrow> net_only l (l\<lparr>el_tx_buf := b\<rparr>)"
  unfolding net_only_def
  by (rule exI [of _ "el_world l"] exI [of _ w] exI [of _ "el_tx_buf l"] exI [of _ b] exI [of _ "el_last_tx l"] exI [of _ n], simp)+

lemma net_only_trans:
  assumes "net_only l l'" "net_only l' l''"
  shows "net_only l l''"
proof -
  obtain w b n where 1: "l' = l\<lparr>el_world := w, el_tx_buf := b, el_last_tx := n\<rparr>" "length b = length (el_tx_buf l)"
    using assms(1) unfolding net_only_def by blast
  obtain w' b' n' where 2: "l'' = l'\<lparr>el_world := w', el_tx_buf := b', el_last_tx := n'\<rparr>" "length b' = length (el_tx_buf l')"
    using assms(2) unfolding net_only_def by blast
  have "l'' = l\<lparr>el_world := w', el_tx_buf := b', el_last_tx := n'\<rparr>" using 1 2 by simp
  moreover have "length b' = length (el_tx_buf l)" using 1 2 by simp
  ultimately show ?thesis unfolding net_only_def by blast
qed

lemma net_only_sel:
  assumes "net_only l l'"
  shows "el_options l' = el_options l" "el_router l' = el_router l" "el_transport l' = el_transport l"
    "el_offline_queue l' = el_offline_queue l" "el_active_subscriptions l' = el_active_subscriptions l"
    "el_inflight_publishes l' = el_inflight_publishes l" "el_inflight_subscribes l' = el_inflight_subscribes l"
    "el_inflight_unsubscribes l' = el_inflight_unsubscribes l" "el_next_packet_id l' = el_next_packet_id l"
    "el_rx_buf l' = el_rx_buf l" "el_reconnect_attempt l' = el_reconnect_attempt l"
    "length (el_tx_buf l') = length (el_tx_buf l)"
  using assms by (auto simp: net_only_def)

lemma loop_encode_net: "loop_encode p cursor l = (r, l') \<Longrightarrow> net_only l l' \<and> el_world l' = el_world l"
  by (auto simp: loop_encode_def Let_def split: if_splits prod.splits dest: encode_packet_bounds intro!: net_onlyI)

lemma loop_encode_wire:
  assumes "loop_encode p cursor l = (Ok n, l')" "encodable p (version_of l)"
    and "packet_content p (version_of l) \<noteq> []" "cursor \<le> length (el_tx_buf l)"
  shows "n = length (wire p (version_of l)) \<and>
    take (cursor + n) (el_tx_buf l') = take cursor (el_tx_buf l) @ wire p (version_of l) \<and>
    cursor + n \<le> length (el_tx_buf l') \<and> net_only l l' \<and> el_world l' = el_world l"
proof -
  obtain sub where e: "encode_packet p (drop cursor (el_tx_buf l)) (version_of l) = (Ok n, sub)"
    and l': "l' = l\<lparr>el_tx_buf := take cursor (el_tx_buf l) @ sub\<rparr>"
    using assms(1,4) by (auto simp: loop_encode_def Let_def split: prod.splits if_splits)
  have w: "n = length (wire p (version_of l))" "take n sub = wire p (version_of l)"
    using encode_packet_wire [OF assms(2,3) e] by blast+
  have b: "length sub = length (el_tx_buf l) - cursor" "n \<le> length sub"
    using encode_packet_bounds [OF e] by auto
  show ?thesis using w b assms(4) loop_encode_net [OF assms(1)] by (simp add: l')
qed

text \<open>Encoding succeeds where the content fits behind the reserved header.\<close>

definition fits_tx :: "('f, 'r, 'c, 'w, 'io) event_loop \<Rightarrow> mqtt_packet \<Rightarrow> bool" where
  "fits_tx l p \<longleftrightarrow> encodable p (version_of l) \<and> packet_content p (version_of l) \<noteq> [] \<and>
     5 + length (packet_content p (version_of l)) \<le> length (el_tx_buf l)"

lemma fits_tx_net: "net_only l l' \<Longrightarrow> fits_tx l' p = fits_tx l p"
  by (simp add: fits_tx_def net_only_sel)

lemma loop_encode_ready:
  assumes "fits_tx l p"
  obtains l' where "loop_encode p 0 l = (Ok (length (wire p (version_of l))), l')"
    and "take (length (wire p (version_of l))) (el_tx_buf l') = wire p (version_of l)"
    and "length (wire p (version_of l)) \<le> length (el_tx_buf l')" and "net_only l l'" "el_world l' = el_world l"
proof -
  obtain b where "encode_packet p (el_tx_buf l) (version_of l) = (Ok (length (wire p (version_of l))), b)"
    using encode_packet_Ok [of p "version_of l" "el_tx_buf l"] assms unfolding fits_tx_def by blast
  then have e: "loop_encode p 0 l = (Ok (length (wire p (version_of l))), l\<lparr>el_tx_buf := b\<rparr>)"
    by (simp add: loop_encode_def Let_def)
  from loop_encode_wire [OF e] assms show thesis by (intro that [OF e]) (simp_all add: fits_tx_def)
qed

subsection \<open>Sending\<close>

text \<open>A transport that accepts everything.\<close>

definition reliable :: "('w, 'io) boxed_transport \<Rightarrow> bool" where
  "reliable t \<longleftrightarrow> (\<forall>b w. fst (bt_write_all t b w) = Ok ()) \<and> (\<forall>w. fst (bt_flush t w) = Ok ())"

lemma reliable_write: "reliable t \<Longrightarrow> \<exists>w'. bt_write_all t b w = (Ok (), w')"
  unfolding reliable_def by (metis prod.collapse)

lemma reliable_flush: "reliable t \<Longrightarrow> \<exists>w'. bt_flush t w = (Ok (), w')"
  unfolding reliable_def by (metis prod.collapse)

context byte_transport begin

lemma write_tx_Ok:
  assumes "write_tx t len l = (Ok u, l')"
  shows "sent (el_world l') = sent (el_world l) @ take len (el_tx_buf l) \<and> l' = l\<lparr>el_world := el_world l'\<rparr>"
  using assms
  by (auto simp: write_tx_def bind_Ok subslice_def io_call_def split: if_splits prod.splits outcome.splits dest!: write_Ok)

lemma flush_Ok:
  assumes "io_call (bt_flush t) l = (r, l')"
  shows "sent (el_world l') = sent (el_world l) \<and> l' = l\<lparr>el_world := el_world l'\<rparr>"
  using assms by (auto simp: io_call_def split: prod.splits dest!: flush_same)

lemma loop_send_Ok:
  assumes "loop_send le t len l = (Ok u, l')"
  shows "sent (el_world l') = sent (el_world l) @ take len (el_tx_buf l) \<and> net_only l l'"
proof -
  from assms obtain u1 l1 u2 l2 where w: "write_tx t len l = (Ok u1 :: ('io client_error, _) outcome, l1)"
    and f: "io_call (bt_flush t) l1 = (Ok u2 :: ('io client_error, _) outcome, l2)"
    and l': "l' = l2\<lparr>el_last_tx := le_now le (el_world l2)\<rparr>"
    by (auto simp: loop_send_def bind_Ok touch_last_tx_def)
  have 1: "net_only l l1" using write_tx_Ok [OF w] net_onlyI(2) [of l "el_world l1"] by metis
  have 2: "net_only l1 l2" using flush_Ok [OF f] net_onlyI(2) [of l1 "el_world l2"] by metis
  have "net_only l l'" using net_only_trans [OF net_only_trans [OF 1 2]] l' net_onlyI(3) by blast
  with write_tx_Ok [OF w] flush_Ok [OF f] l' show ?thesis by simp
qed

text \<open>Sending a packet that fits, when errors are ignored and when they are not.\<close>

lemma write_tx_reliable:
  assumes "reliable t" "len \<le> length (el_tx_buf l)"
  shows "\<exists>l'. write_tx t len l = (Ok (), l') \<and> net_only l l' \<and> sent (el_world l') = sent (el_world l) @ take len (el_tx_buf l)"
proof -
  obtain w where w: "bt_write_all t (take len (el_tx_buf l)) (el_world l) = (Ok (), w)"
    using reliable_write [OF assms(1)] by blast
  then have "write_tx t len l = (Ok (), l\<lparr>el_world := w\<rparr>)"
    using assms(2) by (simp add: write_tx_def bind_def subslice_def io_call_def)
  with write_Ok [OF w] show ?thesis by (auto intro: net_onlyI)
qed

lemma send_ignored_reliable:
  assumes "reliable t" "fits_tx l p"
  shows "\<exists>l'. if_encoded p (\<lambda>len. ignore_result (write_tx t len)) l = (Ok (), l') \<and> net_only l l' \<and>
    sent (el_world l') = sent (el_world l) @ wire p (version_of l)"
proof -
  from assms(2) obtain l1 where e: "loop_encode p 0 l = (Ok (length (wire p (version_of l))), l1)"
    "take (length (wire p (version_of l))) (el_tx_buf l1) = wire p (version_of l)"
    "length (wire p (version_of l)) \<le> length (el_tx_buf l1)" "net_only l l1" "el_world l1 = el_world l"
    by (rule loop_encode_ready)
  obtain l2 where w: "write_tx t (length (wire p (version_of l))) l1 = (Ok () :: ('io client_error, _) outcome, l2)" "net_only l1 l2"
    "sent (el_world l2) = sent (el_world l1) @ take (length (wire p (version_of l))) (el_tx_buf l1)"
    using write_tx_reliable [OF assms(1) e(3)] by blast
  show ?thesis
    using e w net_only_trans [OF e(4) w(2)] by (intro exI [of _ l2]) (simp add: if_encoded_def ignore_result_def)
qed

lemma loop_send_reliable:
  assumes "reliable t" "len \<le> length (el_tx_buf l)"
  shows "\<exists>l'. loop_send le t len l = (Ok (), l') \<and> net_only l l' \<and> sent (el_world l') = sent (el_world l) @ take len (el_tx_buf l)"
proof -
  obtain l1 where w: "write_tx t len l = (Ok () :: ('io client_error, _) outcome, l1)"
    using write_tx_reliable [OF assms] by blast
  obtain w' where f: "bt_flush t (el_world l1) = (Ok (), w')" using reliable_flush [OF assms(1)] by blast
  have "loop_send le t len l = (Ok (), l1\<lparr>el_world := w', el_last_tx := le_now le w'\<rparr>)"
    using w f by (simp add: loop_send_def bind_def io_call_def touch_last_tx_def)
  with loop_send_Ok [OF this] show ?thesis by blast
qed

lemma encode_send_Ok:
  assumes "encode_or_malformed p l = (Ok len, l1)" "loop_send le t len l1 = (Ok u, l')"
    and "encodable p (version_of l)" "packet_content p (version_of l) \<noteq> []"
  shows "sent (el_world l') = sent (el_world l) @ wire p (version_of l) \<and> net_only l l'"
proof -
  have "loop_encode p 0 l = (Ok len, l1)" using assms(1)
    by (auto simp: encode_or_malformed_def split: prod.splits)
  from loop_encode_wire [OF this assms(3,4)] loop_send_Ok [OF assms(2)]
  show ?thesis by (auto intro: net_only_trans)
qed

lemma encode_publish_encodable:
  assumes "loop_encode (Publish p) cursor l = (Ok n, l')" "cursor \<le> length (el_tx_buf l)" "small (length (el_tx_buf l))"
  shows "encodable (Publish p) (version_of l)"
proof -
  obtain sub where e: "encode_packet (Publish p) (drop cursor (el_tx_buf l)) (version_of l) = (Ok n, sub)"
    using assms(1,2) by (auto simp: loop_encode_def Let_def split: prod.splits if_splits)
  show ?thesis by (rule publish_Ok_encodable [OF e]) (use assms(3) in \<open>simp add: small_def\<close>)
qed

lemma encode_send_publish_Ok:
  assumes "bind (encode_or_malformed (Publish p)) (\<lambda>len. loop_send le t len) l = (Ok u, l')"
    and "small (length (el_tx_buf l))"
  shows "sent (el_world l') = sent (el_world l) @ wire (Publish p) (version_of l) \<and> net_only l l'"
proof -
  from assms(1) obtain len l1 where e: "encode_or_malformed (Publish p) l = (Ok len :: ('io client_error, _) outcome, l1)"
    and snd: "loop_send le t len l1 = (Ok u, l')" by (auto simp: bind_Ok)
  from e have "loop_encode (Publish p) 0 l = (Ok len, l1)" by (auto simp: encode_or_malformed_def split: prod.splits)
  from encode_publish_encodable [OF this _ assms(2)] have "encodable (Publish p) (version_of l)" by simp
  from encode_send_Ok [OF e snd this] show ?thesis by simp
qed

end

subsection \<open>Publishing\<close>

text \<open>The packet a message is sent as when the next packet id is \<open>i\<close>, and the tables afterwards.\<close>

definition publish_as :: "tokio_message \<Rightarrow> u16 \<Rightarrow> mqtt_packet" where
  "publish_as msg i = Publish (publish_packet msg (allocated_id (tm_qos msg) i))"

definition tracked_in ::
  "tokio_message \<Rightarrow> 'r option \<Rightarrow> u16 \<Rightarrow> (u16 \<times> tokio_message \<times> 'r option) list \<Rightarrow> (u16 \<times> tokio_message \<times> 'r option) list" where
  "tracked_in msg ack i tbl =
     (if tm_qos msg = AtMostOnce then tbl else AList.update i (msg\<lparr>tm_packet_id := Some i\<rparr>, ack) tbl)"

lemma publish_packet_id_irrelevant [simp]:
  "publish_packet (msg\<lparr>tm_packet_id := x\<rparr>) pid = publish_packet msg pid"
  by (simp add: publish_packet_def)

lemma loop_next_packet_id_eq:
  "loop_next_packet_id l = (Ok (el_next_packet_id l), l\<lparr>el_next_packet_id := next_id (el_next_packet_id l)\<rparr>)"
  by (simp add: loop_next_packet_id_def next_id_def Let_def)

text \<open>The state once the message is tracked, before anything is written.\<close>

definition after_tracking ::
  "tokio_message \<Rightarrow> 'r option \<Rightarrow> ('f, 'r, 'c, 'w, 'io) event_loop \<Rightarrow> ('f, 'r, 'c, 'w, 'io) event_loop" where
  "after_tracking msg ack l = l\<lparr>el_next_packet_id := id_after (tm_qos msg) (el_next_packet_id l),
     el_inflight_publishes := tracked_in msg ack (el_next_packet_id l) (el_inflight_publishes l)\<rparr>"

lemma track_publish_eq:
  "tm_qos msg \<noteq> AtMostOnce \<Longrightarrow> track_publish msg ack l =
     (Ok (msg\<lparr>tm_packet_id := Some (el_next_packet_id l)\<rparr>, Some (el_next_packet_id l)), after_tracking msg ack l)"
  by (simp add: track_publish_def loop_next_packet_id_eq bind_def Let_def after_tracking_def tracked_in_def id_after_def)

lemma after_tracking_sel [simp]:
  "el_tx_buf (after_tracking msg ack l) = el_tx_buf l" "el_world (after_tracking msg ack l) = el_world l"
  "el_options (after_tracking msg ack l) = el_options l" "fits_tx (after_tracking msg ack l) p = fits_tx l p"
  by (simp_all add: after_tracking_def fits_tx_def)

context loop_wire begin

lemma reply_published_eq:
  "reply_published le ack l = (Ok (), l\<lparr>el_world := (case ack of Some r \<Rightarrow> le_reply_unit le r (Ok ()) (el_world l) | None \<Rightarrow> el_world l)\<rparr>)"
  by (cases ack) (simp_all add: reply_published_def on_world_def)

lemma send_publish_direct_Ok:
  assumes "send_publish_direct le t msg ack l = (Ok u, l')" "small (length (el_tx_buf l))"
  shows "sent (el_world l') = sent (el_world l) @ wire (publish_as msg (el_next_packet_id l)) (version_of l) \<and>
    net_only (after_tracking msg ack l) l'"
proof (cases "tm_qos msg = AtMostOnce")
  case True
  let ?l = "l\<lparr>el_world := (case ack of Some r \<Rightarrow> le_reply_unit le r (Ok ()) (el_world l) | None \<Rightarrow> el_world l)\<rparr>"
  have q: "sent (el_world ?l) = sent (el_world l)" by (cases ack) (simp_all add: quiet_replies)
  have "bind (encode_or_malformed (Publish (publish_packet msg None))) (\<lambda>len. loop_send le t len) ?l = (Ok u, l')"
    using assms(1) True by (simp add: send_publish_direct_def reply_published_eq bind_def split: outcome.splits prod.splits)
  from encode_send_publish_Ok [OF this] assms(2) q
  have 1: "sent (el_world l') = sent (el_world l) @ wire (Publish (publish_packet msg None)) (version_of l)" "net_only ?l l'"
    by simp_all
  have "net_only (after_tracking msg ack l) ?l"
    using True by (simp add: after_tracking_def tracked_in_def id_after_def net_onlyI)
  from net_only_trans [OF this 1(2)] 1(1) True show ?thesis by (simp add: publish_as_def allocated_id_def)
next
  case False
  have "bind (encode_or_malformed (Publish (publish_packet msg (Some (el_next_packet_id l))))) (\<lambda>len. loop_send le t len)
      (after_tracking msg ack l) = (Ok u, l')"
    using assms(1) False by (simp add: send_publish_direct_def track_publish_eq bind_def)
  from encode_send_publish_Ok [OF this] assms(2) False show ?thesis
    by (simp add: publish_as_def allocated_id_def)
qed

end

subsection \<open>Session data recovery\<close>

definition wires :: "mqtt_version \<Rightarrow> mqtt_packet list \<Rightarrow> bytes" where
  "wires v ps = concat (map (\<lambda>p. wire p v) ps)"

lemma wires_simps [simp]: "wires v [] = []" "wires v (p # ps) = wire p v @ wires v ps"
  "wires v (ps @ qs) = wires v ps @ wires v qs"
  by (simp_all add: wires_def)

lemma net_only_next_id:
  assumes "net_only l l1"
  shows "net_only (l\<lparr>el_next_packet_id := i\<rparr>) (l1\<lparr>el_next_packet_id := i\<rparr>)"
proof -
  obtain w b n where "l1 = l\<lparr>el_world := w, el_tx_buf := b, el_last_tx := n\<rparr>" "length b = length (el_tx_buf l)"
    using assms unfolding net_only_def by blast
  then show ?thesis unfolding net_only_def by (intro exI [of _ w] exI [of _ b] exI [of _ n]) simp
qed

text \<open>What is sent again for an in-flight entry, for the subscriptions from packet id \<open>i\<close> on, and for
  the offline messages from packet id \<open>i\<close> on.\<close>

definition dup_packet :: "u16 \<times> tokio_message \<Rightarrow> mqtt_packet" where
  "dup_packet e = Publish ((publish_new (tm_topic (snd e)) (tm_payload (snd e)) (tm_qos (snd e)))
     \<lparr>pub_packet_id := Some (fst e), pub_retain := tm_retain (snd e), pub_dup := True\<rparr>)"

fun resubscribe_packets :: "u16 \<Rightarrow> (str \<times> qos) list \<Rightarrow> mqtt_packet list" where
  "resubscribe_packets i [] = []"
| "resubscribe_packets i (s # subs) =
     Subscribe \<lparr>sub_packet_id = i, sub_topics = [s], sub_properties = []\<rparr> # resubscribe_packets (next_id i) subs"

fun id_after_subs :: "u16 \<Rightarrow> (str \<times> qos) list \<Rightarrow> u16" where
  "id_after_subs i [] = i"
| "id_after_subs i (s # subs) = id_after_subs (next_id i) subs"

fun offline_packets :: "u16 \<Rightarrow> tokio_message list \<Rightarrow> mqtt_packet list" where
  "offline_packets i [] = []"
| "offline_packets i (msg # msgs) = publish_as msg i # offline_packets (id_after (tm_qos msg) i) msgs"

lemma add_first_topic:
  "subscribe_add_topic (subscribe_new i) topic q = Ok \<lparr>sub_packet_id = i, sub_topics = [(topic, q)], sub_properties = []\<rparr>"
  by (simp add: subscribe_add_topic_def subscribe_new_def vec_push_def vec_cap_def)

lemma fits_tx_cong:
  "el_options l' = el_options l \<Longrightarrow> length (el_tx_buf l') = length (el_tx_buf l) \<Longrightarrow> fits_tx l' p = fits_tx l p"
  by (simp add: fits_tx_def)

context byte_transport begin

lemma resend_inflight_reliable:
  "reliable t \<Longrightarrow> \<forall>e \<in> set es. fits_tx l (dup_packet e) \<Longrightarrow>
   \<exists>l'. resend_inflight t es l = (Ok (), l') \<and> net_only l l' \<and>
     sent (el_world l') = sent (el_world l) @ wires (version_of l) (map dup_packet es)"
proof (induction es arbitrary: l)
  case (Cons e es)
  obtain pid msg where e: "e = (pid, msg)" by (cases e)
  from send_ignored_reliable [OF Cons.prems(1), of l "dup_packet e"] Cons.prems(2) obtain l1 where
    1: "if_encoded (dup_packet e) (\<lambda>len. ignore_result (write_tx t len)) l = (Ok () :: ('io client_error, _) outcome, l1)" "net_only l l1"
    "sent (el_world l1) = sent (el_world l) @ wire (dup_packet e) (version_of l)" by auto
  have "\<forall>e \<in> set es. fits_tx l1 (dup_packet e)" using Cons.prems(2) fits_tx_net [OF 1(2)] by simp
  from Cons.IH [OF Cons.prems(1) this] obtain l2 where
    2: "resend_inflight t es l1 = (Ok () :: ('io client_error, _) outcome, l2)" "net_only l1 l2"
    "sent (el_world l2) = sent (el_world l1) @ wires (version_of l1) (map dup_packet es)" by blast
  have "resend_inflight t (e # es) l = (Ok (), l2)"
    using 1(1) 2(1) by (simp add: e dup_packet_def Let_def bind_def)
  with 1 2 net_only_trans [OF 1(2) 2(2)] net_only_sel(1) [OF 1(2)] show ?case by auto
qed (auto intro: net_onlyI)

lemma resubscribe_reliable:
  "reliable t \<Longrightarrow> \<forall>p \<in> set (resubscribe_packets (el_next_packet_id l) subs). fits_tx l p \<Longrightarrow>
   \<exists>l'. resubscribe t subs l = (Ok (), l') \<and>
     net_only (l\<lparr>el_next_packet_id := id_after_subs (el_next_packet_id l) subs\<rparr>) l' \<and>
     sent (el_world l') = sent (el_world l) @ wires (version_of l) (resubscribe_packets (el_next_packet_id l) subs)"
proof (induction subs arbitrary: l)
  case (Cons s subs)
  obtain topic q where s: "s = (topic, q)" by (cases s)
  let ?i = "el_next_packet_id l" and ?l = "l\<lparr>el_next_packet_id := next_id (el_next_packet_id l)\<rparr>"
  let ?p = "Subscribe \<lparr>sub_packet_id = ?i, sub_topics = [s], sub_properties = []\<rparr>"
  have "fits_tx ?l ?p" using Cons.prems(2) by (simp add: fits_tx_def)
  from send_ignored_reliable [OF Cons.prems(1) this] obtain l1 where
    1: "if_encoded ?p (\<lambda>len. ignore_result (write_tx t len)) ?l = (Ok () :: ('io client_error, _) outcome, l1)" "net_only ?l l1"
    "sent (el_world l1) = sent (el_world l) @ wire ?p (version_of l)" by auto
  note sel = net_only_sel [OF 1(2)]
  have "\<forall>p \<in> set (resubscribe_packets (el_next_packet_id l1) subs). fits_tx l1 p"
    using Cons.prems(2) sel by (auto simp: fits_tx_def)
  from Cons.IH [OF Cons.prems(1) this] obtain l2 where
    2: "resubscribe t subs l1 = (Ok () :: ('io client_error, _) outcome, l2)"
    "net_only (l1\<lparr>el_next_packet_id := id_after_subs (el_next_packet_id l1) subs\<rparr>) l2"
    "sent (el_world l2) = sent (el_world l1) @ wires (version_of l1) (resubscribe_packets (el_next_packet_id l1) subs)"
    by blast
  have "resubscribe t (s # subs) l = (Ok (), l2)"
    using 1(1) 2(1) by (simp add: s bind_def loop_next_packet_id_eq add_first_topic)
  moreover have "net_only (l\<lparr>el_next_packet_id := id_after_subs ?i (s # subs)\<rparr>) l2"
    using net_only_trans [OF net_only_next_id [OF 1(2)] 2(2)] sel(9) by simp
  ultimately show ?case using 1(3) 2(3) sel by auto
qed (auto intro: net_onlyI)

end

context loop_wire begin

lemma send_publish_direct_reliable:
  assumes "reliable t" "fits_tx l (publish_as msg (el_next_packet_id l))" "small (length (el_tx_buf l))"
  shows "\<exists>l'. send_publish_direct le t msg ack l = (Ok (), l') \<and> net_only (after_tracking msg ack l) l' \<and>
    sent (el_world l') = sent (el_world l) @ wire (publish_as msg (el_next_packet_id l)) (version_of l)"
proof -
  let ?p = "publish_packet msg (allocated_id (tm_qos msg) (el_next_packet_id l))"
  let ?m = "if tm_qos msg \<noteq> AtMostOnce then track_publish msg ack
      else bind (reply_published le ack) (\<lambda>_. ret (msg, None))"
  obtain l1 where l1: "?m l =
      (Ok (msg\<lparr>tm_packet_id := if tm_qos msg = AtMostOnce then tm_packet_id msg else Some (el_next_packet_id l)\<rparr>,
        allocated_id (tm_qos msg) (el_next_packet_id l)) :: ('io client_error, _) outcome, l1)"
    "el_options l1 = el_options l" "el_tx_buf l1 = el_tx_buf l"
    by (cases "tm_qos msg = AtMostOnce") (auto simp: track_publish_eq reply_published_eq bind_def allocated_id_def)
  then have "fits_tx l1 (Publish ?p)" using assms(2) by (simp add: fits_tx_def publish_as_def)
  then obtain l2 where e: "loop_encode (Publish ?p) 0 l1 = (Ok (length (wire (Publish ?p) (version_of l1))), l2)"
    "length (wire (Publish ?p) (version_of l1)) \<le> length (el_tx_buf l2)"
    by (rule loop_encode_ready) blast
  from loop_send_reliable [OF assms(1) e(2), of le] obtain l3 where
    s: "loop_send le t (length (wire (Publish ?p) (version_of l1))) l2 = (Ok () :: ('io client_error, _) outcome, l3)"
    by blast
  have "send_publish_direct le t msg ack l = (Ok (), l3)"
    unfolding send_publish_direct_def bind_apply(1) [of ?m, OF l1(1)] prod.case
    using e(1) s by (simp add: encode_or_malformed_def bind_def)
  with send_publish_direct_Ok [OF this assms(3)] show ?thesis by blast
qed

lemma flush_offline_reliable:
  "reliable t \<Longrightarrow> small (length (el_tx_buf l)) \<Longrightarrow>
   \<forall>p \<in> set (offline_packets (el_next_packet_id l) msgs). fits_tx l p \<Longrightarrow>
   \<exists>l'. flush_offline le t msgs l = (Ok (), l') \<and> (msgs \<noteq> [] \<longrightarrow> el_offline_queue l' = []) \<and>
     (msgs = [] \<longrightarrow> l' = l) \<and>
     sent (el_world l') = sent (el_world l) @ wires (version_of l) (offline_packets (el_next_packet_id l) msgs)"
proof (induction msgs arbitrary: l)
  case (Cons msg msgs)
  let ?l = "l\<lparr>el_offline_queue := msgs\<rparr>"
  have "fits_tx ?l (publish_as msg (el_next_packet_id ?l))" using Cons.prems(3) by (simp add: fits_tx_def)
  from send_publish_direct_reliable [OF Cons.prems(1) this, of None] Cons.prems(2) obtain l1 where
    1: "send_publish_direct le t msg None ?l = (Ok () :: ('io client_error, _) outcome, l1)"
    "net_only (after_tracking msg None ?l) l1"
    "sent (el_world l1) = sent (el_world l) @ wire (publish_as msg (el_next_packet_id l)) (version_of l)" by auto
  have sel: "el_options l1 = el_options l" "length (el_tx_buf l1) = length (el_tx_buf l)"
    "el_next_packet_id l1 = id_after (tm_qos msg) (el_next_packet_id l)" "el_offline_queue l1 = msgs"
    using net_only_sel [OF 1(2)] by (simp_all add: after_tracking_def)
  have "\<forall>p \<in> set (offline_packets (el_next_packet_id l1) msgs). fits_tx l1 p"
    using Cons.prems(3) sel by (simp add: fits_tx_def)
  from Cons.IH [OF Cons.prems(1) _ this] Cons.prems(2) sel obtain l2 where
    2: "flush_offline le t msgs l1 = (Ok () :: ('io client_error, _) outcome, l2)"
    "msgs \<noteq> [] \<longrightarrow> el_offline_queue l2 = []" "msgs = [] \<longrightarrow> l2 = l1"
    "sent (el_world l2) = sent (el_world l1) @ wires (version_of l1) (offline_packets (el_next_packet_id l1) msgs)"
    by auto
  have "flush_offline le t (msg # msgs) l = (Ok (), l2)"
    using 1(1) 2(1) by (simp add: bind_def ignore_result_def)
  moreover have "el_offline_queue l2 = []" using 2(2,3) sel(4) by (cases msgs) auto
  ultimately show ?case using 1(3) 2(4) sel by auto
qed simp

end

end
