(* ===== verification/Loop_Runs.thy ===== *)
theory Loop_Runs
  imports Loop_Wire Router_Theorems
begin

text \<open>
  Runs of the event loop: contracts and their providers, the requests against a map of
  subscriptions, reconnection attempts, and the outer loop.
\<close>

subsection \<open>Providers of the transport contract\<close>

text \<open>A \<open>tokio\<close> byte stream with its three operations becomes a boxed transport by the empty
  \<open>impl AsyncTransport\<close>.\<close>

locale stream_io =
  fixes rd :: "nat \<Rightarrow> 'w \<Rightarrow> ('io, bytes) outcome \<times> 'w" and wr :: "bytes \<Rightarrow> 'w \<Rightarrow> ('io, unit) outcome \<times> 'w"
    and fl :: "'w \<Rightarrow> ('io, unit) outcome \<times> 'w" and sent :: "'w \<Rightarrow> bytes"
  assumes wr_Ok: "wr b w = (Ok u, w') \<Longrightarrow> sent w' = sent w @ b"
    and wr_grows: "wr b w = (r, w') \<Longrightarrow> r \<noteq> Panic \<and> (\<exists>tl. sent w' = sent w @ tl)"
    and fl_same: "fl w = (r, w') \<Longrightarrow> r \<noteq> Panic \<and> sent w' = sent w"
    and rd_fits: "rd n w = (x, w') \<Longrightarrow> x \<noteq> Panic \<and> sent w' = sent w \<and> (\<forall>d. x = Ok d \<longrightarrow> length d \<le> n)"

sublocale stream_io \<subseteq> boxed: byte_transport "boxed_stream rd wr fl" sent
  by unfold_locales (use wr_Ok wr_grows fl_same rd_fits in \<open>auto simp: boxed_stream_def send_datagram_default_def\<close>)

context stream_io begin

lemma boxed_contract: "byte_transport (boxed_stream rd wr fl) sent"
  by (rule boxed.byte_transport_axioms)

end

text \<open>A stream whose peer is a list of the bytes it was sent and whose input is given.\<close>

record memory_stream =
  ms_sent :: bytes
  ms_input :: bytes

definition memory_read :: "nat \<Rightarrow> memory_stream \<Rightarrow> (unit, bytes) outcome \<times> memory_stream" where
  "memory_read n w = (Ok (take n (ms_input w)), w\<lparr>ms_input := drop n (ms_input w)\<rparr>)"

definition memory_write :: "bytes \<Rightarrow> memory_stream \<Rightarrow> (unit, unit) outcome \<times> memory_stream" where
  "memory_write b w = (Ok (), w\<lparr>ms_sent := ms_sent w @ b\<rparr>)"

interpretation memory: stream_io memory_read memory_write "Pair (Ok ())" ms_sent
  by unfold_locales (auto simp: memory_read_def memory_write_def)

definition memory_transport :: "(memory_stream, unit) boxed_transport" where
  "memory_transport = boxed_stream memory_read memory_write (Pair (Ok ()))"

text \<open>An environment whose requests are given by \<open>reqs\<close> and whose answers go nowhere.\<close>

definition memory_env :: "(memory_stream \<Rightarrow> (nat, unit) client_request option \<times> memory_stream) \<Rightarrow>
    (unit, nat, unit, memory_stream, unit) loop_env" where
  "memory_env reqs =
     \<lparr>le_reply_unit = \<lambda>_ _ w. w, le_reply_id = \<lambda>_ _ w. w, le_reply_count = \<lambda>_ _ w. w, le_status = \<lambda>_ w. w,
      le_channels = \<lparr>ch_is_closed = \<lambda>_ _. False, ch_try_send = \<lambda>_ _ w. w\<rparr>, le_now = \<lambda>_. 0,
      le_sleep = \<lambda>_ w. w, le_recv = reqs, le_timed_read = \<lambda>t n w. (None, w), le_select = Pair Requested,
      le_interval = \<lambda>n. 0 < n, le_connect = \<lambda>_ w. (Err CE_Timeout, w), le_unexpected_eof = (),
      le_f64 = \<lparr>fo_two = (), fo_powi = \<lambda>_ _. (), fo_mult = \<lambda>_ _. (), fo_min = \<lambda>_ _. (), fo_as_secs = \<lambda>_. (),
        fo_from_secs = \<lambda>_. Some 1\<rparr>\<rparr>"

lemma memory_wire: "byte_transport memory_transport ms_sent"
  unfolding memory_transport_def by unfold_locales

interpretation memory_loop: loop_wire memory_transport ms_sent "memory_env (Pair None)"
  by (intro loop_wire.intro memory_wire) (unfold_locales; simp add: memory_env_def)

subsection \<open>What the requests change\<close>

text \<open>A property that only depends on components the network does not touch.\<close>

definition net_closed :: "(('f, 'r, 'c, 'w, 'io) event_loop \<Rightarrow> bool) \<Rightarrow> bool" where
  "net_closed P \<longleftrightarrow> (\<forall>l l'. net_only l l' \<longrightarrow> P l \<longrightarrow> P l')"

lemma net_closedD: "net_closed P \<Longrightarrow> net_only l l' \<Longrightarrow> P l \<Longrightarrow> P l'"
  by (auto simp: net_closed_def)

lemma valid_net_only: "net_closed P \<Longrightarrow> (\<And>l. net_only l (snd (m l))) \<Longrightarrow> valid False P m any"
  by (auto simp: valid_def dest: net_closedD)

lemma valid_io_call_net: "net_closed P \<Longrightarrow> valid False P (io_call f) any"
  by (rule valid_net_only) (auto simp: io_call_def net_onlyI split: prod.split)

lemma valid_on_world_net: "net_closed P \<Longrightarrow> valid False P (on_world f) any"
  by (rule valid_net_only) (auto simp: on_world_def net_onlyI)

lemma valid_encode_net: "net_closed P \<Longrightarrow> valid False P (encode_or_malformed p) any"
  by (rule valid_net_only) (auto simp: encode_or_malformed_def dest: loop_encode_net split: prod.split)

lemma valid_if_encoded_net:
  "net_closed P \<Longrightarrow> (\<And>len. valid False P (k len) any) \<Longrightarrow> valid False P (if_encoded p k) any"
  by (rule validI) (auto simp: if_encoded_def split: prod.splits outcome.splits
    dest!: loop_encode_net dest: net_closedD validD)

lemma valid_any_lift: "valid False P (lift r) any" "valid False P (gets g) any" "valid False P (ret a) any"
  by (simp_all add: valid_def)

lemma valid_touch_net: "net_closed P \<Longrightarrow> valid False P (touch_last_tx le) any"
  by (rule valid_net_only) (auto simp: touch_last_tx_def net_onlyI)

lemma valid_write_tx_net: "net_closed P \<Longrightarrow> valid False P (write_tx t n) any"
  unfolding write_tx_def by (intro valid_then valid_any_lift valid_io_call_net)

lemma valid_loop_send_net: "net_closed P \<Longrightarrow> valid False P (loop_send le t n) any"
  unfolding loop_send_def by (intro valid_then valid_touch_net valid_write_tx_net valid_io_call_net)

lemma valid_announce_net: "net_closed P \<Longrightarrow> valid False P (announce le st) any"
  unfolding announce_def by (rule valid_on_world_net)

lemmas net_rules = valid_then valid_any_lift valid_io_call_net valid_on_world_net valid_encode_net valid_if_encoded_net
  valid_touch_net valid_write_tx_net valid_loop_send_net valid_announce_net valid_ignore_result

lemma valid_reply_published_net: "net_closed P \<Longrightarrow> valid False P (reply_published le ack) any"
  by (cases ack) (simp_all add: reply_published_def net_rules)


text \<open>The specification: which topics are subscribed, as a map, and which subscription operations
  reach the router.\<close>

fun track_request :: "('r, 'c) client_request \<Rightarrow> (str \<rightharpoonup> qos) \<Rightarrow> (str \<rightharpoonup> qos)" where
  "track_request (ReqSubscribe topic q resp tx) m = m(topic \<mapsto> q)"
| "track_request (ReqUnsubscribe topic resp) m = m(topic := None)"
| "track_request _ m = m"

fun routed_by :: "('r, 'c) client_request \<Rightarrow> 'c router_op list" where
  "routed_by (ReqSubscribe topic q resp (Some tx)) = [Subscribe_to topic tx]"
| "routed_by (ReqUnsubscribe topic resp) = [Unsubscribe_from topic]"
| "routed_by _ = []"

definition subscribed :: "(str \<rightharpoonup> qos) \<Rightarrow> (str \<Rightarrow> 'c list) \<Rightarrow> ('f, 'r, 'c, 'w, 'io) event_loop \<Rightarrow> bool" where
  "subscribed m subs l \<longleftrightarrow> map_of (el_active_subscriptions l) = m \<and> subscribers (el_router l) = subs"

lemma net_closed_subscribed [simp]: "net_closed (subscribed m subs)"
  by (simp add: net_closed_def subscribed_def net_only_sel)

lemma subscribed_updates [simp]:
  "subscribed m subs (l\<lparr>el_next_packet_id := i\<rparr>) = subscribed m subs l"
  "subscribed m subs (l\<lparr>el_inflight_publishes := a\<rparr>) = subscribed m subs l"
  "subscribed m subs (l\<lparr>el_inflight_subscribes := b\<rparr>) = subscribed m subs l"
  "subscribed m subs (l\<lparr>el_inflight_unsubscribes := b\<rparr>) = subscribed m subs l"
  "subscribed m subs (l\<lparr>el_world := w\<rparr>) = subscribed m subs l"
  "subscribed m subs (l\<lparr>el_rx_buf := d\<rparr>) = subscribed m subs l"
  by (simp_all add: subscribed_def)

text \<open>A property of the components that publishing does not touch either: it allocates packet ids and
  enters in-flight messages.\<close>

definition send_closed :: "(('f, 'r, 'c, 'w, 'io) event_loop \<Rightarrow> bool) \<Rightarrow> bool" where
  "send_closed P \<longleftrightarrow> net_closed P \<and> (\<forall>l i. P l \<longrightarrow> P (l\<lparr>el_next_packet_id := i\<rparr>)) \<and>
     (\<forall>l a. P l \<longrightarrow> P (l\<lparr>el_inflight_publishes := a\<rparr>))"

lemma send_closed_subscribed [simp]: "send_closed (subscribed m subs)"
  by (simp add: send_closed_def)

lemma send_closed_net: "send_closed P \<Longrightarrow> net_closed P"
  by (simp add: send_closed_def)

lemma valid_next_id: "send_closed P \<Longrightarrow> valid False P loop_next_packet_id any"
  by (simp add: valid_def loop_next_packet_id_def Let_def send_closed_def)

lemma valid_track: "send_closed P \<Longrightarrow> valid False P (track_publish msg ack) any"
  by (simp add: valid_def track_publish_def bind_def loop_next_packet_id_def Let_def send_closed_def)

lemma valid_publish_direct: "send_closed P \<Longrightarrow> valid False P (send_publish_direct le t msg ack) any"
  unfolding send_publish_direct_def
  by (rule valid_then) (auto split: prod.split intro!: net_rules valid_track valid_reply_published_net dest: send_closed_net)

lemma valid_batch:
  assumes "send_closed P"
  shows "valid False P (publish_batch_loop le t msgs cursor k) any"
proof (induction msgs arbitrary: cursor k)
  case Nil
  show ?case unfolding publish_batch_loop.simps by (intro valid_if net_rules send_closed_net assms)
next
  case (Cons msg msgs)
  have "valid False P (\<lambda>l. case loop_encode p cursor l of
      (Ok len, l') \<Rightarrow> publish_batch_loop le t msgs (cursor + len) (k + 1) l'
    | (Err _, l') \<Rightarrow>
        (if 0 < cursor then
           bind (write_tx t cursor) (\<lambda>_. bind (encode_or_malformed p) (\<lambda>len. publish_batch_loop le t msgs len (k + 1))) l'
         else publish_batch_loop le t msgs cursor k l')
    | (Panic, l') \<Rightarrow> (Panic, l')) any" for p
  proof (rule validI)
    fix l r l'
    assume l: "P l" "(case loop_encode p cursor l of
      (Ok len, l') \<Rightarrow> publish_batch_loop le t msgs (cursor + len) (k + 1) l'
    | (Err _, l') \<Rightarrow>
        (if 0 < cursor then
           bind (write_tx t cursor) (\<lambda>_. bind (encode_or_malformed p) (\<lambda>len. publish_batch_loop le t msgs len (k + 1))) l'
         else publish_batch_loop le t msgs cursor k l')
    | (Panic, l') \<Rightarrow> (Panic, l')) = (r, l')"
    obtain r1 l1 where e: "loop_encode p cursor l = (r1, l1)" by fastforce
    have 1: "P l1"
      using net_closedD [OF send_closed_net [OF assms]] loop_encode_net [OF e] l(1) by blast
    have "valid False P
        (bind (write_tx t cursor) (\<lambda>_. bind (encode_or_malformed p) (\<lambda>len. publish_batch_loop le t msgs len (k + 1)))) any"
      by (intro net_rules Cons.IH send_closed_net assms)
    with 1 l(2) e Cons.IH show "P l' \<and> (\<forall>a. r = Ok a \<longrightarrow> any a) \<and> (False \<longrightarrow> r \<noteq> Panic)"
      by (cases r1) (auto dest: validD split: if_splits)
  qed
  then have "valid False P (case x of (msg, packet_id) \<Rightarrow>
      let p = Publish (publish_packet msg packet_id) in
      (\<lambda>l. case loop_encode p cursor l of
        (Ok len, l') \<Rightarrow> publish_batch_loop le t msgs (cursor + len) (k + 1) l'
      | (Err _, l') \<Rightarrow>
          (if 0 < cursor then
             bind (write_tx t cursor) (\<lambda>_. bind (encode_or_malformed p) (\<lambda>len. publish_batch_loop le t msgs len (k + 1))) l'
           else publish_batch_loop le t msgs cursor k l')
      | (Panic, l') \<Rightarrow> (Panic, l'))) any" for x
    unfolding Let_def by (cases x) (simp only: prod.case)
  then show ?case unfolding publish_batch_loop.simps
    by (intro valid_then valid_if valid_track assms valid_any_lift)
qed


lemma router_error_irrelevant:
  "snd (router_insert f s r :: ('io client_error, unit) outcome \<times> _) = router_step (Subscribe_to f s) r"
  "snd (router_remove f r :: ('io client_error, unit) outcome \<times> _) = router_step (Unsubscribe_from f) r"
proof -
  consider "validate_topic_filter f = (Ok () :: ('io client_error, _) outcome)" "validate_topic_filter f = (Ok () :: (unit client_error, _) outcome)"
    | e e' where "validate_topic_filter f = (Err e :: ('io client_error, unit) outcome)" "validate_topic_filter f = (Err e' :: (unit client_error, unit) outcome)"
    by (metis validate_cases)
  then show "snd (router_insert f s r :: ('io client_error, unit) outcome \<times> _) = router_step (Subscribe_to f s) r"
    "snd (router_remove f r :: ('io client_error, unit) outcome \<times> _) = router_step (Unsubscribe_from f) r"
    by (cases; simp add: router_insert_def router_remove_def)+
qed

lemma valid_request_datagram:
  assumes "net_closed P"
  shows "valid False P (handle_client_request le t (ReqPublishDatagram topic payload ack)) any"
proof -
  have "valid False P (\<lambda>l. case bt_send_datagram t b (el_world l) of
          (Panic, w) \<Rightarrow> (Panic, l\<lparr>el_world := w\<rparr>)
        | (res, w) \<Rightarrow>
            (Ok (), l\<lparr>el_world := (case ack of Some sender \<Rightarrow> le_reply_unit le sender res w | None \<Rightarrow> w)\<rparr>)) any" for b
    by (rule validI) (auto split: prod.splits outcome.splits intro: net_closedD [OF assms] net_onlyI)
  then show ?thesis unfolding handle_client_request.simps Let_def
    by (intro net_rules assms)
qed

lemma valid_request_batch:
  assumes "send_closed P"
  shows "valid False P (handle_client_request le t (ReqPublishBatch msgs ack)) any"
  unfolding handle_client_request.simps send_publish_batch_direct_def
  by (rule valid_then, rule valid_batch [OF assms], cases ack) (simp_all only: option.case, (intro net_rules send_closed_net [OF assms])+)

lemma valid_request_disconnect:
  assumes "net_closed P"
  shows "valid False P (handle_client_request le t (ReqDisconnect resp)) any"
proof (rule validI)
  fix l r l' assume l: "P l" "handle_client_request le t (ReqDisconnect resp) l = (r, l')"
  have d: "valid False P (send_disconnect le t) any"
    unfolding send_disconnect_def by (intro net_rules assms)
  obtain r1 l1 where e: "send_disconnect le t l = (r1, l1)" by fastforce
  from validD [OF d l(1) e] e l(2) show "P l' \<and> (\<forall>a. r = Ok a \<longrightarrow> any a) \<and> (False \<longrightarrow> r \<noteq> Panic)"
    by (cases r1) (auto simp: bind_def on_world_def intro: net_closedD [OF assms] net_onlyI)
qed

lemma subscribed_subscribe:
  assumes "subscribed m subs l"
  shows "subscribed (m(topic \<mapsto> q)) (case tx of Some tx \<Rightarrow> subs_step (Subscribe_to topic tx) subs | None \<Rightarrow> subs)
    (snd (handle_client_request le t (ReqSubscribe topic q resp tx) l))" (is "subscribed ?m ?s _")
proof -
  let ?l = "l\<lparr>el_next_packet_id := next_id (el_next_packet_id l),
      el_router := (case tx of Some tx \<Rightarrow> router_step (Subscribe_to topic tx) (el_router l) | None \<Rightarrow> el_router l),
      el_active_subscriptions := AList.update topic q (el_active_subscriptions l)\<rparr>"
  let ?k = "bind (encode_or_malformed (Subscribe
      (case subscribe_add_topic (subscribe_new (el_next_packet_id l)) topic q of Ok sub \<Rightarrow> sub | _ \<Rightarrow> subscribe_new (el_next_packet_id l))))
      (\<lambda>len. bind (loop_send le t len) (\<lambda>_. modify (\<lambda>l'. l'\<lparr>el_inflight_subscribes :=
        AList.update (el_next_packet_id l) resp (el_inflight_subscribes l')\<rparr>)))"
  have "handle_client_request le t (ReqSubscribe topic q resp tx) l = ?k ?l"
    unfolding handle_client_request.simps
    by (cases tx) (simp_all only: bind_apply(1) [OF loop_next_packet_id_eq] option.case router_error_irrelevant
      bind_apply(1) [OF basic_actions(5)] bind_apply(1) [OF basic_actions(1)], simp_all)
  moreover have "subscribed ?m ?s ?l"
    using assms by (cases tx) (simp_all add: subscribed_def update_conv' router_step_subs del: router_step.simps subs_step.simps)
  moreover have "valid False (subscribed ?m ?s) ?k any"
    by (intro net_rules net_closed_subscribed valid_modify) simp_all
  ultimately show ?thesis by (simp only: valid_def)
qed

lemma subscribed_unsubscribe:
  assumes "subscribed m subs l"
  shows "subscribed (m(topic := None)) (subs_step (Unsubscribe_from topic) subs)
    (snd (handle_client_request le t (ReqUnsubscribe topic resp) l))" (is "subscribed ?m ?s _")
proof -
  let ?l = "l\<lparr>el_next_packet_id := next_id (el_next_packet_id l),
      el_router := router_step (Unsubscribe_from topic) (el_router l),
      el_active_subscriptions := AList.delete topic (el_active_subscriptions l)\<rparr>"
  let ?k = "bind (encode_or_malformed (Unsubscribe
      (case unsubscribe_add_topic (unsubscribe_new (el_next_packet_id l)) topic of Ok u \<Rightarrow> u | _ \<Rightarrow> unsubscribe_new (el_next_packet_id l))))
      (\<lambda>len. bind (loop_send le t len) (\<lambda>_. modify (\<lambda>l'. l'\<lparr>el_inflight_unsubscribes :=
        AList.update (el_next_packet_id l) resp (el_inflight_unsubscribes l')\<rparr>)))"
  have "handle_client_request le t (ReqUnsubscribe topic resp) l = ?k ?l"
    unfolding handle_client_request.simps
    by (simp_all only: bind_apply(1) [OF loop_next_packet_id_eq] router_error_irrelevant
      bind_apply(1) [OF basic_actions(5)], simp)
  moreover have "subscribed ?m ?s ?l"
    using assms by (simp add: subscribed_def delete_conv' router_step_subs del: router_step.simps subs_step.simps)
  moreover have "valid False (subscribed ?m ?s) ?k any"
    by (intro net_rules net_closed_subscribed valid_modify) simp_all
  ultimately show ?thesis by (simp only: valid_def)
qed

lemma subscribed_request:
  assumes "subscribed m subs l"
  shows "subscribed (track_request req m) (fold subs_step (routed_by req) subs) (snd (handle_client_request le t req l))"
proof (cases req)
  case (ReqPublish msg ack)
  with assms valid_publish_direct [OF send_closed_subscribed, of m subs le t msg ack] show ?thesis by (simp add: valid_def)
next
  case (ReqPublishBatch msgs ack)
  with assms valid_request_batch [OF send_closed_subscribed, of m subs le t msgs ack] show ?thesis by (simp add: valid_def del: handle_client_request.simps)
next
  case (ReqPublishDatagram topic payload ack)
  with assms valid_request_datagram [OF net_closed_subscribed, of m subs le t topic payload ack] show ?thesis by (simp add: valid_def del: handle_client_request.simps)
next
  case (ReqDisconnect resp)
  with assms valid_request_disconnect [OF net_closed_subscribed, of m subs le t resp] show ?thesis by (simp add: valid_def del: handle_client_request.simps)
next
  case (ReqSubscribe topic q resp tx)
  with subscribed_subscribe [OF assms, of topic q tx le t resp] show ?thesis
    by (cases tx) (simp_all del: handle_client_request.simps)
next
  case (ReqUnsubscribe topic resp)
  with subscribed_unsubscribe [OF assms] show ?thesis by (simp del: handle_client_request.simps)
qed


subsection \<open>Connecting again and again\<close>

text \<open>What a connection attempt leaves alone.\<close>

definition same_policy :: "'f client_options \<Rightarrow> nat \<Rightarrow> ('f, 'r, 'c, 'w, 'io) event_loop \<Rightarrow> bool" where
  "same_policy opts n l \<longleftrightarrow> el_options l = opts \<and> el_reconnect_attempt l = n"

lemma net_closed_policy [simp]: "net_closed (same_policy opts n)"
  by (simp add: net_closed_def same_policy_def net_only_sel)

lemma valid_handshake:
  assumes "net_closed P" "\<And>l d. P l \<Longrightarrow> P (l\<lparr>el_rx_buf := d\<rparr>)"
  shows "valid False P (perform_connect_handshake le t) any"
proof -
  have "valid False P (\<lambda>l. case le_timed_read le t k (el_world l) of
             (None, w) \<Rightarrow> (Err CE_Timeout, l\<lparr>el_world := w\<rparr>)
           | (Some r, w) \<Rightarrow> (map_err client_error_from_io r, l\<lparr>el_world := w\<rparr>)) any" for k
    by (rule validI) (auto split: prod.splits option.splits intro: net_closedD [OF assms(1)] net_onlyI)
  moreover have "valid False P (store_rx k d) any" for k d
    by (simp add: valid_def store_rx_def assms(2))
  moreover have "valid False P (case p of
          Some (ConnAck connack) \<Rightarrow>
            if ca_reason_code connack = 0 then ret () else throw (CE_ConnectionRefused (ca_reason_code connack))
        | _ \<Rightarrow> throw invalid_response) any" for p
    by (auto simp: valid_def split: option.split mqtt_packet.split)
  ultimately show ?thesis unfolding perform_connect_handshake_def
    by (intro valid_then valid_if valid_basic(1) net_rules assms(1))
qed

lemma valid_handshake_policy: "valid False (same_policy opts n) (perform_connect_handshake le t) any"
  by (rule valid_handshake) (simp_all add: same_policy_def)

text \<open>An attempt that asks for another one counted itself and found the limit not reached.\<close>

lemma give_up_cases:
  "give_up e l = (r, l') \<Longrightarrow> l' = l \<and> (r = Ok False \<or> r = Err e) \<and>
     (r = Ok False \<longrightarrow> (\<forall>m. rc_max_retries (op_reconnect (el_options l)) = Some m \<longrightarrow> el_reconnect_attempt l < m)) \<and>
     (r = Err e \<longrightarrow> (\<exists>m. rc_max_retries (op_reconnect (el_options l)) = Some m \<and> m \<le> el_reconnect_attempt l))"
  by (auto simp: give_up_def split: option.splits if_splits)

text \<open>The recovery that follows a successful handshake returns no error.\<close>

definition no_error :: "('f, 'r, 'c, 'w, 'io, 'a) loop_action \<Rightarrow> bool" where
  "no_error m \<longleftrightarrow> (\<forall>l e l'. m l \<noteq> (Err e, l'))"

lemma no_error_steps:
  "no_error (ret a)" "no_error (gets g)" "no_error (modify f)" "no_error (ignore_result k)"
  "no_error (on_world h)" "no_error (announce le st)" "no_error (touch_last_tx le)"
  "no_error m \<Longrightarrow> (\<And>a. no_error (n a)) \<Longrightarrow> no_error (bind m n)"
  by (auto simp: no_error_def ret_def gets_def modify_def ignore_result_def on_world_def announce_def touch_last_tx_def
      bind_def split: outcome.splits prod.splits)

lemma no_error_if: "(b \<Longrightarrow> no_error m) \<Longrightarrow> (\<not> b \<Longrightarrow> no_error n) \<Longrightarrow> no_error (if b then m else n)"
  by simp

lemma no_error_if_encoded: "(\<And>n. no_error (k n)) \<Longrightarrow> no_error (if_encoded p k)"
  by (auto simp: no_error_def if_encoded_def split: outcome.splits prod.splits)

lemma no_error_next_id: "no_error loop_next_packet_id"
  by (simp add: no_error_def loop_next_packet_id_eq)

lemma no_error_recovery_steps:
  "no_error (resend_inflight t es)" "no_error (resubscribe t subs)" "no_error (flush_offline le t msgs)"
proof -
  show "no_error (resend_inflight t es)"
  proof (induction es)
    case (Cons e es)
    then show ?case
      by (cases e) (simp only: resend_inflight.simps Let_def, intro no_error_steps no_error_if_encoded)
  qed (simp add: no_error_def)
  show "no_error (resubscribe t subs)"
    by (induction t subs rule: resubscribe.induct)
      (simp_all only: resubscribe.simps, (intro no_error_steps no_error_if_encoded no_error_next_id | assumption)+)
  show "no_error (flush_offline le t msgs)"
    by (induction le t msgs rule: flush_offline.induct)
      (simp_all only: flush_offline.simps, (intro no_error_steps | assumption)+)
qed

lemma recovery_no_error:
  "no_error (recover_session le t)"
  "perform_session_data_recovery le l = (Err e, l') \<Longrightarrow> el_transport l = None"
proof -
  show r: "no_error (recover_session le t)" for t :: "('d, 'e) boxed_transport" and le :: "('a, 'b, 'c, 'd, 'e) loop_env"
    unfolding recover_session_def by (intro no_error_steps no_error_recovery_steps no_error_if)
  assume e: "perform_session_data_recovery le l = (Err e, l')"
  show "el_transport l = None"
  proof (rule ccontr)
    assume "el_transport l \<noteq> None"
    then obtain t where "el_transport l = Some t" by blast
    moreover have "no_error (bind (recover_session le t) (\<lambda>_. modify (\<lambda>l. l\<lparr>el_transport := Some t\<rparr>)))"
      by (intro no_error_steps r)
    ultimately show False using e by (auto simp: perform_session_data_recovery_def no_error_def)
  qed
qed

text \<open>An attempt up to the call of \<open>connect_transport\<close>, in a world \<open>w\<close>.\<close>

lemma connect_attempt_run:
  fixes le :: "('f, 'r, 'c, 'w, 'io) loop_env"
  assumes "compute_delay (le_f64 le) (op_reconnect (el_options l)) (Suc (el_reconnect_attempt l)) \<noteq>
      (Panic :: ('io client_error, nat) outcome)"
  obtains w where "connect_attempt le l =
    try_connection le (l\<lparr>el_reconnect_attempt := Suc (el_reconnect_attempt l), el_world := w\<rparr>)"
proof -
  let ?n = "Suc (el_reconnect_attempt l)"
  let ?l0 = "l\<lparr>el_reconnect_attempt := ?n\<rparr>"
  obtain delay where d: "compute_delay (le_f64 le) (op_reconnect (el_options l)) ?n = (Ok delay :: ('io client_error, nat) outcome)"
    using assms by (auto simp: compute_delay_def Let_def split: if_splits option.splits)
  obtain w0 where pause: "(if 0 < delay then
      bind (announce le (StatusReconnecting ?n delay)) (\<lambda>_. on_world (le_sleep le delay)) else ret ()) ?l0 =
      (Ok () :: ('io client_error, unit) outcome, ?l0\<lparr>el_world := w0\<rparr>)"
    by (cases "0 < delay") (auto simp: announce_def on_world_def bind_def intro: that [of "el_world l"])
  obtain w1 where ann: "announce le StatusConnecting (?l0\<lparr>el_world := w0\<rparr>) =
      (Ok () :: ('io client_error, unit) outcome, ?l0\<lparr>el_world := w1\<rparr>)"
    by (auto simp: announce_def on_world_def)
  show thesis
    by (rule that [of w1]) (use d pause ann in \<open>simp add: connect_attempt_def\<close>)
qed

lemma connect_attempt_panics:
  fixes le :: "('f, 'r, 'c, 'w, 'io) loop_env"
  assumes "compute_delay (le_f64 le) (op_reconnect (el_options l)) (Suc (el_reconnect_attempt l)) =
      (Panic :: ('io client_error, nat) outcome)"
  shows "fst (connect_attempt le l) = Panic"
  using assms by (simp add: connect_attempt_def)

lemma try_connection_cases:
  assumes "try_connection le l = (r, l')" "r \<noteq> Panic"
  shows "r = Ok True \<or> (\<exists>e l1. give_up e l1 = (r, l') \<and> same_policy (el_options l) (el_reconnect_attempt l) l1)"
proof -
  let ?P = "same_policy (el_options l) (el_reconnect_attempt l)"
  obtain c w where con: "le_connect le (op_target (el_options l)) (el_world l) = (c, w)" by fastforce
  let ?l = "l\<lparr>el_world := w\<rparr>"
  have P: "?P ?l" by (simp add: same_policy_def)
  show ?thesis
  proof (cases c)
    case c: (Ok transport)
    obtain h l1 where hs: "perform_connect_handshake le transport ?l = (h, l1)" by fastforce
    from validD [OF valid_handshake_policy P hs] have P1: "?P l1" by simp
    show ?thesis
    proof (cases h)
      case h: (Ok u)
      let ?l3 = "l1\<lparr>el_transport := Some transport, el_reconnect_attempt := 0, el_world := le_status le StatusConnected (el_world l1)\<rparr>"
      let ?l4 = "?l3\<lparr>el_last_tx := le_now le (el_world ?l3)\<rparr>"
      obtain rr l5 where rec: "perform_session_data_recovery le ?l4 = (rr, l5)" by fastforce
      have "(r, l') = bind (perform_session_data_recovery le) (\<lambda>_. ret True) ?l4"
        using assms(1) con c h hs by (simp add: try_connection_def announce_def on_world_def touch_last_tx_def bind_def)
      with rec recovery_no_error(2) [of le ?l4] assms(2) show ?thesis by (cases rr) auto
    qed (use assms c con hs P1 in \<open>auto simp: try_connection_def\<close>)
  qed (use assms con P in \<open>auto simp: try_connection_def\<close>)
qed

lemma connect_attempt_cases:
  fixes le :: "('f, 'r, 'c, 'w, 'io) loop_env"
  assumes "connect_attempt le l = (r, l')" "r \<noteq> Panic"
  obtains (up) "r = Ok True"
  | (again) "r = Ok False" "el_options l' = el_options l" "el_reconnect_attempt l' = el_reconnect_attempt l + 1"
      "\<forall>m. rc_max_retries (op_reconnect (el_options l)) = Some m \<longrightarrow> el_reconnect_attempt l' < m"
  | (gave_up) m e where "r = Err e" "rc_max_retries (op_reconnect (el_options l)) = Some m"
      "el_reconnect_attempt l' = el_reconnect_attempt l + 1" "m \<le> el_reconnect_attempt l'"
proof (rule connect_attempt_run [of le l])
  show "compute_delay (le_f64 le) (op_reconnect (el_options l)) (Suc (el_reconnect_attempt l)) \<noteq>
      (Panic :: ('io client_error, nat) outcome)"
    using connect_attempt_panics [of le l] assms by auto
  fix w let ?l = "l\<lparr>el_reconnect_attempt := Suc (el_reconnect_attempt l), el_world := w\<rparr>"
  assume "connect_attempt le l = try_connection le ?l"
  with try_connection_cases [of le ?l r l'] assms
  consider "r = Ok True" | e l1 where "give_up e l1 = (r, l')" "same_policy (el_options l) (Suc (el_reconnect_attempt l)) l1"
    by auto
  then show thesis
  proof cases
    case 2
    from give_up_cases [OF 2(1)] 2(2) again gave_up show thesis by (auto simp: same_policy_def)
  qed (rule up)
qed


lemma connect_attempt_refused:
  fixes le :: "('f, 'r, 'c, 'w, 'io) loop_env"
  assumes "compute_delay (le_f64 le) (op_reconnect (el_options l)) (Suc (el_reconnect_attempt l)) \<noteq>
      (Panic :: ('io client_error, nat) outcome)"
    and "\<forall>w. \<exists>e w'. le_connect le (op_target (el_options l)) w = (Err e, w')"
    and "rc_max_retries (op_reconnect (el_options l)) = None"
  obtains l' where "connect_attempt le l = (Ok False, l')" "el_options l' = el_options l"
proof (rule connect_attempt_run [OF assms(1)])
  fix w let ?l = "l\<lparr>el_reconnect_attempt := Suc (el_reconnect_attempt l), el_world := w\<rparr>"
  assume run: "connect_attempt le l = try_connection le ?l"
  obtain e w' where "le_connect le (op_target (el_options l)) w = (Err e, w')" using assms(2) by blast
  then have "try_connection le ?l = (Ok False, ?l\<lparr>el_world := w'\<rparr>)"
    using assms(3) by (simp add: try_connection_def give_up_def)
  with run show thesis by (intro that [of "?l\<lparr>el_world := w'\<rparr>"]) simp_all
qed

text \<open>A loop whose every round asks for another one does not end; \<open>P\<close> holds in every round.\<close>

lemma backoff_diverges:
  assumes step: "\<And>l. P l \<Longrightarrow> \<exists>l'. connect_attempt le l = (Ok False, l') \<and> P l'" and "P l"
  shows "connect_with_backoff le l = None"
proof (rule ccontr)
  assume "connect_with_backoff le l \<noteq> None"
  then obtain x where x: "connect_with_backoff le l = Some x" by blast
  have "le' = le \<longrightarrow> \<not> P l" if "connect_with_backoff le' l = Some x" for le' l x
  proof (rule connect_with_backoff.raw_induct [OF _ that], goal_cases)
    case (1 f le' l x)
    show ?case
    proof (intro impI notI)
      assume eq: "le' = le" and "P l"
      with step obtain l' where "connect_attempt le l = (Ok False, l')" "P l'" by blast
      with 1 eq show False by auto
    qed
  qed
  with x assms(2) show False by blast
qed


subsection \<open>When all handles are gone\<close>

context byte_transport begin

lemma dropped_cycle:
  fixes le :: "('f, 'r, 'c, 'w, 'io) loop_env"
  assumes "el_transport l = Some t" "loop_inv N l" "small N" "5 \<le> N"
    and "le_interval le (op_keep_alive (el_options l))"
    and "\<forall>w. fst (le_recv le w) = None" "\<forall>w. fst (le_select le w) = Requested"
  shows "\<exists>l'. drive_connection le l = Some (Ok (), l') \<and> el_transport l' = Some t \<and> loop_inv N l' \<and> el_options l' = el_options l"
proof -
  let ?l0 = "l\<lparr>el_transport := None\<rparr>"
  obtain w where w: "le_select le (el_world l) = (Requested, w)" using assms(7) by (metis prod.collapse)
  obtain w' where w': "le_recv le w = (None, w')" using assms(6) by (metis prod.collapse)
  let ?l1 = "?l0\<lparr>el_world := w'\<rparr>" and ?m = "ignore_result (send_disconnect le t) :: ('f, 'r, 'c, 'w, 'io, unit) loop_action"
  obtain r l2 where run: "?m ?l1 = (r, l2)" by fastforce
  have "valid True (loop_inv N) ?m any"
    by (rule valid_ignore_result) (use assms(4) in \<open>intro valid_send_disconnect\<close>)
  from validD [OF this _ run] assms(2) have inv: "loop_inv N l2" "r \<noteq> Panic" by simp_all
  have "valid False (\<lambda>l'. el_options l' = el_options l) ?m any"
    unfolding send_disconnect_def by (intro net_rules) (simp_all add: net_closed_def net_only_sel)
  from validD [OF this _ run] have opts: "el_options l2 = el_options l" by simp
  have "r = Ok ()" using run inv(2) by (auto simp: ignore_result_def split: prod.splits outcome.splits)
  with run have "select_loop le t 0 ?l0 = Some (Ok (), l2)"
    using w w' by (simp add: select_loop.simps request_branch_def)
  with inv(1) opts assms(1,5) show ?thesis by (simp add: drive_connection_def)
qed

end

lemma run_diverges:
  assumes step: "\<And>l r l'. P l \<Longrightarrow> drive_connection le l = Some (r, l') \<Longrightarrow> r = Ok () \<and> P l'"
    and up: "\<And>l. P l \<Longrightarrow> el_transport l \<noteq> None" and "P l"
  shows "run_loop le l = None"
proof (rule ccontr)
  assume "run_loop le l \<noteq> None"
  then obtain x where x: "run_loop le l = Some x" by blast
  have "le' = le \<longrightarrow> \<not> P l" if "run_loop le' l = Some x" for le' l x
  proof (rule run_loop.raw_induct [OF _ that], goal_cases)
    case (1 f le' l x)
    show ?case
    proof (intro impI notI)
      assume eq: "le' = le" and P: "P l"
      with 1(2) up obtain r l' where d: "drive_connection le l = Some (r, l')"
        by (cases "drive_connection le l") auto
      with step [OF P d] 1 eq up [OF P] show False by auto
    qed
  qed
  with x assms(3) show False by blast
qed

end
