(* ===== verification/Loop_Receive.thy ===== *)
theory Loop_Receive
  imports Loop_Runs
begin

text \<open>
  The receiving half of the event loop: a stream of packets that arrives in arbitrary reads is
  reassembled in the receive buffer, and what the loop does for each packet of it.
\<close>

subsection \<open>Cutting a stream\<close>

text \<open>A stream cut anywhere: the complete packets, then a beginning of the next one.\<close>

lemma split_wires:
  "r @ rest = wires v ps \<Longrightarrow>
   \<exists>qs1 qs2 r'. ps = qs1 @ qs2 \<and> r = wires v qs1 @ r' \<and> r' @ rest = wires v qs2 \<and>
     (r' \<noteq> [] \<longrightarrow> (\<exists>q qs3. qs2 = q # qs3 \<and> length r' < length (wire q v)))"
proof (induction ps arbitrary: r)
  case (Cons p ps)
  show ?case
  proof (cases "length r < length (wire p v)")
    case True
    with Cons.prems show ?thesis by (intro exI [of _ "[]"] exI [of _ "p # ps"] exI [of _ r]) auto
  next
    case False
    have "take (length (wire p v)) r = take (length (wire p v)) (r @ rest)" using False by simp
    then have "take (length (wire p v)) r = wire p v" unfolding Cons.prems by simp
    then obtain r1 where r: "r = wire p v @ r1" by (metis append_take_drop_id)
    with Cons.prems have "r1 @ rest = wires v ps" by simp
    from Cons.IH [OF this] obtain qs1 qs2 r' where
      "ps = qs1 @ qs2" "r1 = wires v qs1 @ r'" "r' @ rest = wires v qs2"
      "r' \<noteq> [] \<longrightarrow> (\<exists>q qs3. qs2 = q # qs3 \<and> length r' < length (wire q v))" by blast
    with r show ?thesis by (intro exI [of _ "p # qs1"] exI [of _ qs2] exI [of _ r']) simp
  qed
qed auto

text \<open>A cut of the stream is clean unless it falls inside a remaining length of several bytes.\<close>

fun clean_cut :: "mqtt_version \<Rightarrow> mqtt_packet list \<Rightarrow> nat \<Rightarrow> bool" where
  "clean_cut v [] n \<longleftrightarrow> n = 0"
| "clean_cut v (p # ps) n \<longleftrightarrow>
     (if length (wire p v) \<le> n then clean_cut v ps (n - length (wire p v))
      else n < 2 \<or> length (vbi (length (packet_content p v))) < n)"

lemma clean_cut_append: "clean_cut v (ps @ qs) (length (wires v ps) + n) = clean_cut v qs n"
  by (induction ps) simp_all

subsection \<open>Parsing the buffer\<close>

text \<open>What a packet that was sent at version \<open>v\<close> means to the loop.\<close>

abbreviation arrives :: "mqtt_version \<Rightarrow> mqtt_packet \<Rightarrow> incoming_action list" where
  "arrives v p \<equiv> incoming_of (wire_view p v)"

lemma decode_frames_wires:
  "\<forall>p \<in> set ps. encodable p v \<and> wf_packet p v \<Longrightarrow>
   decode_frames v (map (\<lambda>p. wire p v) ps) n acts =
     (Ok (n + length (wires v ps), acts @ concat (map (arrives v) ps)) :: ('io client_error, _) outcome)"
proof (induction ps arbitrary: n acts)
  case (Cons p ps)
  then have "decode (wire p v) v = Ok (Some (wire_view p v))"
    using decode_wire_append [of p v "[]"] by simp
  with Cons show ?case by (simp add: add.assoc)
qed simp

lemma parse_wires:
  assumes "\<forall>p \<in> set ps. encodable p v \<and> wf_packet p v"
    and "fst (frame_next \<lparr>fi_buffer = wires v ps @ r, fi_offset = length (wires v ps)\<rparr>) = None"
  shows "parse_frames v (frame_iter_new (wires v ps @ r)) 0 [] =
    Some (Ok (length (wires v ps), concat (map (arrives v) ps)) :: ('io client_error, _) outcome)"
proof -
  have "frames (frame_iter_new (wires v ps @ r)) = (map (\<lambda>p. wire p v) ps, None, length (wires v ps))"
    using frames_stream [of ps v "frame_iter_new (wires v ps @ r)" r] assms
    by (simp add: frame_iter_new_def wires_def)
  moreover have "decode_frames v (map (\<lambda>p. wire p v) ps) 0 [] =
      (Ok (length (wires v ps), concat (map (arrives v) ps)) :: ('io client_error, _) outcome)"
    using decode_frames_wires [OF assms(1), of 0 "[]"] by simp
  ultimately show ?thesis by (simp add: parse_frames_eq)
qed

text \<open>One read whose buffer could be parsed.\<close>

lemma process_received_parsed:
  fixes l :: "('f, 'r, 'c, 'w, 'io) event_loop"
  assumes "d \<noteq> []" "cursor + length d \<le> length (el_rx_buf l)" "n \<le> cursor + length d"
    and "parse_frames (version_of l) (frame_iter_new (take (cursor + length d) (overwrite cursor d (el_rx_buf l)))) 0 [] =
      Some (Ok (n, acts) :: ('io client_error, _) outcome)"
  shows "process_received le t cursor d l =
    Some (bind (run_actions le t acts) (\<lambda>_. ret (cursor + length d - n)) (l\<lparr>el_rx_buf :=
      if 0 < n then overwrite 0 (take (cursor + length d - n) (drop n (overwrite cursor d (el_rx_buf l)))) (overwrite cursor d (el_rx_buf l))
      else overwrite cursor d (el_rx_buf l)\<rparr>))"
proof -
  let ?b = "overwrite cursor d (el_rx_buf l)" and ?c = "cursor + length d"
  have "length ?b = length (el_rx_buf l)" using assms(2) by simp
  then have cw: "copy_within n ?c 0 ?b = (Ok (overwrite 0 (take (?c - n) (drop n ?b)) ?b) :: ('io client_error, _) outcome)"
    using assms(2,3) by (simp add: copy_within_def)
  let ?l1 = "l\<lparr>el_rx_buf := ?b\<rparr>"
  have sel: "version_of ?l1 = version_of l" "el_rx_buf ?l1 = ?b" by simp_all
  have copy: "bind (gets el_rx_buf) (\<lambda>buf. bind (lift (copy_within n ?c 0 buf)) (\<lambda>buf'. modify (\<lambda>l. l\<lparr>el_rx_buf := buf'\<rparr>)))
      ?l1 = (Ok () :: ('io client_error, _) outcome, l\<lparr>el_rx_buf := overwrite 0 (take (?c - n) (drop n ?b)) ?b\<rparr>)"
    by (simp add: bind_def cw)
  have "process_received le t cursor d l = Some (bind (if 0 < n then bind (gets el_rx_buf) (\<lambda>buf.
      bind (lift (copy_within n ?c 0 buf)) (\<lambda>buf'. modify (\<lambda>l. l\<lparr>el_rx_buf := buf'\<rparr>))) else ret ())
      (\<lambda>_. bind (run_actions le t acts) (\<lambda>_. ret (?c - n))) (l\<lparr>el_rx_buf := ?b\<rparr>))"
    using assms(1) by (simp only: process_received_def Let_def if_False sel assms(4) option.case outcome.case prod.case)
  also have "\<dots> = Some (bind (run_actions le t acts) (\<lambda>_. ret (?c - n)) (l\<lparr>el_rx_buf :=
      if 0 < n then overwrite 0 (take (?c - n) (drop n ?b)) ?b else ?b\<rparr>))"
    by (cases "0 < n") (simp_all only: if_True if_False simp_thms bind_apply(1) [of "bind _ _", OF copy] bind_apply(1) [OF basic_actions(1)])
  finally show ?thesis .
qed

text \<open>One read: the actions of the packets it completed are run, and the beginning \<open>r'\<close> of the next
  packet is moved to the front of the buffer.\<close>

lemma process_received_wires:
  assumes buf: "take (length r) (el_rx_buf l) = r" "length (r @ d) \<le> length (el_rx_buf l)" "d \<noteq> []"
    and stream: "r @ d = wires (version_of l) ps @ r'"
    and ok: "\<forall>p \<in> set ps. encodable p (version_of l) \<and> wf_packet p (version_of l)"
    and stop: "fst (frame_next \<lparr>fi_buffer = wires (version_of l) ps @ r', fi_offset = length (wires (version_of l) ps)\<rparr>) = None"
  shows "\<exists>b. process_received le t (length r) d l =
      Some (bind (run_actions le t (concat (map (arrives (version_of l)) ps))) (\<lambda>_. ret (length r')) (l\<lparr>el_rx_buf := b\<rparr>)) \<and>
    take (length r') b = r' \<and> length b = length (el_rx_buf l)"
proof -
  let ?b1 = "overwrite (length r) d (el_rx_buf l)" and ?w = "wires (version_of l) ps"
  have t1: "take (length (r @ d)) ?b1 = r @ d" using buf(1,2) by (simp add: overwrite_def)
  have len1: "length ?b1 = length (el_rx_buf l)" using buf(2) by simp
  have cur: "length r + length d = length ?w + length r'" using arg_cong [OF stream, of length] by simp
  have eq: "take (length r + length d) ?b1 = ?w @ r'"
    by (simp only: length_append [symmetric] t1 stream [symmetric])
  have parse: "parse_frames (version_of l) (frame_iter_new (take (length r + length d) ?b1)) 0 [] =
      Some (Ok (length ?w, concat (map (arrives (version_of l)) ps)) :: ('e client_error, _) outcome)"
    unfolding eq by (rule parse_wires [OF ok stop])
  let ?b2 = "overwrite 0 (take (length r') (drop (length ?w) ?b1)) ?b1"
  have r': "take (length r') (drop (length ?w) ?b1) = r'"
    using eq unfolding cur by (simp add: take_drop add.commute)
  have "take (length r') ?b2 = r'" "length ?b2 = length (el_rx_buf l)"
    using r' len1 cur buf(2) by (simp_all add: overwrite_def)
  moreover have "take (length r') ?b1 = r'" if "?w = []" using r' that by simp
  moreover have "process_received le t (length r) d l =
      Some (bind (run_actions le t (concat (map (arrives (version_of l)) ps))) (\<lambda>_. ret (length r'))
        (l\<lparr>el_rx_buf := if 0 < length ?w then ?b2 else ?b1\<rparr>))"
  proof -
    have "length r + length d - length ?w = length r'" using cur by simp
    with process_received_parsed [OF buf(3) _ _ parse] buf(2) cur show ?thesis by simp
  qed
  ultimately show ?thesis using len1 by (cases "?w = []") auto
qed


text \<open>A buffer that ends inside a remaining length is never left.\<close>

lemma parse_wires_error:
  assumes "\<forall>p \<in> set ps. encodable p v \<and> wf_packet p v"
    and "frame_next \<lparr>fi_buffer = wires v ps @ r, fi_offset = length (wires v ps)\<rparr> =
      (Some (Err e), \<lparr>fi_buffer = wires v ps @ r, fi_offset = length (wires v ps)\<rparr>)"
  shows "parse_frames v (frame_iter_new (wires v ps @ r)) 0 [] =
    (None :: ('io client_error, nat \<times> incoming_action list) outcome option)"
proof -
  have "frames (frame_iter_new (wires v ps @ r)) = (map (\<lambda>p. wire p v) ps, Some e, length (wires v ps))"
    using frames_stuck [of ps v "frame_iter_new (wires v ps @ r)" r e] assms
    by (simp add: frame_iter_new_def wires_def)
  moreover have "decode_frames v (map (\<lambda>p. wire p v) ps) 0 [] =
      (Ok (length (wires v ps), concat (map (arrives v) ps)) :: ('io client_error, _) outcome)"
    using decode_frames_wires [OF assms(1), of 0 "[]"] by simp
  ultimately show ?thesis by (simp add: parse_frames_eq)
qed

lemma process_received_stuck:
  fixes l :: "('f, 'r, 'c, 'w, 'io) event_loop"
  assumes "take (length r) (el_rx_buf l) = r" "length (r @ d) \<le> length (el_rx_buf l)" "d \<noteq> []" "r @ d = buf"
    and "parse_frames (version_of l) (frame_iter_new buf) 0 [] =
      (None :: ('io client_error, nat \<times> incoming_action list) outcome option)"
  shows "process_received le t (length r) d l = None"
proof -
  have "take (length r + length d) (overwrite (length r) d (el_rx_buf l)) = buf"
    using assms(1,2,4) by (simp add: overwrite_def)
  with assms(3,5) show ?thesis by (simp add: process_received_def Let_def)
qed

subsection \<open>Handling what was parsed does not look at the receive buffer\<close>

definition ignores_rx :: "('f, 'r, 'c, 'w, 'io, 'a) loop_action \<Rightarrow> bool" where
  "ignores_rx m \<longleftrightarrow> (\<forall>l b. m (l\<lparr>el_rx_buf := b\<rparr>) = (fst (m l), (snd (m l))\<lparr>el_rx_buf := b\<rparr>))"

lemma ignores_rxD: "ignores_rx m \<Longrightarrow> m l = (r, l') \<Longrightarrow> m (l\<lparr>el_rx_buf := b\<rparr>) = (r, l'\<lparr>el_rx_buf := b\<rparr>)"
  by (simp add: ignores_rx_def)

named_theorems rx_intros

lemma ignores_rx_basic [rx_intros]:
  "ignores_rx (ret a)" "ignores_rx (throw e)" "ignores_rx (lift r)"
  "ignores_rx (on_world h)" "ignores_rx (touch_last_tx le)" "ignores_rx (gets el_tx_buf)"
  by (simp_all add: ignores_rx_def on_world_def touch_last_tx_def)

lemma ignores_rx_io [rx_intros]: "ignores_rx (io_call f)"
  by (simp add: ignores_rx_def io_call_def split: prod.split)

lemma ignores_rx_bind [rx_intros]:
  assumes "ignores_rx m" "\<And>a. ignores_rx (k a)"
  shows "ignores_rx (bind m k)"
  unfolding ignores_rx_def
proof (intro allI)
  fix l b
  obtain r l' where m: "m l = (r, l')" by fastforce
  from ignores_rxD [OF assms(1) m] m assms(2)
  show "bind m k (l\<lparr>el_rx_buf := b\<rparr>) = (fst (bind m k l), (snd (bind m k l))\<lparr>el_rx_buf := b\<rparr>)"
    by (cases r) (simp_all add: ignores_rx_def)
qed

lemma ignores_rx_if [rx_intros]: "ignores_rx m \<Longrightarrow> ignores_rx n \<Longrightarrow> ignores_rx (if b then m else n)"
  by simp

lemma loop_encode_rx: "loop_encode p cursor (l\<lparr>el_rx_buf := b\<rparr>) =
    (fst (loop_encode p cursor l), (snd (loop_encode p cursor l))\<lparr>el_rx_buf := b\<rparr>)"
  by (simp add: loop_encode_def Let_def split: prod.split)

lemma ignores_rx_if_encoded [rx_intros]: "(\<And>n. ignores_rx (k n)) \<Longrightarrow> ignores_rx (if_encoded p k)"
  unfolding ignores_rx_def if_encoded_def loop_encode_rx
  by (auto split: prod.split outcome.split)

lemma ignores_rx_send [rx_intros]: "ignores_rx (loop_send le t len)"
  unfolding loop_send_def write_tx_def by (intro rx_intros)

lemma ignores_rx_dispatch [rx_intros]: "ignores_rx (dispatch_message le msg)"
  by (simp add: ignores_rx_def dispatch_message_def split: prod.split)

lemma ignores_rx_take [rx_intros]:
  "ignores_rx (take_entry k el_inflight_publishes el_inflight_publishes_update)"
  "ignores_rx (take_entry k el_inflight_subscribes el_inflight_subscribes_update)"
  "ignores_rx (take_entry k el_inflight_unsubscribes el_inflight_unsubscribes_update)"
  by (simp_all add: ignores_rx_def take_entry_def)

lemma ignores_rx_run_action [rx_intros]: "ignores_rx (run_action le t a)"
  by (cases a) (auto intro!: rx_intros split: option.split qos.split)

lemma ignores_rx_run_actions: "ignores_rx (run_actions le t as)"
proof (induction "as")
  case (Cons a as)
  then show ?case unfolding run_actions.simps by (intro rx_intros)
qed (simp add: ignores_rx_def)

text \<open>Nor does it change the options or the size of the buffer.\<close>

definition sized :: "'f client_options \<Rightarrow> nat \<Rightarrow> ('f, 'r, 'c, 'w, 'io) event_loop \<Rightarrow> bool" where
  "sized opts n l \<longleftrightarrow> el_options l = opts \<and> length (el_rx_buf l) = n"

lemma run_actions_append:
  "run_actions le t (as @ bs) = bind (run_actions le t as) (\<lambda>_. run_actions le t bs)"
proof (induction "as")
  case (Cons a as)
  then show ?case by (auto simp: bind_def fun_eq_iff split: prod.split outcome.split)
qed (simp add: bind_def fun_eq_iff)


lemma valid_take_sized:
  "(\<And>l. sized opts n l \<Longrightarrow> sized opts n (upd (AList.delete k) l)) \<Longrightarrow> valid False (sized opts n) (take_entry k table upd) any"
  by (simp add: valid_def take_entry_def)

lemma net_closed_sized: "net_closed (sized opts n)"
  by (simp add: net_closed_def sized_def net_only_sel)

lemma valid_dispatch_sized: "valid False (sized opts n) (dispatch_message le msg) any"
  by (rule validI) (auto simp: dispatch_message_def sized_def split: prod.splits)

lemma valid_run_action_sized:
  fixes le :: "('f, 'r, 'c, 'w, 'io) loop_env"
  shows "valid False (sized opts n) (run_action le t a) any"
proof (cases a)
  case (InPublish msg)
  have "valid False (sized opts n) (case (tm_qos msg, tm_packet_id msg) of
      (AtLeastOnce, Some pid) \<Rightarrow> if_encoded (PubAck (ack_new pid)) (\<lambda>len. loop_send le t len) | _ \<Rightarrow> ret ()) any"
    by (cases "tm_qos msg"; cases "tm_packet_id msg") (simp_all only: prod.case qos.case option.case, (intro net_rules net_closed_sized)+)
  then show ?thesis unfolding InPublish run_action.simps by (intro valid_then valid_dispatch_sized)
next
  case (InPubAck k)
  have "valid False (sized opts n) (case x of Some (_, Some sender) \<Rightarrow> on_world (le_reply_unit le sender (Ok ())) | _ \<Rightarrow> ret ()) any"
    for x :: "(tokio_message \<times> 'r option) option"
    by (auto simp: valid_def on_world_def sized_def split: option.split)
  then show ?thesis unfolding InPubAck run_action.simps
    by (intro valid_then valid_take_sized) (simp add: sized_def)
next
  case (InSubAck k)
  have "valid False (sized opts n) (case x of Some sender \<Rightarrow> on_world (le_reply_id le sender (Ok k)) | None \<Rightarrow> ret ()) any" for x
    by (auto simp: valid_def on_world_def sized_def split: option.split)
  then show ?thesis unfolding InSubAck run_action.simps
    by (intro valid_then valid_take_sized) (simp add: sized_def)
next
  case (InUnsubAck k)
  have "valid False (sized opts n) (case x of Some sender \<Rightarrow> on_world (le_reply_id le sender (Ok k)) | None \<Rightarrow> ret ()) any" for x
    by (auto simp: valid_def on_world_def sized_def split: option.split)
  then show ?thesis unfolding InUnsubAck run_action.simps
    by (intro valid_then valid_take_sized) (simp add: sized_def)
qed (simp_all add: valid_def)

lemma valid_run_actions_sized: "valid False (sized opts n) (run_actions le t as) any"
proof (induction "as")
  case (Cons a as)
  then show ?case unfolding run_actions.simps by (intro valid_then valid_run_action_sized)
qed (simp add: valid_def)

subsection \<open>Successive reads\<close>

text \<open>The reading branch of the loop on the given results of \<open>transport.read\<close>.\<close>

fun receive_all ::
  "('f, 'r, 'c, 'w, 'io) loop_env \<Rightarrow> ('w, 'io) boxed_transport \<Rightarrow> nat \<Rightarrow> bytes list \<Rightarrow> ('f, 'r, 'c, 'w, 'io) event_loop \<Rightarrow>
   (('io client_error, nat) outcome \<times> ('f, 'r, 'c, 'w, 'io) event_loop) option" where
  "receive_all le t cursor [] l = Some (Ok cursor, l)"
| "receive_all le t cursor (d # ds) l =
     Option.bind (process_received le t cursor d l) (\<lambda>(r, l1).
       case r of Ok cursor' \<Rightarrow> receive_all le t cursor' ds l1 | _ \<Rightarrow> Some (r, l1))"

text \<open>What is buffered is the beginning of the first packet that is not complete yet.\<close>

definition begins :: "mqtt_version \<Rightarrow> bytes \<Rightarrow> mqtt_packet list \<Rightarrow> bool" where
  "begins v r qs \<longleftrightarrow> r = [] \<or> (\<exists>q qs3. qs = q # qs3 \<and> length r < length (wire q v))"

lemma begins_next:
  assumes "begins v r qs" "r @ rest = wires v qs" "\<forall>q \<in> set qs. encodable q v"
  shows "frame_next \<lparr>fi_buffer = w @ r, fi_offset = length w\<rparr> =
    (if clean_cut v qs (length r) then None else Some (Err IncompletePacket), \<lparr>fi_buffer = w @ r, fi_offset = length w\<rparr>)"
proof (cases qs)
  case Nil
  with assms show ?thesis by (simp add: frame_next_def)
next
  case (Cons q qs3)
  with assms(1) have len: "length r < length (wire q v)" by (auto simp: begins_def wire_def frame_def)
  with frame_next_cut [of "\<lparr>fi_buffer = w @ r, fi_offset = length w\<rparr>" r rest q v "wires v qs3"] assms Cons
  show ?thesis by simp
qed

text \<open>Every read ends at a clean cut; \<open>n\<close> bytes of the packets have been read before.\<close>

fun clean_reads :: "mqtt_version \<Rightarrow> mqtt_packet list \<Rightarrow> nat \<Rightarrow> bytes list \<Rightarrow> bool" where
  "clean_reads v ps n [] \<longleftrightarrow> True"
| "clean_reads v ps n (d # ds) \<longleftrightarrow> clean_cut v ps (n + length d) \<and> clean_reads v ps (n + length d) ds"

lemma clean_reads_append: "clean_reads v (ps @ qs) (length (wires v ps) + n) ds = clean_reads v qs n ds"
  by (induction ds arbitrary: n) (simp_all add: clean_cut_append add.assoc)

text \<open>What of the first \<open>n\<close> bytes is left in the buffer: the beginning of an incomplete packet. A read
  fits when it finds room behind it, which is what the slice given to \<open>read\<close> is.\<close>

fun left_over :: "mqtt_version \<Rightarrow> mqtt_packet list \<Rightarrow> nat \<Rightarrow> nat" where
  "left_over v [] n = n"
| "left_over v (p # ps) n = (if length (wire p v) \<le> n then left_over v ps (n - length (wire p v)) else n)"

fun reads_fit :: "mqtt_version \<Rightarrow> mqtt_packet list \<Rightarrow> nat \<Rightarrow> bytes list \<Rightarrow> nat \<Rightarrow> bool" where
  "reads_fit v ps n [] N \<longleftrightarrow> True"
| "reads_fit v ps n (d # ds) N \<longleftrightarrow>
     left_over v ps n + length d \<le> N \<and> reads_fit v ps (n + length d) ds N"

lemma left_over_append: "left_over v (ps @ qs) (length (wires v ps) + n) = left_over v qs n"
  by (induction ps) simp_all

lemma reads_fit_append: "reads_fit v (ps @ qs) (length (wires v ps) + n) ds N = reads_fit v qs n ds N"
  by (induction ds arbitrary: n) (simp_all add: left_over_append add.assoc)

lemma left_over_begins: "begins v r qs \<Longrightarrow> left_over v qs (length r) = length r"
  by (cases qs) (auto simp: begins_def wire_def frame_def)

text \<open>Reads of whole packets that fit are such reads.\<close>

lemma reads_fit_packets: "\<forall>p \<in> set ps. length (wire p v) \<le> N \<Longrightarrow> reads_fit v ps 0 (map (\<lambda>p. wire p v) ps) N"
proof (induction ps)
  case (Cons p ps)
  have "left_over v (p # ps) 0 = 0" by (simp add: wire_def frame_def)
  with Cons reads_fit_append [of v "[p]" ps 0 "map (\<lambda>p. wire p v) ps" N] show ?case by simp
qed simp

text \<open>One read behind the beginning \<open>r\<close> of the next packet.\<close>

lemma process_received_cut:
  assumes "take (length r) (el_rx_buf l) = r" "length (r @ d) \<le> length (el_rx_buf l)" "d \<noteq> []"
    and stream: "r @ d = wires (version_of l) ps @ r'" "r' @ rest = wires (version_of l) qs" "begins (version_of l) r' qs"
    and ok: "\<forall>p \<in> set (ps @ qs). encodable p (version_of l) \<and> wf_packet p (version_of l)"
    and run: "run_actions le t (concat (map (arrives (version_of l)) ps)) l = (Ok (), l1)"
  shows "if clean_cut (version_of l) qs (length r')
    then \<exists>b. process_received le t (length r) d l = Some (Ok (length r'), l1\<lparr>el_rx_buf := b\<rparr>) \<and>
      take (length r') b = r' \<and> length b = length (el_rx_buf l)
    else process_received le t (length r) d l = None"
proof (cases "clean_cut (version_of l) qs (length r')")
  case True
  have "\<forall>p \<in> set ps. encodable p (version_of l) \<and> wf_packet p (version_of l)" "\<forall>q \<in> set qs. encodable q (version_of l)"
    using ok by simp_all
  from process_received_wires [OF assms(1-3) stream(1) this(1)] begins_next [OF stream(3,2) this(2)] True
  obtain b where "process_received le t (length r) d l =
      Some (bind (run_actions le t (concat (map (arrives (version_of l)) ps))) (\<lambda>_. ret (length r')) (l\<lparr>el_rx_buf := b\<rparr>))"
    and "take (length r') b = r'" "length b = length (el_rx_buf l)" by fastforce
  with True ignores_rxD [OF ignores_rx_run_actions run] show ?thesis by auto
next
  case False
  have e: "\<forall>p \<in> set ps. encodable p (version_of l) \<and> wf_packet p (version_of l)" "\<forall>q \<in> set qs. encodable q (version_of l)"
    using ok by simp_all
  from begins_next [OF stream(3,2) e(2)] False
  have "parse_frames (version_of l) (frame_iter_new (wires (version_of l) ps @ r')) 0 [] =
      (None :: ('e client_error, nat \<times> incoming_action list) outcome option)"
    by (intro parse_wires_error [OF e(1)]) simp
  from process_received_stuck [OF assms(1-3) stream(1) this] False show ?thesis by simp
qed

lemma receive_all_cuts:
  "take (length r) (el_rx_buf l) = r \<Longrightarrow> r @ concat chunks = wires v qs \<Longrightarrow> begins v r qs \<Longrightarrow>
   \<forall>p \<in> set qs. encodable p v \<and> wf_packet p v \<Longrightarrow> [] \<notin> set chunks \<Longrightarrow>
   reads_fit v qs (length r) chunks (length (el_rx_buf l)) \<Longrightarrow> version_of l = v \<Longrightarrow>
   run_actions le t (concat (map (arrives v) qs)) l = (Ok (), l') \<Longrightarrow>
   if clean_reads v qs (length r) chunks
   then \<exists>b. receive_all le t (length r) chunks l = Some (Ok 0, l'\<lparr>el_rx_buf := b\<rparr>)
   else receive_all le t (length r) chunks l = None"
proof (induction chunks arbitrary: r qs l l')
  case Nil
  then have "r = []" by (auto simp: begins_def)
  with Nil.prems(2) have "qs = []" by (cases qs) (simp_all add: wire_def frame_def)
  with \<open>r = []\<close> Nil.prems(8) show ?case by (auto intro!: exI [of _ "el_rx_buf l"])
next
  case (Cons d ds)
  note buf = Cons.prems(1) and stream = Cons.prems(2) and v = Cons.prems(7)
  from stream have "(r @ d) @ concat ds = wires v qs" by simp
  from split_wires [OF this] obtain qs1 qs2 r' where q: "qs = qs1 @ qs2" "r @ d = wires v qs1 @ r'"
    "r' @ concat ds = wires v qs2" and b: "begins v r' qs2" by (auto simp: begins_def)
  have d: "d \<noteq> []" using Cons.prems(5) by auto
  have len: "length (r @ d) \<le> length (el_rx_buf l)"
    using Cons.prems(6) left_over_begins [OF Cons.prems(3)] by simp
  have c: "length r + length d = length (wires v qs1) + length r'" using arg_cong [OF q(2), of length] by simp
  have clean: "clean_reads v qs (length r) (d # ds) \<longleftrightarrow> clean_cut v qs2 (length r') \<and> clean_reads v qs2 (length r') ds"
    by (simp add: q(1) c clean_cut_append clean_reads_append)
  have fit: "reads_fit v qs2 (length r') ds (length (el_rx_buf l))"
    using Cons.prems(6) by (simp add: q(1) c reads_fit_append)
  from Cons.prems(8) obtain l1 where
    r1: "run_actions le t (concat (map (arrives v) qs1)) l = (Ok () :: ('e client_error, _) outcome, l1)" and
    r2: "run_actions le t (concat (map (arrives v) qs2)) l1 = (Ok (), l')"
    by (auto simp: q(1) run_actions_append bind_Ok)
  have ok: "\<forall>p \<in> set (qs1 @ qs2). encodable p v \<and> wf_packet p v" using Cons.prems(4) q(1) by simp
  note step = process_received_cut [OF buf len d q(2) [folded v] q(3) [folded v] b [folded v] ok [folded v], of le t l1, unfolded v, OF r1]
  show ?case
  proof (cases "clean_cut v qs2 (length r')")
    case False
    with step clean show ?thesis by simp
  next
    case True
    with step obtain b where p: "process_received le t (length r) d l = Some (Ok (length r'), l1\<lparr>el_rx_buf := b\<rparr>)"
      and b2: "take (length r') b = r'" "length b = length (el_rx_buf l)" by auto
    have s: "sized (el_options l) (length (el_rx_buf l)) l1"
      using validD [OF valid_run_actions_sized _ r1] by (simp add: sized_def)
    have "if clean_reads v qs2 (length r') ds
      then \<exists>b'. receive_all le t (length r') ds (l1\<lparr>el_rx_buf := b\<rparr>) = Some (Ok 0, l'\<lparr>el_rx_buf := b\<rparr>\<lparr>el_rx_buf := b'\<rparr>)
      else receive_all le t (length r') ds (l1\<lparr>el_rx_buf := b\<rparr>) = None"
    proof (rule Cons.IH)
      show "run_actions le t (concat (map (arrives v) qs2)) (l1\<lparr>el_rx_buf := b\<rparr>) = (Ok (), l'\<lparr>el_rx_buf := b\<rparr>)"
        by (rule ignores_rxD [OF ignores_rx_run_actions r2])
    qed (use b2 \<open>begins v r' qs2\<close> q(1,3) Cons.prems(4,5) fit v s in \<open>auto simp: sized_def\<close>)
    with p clean True show ?thesis by (auto split: if_splits)
  qed
qed

text \<open>Packets whose remaining length takes one byte are never cut inside it.\<close>

lemma short_clean:
  "\<forall>p \<in> set ps. length (packet_content p v) < 128 \<Longrightarrow> n \<le> length (wires v ps) \<Longrightarrow> clean_cut v ps n"
proof (induction ps arbitrary: n)
  case (Cons p ps)
  then have "vbi (length (packet_content p v)) = [of_nat (length (packet_content p v))]" by (simp add: vbi.simps)
  with Cons show ?case by auto
qed simp

lemma short_clean_reads:
  "\<forall>p \<in> set ps. length (packet_content p v) < 128 \<Longrightarrow> n + length (concat ds) \<le> length (wires v ps) \<Longrightarrow>
   clean_reads v ps n ds"
  by (induction ds arbitrary: n) (auto intro!: short_clean)


subsection \<open>What the loop answers\<close>

fun replies_to :: "incoming_action \<Rightarrow> mqtt_packet list" where
  "replies_to (InPublish msg) =
     (if tm_qos msg = AtLeastOnce then (case tm_packet_id msg of Some pid \<Rightarrow> [PubAck (ack_new pid)] | None \<Rightarrow> []) else [])"
| "replies_to _ = []"

fun acknowledged :: "incoming_action \<Rightarrow> u16 list" where
  "acknowledged (InPubAck k) = [k]"
| "acknowledged _ = []"

context loop_wire begin

lemma retain_send_quiet: "sent (snd (retain_send (le_channels le) msg ss w)) = sent w"
proof (induction ss arbitrary: w)
  case (Cons s ss)
  from Cons [of "ch_try_send (le_channels le) s msg w"] Cons [of w] show ?case
    by (auto simp: quiet_try_send split: prod.split)
qed simp

lemma retain_send_sent: "retain_send (le_channels le) msg ss w = (kept, w') \<Longrightarrow> sent w' = sent w"
  using retain_send_quiet [of msg ss w] by simp

lemma match_and_dispatch_quiet:
  "match_and_dispatch ops msg ts n w = (n', w') \<Longrightarrow> ops = le_channels le \<Longrightarrow> sent w' = sent w"
proof (induction ops msg ts n w arbitrary: n' w' rule: match_and_dispatch.induct)
  case (1 ops msg cs p hs es w)
  then show ?case by (auto split: prod.splits dest!: retain_send_sent)
next
  case (2 ops msg level rest cs p hs es w)
  obtain hs' w1 where h: "retain_send ops msg hs w = (hs', w1)" by fastforce
  with 2(4) have w1: "sent w1 = sent w" by (auto dest: retain_send_sent)
  let ?c = "case map_of cs level of Some child \<Rightarrow> (case match_and_dispatch ops msg rest child w1 of
      (child', w2) \<Rightarrow> (AList.update level child' cs, w2)) | None \<Rightarrow> (cs, w1)"
  obtain cs' w2 where c: "?c = (cs', w2)" by fastforce
  have w2: "sent w2 = sent w1"
    using c 2(1) [OF h [symmetric] _ _ 2(4)] by (auto split: option.splits prod.splits)
  let ?p = "case p of Some pl \<Rightarrow> (case match_and_dispatch ops msg rest pl w2 of (pl', w3) \<Rightarrow> (Some pl', w3))
      | None \<Rightarrow> (None, w2)"
  obtain p' w3 where p: "?p = (p', w3)" by fastforce
  have "sent w3 = sent w2"
    using p 2(2) [OF h [symmetric] c [symmetric] _ _ 2(4)] by (auto split: option.splits prod.splits)
  with 2(3) h c p w1 w2 show ?case by simp
qed

lemma dispatch_message_quiet:
  "\<exists>l'. dispatch_message le msg l = (Ok () :: ('io client_error, _) outcome, l') \<and> el_options l' = el_options l \<and>
     el_tx_buf l' = el_tx_buf l \<and> el_inflight_publishes l' = el_inflight_publishes l \<and> sent (el_world l') = sent (el_world l)"
  by (auto simp: dispatch_message_def router_dispatch_def split: prod.split dest!: match_and_dispatch_quiet)

lemma answer_reliable:
  assumes "reliable t" "\<forall>p \<in> set (replies_to (InPublish msg)). fits_tx l p"
  shows "\<exists>l'. (case (tm_qos msg, tm_packet_id msg) of
      (AtLeastOnce, Some pid) \<Rightarrow> if_encoded (PubAck (ack_new pid)) (\<lambda>len. loop_send le t len) | _ \<Rightarrow> ret ()) l = (Ok (), l') \<and>
    net_only l l' \<and> sent (el_world l') = sent (el_world l) @ wires (version_of l) (replies_to (InPublish msg))"
    (is "\<exists>l'. ?m l = _ \<and> _")
proof (cases "tm_qos msg = AtLeastOnce \<and> tm_packet_id msg \<noteq> None")
  case True
  then obtain pid where m: "tm_qos msg = AtLeastOnce" "tm_packet_id msg = Some pid" by auto
  let ?p = "PubAck (ack_new pid)"
  have "fits_tx l ?p" using assms(2) m by simp
  then obtain l1 where e: "loop_encode ?p 0 l = (Ok (length (wire ?p (version_of l))), l1)"
    "take (length (wire ?p (version_of l))) (el_tx_buf l1) = wire ?p (version_of l)"
    "length (wire ?p (version_of l)) \<le> length (el_tx_buf l1)" "net_only l l1" "el_world l1 = el_world l"
    by (rule loop_encode_ready)
  from loop_send_reliable [OF assms(1) e(3), of le] obtain l2 where
    s: "loop_send le t (length (wire ?p (version_of l))) l1 = (Ok () :: ('io client_error, _) outcome, l2)" "net_only l1 l2"
    "sent (el_world l2) = sent (el_world l1) @ take (length (wire ?p (version_of l))) (el_tx_buf l1)" by blast
  with e m net_only_trans [OF e(4) s(2)] show ?thesis by (simp add: if_encoded_def)
next
  case False
  then have "?m l = (Ok (), l)" "replies_to (InPublish msg) = []"
    by (auto split: qos.split option.split)
  then show ?thesis by (simp add: net_onlyI)
qed

lemma run_action_reliable:
  assumes "reliable t" "a \<noteq> InDisconnect" "\<forall>p \<in> set (replies_to a). fits_tx l p"
  shows "\<exists>l'. run_action le t a l = (Ok (), l') \<and> el_options l' = el_options l \<and>
    length (el_tx_buf l') = length (el_tx_buf l) \<and>
    el_inflight_publishes l' = fold AList.delete (acknowledged a) (el_inflight_publishes l) \<and>
    sent (el_world l') = sent (el_world l) @ wires (version_of l) (replies_to a)"
proof (cases a)
  case (InPublish msg)
  let ?m = "case (tm_qos msg, tm_packet_id msg) of
      (AtLeastOnce, Some pid) \<Rightarrow> if_encoded (PubAck (ack_new pid)) (\<lambda>len. loop_send le t len) | _ \<Rightarrow> ret ()"
  have "\<forall>p \<in> set (replies_to (InPublish msg)). fits_tx l p" using assms(3) unfolding InPublish .
  from answer_reliable [OF assms(1) this] obtain l1 where 1: "?m l = (Ok (), l1)" "net_only l l1"
    "sent (el_world l1) = sent (el_world l) @ wires (version_of l) (replies_to (InPublish msg))" by blast
  from dispatch_message_quiet [of msg l1] obtain l2 where
    2: "dispatch_message le msg l1 = (Ok () :: ('io client_error, _) outcome, l2)" "el_options l2 = el_options l1"
    "el_tx_buf l2 = el_tx_buf l1" "el_inflight_publishes l2 = el_inflight_publishes l1" "sent (el_world l2) = sent (el_world l1)" by blast
  have "run_action le t a l = (Ok (), l2)"
    unfolding InPublish run_action.simps bind_apply(1) [of ?m, OF 1(1)] by (rule 2(1))
  with 1(3) 2 net_only_sel [OF 1(2)] show ?thesis by (simp add: InPublish)
next
  case (InPubAck k)
  then show ?thesis
    by (auto simp: take_entry_def bind_def on_world_def quiet_replies split: option.split)
next
  case (InSubAck k)
  then show ?thesis
    by (auto simp: take_entry_def bind_def on_world_def quiet_replies split: option.split)
next
  case (InUnsubAck k)
  then show ?thesis
    by (auto simp: take_entry_def bind_def on_world_def quiet_replies split: option.split)
qed (use assms in auto)

lemma run_actions_reliable:
  "reliable t \<Longrightarrow> InDisconnect \<notin> set as \<Longrightarrow> \<forall>p \<in> set (concat (map replies_to as)). fits_tx l p \<Longrightarrow>
   \<exists>l'. run_actions le t as l = (Ok (), l') \<and>
     el_inflight_publishes l' = fold AList.delete (concat (map acknowledged as)) (el_inflight_publishes l) \<and>
     sent (el_world l') = sent (el_world l) @ wires (version_of l) (concat (map replies_to as))"
proof (induction "as" arbitrary: l)
  case (Cons a as)
  from run_action_reliable [OF Cons.prems(1), of a l] Cons.prems(2,3) obtain l1 where
    1: "run_action le t a l = (Ok () :: ('io client_error, _) outcome, l1)" "el_options l1 = el_options l"
    "length (el_tx_buf l1) = length (el_tx_buf l)"
    "el_inflight_publishes l1 = fold AList.delete (acknowledged a) (el_inflight_publishes l)"
    "sent (el_world l1) = sent (el_world l) @ wires (version_of l) (replies_to a)" by auto
  have "\<forall>p \<in> set (concat (map replies_to as)). fits_tx l1 p"
    using Cons.prems(3) fits_tx_cong [OF 1(2,3)] by auto
  from Cons.IH [OF Cons.prems(1) _ this] Cons.prems(2) obtain l2 where
    2: "run_actions le t as l1 = (Ok () :: ('io client_error, _) outcome, l2)"
    "el_inflight_publishes l2 = fold AList.delete (concat (map acknowledged as)) (el_inflight_publishes l1)"
    "sent (el_world l2) = sent (el_world l1) @ wires (version_of l1) (concat (map replies_to as))" by auto
  show ?case using 1 2 by simp
qed simp

end

end
