(* ===== verification/Loop_Delivery.thy ===== *)
theory Loop_Delivery
  imports Loop_Receive Router_Facts
begin

text \<open>
  From one event loop to another: the bytes a publish puts on the wire, read by the loop of a subscriber,
  are the message again and reach the subscribers of the filters that match its topic.
\<close>

text \<open>What the receiving loop makes of a message sent under the id \<open>i\<close>.\<close>

definition relayed :: "tokio_message \<Rightarrow> u16 \<Rightarrow> tokio_message" where
  "relayed msg i = msg\<lparr>tm_packet_id := allocated_id (tm_qos msg) i, tm_user_properties := []\<rparr>"

lemma arrives_relayed: "arrives v (publish_as msg i) = [InPublish (relayed msg i)]"
  by (simp add: publish_as_def publish_packet_def publish_new_def owned_message_def relayed_def allocated_id_def)

lemma wf_publish_as: "valid_utf8 (tm_topic msg) \<Longrightarrow> wf_packet (publish_as msg i) v"
  by (simp add: publish_as_def publish_packet_def publish_new_def wf_properties_def props_bytes_def)

lemma wire_in_buffer: "fits_tx l p \<Longrightarrow> length (wire p (version_of l)) \<le> length (el_tx_buf l)"
  using length_vbi_le_4 [of "length (packet_content p (version_of l))"]
  by (simp add: fits_tx_def encodable_def wire_def frame_def)

text \<open>A dispatch, as a delivery along the matching filters.\<close>

definition delivered ::
  "('w, 'c) channel_ops \<Rightarrow> tokio_message \<Rightarrow> 'c topic_router \<Rightarrow> 'w \<Rightarrow> 'w \<Rightarrow> bool" where
  "delivered ops msg r w w' \<longleftrightarrow> (\<exists>fs. distinct fs \<and>
     (\<forall>f. f \<in> set fs \<longleftrightarrow> topic_matches f (levels_of (tm_topic msg))) \<and>
     w' = fold (deliver ops msg) (concat (map (\<lambda>f. subs_at f (tr_root r)) fs)) w)"

lemma dispatch_message_delivers:
  assumes "validate_publish_topic (tm_topic msg) = (Ok () :: ('e client_error, unit) outcome)"
  shows "\<exists>l'. dispatch_message le msg l = (Ok (), l') \<and> el_rx_buf l' = el_rx_buf l \<and>
    delivered (le_channels le) msg (el_router l) (el_world l) (el_world l')"
proof -
  let ?ts = "levels_of (tm_topic msg)"
  have clean: "\<forall>t \<in> set ?ts. clean_level t" using publish_topic_clean [OF assms] by blast
  obtain n w' where m: "match_and_dispatch (le_channels le) msg ?ts (tr_root (el_router l)) (el_world l) = (n, w')"
    by fastforce
  have "delivered (le_channels le) msg (el_router l) (el_world l) w'"
    using dispatch_world [OF clean, of "le_channels le" msg "tr_root (el_router l)" "el_world l"] m
      filters_for_matches [OF clean] filters_for_distinct [OF clean]
    unfolding delivered_def by (intro exI [of _ "filters_for ?ts"]) simp
  then show ?thesis using m by (simp add: dispatch_message_def router_dispatch_def)
qed

context loop_wire begin

lemma receive_publish:
  assumes "reliable t" "\<forall>p \<in> set (replies_to (InPublish msg)). fits_tx l p"
    and "validate_publish_topic (tm_topic msg) = (Ok () :: ('e client_error, unit) outcome)"
  shows "\<exists>l' w. run_action le t (InPublish msg) l = (Ok (), l') \<and>
    sent w = sent (el_world l) @ wires (version_of l) (replies_to (InPublish msg)) \<and>
    delivered (le_channels le) msg (el_router l) w (el_world l')"
proof -
  let ?m = "case (tm_qos msg, tm_packet_id msg) of
      (AtLeastOnce, Some pid) \<Rightarrow> if_encoded (PubAck (ack_new pid)) (\<lambda>len. loop_send le t len) | _ \<Rightarrow> ret ()"
  from answer_reliable [OF assms(1,2)] obtain l1 where 1: "?m l = (Ok (), l1)" "net_only l l1"
    "sent (el_world l1) = sent (el_world l) @ wires (version_of l) (replies_to (InPublish msg))" by auto
  from dispatch_message_delivers [OF assms(3), of le l1] obtain l2 where
    2: "dispatch_message le msg l1 = (Ok () :: ('io client_error, _) outcome, l2)"
    "delivered (le_channels le) msg (el_router l1) (el_world l1) (el_world l2)" by blast
  have "run_action le t (InPublish msg) l = (Ok (), l2)"
    unfolding run_action.simps bind_apply(1) [of ?m, OF 1(1)] by (rule 2(1))
  with 1(3) 2(2) net_only_sel(2) [OF 1(2)] show ?thesis by auto
qed

text \<open>The bytes of a publish, in one read.\<close>

lemma receive_published:
  assumes "reliable t" "\<forall>p \<in> set (replies_to (InPublish (relayed msg i))). fits_tx l p"
    and "validate_publish_topic (tm_topic msg) = (Ok () :: ('e client_error, unit) outcome)"
    and "encodable (publish_as msg i) (version_of l)" "valid_utf8 (tm_topic msg)"
    and "length (wire (publish_as msg i) (version_of l)) \<le> length (el_rx_buf l)"
  shows "\<exists>l' w. process_received le t 0 (wire (publish_as msg i) (version_of l)) l = Some (Ok 0, l') \<and>
    sent w = sent (el_world l) @ wires (version_of l) (replies_to (InPublish (relayed msg i))) \<and>
    delivered (le_channels le) (relayed msg i) (el_router l) w (el_world l')"
proof -
  let ?P = "publish_as msg i" and ?v = "version_of l"
  have ne: "wire ?P ?v \<noteq> []" by (simp add: wire_def frame_def)
  have "fst (frame_next \<lparr>fi_buffer = wires ?v [?P], fi_offset = length (wires ?v [?P])\<rparr>) = None"
    by (simp add: frame_next_def)
  with process_received_wires [of "[]" l "wire ?P ?v" "[?P]" "[]" le t] assms(4-6) ne wf_publish_as [OF assms(5)]
  obtain b where p: "process_received le t 0 (wire ?P ?v) l =
      Some (bind (run_actions le t [InPublish (relayed msg i)]) (\<lambda>_. ret 0) (l\<lparr>el_rx_buf := b\<rparr>))"
    by (auto simp: arrives_relayed simp del: run_actions.simps)
  have "validate_publish_topic (tm_topic (relayed msg i)) = (Ok () :: ('e client_error, unit) outcome)"
    using assms(3) by (simp add: relayed_def)
  from receive_publish [OF assms(1,2) this] obtain l' w where
    r: "run_action le t (InPublish (relayed msg i)) l = (Ok () :: ('io client_error, _) outcome, l')"
    and w: "sent w = sent (el_world l) @ wires ?v (replies_to (InPublish (relayed msg i)))"
      "delivered (le_channels le) (relayed msg i) (el_router l) w (el_world l')" by blast
  have "run_actions le t [InPublish (relayed msg i)] l = (Ok () :: ('io client_error, _) outcome, l')"
    by (simp only: run_actions.simps bind_apply(1) [of "run_action le t (InPublish (relayed msg i))", OF r] basic_actions)
  from ignores_rxD [OF ignores_rx_run_actions this, of b]
  have "run_actions le t [InPublish (relayed msg i)] (l\<lparr>el_rx_buf := b\<rparr>) =
      (Ok () :: ('io client_error, _) outcome, l'\<lparr>el_rx_buf := b\<rparr>)" .
  with p have "process_received le t 0 (wire ?P ?v) l = Some (Ok 0, l'\<lparr>el_rx_buf := b\<rparr>)"
    by (simp only: bind_apply(1) basic_actions)
  with w show ?thesis by (intro exI [of _ "l'\<lparr>el_rx_buf := b\<rparr>"] exI [of _ w]) simp
qed

end

end
