(* ===== verification/Loop_Sends.thy ===== *)
theory Loop_Sends
  imports Loop_Wire
begin

text \<open>
  What whole operations of the event loop put on the wire when the transport accepts everything:
  a batch, however it is cut into buffers, and the recovery of a session.
\<close>

subsection \<open>Batches\<close>

text \<open>The in-flight table after the messages were tracked from packet id \<open>i\<close> on.\<close>

fun track_all ::
  "u16 \<Rightarrow> tokio_message list \<Rightarrow> (u16 \<times> tokio_message \<times> 'r option) list \<Rightarrow> (u16 \<times> tokio_message \<times> 'r option) list" where
  "track_all i [] tbl = tbl"
| "track_all i (msg # msgs) tbl = track_all (id_after (tm_qos msg) i) msgs (tracked_in msg None i tbl)"

lemma track_any_eq:
  "(if tm_qos msg \<noteq> AtMostOnce then track_publish msg None else ret (msg, None)) l =
     (Ok (if tm_qos msg = AtMostOnce then msg else msg\<lparr>tm_packet_id := Some (el_next_packet_id l)\<rparr>,
       allocated_id (tm_qos msg) (el_next_packet_id l)), after_tracking msg None l)"
  by (simp add: track_publish_eq allocated_id_def after_tracking_def tracked_in_def id_after_def)

lemma publish_as_cases:
  "Publish (publish_packet (if b then msg else msg\<lparr>tm_packet_id := x\<rparr>) (allocated_id (tm_qos msg) i)) = publish_as msg i"
  by (simp add: publish_as_def)

lemma loop_encode_prefix:
  "loop_encode p cursor l = (r, l') \<Longrightarrow> cursor \<le> length (el_tx_buf l) \<Longrightarrow>
   take cursor (el_tx_buf l') = take cursor (el_tx_buf l)"
  by (auto simp: loop_encode_def Let_def split: if_splits prod.splits)

lemma loop_encode_not_Panic:
  "never_empty p \<Longrightarrow> small (length (el_tx_buf l)) \<Longrightarrow> cursor \<le> length (el_tx_buf l) \<Longrightarrow>
   loop_encode p cursor l = (r, l') \<Longrightarrow> r \<noteq> Panic"
  using encode_safe_never_empty [of p "length (el_tx_buf l)" cursor]
  by (auto simp: loop_encode_def Let_def encode_safe_def split: if_splits prod.splits)
    (metis fst_conv length_drop)

context loop_wire begin

text \<open>One message of a batch: it ends up behind the \<open>c\<close> bytes buffered then, after what had to be
  written to make room for it.\<close>

lemma batch_step_reliable:
  assumes "reliable t" "small (length (el_tx_buf l))" "cursor \<le> length (el_tx_buf l)"
    and fits: "fits_tx l (publish_as msg (el_next_packet_id l))"
  shows "\<exists>c l1. publish_batch_loop le t (msg # msgs) cursor k l = publish_batch_loop le t msgs c (k + 1) l1 \<and>
    net_only (after_tracking msg None l) l1 \<and> c \<le> length (el_tx_buf l1) \<and>
    sent (el_world l1) @ take c (el_tx_buf l1) = sent (el_world l) @ take cursor (el_tx_buf l) @
      wire (publish_as msg (el_next_packet_id l)) (version_of l)"
proof -
  let ?l = "after_tracking msg None l" and ?p = "publish_as msg (el_next_packet_id l)" and ?v = "version_of l"
  have step: "publish_batch_loop le t (msg # msgs) cursor k l =
    (case loop_encode ?p cursor ?l of
       (Ok len, l') \<Rightarrow> publish_batch_loop le t msgs (cursor + len) (k + 1) l'
     | (Err _, l') \<Rightarrow>
         (if 0 < cursor then
            bind (write_tx t cursor) (\<lambda>_. bind (encode_or_malformed ?p) (\<lambda>len.
              publish_batch_loop le t msgs len (k + 1))) l'
          else publish_batch_loop le t msgs cursor k l')
     | (Panic, l') \<Rightarrow> (Panic, l'))"
    unfolding publish_batch_loop.simps bind_apply(1) [OF track_any_eq] prod.case Let_def publish_as_cases ..
  obtain x l1 where e: "loop_encode ?p cursor ?l = (x, l1)" by fastforce
  note net1 = loop_encode_net [OF e, THEN conjunct1] and world1 = loop_encode_net [OF e, THEN conjunct2]
  have cur: "cursor \<le> length (el_tx_buf ?l)" using assms(3) by simp
  have enc: "encodable ?p ?v" "packet_content ?p ?v \<noteq> []" using fits by (simp_all add: fits_tx_def)
  show ?thesis
  proof (cases x)
    case (Ok n)
    from loop_encode_wire [OF e [unfolded Ok] _ _ cur] enc
    have "take (cursor + n) (el_tx_buf l1) = take cursor (el_tx_buf l) @ wire ?p ?v" "cursor + n \<le> length (el_tx_buf l1)"
      by auto
    then show ?thesis unfolding step using Ok e net1 world1 by (intro exI [of _ "cursor + n"] exI [of _ l1]) simp
  next
    case Panic
    then show ?thesis using loop_encode_not_Panic [OF _ _ cur e] assms(2) by (simp add: publish_as_def)
  next
    case (Err err)
    have "fits_tx ?l ?p" using fits by simp
    then obtain l2 where "loop_encode ?p 0 ?l = (Ok (length (wire ?p (version_of ?l))), l2)" by (rule loop_encode_ready)
    with e Err have pos: "0 < cursor" by (cases cursor) simp_all
    obtain l2 where w: "write_tx t cursor l1 = (Ok () :: ('io client_error, _) outcome, l2)" "net_only l1 l2"
      "sent (el_world l2) = sent (el_world l) @ take cursor (el_tx_buf l)"
      using write_tx_reliable [OF assms(1), of cursor l1] cur net_only_sel [OF net1] world1 loop_encode_prefix [OF e cur] by auto
    have net2: "net_only ?l l2" by (rule net_only_trans [OF net1 w(2)])
    have v: "version_of l2 = ?v" and fits2: "fits_tx l2 ?p"
      using net_only_sel(1) [OF net2] fits_tx_net [OF net2] fits by simp_all
    from fits2 obtain l3 where 3: "loop_encode ?p 0 l2 = (Ok (length (wire ?p ?v)), l3)"
      "take (length (wire ?p ?v)) (el_tx_buf l3) = wire ?p ?v" "length (wire ?p ?v) \<le> length (el_tx_buf l3)"
      "net_only l2 l3" "el_world l3 = el_world l2"
      using loop_encode_ready [of l2 ?p] v by metis
    have "encode_or_malformed ?p l2 = (Ok (length (wire ?p ?v)) :: ('io client_error, _) outcome, l3)"
      using 3(1) by (simp add: encode_or_malformed_def)
    with e Err pos w(1) have "publish_batch_loop le t (msg # msgs) cursor k l =
        publish_batch_loop le t msgs (length (wire ?p ?v)) (k + 1) l3"
      unfolding step by simp
    with net_only_trans [OF net2 3(4)] 3(2,3,5) w(3) show ?thesis
      by (intro exI [of _ "length (wire ?p ?v)"] exI [of _ l3]) simp
  qed
qed

lemma batch_reliable:
  "reliable t \<Longrightarrow> small (length (el_tx_buf l)) \<Longrightarrow> cursor \<le> length (el_tx_buf l) \<Longrightarrow>
   \<forall>p \<in> set (offline_packets (el_next_packet_id l) msgs). fits_tx l p \<Longrightarrow>
   \<exists>l'. publish_batch_loop le t msgs cursor k l = (Ok (k + length msgs), l') \<and>
     el_inflight_publishes l' = track_all (el_next_packet_id l) msgs (el_inflight_publishes l) \<and>
     sent (el_world l') = sent (el_world l) @ take cursor (el_tx_buf l) @
       wires (version_of l) (offline_packets (el_next_packet_id l) msgs)"
proof (induction msgs arbitrary: l cursor k)
  case Nil
  show ?case
  proof (cases "0 < cursor")
    case True
    obtain l1 where "loop_send le t cursor l = (Ok () :: ('io client_error, _) outcome, l1)" "net_only l l1"
      "sent (el_world l1) = sent (el_world l) @ take cursor (el_tx_buf l)"
      using loop_send_reliable [OF Nil.prems(1,3)] by blast
    with True show ?thesis by (simp add: net_only_sel)
  qed simp
next
  case (Cons msg msgs)
  let ?i = "el_next_packet_id l"
  have fits: "fits_tx l (publish_as msg ?i)" and rest: "\<forall>p \<in> set (offline_packets (id_after (tm_qos msg) ?i) msgs). fits_tx l p"
    using Cons.prems(4) by simp_all
  from batch_step_reliable [OF Cons.prems(1-3) fits, of msgs k] obtain c l1 where
    1: "publish_batch_loop le t (msg # msgs) cursor k l =
        (publish_batch_loop le t msgs c (k + 1) l1 :: ('io client_error, _) outcome \<times> _)"
      "net_only (after_tracking msg None l) l1" "c \<le> length (el_tx_buf l1)"
      "sent (el_world l1) @ take c (el_tx_buf l1) = sent (el_world l) @ take cursor (el_tx_buf l) @
        wire (publish_as msg ?i) (version_of l)" by blast
  note sel = net_only_sel [OF 1(2)]
  have "\<forall>p \<in> set (offline_packets (el_next_packet_id l1) msgs). fits_tx l1 p"
    using rest fits_tx_net [OF 1(2)] sel by (simp add: after_tracking_def fits_tx_def)
  from Cons.IH [OF Cons.prems(1) _ 1(3) this, of "k + 1"] Cons.prems(2) sel obtain l' where
    2: "publish_batch_loop le t msgs c (k + 1) l1 = (Ok (k + length (msg # msgs)) :: ('io client_error, _) outcome, l')"
      "el_inflight_publishes l' = track_all ?i (msg # msgs) (el_inflight_publishes l)"
      "sent (el_world l') = sent (el_world l1) @ take c (el_tx_buf l1) @
        wires (version_of l) (offline_packets (id_after (tm_qos msg) ?i) msgs)"
    by (auto simp: after_tracking_def)
  have "sent (el_world l') = sent (el_world l) @ take cursor (el_tx_buf l) @
      wires (version_of l) (offline_packets ?i (msg # msgs))"
    using 2(3) arg_cong [OF 1(4), of "\<lambda>s. s @ wires (version_of l) (offline_packets (id_after (tm_qos msg) ?i) msgs)"] by simp
  with 1(1) 2(1,2) show ?case by metis
qed

lemma batch_request_reliable:
  assumes "reliable t" "small (length (el_tx_buf l))"
    and "\<forall>p \<in> set (offline_packets (el_next_packet_id l) msgs). fits_tx l p"
  shows "\<exists>l'. send_publish_batch_direct le t msgs l = (Ok (length msgs), l') \<and>
    el_inflight_publishes l' = track_all (el_next_packet_id l) msgs (el_inflight_publishes l) \<and>
    sent (el_world l') = sent (el_world l) @ wires (version_of l) (offline_packets (el_next_packet_id l) msgs)"
  using batch_reliable [OF assms(1,2) _ assms(3), of 0 0] by (simp add: send_publish_batch_direct_def)

end

subsection \<open>Recovery\<close>

text \<open>The packets a recovery sends: the in-flight messages again, the subscriptions, the queue.\<close>

definition inflight_packets :: "('f, 'r, 'c, 'w, 'io) event_loop \<Rightarrow> mqtt_packet list" where
  "inflight_packets l =
     (if rp_resend_unacked_inflight (op_recovery (el_options l))
      then map (\<lambda>(pid, msg, _). dup_packet (pid, msg)) (el_inflight_publishes l) else [])"

definition restored :: "('f, 'r, 'c, 'w, 'io) event_loop \<Rightarrow> (str \<times> qos) list" where
  "restored l = (if rp_auto_resubscribe (op_recovery (el_options l)) then el_active_subscriptions l else [])"

definition recovery_packets :: "('f, 'r, 'c, 'w, 'io) event_loop \<Rightarrow> mqtt_packet list" where
  "recovery_packets l =
     inflight_packets l @ resubscribe_packets (el_next_packet_id l) (restored l) @
     offline_packets (id_after_subs (el_next_packet_id l) (restored l)) (el_offline_queue l)"

context byte_transport begin

lemma ignored_flush: "\<exists>l'. ignore_result (io_call (bt_flush t)) l = (Ok () :: ('io client_error, _) outcome, l') \<and>
    net_only l l' \<and> sent (el_world l') = sent (el_world l)"
proof -
  obtain r l' where f: "io_call (bt_flush t) l = (r :: ('io client_error, _) outcome, l')" by fastforce
  from flush_Ok [OF f] have "sent (el_world l') = sent (el_world l)" "l' = l\<lparr>el_world := el_world l'\<rparr>" by simp_all
  moreover have "r \<noteq> Panic" using f by (auto simp: io_call_def split: prod.splits dest: flush_same)
  ultimately show ?thesis using f net_onlyI(2) [of l "el_world l'"]
    by (cases r) (auto simp: ignore_result_def)
qed

lemma resend_stage:
  assumes "reliable t" "\<forall>p \<in> set (inflight_packets l). fits_tx l p"
  shows "\<exists>l'. (if rp_resend_unacked_inflight (op_recovery (el_options l)) \<and> el_inflight_publishes l \<noteq> [] then
      bind (resend_inflight t (map (\<lambda>(pid, msg, _). (pid, msg)) (el_inflight_publishes l)))
        (\<lambda>_. ignore_result (io_call (bt_flush t))) else ret ()) l = (Ok () :: ('io client_error, _) outcome, l') \<and>
    net_only l l' \<and> sent (el_world l') = sent (el_world l) @ wires (version_of l) (inflight_packets l)"
    (is "\<exists>l'. ?m l = _ \<and> _")
proof (cases "rp_resend_unacked_inflight (op_recovery (el_options l)) \<and> el_inflight_publishes l \<noteq> []")
  case True
  let ?es = "map (\<lambda>(pid, msg, _). (pid, msg)) (el_inflight_publishes l)"
  have p: "inflight_packets l = map dup_packet ?es" using True by (auto simp: inflight_packets_def)
  with assms(2) obtain l1 where 1: "resend_inflight t ?es l = (Ok () :: ('io client_error, _) outcome, l1)" "net_only l l1"
    "sent (el_world l1) = sent (el_world l) @ wires (version_of l) (inflight_packets l)"
    using resend_inflight_reliable [OF assms(1), of ?es l] by auto
  from ignored_flush [of l1] obtain l2 where
    2: "ignore_result (io_call (bt_flush t)) l1 = (Ok () :: ('io client_error, _) outcome, l2)" "net_only l1 l2"
    "sent (el_world l2) = sent (el_world l1)" by blast
  from True 1(1) 2(1) have "?m l = (Ok (), l2)" by simp
  with net_only_trans [OF 1(2) 2(2)] 1(3) 2(3) show ?thesis by simp
next
  case False
  then have "?m l = (Ok (), l)" "inflight_packets l = []" by (auto simp: inflight_packets_def)
  then show ?thesis using net_onlyI(1) [of l] by simp
qed

lemma resubscribe_stage:
  assumes "reliable t" "\<forall>p \<in> set (resubscribe_packets (el_next_packet_id l) (restored l)). fits_tx l p"
  shows "\<exists>l'. (if rp_auto_resubscribe (op_recovery (el_options l)) \<and> el_active_subscriptions l \<noteq> [] then
      bind (resubscribe t (el_active_subscriptions l)) (\<lambda>_. ignore_result (io_call (bt_flush t)))
      else ret ()) l = (Ok () :: ('io client_error, _) outcome, l') \<and>
    net_only (l\<lparr>el_next_packet_id := id_after_subs (el_next_packet_id l) (restored l)\<rparr>) l' \<and>
    sent (el_world l') = sent (el_world l) @ wires (version_of l) (resubscribe_packets (el_next_packet_id l) (restored l))"
    (is "\<exists>l'. ?m l = _ \<and> _")
proof (cases "rp_auto_resubscribe (op_recovery (el_options l)) \<and> el_active_subscriptions l \<noteq> []")
  case True
  then have r: "restored l = el_active_subscriptions l" by (simp add: restored_def)
  obtain l1 where 1: "resubscribe t (restored l) l = (Ok () :: ('io client_error, _) outcome, l1)"
    "net_only (l\<lparr>el_next_packet_id := id_after_subs (el_next_packet_id l) (restored l)\<rparr>) l1"
    "sent (el_world l1) = sent (el_world l) @ wires (version_of l) (resubscribe_packets (el_next_packet_id l) (restored l))"
    using resubscribe_reliable [OF assms] by blast
  from ignored_flush [of l1] obtain l2 where
    2: "ignore_result (io_call (bt_flush t)) l1 = (Ok () :: ('io client_error, _) outcome, l2)" "net_only l1 l2"
    "sent (el_world l2) = sent (el_world l1)" by blast
  from True 1(1) 2(1) r have "?m l = (Ok (), l2)" by simp
  with net_only_trans [OF 1(2) 2(2)] 1(3) 2(3) show ?thesis by simp
next
  case False
  then have "?m l = (Ok (), l)" "restored l = []" by (auto simp: restored_def)
  then show ?thesis using net_onlyI(1) [of l] by simp
qed

end

context loop_wire begin

lemma recovery_reliable:
  assumes "reliable t" "el_transport l = Some t" "small (length (el_tx_buf l))"
    and "\<forall>p \<in> set (recovery_packets l). fits_tx l p"
  shows "\<exists>l'. perform_session_data_recovery le l = (Ok (), l') \<and> el_transport l' = Some t \<and> el_offline_queue l' = [] \<and>
    sent (el_world l') = sent (el_world l) @ wires (version_of l) (recovery_packets l)"
proof -
  let ?l = "l\<lparr>el_transport := None\<rparr>"
  have c: "inflight_packets ?l = inflight_packets l" "restored ?l = restored l" "fits_tx ?l p = fits_tx l p" for p
    by (simp_all add: inflight_packets_def restored_def fits_tx_def)
  from resend_stage [OF assms(1), of ?l] assms(4) c obtain l1 where
    1: "(if rp_resend_unacked_inflight (op_recovery (el_options ?l)) \<and> el_inflight_publishes ?l \<noteq> [] then
      bind (resend_inflight t (map (\<lambda>(pid, msg, _). (pid, msg)) (el_inflight_publishes ?l)))
        (\<lambda>_. ignore_result (io_call (bt_flush t))) else ret ()) ?l = (Ok () :: ('io client_error, _) outcome, l1)"
    "net_only ?l l1" "sent (el_world l1) = sent (el_world l) @ wires (version_of l) (inflight_packets l)"
    by (auto simp: recovery_packets_def)
  note sel1 = net_only_sel [OF 1(2)]
  have c1: "restored l1 = restored l" using sel1 by (simp add: restored_def)
  have f1: "fits_tx l1 p = fits_tx l p" for p using fits_tx_net [OF 1(2)] c by simp
  from resubscribe_stage [OF assms(1), of l1] assms(4) c1 f1 sel1 obtain l2 where
    2: "(if rp_auto_resubscribe (op_recovery (el_options l1)) \<and> el_active_subscriptions l1 \<noteq> [] then
      bind (resubscribe t (el_active_subscriptions l1)) (\<lambda>_. ignore_result (io_call (bt_flush t)))
      else ret ()) l1 = (Ok () :: ('io client_error, _) outcome, l2)"
    "net_only (l1\<lparr>el_next_packet_id := id_after_subs (el_next_packet_id l) (restored l)\<rparr>) l2"
    "sent (el_world l2) = sent (el_world l1) @ wires (version_of l) (resubscribe_packets (el_next_packet_id l) (restored l))"
    by (auto simp: recovery_packets_def)
  have again: "(if rp_auto_resubscribe (op_recovery (el_options ?l)) \<and> el_active_subscriptions l1 \<noteq> [] then
      bind (resubscribe t (el_active_subscriptions l1)) (\<lambda>_. ignore_result (io_call (bt_flush t)))
      else ret ()) l1 = (Ok () :: ('io client_error, _) outcome, l2)"
    using 2(1) unfolding sel1(1) .
  note sel2 = net_only_sel [OF 2(2)]
  have f2: "fits_tx l2 p = fits_tx l p" for p using sel1 sel2 by (simp add: fits_tx_def)
  from flush_offline_reliable [OF assms(1), of l2 "el_offline_queue l"] assms(3,4) f2 sel1 sel2 obtain l3 where
    3: "flush_offline le t (el_offline_queue l) l2 = (Ok () :: ('io client_error, _) outcome, l3)"
    "el_offline_queue l \<noteq> [] \<longrightarrow> el_offline_queue l3 = []" "el_offline_queue l = [] \<longrightarrow> l3 = l2"
    "sent (el_world l3) = sent (el_world l2) @
      wires (version_of l) (offline_packets (id_after_subs (el_next_packet_id l) (restored l)) (el_offline_queue l))"
    by (auto simp: recovery_packets_def)
  have q: "el_offline_queue l3 = []" using 3(2,3) sel1 sel2 by (cases "el_offline_queue l = []") auto
  have "el_offline_queue l2 = el_offline_queue l" using sel1 sel2 by simp
  with 3(1) have "recover_session le t ?l = (Ok (), l3)"
    unfolding recover_session_def
    by (simp only: bind_apply(1) basic_actions(4) 1(1) again)
  then have "perform_session_data_recovery le l = (Ok (), l3\<lparr>el_transport := Some t\<rparr>)"
    using assms(2) by (simp add: perform_session_data_recovery_def)
  with q 1(3) 2(3) 3(4) show ?thesis by (auto simp: recovery_packets_def)
qed

end

end
