(* ===== verification/Loop_Theorems.thy ===== *)
theory Loop_Theorems
  imports Loop_Delivery Loop_Sends
begin

text \<open>
  The properties of the event loop: reconnection, the requests against a map of subscriptions,
  the safety of the connection cycle, the recovery of a session and the end of the loop.
\<close>

subsection \<open>Reconnection\<close>

text \<open>C36. With a limit on the retries \<open>connect_with_backoff\<close> returns, however the network
  behaves: it gives up with an error only at the first attempt at or above the limit, which is
  attempt number \<open>max m (n + 1)\<close> when \<open>n\<close> attempts failed before.\<close>

theorem backoff_gives_up:
  assumes "rc_max_retries (op_reconnect (el_options l)) = Some m"
  shows "\<exists>r l'. connect_with_backoff le l = Some (r, l') \<and>
    (\<forall>e. r = Err e \<longrightarrow> el_reconnect_attempt l' = max m (el_reconnect_attempt l + 1))"
  using assms
proof (induction "m - el_reconnect_attempt l" arbitrary: l rule: less_induct)
  case less
  obtain r l1 where a: "connect_attempt le l = (r, l1)" by fastforce
  show ?case
  proof (cases "r = Panic")
    case False
    from a False show ?thesis
    proof (cases rule: connect_attempt_cases)
      case up
      with a show ?thesis by (simp add: connect_with_backoff.simps)
    next
      case again
      then have n: "el_reconnect_attempt l1 < m" using less.prems by simp
      then have "\<exists>r l'. connect_with_backoff le l1 = Some (r, l') \<and>
          (\<forall>e. r = Err e \<longrightarrow> el_reconnect_attempt l' = max m (el_reconnect_attempt l1 + 1))"
        using again(2,3) less.prems by (intro less.hyps) simp_all
      with a again n show ?thesis by (auto simp: connect_with_backoff.simps [of le l])
    next
      case (gave_up m' e)
      then show ?thesis using less.prems a by (auto simp: connect_with_backoff.simps [of le l])
    qed
  qed (use a in \<open>simp add: connect_with_backoff.simps\<close>)
qed

text \<open>Without a limit and against a target that never accepts, it never returns; whether
  reconnecting is enabled in the options does not matter.\<close>

lemma backoff_never_ends:
  assumes "rc_max_retries (op_reconnect (el_options l)) = None"
    and "\<forall>w. \<exists>e w'. le_connect le (op_target (el_options l)) w = (Err e, w')"
    and "\<forall>n. compute_delay (le_f64 le) (op_reconnect (el_options l)) n \<noteq> (Panic :: ('io client_error, nat) outcome)"
  shows "connect_with_backoff le (l :: ('f, 'r, 'c, 'w, 'io) event_loop) = None"
proof (rule backoff_diverges [where P = "\<lambda>l'. el_options l' = el_options l"])
  fix l' :: "('f, 'r, 'c, 'w, 'io) event_loop" assume o: "el_options l' = el_options l"
  show "\<exists>l''. connect_attempt le l' = (Ok False, l'') \<and> el_options l'' = el_options l"
    by (rule connect_attempt_refused [of le l']) (use assms o in auto)
qed simp

text \<open>A loop over the memory transport: nothing accepts, and one that gives up at the second
  attempt.\<close>

definition sample_options :: "nat option \<Rightarrow> unit client_options" where
  "sample_options retries =
     (let fo = le_f64 (memory_env (Pair None)) in
      opts_with_max_packet_size 64 (opts_with_reconnect ((reconnect_policy_default fo)\<lparr>rc_max_retries := retries\<rparr>)
        (client_options_new fo [0x61] [0x68] 1883)))"

lemma sample_options_sel [simp]:
  "rc_max_retries (op_reconnect (sample_options retries)) = retries" "op_target (sample_options retries) = Tcp [0x68] 1883"
  "op_max_packet_size (sample_options retries) = 64" "op_version (sample_options retries) = V3_1_1"
  "op_recovery (sample_options retries) = data_recovery_policy_default"
  "op_keep_alive (sample_options retries) = 30 * 1000000000"
  by (simp_all add: sample_options_def opts_with_max_packet_size_def opts_with_reconnect_def client_options_new_def Let_def)

definition sample_loop :: "nat option \<Rightarrow> (unit, nat, unit, memory_stream, unit) event_loop" where
  "sample_loop retries = event_loop_new (memory_env (Pair None)) (sample_options retries) \<lparr>ms_sent = [], ms_input = []\<rparr>"

theorem backoff_gives_up_witness:
  "\<exists>r l'. connect_with_backoff (memory_env (Pair None)) (sample_loop (Some 2)) = Some (r, l') \<and>
    (\<forall>e. r = Err e \<longrightarrow> el_reconnect_attempt l' = 2)"
  using backoff_gives_up [of "sample_loop (Some 2)" 2 "memory_env (Pair None)"]
  by (simp add: sample_loop_def event_loop_new_def numeral_2_eq_2)

theorem backoff_never_ends_witness:
  "connect_with_backoff (memory_env (Pair None)) (sample_loop None) = None"
  by (rule backoff_never_ends)
    (auto simp: sample_loop_def event_loop_new_def memory_env_def compute_delay_def Let_def)


subsection \<open>The connection cycle\<close>

text \<open>On a transport that keeps the contract of a byte stream, a connection cycle that ends has
  not panicked, has kept the transport and the invariant of the loop: buffers of the configured
  size, packet ids and tables of pending operations that are keyed by distinct non-zero ids.\<close>

lemma drive_connection_safe:
  assumes "byte_transport t sent" "el_transport l = Some t" "loop_inv N l" "small N" "5 \<le> N"
    and "le_interval le (op_keep_alive (el_options l))" "drive_connection le l = Some (r, l')"
  shows "r \<noteq> Panic \<and> loop_inv N l' \<and> el_transport l' = Some t"
proof -
  obtain r1 l1 where x: "select_loop le t 0 (l\<lparr>el_transport := None\<rparr>) = Some (r1, l1)"
    and r: "(case r1 of Panic \<Rightarrow> (Panic, l1) | _ \<Rightarrow> (r1, l1\<lparr>el_transport := Some t\<rparr>)) = (r, l')"
    using assms(2,6,7) by (auto simp: drive_connection_def)
  from byte_transport.select_loop_inv [OF assms(1,4,5) x] assms(3) r
  show ?thesis by (cases r1) auto
qed

lemma sample_cycle:
  "loop_inv 64 ((sample_loop r)\<lparr>el_transport := Some memory_transport\<rparr>)"
  using loop_inv_new [of "sample_options r"] by (simp add: sample_loop_def)

theorem drive_connection_safe_witness:
  "\<exists>r l'. drive_connection (memory_env (Pair None)) ((sample_loop None)\<lparr>el_transport := Some memory_transport\<rparr>) = Some (r, l') \<and>
    r \<noteq> Panic \<and> loop_inv 64 l' \<and> el_transport l' = Some memory_transport"
proof -
  let ?l = "(sample_loop None)\<lparr>el_transport := Some memory_transport\<rparr>"
  have i: "le_interval (memory_env (Pair None)) (op_keep_alive (el_options ?l))"
    by (simp add: memory_env_def sample_loop_def event_loop_new_def)
  obtain l' where d: "drive_connection (memory_env (Pair None)) ?l = Some (Ok (), l')"
    using byte_transport.dropped_cycle [OF memory_wire _ sample_cycle _ _ i]
    by (auto simp: small_def memory_env_def)
  from drive_connection_safe [OF memory_wire _ sample_cycle _ _ i d] d show ?thesis
    by (simp add: small_def)
qed

text \<open>Samples for the properties below: messages of one byte on the topic \<open>a\<close>, and a session with one
  message in flight and one subscription.\<close>

definition sample_msg :: "qos \<Rightarrow> tokio_message" where
  "sample_msg q = (tokio_message_new [0x61] [0x78])\<lparr>tm_qos := q\<rparr>"

definition sample_session :: "(unit, nat, unit, memory_stream, unit) event_loop" where
  "sample_session = (sample_loop None)\<lparr>el_transport := Some memory_transport, el_next_packet_id := 2,
     el_inflight_publishes := [(1, (sample_msg AtLeastOnce)\<lparr>tm_packet_id := Some 1\<rparr>, None)],
     el_active_subscriptions := [([0x61], AtLeastOnce)]\<rparr>"

lemma sample_loop_sel [simp]:
  "el_tx_buf (sample_loop r) = replicate 64 0" "el_rx_buf (sample_loop r) = replicate 64 0"
  "el_options (sample_loop r) = sample_options r" "el_next_packet_id (sample_loop r) = 1"
  "el_inflight_publishes (sample_loop r) = []" "el_offline_queue (sample_loop r) = []"
  "el_world (sample_loop r) = \<lparr>ms_sent = [], ms_input = []\<rparr>"
  by (simp_all add: sample_loop_def event_loop_new_def)

lemma memory_loop_wire: "loop_wire memory_transport ms_sent (memory_env (Pair None))"
  by unfold_locales

lemma memory_reliable: "reliable memory_transport"
  by (simp add: reliable_def memory_transport_def boxed_stream_def memory_write_def)

lemmas sample_contents = fits_tx_def encodable_def publish_as_def dup_packet_def sample_msg_def tokio_message_new_def
  publish_packet_def publish_new_def allocated_id_def packet_id_content_def props_content_def ack_new_def reason_content_def
  topics_content_def prefixed_def

lemma sample_fits:
  "version_of l = V3_1_1 \<Longrightarrow> length (el_tx_buf l) = 64 \<Longrightarrow> fits_tx l (publish_as (sample_msg q) i)"
  "version_of l = V3_1_1 \<Longrightarrow> length (el_tx_buf l) = 64 \<Longrightarrow> fits_tx l (PubAck (ack_new k))"
  by (cases q) (simp_all add: sample_contents)

subsection \<open>Receiving\<close>

text \<open>C12. A stream of packets is reassembled from any reads that find room in the buffer behind the
  packet that is still incomplete: if its actions succeed, the loop runs exactly the actions of the packets,
  in their order, and ends with an empty buffer, unless a read ends inside a remaining length of several
  bytes. Then, and only then, the loop never returns, because the iterator repeats its error and \<open>flatten\<close>
  skips it. A packet larger than the buffer has no such reads.\<close>

theorem received_stream_reassembled:
  assumes "\<forall>p \<in> set ps. encodable p (version_of l) \<and> wf_packet p (version_of l)"
    and "concat chunks = wires (version_of l) ps" "[] \<notin> set chunks"
    and "reads_fit (version_of l) ps 0 chunks (length (el_rx_buf l))"
    and "run_actions le t (concat (map (arrives (version_of l)) ps)) l = (Ok (), l')"
  shows "if clean_reads (version_of l) ps 0 chunks
    then \<exists>b. receive_all le t 0 chunks l = Some (Ok 0, l'\<lparr>el_rx_buf := b\<rparr>)
    else receive_all le t 0 chunks l = None"
  using receive_all_cuts [of "[]" l chunks "version_of l" ps le t l'] assms
  by (cases "clean_reads (version_of l) ps 0 chunks") (simp_all add: begins_def)

text \<open>A PINGRESP and a PUBACK in three reads, and a PUBLISH of 131 bytes whose first read ends inside its
  length.\<close>

theorem received_stream_reassembled_witness:
  "(\<exists>b. receive_all (memory_env (Pair None)) memory_transport 0 [[0xD0], [0, 0x40, 2], [0, 7]]
      ((sample_loop None)\<lparr>el_rx_buf := replicate 200 0\<rparr>) = Some (Ok 0, (sample_loop None)\<lparr>el_rx_buf := b\<rparr>)) \<and>
   receive_all (memory_env (Pair None)) memory_transport 0 [[0x30, 0x80], [1, 0, 1, 0x61] @ replicate 125 0]
      ((sample_loop None)\<lparr>el_rx_buf := replicate 300 0\<rparr>) = None"
proof -
  let ?l = "(sample_loop None)\<lparr>el_rx_buf := replicate 200 0\<rparr>" and ?ps = "[PingResp, PubAck (ack_new 7)]"
  let ?ds = "[[0xD0], [0, 0x40, 2], [0, 7]]" and ?le = "memory_env (Pair None)"
  have r: "run_actions ?le memory_transport (concat (map (arrives (version_of ?l)) ?ps)) ?l = (Ok (), ?l)"
    by (simp add: take_entry_def bind_def)
  have a: "\<forall>p \<in> set ?ps. encodable p (version_of ?l) \<and> wf_packet p (version_of ?l)" "concat ?ds = wires (version_of ?l) ?ps"
    "[] \<notin> set ?ds" "reads_fit (version_of ?l) ?ps 0 ?ds (length (el_rx_buf ?l))"
    and c: "clean_reads (version_of ?l) ?ps 0 ?ds"
    by (simp_all add: sample_contents wire_def frame_def vbi.simps to_be16_def)
  from received_stream_reassembled [OF a r] c
  have 1: "\<exists>b. receive_all ?le memory_transport 0 ?ds ?l = Some (Ok 0, (sample_loop None)\<lparr>el_rx_buf := b\<rparr>)"
    by (simp only: if_True) simp
  let ?l2 = "(sample_loop None)\<lparr>el_rx_buf := replicate 300 0\<rparr>" and ?p = "Publish (publish_new [0x61] (replicate 125 0) AtMostOnce)"
  let ?ds2 = "[[0x30, 0x80], [1, 0, 1, 0x61] @ replicate 125 0]"
  obtain l' where r2: "run_actions ?le memory_transport (concat (map (arrives (version_of ?l2)) [?p])) ?l2 = (Ok (), l')"
    by (cases "dispatch_message ?le (owned_message (publish_new [0x61] (replicate 125 0) AtMostOnce)) ?l2 ::
        (unit client_error, unit) outcome \<times> _")
      (auto simp: bind_def dispatch_message_def owned_message_def publish_new_def props_view_def split: prod.splits)
  have b: "\<forall>p \<in> set [?p]. encodable p (version_of ?l2) \<and> wf_packet p (version_of ?l2)" "concat ?ds2 = wires (version_of ?l2) [?p]"
    "[] \<notin> set ?ds2" "reads_fit (version_of ?l2) [?p] 0 ?ds2 (length (el_rx_buf ?l2))"
    and c2: "\<not> clean_reads (version_of ?l2) [?p] 0 ?ds2"
    by (simp_all add: sample_contents wire_def frame_def vbi.simps to_be16_def publish_new_def publish_flags_def)
  from received_stream_reassembled [OF b r2] c2
  have "receive_all ?le memory_transport 0 ?ds2 ?l2 = None" by (simp only: if_False simp_thms)
  with 1 show ?thesis by blast
qed

text \<open>C20. On a transport that accepts everything the loop answers a parsed sequence of packets with
  exactly one PUBACK for each QoS 1 publish, in order, and forgets exactly the in-flight messages
  whose PUBACK arrived. Nothing answers a QoS 2 publish or a PUBREC, PUBREL or PUBCOMP.\<close>

theorem received_packets_answered:
  assumes "loop_wire t sent le" "reliable t" "InDisconnect \<notin> set as"
    and "\<forall>p \<in> set (concat (map replies_to as)). fits_tx l p"
  shows "\<exists>l'. run_actions le t as l = (Ok (), l') \<and>
    el_inflight_publishes l' = fold AList.delete (concat (map acknowledged as)) (el_inflight_publishes l) \<and>
    sent (el_world l') = sent (el_world l) @ wires (version_of l) (concat (map replies_to as))"
  by (rule loop_wire.run_actions_reliable [OF assms(1,2,3,4)])

theorem received_packets_answered_witness:
  "\<exists>l'. run_actions (memory_env (Pair None)) memory_transport
      [InPublish ((sample_msg AtLeastOnce)\<lparr>tm_packet_id := Some 9\<rparr>), InPubAck 1] sample_session = (Ok (), l') \<and>
    el_inflight_publishes l' = [] \<and> ms_sent (el_world l') = [0x40, 2, 0, 9]"
proof -
  let ?as = "[InPublish ((sample_msg AtLeastOnce)\<lparr>tm_packet_id := Some 9\<rparr>), InPubAck 1]"
  have r: "concat (map replies_to ?as) = [PubAck (ack_new 9)]" by (simp add: sample_msg_def)
  have "wires V3_1_1 [PubAck (ack_new 9)] = [0x40, 2, 0, 9]" by code_simp
  moreover have "\<forall>p \<in> set (concat (map replies_to ?as)). fits_tx sample_session p"
    unfolding r using sample_fits(2) [of sample_session 9] by (simp add: sample_session_def)
  from received_packets_answered [OF memory_loop_wire memory_reliable _ this]
  have "\<exists>l'. run_actions (memory_env (Pair None)) memory_transport ?as sample_session = (Ok (), l') \<and>
    el_inflight_publishes l' = fold AList.delete (concat (map acknowledged ?as)) (el_inflight_publishes sample_session) \<and>
    ms_sent (el_world l') = ms_sent (el_world sample_session) @ wires (version_of sample_session) (concat (map replies_to ?as))"
    by simp
  ultimately show ?thesis unfolding r by (simp add: sample_session_def)
qed

text \<open>A read that ends inside a remaining length of several bytes, behind any complete packets,
  never returns: the iterator yields the same error for ever and \<open>flatten\<close> skips it.\<close>

lemma split_length_hangs:
  assumes "\<forall>p \<in> set ps. encodable p (version_of l) \<and> wf_packet p (version_of l)" "128 \<le> unat c"
    and "take (length r) (el_rx_buf l) = r" "length (r @ d) \<le> length (el_rx_buf l)" "d \<noteq> []"
    and "r @ d = wires (version_of l) ps @ [b, c]"
  shows "process_received le t (length r) d l = None"
proof (rule process_received_stuck [OF assms(3-6)])
  have "peek_variable_byte_integer [c] = Err IncompletePacket"
    using assms(2) by (simp add: peek_variable_byte_integer_def read_vbi_loop.simps get_or_def and_128_eq_0_iff Let_def)
  then show "parse_frames (version_of l) (frame_iter_new (wires (version_of l) ps @ [b, c])) 0 [] = None"
    by (intro parse_wires_error [OF assms(1)]) (simp add: frame_next_def Let_def)
qed


theorem split_length_hangs_witness:
  "process_received (memory_env (Pair None)) memory_transport 0 [0x30, 0x80] (sample_loop None) = None"
  using split_length_hangs [where ps = "[]" and l = "sample_loop None" and c = "0x80" and r = "[]" and d = "[0x30, 0x80]" and b = "0x30"]
  by simp


definition sample_subscriber :: "(unit, nat, unit, memory_stream, unit) event_loop" where
  "sample_subscriber = sample_session\<lparr>el_router :=
     snd (router_insert [0x61] () router_new :: (unit client_error, unit) outcome \<times> _)\<rparr>"

lemma sample_subscriber_sel:
  "el_options sample_subscriber = sample_options None" "el_rx_buf sample_subscriber = replicate 64 0"
  "el_tx_buf sample_subscriber = replicate 64 0" "ms_sent (el_world sample_subscriber) = []"
  by (simp_all add: sample_subscriber_def sample_session_def)


subsection \<open>Sending\<close>

text \<open>C19. A batch whose messages each fit the transmit buffer is sent completely and in order however
  it is cut into buffers, with consecutive packet ids; the answer is the number of messages, and the
  messages above QoS 0 are in the in-flight table.\<close>

theorem batch_sends_everything:
  assumes "loop_wire t sent le" "reliable t" "small (length (el_tx_buf l))"
    and "\<forall>p \<in> set (offline_packets (el_next_packet_id l) msgs). fits_tx l p"
  shows "\<exists>l'. send_publish_batch_direct le t msgs l = (Ok (length msgs), l') \<and>
    el_inflight_publishes l' = track_all (el_next_packet_id l) msgs (el_inflight_publishes l) \<and>
    sent (el_world l') = sent (el_world l) @ wires (version_of l) (offline_packets (el_next_packet_id l) msgs)"
  by (rule loop_wire.batch_request_reliable [OF assms])

theorem batch_sends_everything_witness:
  "\<exists>l'. send_publish_batch_direct (memory_env (Pair None)) memory_transport [sample_msg AtMostOnce, sample_msg AtLeastOnce]
      (sample_loop None) = (Ok 2, l') \<and>
    ms_sent (el_world l') = [0x30, 4, 0, 1, 0x61, 0x78, 0x32, 6, 0, 1, 0x61, 0, 1, 0x78]"
proof -
  let ?msgs = "[sample_msg AtMostOnce, sample_msg AtLeastOnce]"
  have "wires V3_1_1 (offline_packets 1 ?msgs) = [0x30, 4, 0, 1, 0x61, 0x78, 0x32, 6, 0, 1, 0x61, 0, 1, 0x78]"
    by code_simp
  moreover have "\<forall>p \<in> set (offline_packets (el_next_packet_id (sample_loop None)) ?msgs). fits_tx (sample_loop None) p"
    by (simp add: sample_fits)
  from batch_sends_everything [OF memory_loop_wire memory_reliable _ this]
  have "\<exists>l'. send_publish_batch_direct (memory_env (Pair None)) memory_transport ?msgs (sample_loop None) = (Ok (length ?msgs), l') \<and>
    ms_sent (el_world l') = ms_sent (el_world (sample_loop None)) @ wires V3_1_1 (offline_packets 1 ?msgs)"
    by (auto simp: small_def)
  ultimately show ?thesis by (simp add: numeral_2_eq_2)
qed

text \<open>A recovery on a transport that accepts everything sends the in-flight messages again, with
  the duplicate flag and under their ids, then restores the active subscriptions, then publishes the
  offline queue, each part as far as the policy asks for it; afterwards the queue is empty.\<close>

lemma recovery_restores_session:
  assumes "loop_wire t sent le" "reliable t" "el_transport l = Some t" "small (length (el_tx_buf l))"
    and "\<forall>p \<in> set (recovery_packets l). fits_tx l p"
  shows "\<exists>l'. perform_session_data_recovery le l = (Ok (), l') \<and> el_transport l' = Some t \<and> el_offline_queue l' = [] \<and>
    sent (el_world l') = sent (el_world l) @ wires (version_of l) (recovery_packets l)"
  by (rule loop_wire.recovery_reliable [OF assms])

theorem recovery_restores_session_witness:
  "\<exists>l'. perform_session_data_recovery (memory_env (Pair None)) sample_session = (Ok (), l') \<and>
    ms_sent (el_world l') = [0x3A, 6, 0, 1, 0x61, 0, 1, 0x78, 0x82, 6, 0, 2, 0, 1, 0x61, 1]"
proof -
  have p: "recovery_packets sample_session = [dup_packet (1, (sample_msg AtLeastOnce)\<lparr>tm_packet_id := Some 1\<rparr>),
      Subscribe \<lparr>sub_packet_id = 2, sub_topics = [([0x61], AtLeastOnce)], sub_properties = []\<rparr>]"
    by (simp add: recovery_packets_def inflight_packets_def restored_def sample_session_def data_recovery_policy_default_def)
  have "wires V3_1_1 [dup_packet (1, (sample_msg AtLeastOnce)\<lparr>tm_packet_id := Some 1\<rparr>),
      Subscribe \<lparr>sub_packet_id = 2, sub_topics = [([0x61], AtLeastOnce)], sub_properties = []\<rparr>] =
      [0x3A, 6, 0, 1, 0x61, 0, 1, 0x78, 0x82, 6, 0, 2, 0, 1, 0x61, 1]"
    by code_simp
  moreover have "\<forall>p \<in> set (recovery_packets sample_session). fits_tx sample_session p"
    unfolding p by (simp add: sample_contents sample_session_def)
  from recovery_restores_session [OF memory_loop_wire memory_reliable _ _ this]
  have "\<exists>l'. perform_session_data_recovery (memory_env (Pair None)) sample_session = (Ok (), l') \<and>
    ms_sent (el_world l') = ms_sent (el_world sample_session) @ wires (version_of sample_session) (recovery_packets sample_session)"
    by (auto simp: small_def sample_session_def)
  ultimately show ?thesis unfolding p by (simp add: sample_session_def)
qed

text \<open>C2. A publish above QoS 0 is written as one packet and tracked; the PUBACK of its id then
  answers its sender and removes exactly its entry.\<close>

theorem publish_until_puback:
  assumes "loop_wire t sent le" "reliable t" "small (length (el_tx_buf l))" "tm_qos msg \<noteq> AtMostOnce"
    and "fits_tx l (publish_as msg (el_next_packet_id l))"
  shows "\<exists>l1. handle_client_request le t (ReqPublish msg (Some ack)) l = (Ok (), l1) \<and>
    sent (el_world l1) = sent (el_world l) @ wire (publish_as msg (el_next_packet_id l)) (version_of l) \<and>
    map_of (el_inflight_publishes l1) = (map_of (el_inflight_publishes l))(el_next_packet_id l \<mapsto>
      (msg\<lparr>tm_packet_id := Some (el_next_packet_id l)\<rparr>, Some ack)) \<and>
    run_action le t (InPubAck (el_next_packet_id l)) l1 =
      (Ok (), l1\<lparr>el_inflight_publishes := AList.delete (el_next_packet_id l) (el_inflight_publishes l1),
         el_world := le_reply_unit le ack (Ok ()) (el_world l1)\<rparr>)"
proof -
  from loop_wire.send_publish_direct_reliable [OF assms(1,2,5,3), of "Some ack"] obtain l1 where
    1: "send_publish_direct le t msg (Some ack) l = (Ok () :: ('b client_error, _) outcome, l1)"
    "net_only (after_tracking msg (Some ack) l) l1"
    "sent (el_world l1) = sent (el_world l) @ wire (publish_as msg (el_next_packet_id l)) (version_of l)" by blast
  have m: "map_of (el_inflight_publishes l1) = (map_of (el_inflight_publishes l))(el_next_packet_id l \<mapsto>
      (msg\<lparr>tm_packet_id := Some (el_next_packet_id l)\<rparr>, Some ack))"
    using net_only_sel(6) [OF 1(2)] assms(4) by (simp add: after_tracking_def tracked_in_def update_conv')
  then have "run_action le t (InPubAck (el_next_packet_id l)) l1 =
      (Ok (), l1\<lparr>el_inflight_publishes := AList.delete (el_next_packet_id l) (el_inflight_publishes l1),
         el_world := le_reply_unit le ack (Ok ()) (el_world l1)\<rparr>)"
    by (simp add: take_entry_def bind_def on_world_def)
  with 1(1,3) m show ?thesis by auto
qed

theorem publish_until_puback_witness:
  "\<exists>l1. handle_client_request (memory_env (Pair None)) memory_transport (ReqPublish (sample_msg AtLeastOnce) (Some 5)) (sample_loop None) =
      (Ok (), l1) \<and>
    map_of (el_inflight_publishes l1) = [1 \<mapsto> ((sample_msg AtLeastOnce)\<lparr>tm_packet_id := Some 1\<rparr>, Some 5)]"
  using publish_until_puback [OF memory_loop_wire memory_reliable, of "sample_loop None" "sample_msg AtLeastOnce" 5]
    sample_fits(1) [of "sample_loop None" AtLeastOnce 1]
  by (auto simp: small_def sample_msg_def)

end
