(* ===== verification/Loop_Config.thy ===== *)
theory Loop_Config
  imports Loop_Runs
begin

text \<open>
  No operation of the event loop changes its options: requests, received packets, the branches of
  \<open>select!\<close> and the loop over them, by the rules of \<open>Loop_Runs\<close> for what sending leaves alone.
\<close>

subsection \<open>The options never change\<close>

definition configured :: "'f client_options \<Rightarrow> ('f, 'r, 'c, 'w, 'io) event_loop \<Rightarrow> bool" where
  "configured opts l \<longleftrightarrow> el_options l = opts"

lemma configured_updates [simp]:
  "configured opts (l\<lparr>el_world := w\<rparr>) = configured opts l"
  "configured opts (l\<lparr>el_router := r\<rparr>) = configured opts l"
  "configured opts (l\<lparr>el_transport := tr\<rparr>) = configured opts l"
  "configured opts (l\<lparr>el_offline_queue := q\<rparr>) = configured opts l"
  "configured opts (l\<lparr>el_active_subscriptions := subs\<rparr>) = configured opts l"
  "configured opts (l\<lparr>el_inflight_publishes := a\<rparr>) = configured opts l"
  "configured opts (l\<lparr>el_inflight_subscribes := b\<rparr>) = configured opts l"
  "configured opts (l\<lparr>el_inflight_unsubscribes := b\<rparr>) = configured opts l"
  "configured opts (l\<lparr>el_next_packet_id := i\<rparr>) = configured opts l"
  "configured opts (l\<lparr>el_rx_buf := d\<rparr>) = configured opts l"
  "configured opts (l\<lparr>el_reconnect_attempt := n\<rparr>) = configured opts l"
  by (simp_all add: configured_def)

lemma configured_closed [simp]: "send_closed (configured opts)" "net_closed (configured opts)"
  by (simp_all add: send_closed_def net_closed_def configured_def net_only_sel)

lemmas configured_rules = net_rules valid_next_id [OF configured_closed(1)] valid_publish_direct [OF configured_closed(1)]
  valid_batch [OF configured_closed(1)] configured_closed(2) valid_if valid_basic(1)

lemma configured_subscription_requests:
  "valid False (configured opts) (handle_client_request le t (ReqSubscribe topic q resp tx)) any"
  "valid False (configured opts) (handle_client_request le t (ReqUnsubscribe topic resp)) any"
  unfolding handle_client_request.simps
  by (cases tx; simp only: option.case; intro configured_rules valid_modify; simp)
     (intro configured_rules valid_modify; simp)

lemma configured_request: "valid False (configured opts) (handle_client_request le t req) any"
proof (cases req)
  case (ReqPublish msg ack)
  then show ?thesis by (simp only: handle_client_request.simps) (intro configured_rules)
qed (simp_all only: valid_request_batch [OF configured_closed(1)] valid_request_datagram [OF configured_closed(2)]
    valid_request_disconnect [OF configured_closed(2)] configured_subscription_requests)

lemma configured_take_entry:
  "(\<And>l. configured opts (upd (AList.delete k) l) = configured opts l) \<Longrightarrow>
    valid False (configured opts) (take_entry k table upd) any"
  by (simp add: valid_def take_entry_def)

lemma configured_action: "valid False (configured opts) (run_action le t a) any"
proof (cases a)
  case (InPublish msg)
  have "valid False (configured opts) (dispatch_message le msg) any"
    by (rule validI) (auto simp: dispatch_message_def split: prod.splits)
  with InPublish show ?thesis
    by (auto intro!: configured_rules split: qos.split option.split)
next
  case (InPubAck k)
  then show ?thesis by (auto intro!: configured_rules configured_take_entry simp: configured_def split: option.split)
next
  case (InSubAck k)
  then show ?thesis by (auto intro!: configured_rules configured_take_entry simp: configured_def split: option.split)
next
  case (InUnsubAck k)
  then show ?thesis by (auto intro!: configured_rules configured_take_entry simp: configured_def split: option.split)
qed (simp_all add: valid_def)

lemma configured_actions: "valid False (configured opts) (run_actions le t as) any"
proof (induction "as")
  case (Cons a as)
  then show ?case by (simp only: run_actions.simps) (intro configured_rules configured_action)
qed (simp add: valid_def)

lemma configured_received:
  fixes l :: "('f, 'r, 'c, 'w, 'io) event_loop"
  assumes "process_received le t cursor d l = Some (r, l')" "configured opts l"
  shows "configured opts l'"
proof (cases "d = []")
  case False
  let ?l1 = "l\<lparr>el_rx_buf := overwrite cursor d (el_rx_buf l)\<rparr>" and ?cur = "cursor + length d"
  let ?m = "\<lambda>n acts. bind (if 0 < n then bind (gets el_rx_buf) (\<lambda>buf. bind (lift (copy_within n ?cur 0 buf))
        (\<lambda>buf'. modify (\<lambda>l. l\<lparr>el_rx_buf := buf'\<rparr>))) else ret ())
      (\<lambda>_. bind (run_actions le t acts) (\<lambda>_. ret (?cur - n)))"
  have l1: "configured opts ?l1" using assms(2) by simp
  have m: "valid False (configured opts) (?m n acts) any" for n acts
    by (intro configured_rules configured_actions valid_modify) simp_all
  obtain x where x: "parse_frames (op_version (el_options ?l1)) (frame_iter_new (take ?cur (el_rx_buf ?l1))) 0 [] =
      Some (x :: ('io client_error, _) outcome)"
    using assms(1) False by (auto simp: process_received_def Let_def split: option.splits)
  show ?thesis
  proof (cases x)
    case (Ok na)
    then obtain n acts where "x = Ok (n, acts)" by (cases na) auto
    then have "?m n acts ?l1 = (r, l')" using assms(1) False x by (simp add: process_received_def Let_def)
    from validD [OF m l1 this] show ?thesis by simp
  qed (use assms(1) False x l1 in \<open>auto simp: process_received_def Let_def\<close>)
qed (use assms in \<open>auto simp: process_received_def\<close>)

lemma configured_receive_branch:
  assumes "receive_branch le t cursor l = Some (r, l')" "configured opts l"
  shows "configured opts l'"
proof (cases "length (el_rx_buf l) < cursor")
  case False
  obtain x w where rd: "bt_read t (length (el_rx_buf l) - cursor) (el_world l) = (x, w)" by fastforce
  let ?l = "l\<lparr>el_world := w\<rparr>"
  have "configured opts ?l" using assms(2) by simp
  with False assms(1) rd configured_received [of le t cursor _ ?l r l'] show ?thesis
    by (cases x) (auto simp: receive_branch_def io_call_def)
qed (use assms in \<open>simp add: receive_branch_def\<close>)

lemma configured_request_branch: "valid False (configured opts) (request_branch le t) any"
proof (rule validI)
  fix l r l' assume l: "configured opts l" "request_branch le t l = (r, l')"
  have 1: "valid False (configured opts) (bind (handle_client_request le t req) (\<lambda>_. ret True)) any" for req
    by (intro configured_rules configured_request)
  have 2: "valid False (configured opts) (bind (ignore_result (send_disconnect le t)) (\<lambda>_. ret False)) any"
    unfolding send_disconnect_def by (intro configured_rules)
  obtain x w where recv: "le_recv le (el_world l) = (x, w)" by fastforce
  have w: "configured opts (l\<lparr>el_world := w\<rparr>)" using l(1) by simp
  show "configured opts l' \<and> (\<forall>a. r = Ok a \<longrightarrow> any a) \<and> (False \<longrightarrow> r \<noteq> Panic)"
  proof (cases x)
    case None
    then show ?thesis using validD [OF 2 w] l(2) recv by (simp add: request_branch_def)
  next
    case (Some req)
    then show ?thesis using validD [OF 1 w] l(2) recv by (simp add: request_branch_def)
  qed
qed

lemma configured_ping_branch: "valid False (configured opts) (ping_branch le t) any"
proof (rule validI)
  fix l r l' assume l: "configured opts l" "ping_branch le t l = (r, l')"
  have "valid False (configured opts) (send_ping le t) any"
    unfolding send_ping_def by (intro configured_rules)
  with l show "configured opts l' \<and> (\<forall>a. r = Ok a \<longrightarrow> any a) \<and> (False \<longrightarrow> r \<noteq> Panic)"
    by (auto simp: ping_branch_def split: if_splits dest!: validD)
qed

lemma configured_select_loop:
  assumes "select_loop le t cursor l = Some x" "configured opts l"
  shows "configured opts (snd x)"
proof (rule select_loop.raw_induct [where P = "\<lambda>le t cursor l x. configured opts l \<longrightarrow> configured opts (snd x)",
    OF _ assms(1), THEN mp], goal_cases)
  case (1 f le t cursor l x)
  show ?case
  proof
    assume c: "configured opts l"
    obtain br w where br: "le_select le (el_world l) = (br, w)" by fastforce
    let ?l = "l\<lparr>el_world := w\<rparr>"
    show "configured opts (snd x)"
    proof (cases br)
      case Readable
      with 1(2) br obtain r l1 where rb: "receive_branch le t cursor ?l = Some (r, l1)"
        by (cases "receive_branch le t cursor ?l") auto
      from configured_receive_branch [OF rb] c have "configured opts l1" by simp
      with 1 Readable br rb show ?thesis by (cases r) auto
    next
      case Requested
      obtain r l1 where rb: "request_branch le t ?l = (r, l1)" by fastforce
      from validD [OF configured_request_branch _ rb] c have "configured opts l1" by simp
      with 1 Requested br rb show ?thesis by (cases r) (auto split: if_splits)
    next
      case Ticked
      obtain r l1 where rb: "ping_branch le t ?l = (r, l1)" by fastforce
      from validD [OF configured_ping_branch _ rb] c have "configured opts l1" by simp
      with 1 Ticked br rb show ?thesis by (cases r) auto
    qed
  qed
qed (rule assms(2))

end
