(* ===== verification/Fuzz_Target.thy ===== *)
theory Fuzz_Target
  imports Codec_Theorems
begin

text \<open>
  \<open>fuzz/fuzz_targets/fuzz_packet_decode.rs\<close>: every decoder on the same arbitrary bytes. A run ends
  in a crash when one of them panics; their results are dropped. The only decoder that panics is
  the one of PUBLISH, and \<open>publish_overrun\<close> says for which bytes.
\<close>

subsection \<open>When the decoder of PUBLISH panics\<close>

text \<open>The header of the message can be read from the buffer, but ends behind the packet's own length.\<close>

definition publish_overrun :: "bytes \<Rightarrow> mqtt_version \<Rightarrow> bool" where
  "publish_overrun buf v \<longleftrightarrow> (\<exists>content_end c topic c1 ps c3.
     read_head buf = Ok (content_end, c) \<and> content_end \<le> length buf \<and>
     read_utf8_string c buf = Ok (topic, c1) \<and>
     (let has_id = qos_from_u8 (drop_bit 1 (buf ! 0) AND 0x03) \<noteq> AtMostOnce;
          c2 = (if has_id then c1 + 2 else c1) in
      (has_id \<longrightarrow> c2 \<le> content_end) \<and>
      read_optional_properties (v = V5) content_end c2 buf = Ok (ps, c3) \<and> content_end < c3))"

lemma read_head_nonempty: "read_head buf = Ok h \<Longrightarrow> buf \<noteq> []"
  using read_head_bound [of buf "fst h" "snd h"] by auto

lemma read_u16_in_range: "cur + 2 \<le> length buf \<Longrightarrow> \<exists>n. read_u16 buf cur = Ok n"
  by (auto simp: read_u16_def index_def)

lemma publish_decode_panics_exactly: "publish_decode buf v = Panic \<longleftrightarrow> publish_overrun buf v"
proof
  assume panic: "publish_decode buf v = Panic"
  from publish_decode_Panic [OF this] obtain ce c where rh: "read_head buf = Ok (ce, c)" by blast
  with panic show "publish_overrun buf v"
    by (cases "qos_from_u8 (drop_bit 1 (buf ! 0) AND 0x03) = AtMostOnce";
        auto simp: publish_overrun_def publish_decode_def and_then_eq_Panic and_then_eq_Ok strings_not_Panic
        read_u16_not_Panic index_def Let_def subslice_def split: if_splits
        dest: strings_bound reader_safe_optional_properties(2)
        dest!: reader_safe_optional_properties(1) [THEN notE, rotated])
next
  assume "publish_overrun buf v"
  then obtain ce c topic c1 ps c3 c2 where h: "read_head buf = Ok (ce, c)" "ce \<le> length buf"
    "read_utf8_string c buf = Ok (topic, c1)" "read_optional_properties (v = V5) ce c2 buf = Ok (ps, c3)" "ce < c3"
    and c2: "c2 = (if qos_from_u8 (drop_bit 1 (buf ! 0) AND 0x03) \<noteq> AtMostOnce then c1 + 2 else c1)"
      "qos_from_u8 (drop_bit 1 (buf ! 0) AND 0x03) \<noteq> AtMostOnce \<longrightarrow> c2 \<le> ce"
    unfolding publish_overrun_def Let_def by blast
  have "subslice buf c3 ce = (Panic :: (packet_error, _) outcome)" using h(5) by (simp add: subslice_def)
  moreover have "buf \<noteq> []" using read_head_nonempty [OF h(1)] .
  moreover have "\<exists>n. read_u16 buf c1 = Ok n" if "c1 + 2 \<le> ce" using read_u16_in_range [of c1 buf] that h(2) by simp
  ultimately show "publish_decode buf v = Panic"
    using h c2 by (cases "qos_from_u8 (drop_bit 1 (buf ! 0) AND 0x03) = AtMostOnce")
      (auto simp: publish_decode_def index_def Let_def)
qed

lemma decode_eq_Panic: "decode buf v = Panic \<longleftrightarrow> buf \<noteq> [] \<and> drop_bit 4 (buf ! 0) = 3 \<and> publish_decode buf v = Panic"
  by (auto simp: decode_def and_then_eq_Panic index_def Let_def connect_decode_not_Panic
      connack_decode_not_Panic small_decoders_not_Panic split: if_splits)

subsection \<open>The fuzz target\<close>

text \<open>\<open>let _ = r;\<close> drops a result, but not a panic.\<close>

definition drop_result :: "('e, 'a) outcome \<Rightarrow> (unit, unit) outcome" where
  "drop_result r = (case r of Panic \<Rightarrow> Panic | _ \<Rightarrow> Ok ())"

fun in_order :: "(unit, unit) outcome list \<Rightarrow> (unit, unit) outcome" where
  "in_order [] = Ok ()"
| "in_order (r # rs) = and_then r (\<lambda>_. in_order rs)"

text \<open>One call with each protocol version. \<open>PubAck\<close>, \<open>PubRec\<close>, \<open>PubRel\<close> and \<open>PubComp\<close> decode alike.\<close>

definition both_versions :: "(mqtt_version \<Rightarrow> ('e, 'a) outcome) \<Rightarrow> (unit, unit) outcome list" where
  "both_versions dec = [drop_result (dec V3_1_1), drop_result (dec V5)]"

definition fuzz_packet_decode :: "bytes \<Rightarrow> (unit, unit) outcome" where
  "fuzz_packet_decode input = in_order (
     both_versions (decode input) @
     both_versions (connect_decode input) @
     both_versions (connack_decode input) @
     both_versions (publish_decode input) @
     both_versions (ack_decode input) @
     both_versions (ack_decode input) @
     both_versions (ack_decode input) @
     both_versions (ack_decode input) @
     both_versions (subscribe_decode input) @
     both_versions (suback_decode input) @
     both_versions (unsubscribe_decode input) @
     both_versions (unsuback_decode input) @
     both_versions (disconnect_decode input))"

lemma drop_result_Panic [simp]: "drop_result r = Panic \<longleftrightarrow> r = Panic" "Panic = drop_result r \<longleftrightarrow> r = Panic"
  "drop_result r \<noteq> Err e" "Err e \<noteq> drop_result r"
  by (cases r; simp add: drop_result_def)+

lemma in_order_Panic: "\<forall>r \<in> set rs. \<forall>e. r \<noteq> Err e \<Longrightarrow> in_order rs = Panic \<longleftrightarrow> Panic \<in> set rs"
proof (induction rs)
  case (Cons r rs)
  then show ?case by (cases r) simp_all
qed simp

lemma set_both_versions:
  "r \<in> set (both_versions dec) \<longleftrightarrow> r = drop_result (dec V3_1_1) \<or> r = drop_result (dec V5)"
  by (auto simp: both_versions_def)

lemma Panic_both_versions: "Panic \<in> set (both_versions dec) \<longleftrightarrow> dec V3_1_1 = Panic \<or> dec V5 = Panic"
  unfolding set_both_versions by (metis drop_result_Panic(1))

lemma fuzz_target_panics_exactly: "fuzz_packet_decode buf = Panic \<longleftrightarrow> publish_overrun buf V3_1_1 \<or> publish_overrun buf V5"
proof -
  have "fuzz_packet_decode buf = Panic \<longleftrightarrow> publish_decode buf V3_1_1 = Panic \<or> publish_decode buf V5 = Panic"
    unfolding fuzz_packet_decode_def
    by (subst in_order_Panic)
      (auto simp: set_both_versions Panic_both_versions connect_decode_not_Panic connack_decode_not_Panic
        small_decoders_not_Panic decode_eq_Panic)
  then show ?thesis by (simp add: publish_decode_panics_exactly)
qed

lemma fuzz_target_crashes: "fuzz_packet_decode [0x30, 0x02, 0x00, 0x01, 0x61] = Panic"
  using decode_overrun_example decode_eq_Panic [of "[0x30, 0x02, 0x00, 0x01, 0x61]" V3_1_1]
  by (simp add: fuzz_target_panics_exactly publish_decode_panics_exactly)


end
