(* ===== verification/Loop_Life.thy ===== *)
theory Loop_Life
  imports Loop_Config Loop_Theorems Fuzz_Target
begin

text \<open>
  The life of the background task: the CONNECT handshake and what its reply decides, a whole
  reconnection, and the invariant \<open>alive\<close> that every step from one cycle to the next keeps, under the
  locale \<open>network\<close> of the primitives that open connections.
\<close>

subsection \<open>The handshake\<close>

text \<open>What the reply to a CONNECT leads to: it is decoded as one packet, without being cut into frames first, and
  whatever follows the CONNACK in the same read is forgotten.\<close>

definition reply_outcome :: "bytes \<Rightarrow> mqtt_version \<Rightarrow> ('io client_error, unit) outcome" where
  "reply_outcome d v =
     (if d = [] then Err invalid_response
      else case decode d v of
        Ok (Some (ConnAck connack)) \<Rightarrow>
          if ca_reason_code connack = 0 then Ok () else Err (CE_ConnectionRefused (ca_reason_code connack))
      | Panic \<Rightarrow> Panic
      | _ \<Rightarrow> Err invalid_response)"

lemma handshake_tail:
  assumes "length d \<le> length (el_rx_buf l)"
  shows "bind (store_rx 0 d) (\<lambda>_. if d = [] then throw invalid_response
      else bind (gets (\<lambda>l. take (length d) (el_rx_buf l))) (\<lambda>received.
        bind (lift (map_err (\<lambda>_. invalid_response) (decode received v))) (\<lambda>packet.
        case packet of
          Some (ConnAck connack) \<Rightarrow>
            if ca_reason_code connack = 0 then ret () else throw (CE_ConnectionRefused (ca_reason_code connack))
        | _ \<Rightarrow> throw invalid_response))) l =
    (reply_outcome d v, l\<lparr>el_rx_buf := overwrite 0 d (el_rx_buf l)\<rparr>)"
proof -
  have "take (length d) (overwrite 0 d (el_rx_buf l)) = d" using assms by (simp add: overwrite_def)
  then show ?thesis
    by (cases "decode d v")
      (auto simp: store_rx_def reply_outcome_def bind_def split: option.split mqtt_packet.split)
qed

lemma valid_handshake_tail:
  assumes "length d \<le> N" "decode d v \<noteq> Panic"
  shows "valid True (loop_inv N) (bind (store_rx 0 d) (\<lambda>_. if d = [] then throw invalid_response
      else bind (gets (\<lambda>l. take (length d) (el_rx_buf l))) (\<lambda>received.
        bind (lift (map_err (\<lambda>_. invalid_response) (decode received v))) (\<lambda>packet.
        case packet of
          Some (ConnAck connack) \<Rightarrow>
            if ca_reason_code connack = 0 then ret () else throw (CE_ConnectionRefused (ca_reason_code connack))
        | _ \<Rightarrow> throw invalid_response)))) any" (is "valid _ _ ?m _")
proof (rule validI)
  fix l r l' assume l: "loop_inv N l" "?m l = (r, l')"
  then have len: "length d \<le> length (el_rx_buf l)" using assms(1) by (simp add: loop_inv_def)
  have "reply_outcome d v \<noteq> Panic" using assms(2)
    by (auto simp: reply_outcome_def split: outcome.splits option.splits mqtt_packet.splits)
  moreover have "loop_inv N (l\<lparr>el_rx_buf := overwrite 0 d (el_rx_buf l)\<rparr>)"
    using l(1) len by (simp add: loop_inv_def)
  ultimately show "loop_inv N l' \<and> (\<forall>a. r = Ok a \<longrightarrow> any a) \<and> (True \<longrightarrow> r \<noteq> Panic)"
    using handshake_tail [OF len, of v] l(2) by simp
qed

text \<open>On a transport that accepts everything the CONNECT is sent, and the reply decides.\<close>

context byte_transport begin

lemma handshake_reliable:
  assumes "reliable t" "fits_tx l (Connect (loop_connect_packet (el_options l)))"
    and "\<forall>w. \<exists>w'. le_timed_read le t (length (el_rx_buf l)) w = (Some (Ok d), w') \<and> sent w' = sent w"
    and "length d \<le> length (el_rx_buf l)"
  shows "\<exists>l'. perform_connect_handshake le t l = (reply_outcome d (version_of l), l') \<and>
    net_only (l\<lparr>el_rx_buf := overwrite 0 d (el_rx_buf l)\<rparr>) l' \<and>
    sent (el_world l') = sent (el_world l) @ wire (Connect (loop_connect_packet (el_options l))) (version_of l)"
proof -
  let ?p = "Connect (loop_connect_packet (el_options l))" and ?v = "version_of l"
  from assms(2) obtain l1 where e: "loop_encode ?p 0 l = (Ok (length (wire ?p ?v)), l1)"
    "take (length (wire ?p ?v)) (el_tx_buf l1) = wire ?p ?v" "length (wire ?p ?v) \<le> length (el_tx_buf l1)"
    "net_only l l1" "el_world l1 = el_world l"
    by (rule loop_encode_ready)
  obtain l2 where w: "write_tx t (length (wire ?p ?v)) l1 = (Ok () :: ('io client_error, _) outcome, l2)" "net_only l1 l2"
    "sent (el_world l2) = sent (el_world l) @ wire ?p ?v"
    using write_tx_reliable [OF assms(1) e(3)] e(2,5) by auto
  obtain w3 where f: "bt_flush t (el_world l2) = (Ok (), w3)" "sent w3 = sent (el_world l2)"
    using reliable_flush [OF assms(1)] flush_same by blast
  let ?l3 = "l2\<lparr>el_world := w3\<rparr>"
  obtain w4 where r: "le_timed_read le t (length (el_rx_buf l)) w3 = (Some (Ok d), w4)" "sent w4 = sent w3"
    using assms(3) by blast
  let ?l4 = "l2\<lparr>el_world := w4\<rparr>"
  have n: "net_only l ?l4" by (rule net_only_trans [OF net_only_trans [OF e(4) w(2)] net_onlyI(2)])
  have rx: "el_rx_buf l2 = el_rx_buf l" using net_only_sel(10) [OF n] by simp
  have enc: "encode_or_malformed ?p l = (Ok (length (wire ?p ?v)), l1)" using e(1) by (simp add: encode_or_malformed_def)
  have fl: "io_call (bt_flush t) l2 = (Ok (), ?l3)" using f(1) by (simp add: io_call_def)
  have "perform_connect_handshake le t l =
      (reply_outcome d ?v, ?l4\<lparr>el_rx_buf := overwrite 0 d (el_rx_buf ?l4)\<rparr>)"
    unfolding perform_connect_handshake_def using r(1) rx handshake_tail [of d ?l4 ?v] assms(4)
    by (simp add: enc w(1) fl)
  moreover obtain w b k where 4: "?l4 = l\<lparr>el_world := w, el_tx_buf := b, el_last_tx := k\<rparr>" "length b = length (el_tx_buf l)"
    using n unfolding net_only_def by blast
  have "net_only (l\<lparr>el_rx_buf := overwrite 0 d (el_rx_buf l)\<rparr>) (?l4\<lparr>el_rx_buf := overwrite 0 d (el_rx_buf ?l4)\<rparr>)"
    unfolding 4(1) net_only_def by (intro exI [of _ w] exI [of _ b] exI [of _ k]) (simp add: 4(2))
  ultimately show ?thesis using w(3) f(2) r(2) by auto
qed

end

lemma reply_outcome_connack:
  assumes "encodable (ConnAck c) v" "wf_packet (ConnAck c) v"
  shows "reply_outcome (wire (ConnAck c) v @ rest) v =
    (if ca_reason_code c = 0 then Ok () else Err (CE_ConnectionRefused (ca_reason_code c)))"
proof -
  have "wire (ConnAck c) v \<noteq> []" by (simp add: wire_def frame_def)
  with decode_wire_append [OF assms, of rest] show ?thesis by (simp add: reply_outcome_def)
qed

text \<open>A whole attempt: announcing it, pausing, connecting, the handshake and the recovery of the session.\<close>

context loop_wire begin

lemma attempt_run:
  assumes "compute_delay (le_f64 le) (op_reconnect (el_options l)) (Suc (el_reconnect_attempt l)) = (Ok delay :: ('io client_error, nat) outcome)"
    and "\<forall>d w. sent (le_sleep le d w) = sent w"
  shows "\<exists>w. connect_attempt le l = try_connection le (l\<lparr>el_reconnect_attempt := Suc (el_reconnect_attempt l), el_world := w\<rparr>) \<and>
    sent w = sent (el_world l)"
proof -
  let ?n = "Suc (el_reconnect_attempt l)"
  let ?w = "if 0 < delay then le_sleep le delay (le_status le (StatusReconnecting ?n delay) (el_world l)) else el_world l"
  have "connect_attempt le l =
      try_connection le (l\<lparr>el_reconnect_attempt := ?n, el_world := le_status le StatusConnecting ?w\<rparr>)"
    using assms(1) by (simp add: connect_attempt_def announce_def on_world_def bind_def)
  moreover have "sent (le_status le StatusConnecting ?w) = sent (el_world l)" using assms(2) quiet_status by simp
  ultimately show ?thesis by blast
qed

lemma reconnect_run:
  assumes "reliable t" "small (length (el_tx_buf l))" "\<forall>p \<in> set (recovery_packets l). fits_tx l p"
    and "fits_tx l (Connect (loop_connect_packet (el_options l)))"
    and delay: "compute_delay (le_f64 le) (op_reconnect (el_options l)) (Suc (el_reconnect_attempt l)) = (Ok delay :: ('io client_error, nat) outcome)"
      "\<forall>d w. sent (le_sleep le d w) = sent w"
    and connect: "\<forall>w. \<exists>w'. le_connect le (op_target (el_options l)) w = (Ok t, w') \<and> sent w' = sent w"
    and reply: "\<forall>w. \<exists>w'. le_timed_read le t (length (el_rx_buf l)) w = (Some (Ok d), w') \<and> sent w' = sent w"
      "length d \<le> length (el_rx_buf l)"
  defines "hello \<equiv> wire (Connect (loop_connect_packet (el_options l))) (version_of l)"
  shows "reply_outcome d (version_of l) = (Ok () :: ('io client_error, unit) outcome) \<Longrightarrow>
      \<exists>l'. connect_with_backoff le l = Some (Ok (), l') \<and> el_transport l' = Some t \<and> el_offline_queue l' = [] \<and>
        sent (el_world l') = sent (el_world l) @ hello @ wires (version_of l) (recovery_packets l)"
    and "reply_outcome d (version_of l) = (Err e :: ('io client_error, unit) outcome) \<Longrightarrow>
      rc_max_retries (op_reconnect (el_options l)) = Some m \<Longrightarrow> m \<le> Suc (el_reconnect_attempt l) \<Longrightarrow>
      \<exists>l'. connect_with_backoff le l = Some (Err e, l') \<and> el_transport l' = el_transport l \<and>
        sent (el_world l') = sent (el_world l) @ hello"
    and "reply_outcome d (version_of l) = (Panic :: ('io client_error, unit) outcome) \<Longrightarrow>
      \<exists>l'. connect_with_backoff le l = Some (Panic, l')"
proof -
  obtain w where w: "connect_attempt le l = try_connection le (l\<lparr>el_reconnect_attempt := Suc (el_reconnect_attempt l), el_world := w\<rparr>)"
    "sent w = sent (el_world l)" using attempt_run [OF delay] by blast
  obtain w1 where c: "le_connect le (op_target (el_options l)) w = (Ok t, w1)" "sent w1 = sent w" using connect by blast
  let ?l1 = "l\<lparr>el_reconnect_attempt := Suc (el_reconnect_attempt l), el_world := w1\<rparr>"
  from handshake_reliable [OF assms(1), of ?l1 le d] assms(4) reply obtain l2 where
    h: "perform_connect_handshake le t ?l1 = (reply_outcome d (version_of l), l2)"
    "net_only (?l1\<lparr>el_rx_buf := overwrite 0 d (el_rx_buf l)\<rparr>) l2" "sent (el_world l2) = sent w1 @ hello"
    by (auto simp: fits_tx_def hello_def)
  note sel = net_only_sel [OF h(2)]
  {
    assume ok: "reply_outcome d (version_of l) = (Ok () :: ('io client_error, unit) outcome)"
    let ?l3 = "l2\<lparr>el_transport := Some t, el_reconnect_attempt := 0, el_world := le_status le StatusConnected (el_world l2)\<rparr>"
    let ?l4 = "?l3\<lparr>el_last_tx := le_now le (el_world ?l3)\<rparr>"
    have p: "recovery_packets ?l4 = recovery_packets l" "version_of ?l4 = version_of l" "fits_tx ?l4 q = fits_tx l q" for q
      using sel by (simp_all add: recovery_packets_def inflight_packets_def restored_def fits_tx_def)
    have len: "length (el_tx_buf ?l4) = length (el_tx_buf l)" using sel by simp
    obtain l5 where rec: "perform_session_data_recovery le ?l4 = (Ok () :: ('io client_error, unit) outcome, l5)" "el_transport l5 = Some t"
      "el_offline_queue l5 = []" "sent (el_world l5) = sent (el_world ?l4) @ wires (version_of l) (recovery_packets l)"
      using recovery_reliable [OF assms(1), of ?l4] assms(2,3) unfolding p len by auto
    have "connect_attempt le l = bind (perform_session_data_recovery le) (\<lambda>_. ret True) ?l4"
      using w(1) c(1) h(1) ok by (simp add: try_connection_def announce_def on_world_def touch_last_tx_def bind_def)
    then have "connect_attempt le l = (Ok True, l5)" using rec(1) by simp
    then have "connect_with_backoff le l = Some (Ok (), l5)" by (simp add: connect_with_backoff.simps)
    with rec h(3) w(2) c(2) quiet_status
    show "\<exists>l'. connect_with_backoff le l = Some (Ok (), l') \<and> el_transport l' = Some t \<and> el_offline_queue l' = [] \<and>
        sent (el_world l') = sent (el_world l) @ hello @ wires (version_of l) (recovery_packets l)" by simp
  next
    assume err: "reply_outcome d (version_of l) = (Err e :: ('io client_error, unit) outcome)"
      "rc_max_retries (op_reconnect (el_options l)) = Some m" "m \<le> Suc (el_reconnect_attempt l)"
    then have "connect_attempt le l = (Err e, l2)"
      using w(1) c(1) h(1) sel by (simp add: try_connection_def give_up_def)
    then have "connect_with_backoff le l = Some (Err e, l2)" by (simp add: connect_with_backoff.simps)
    with h(3) w(2) c(2) sel show "\<exists>l'. connect_with_backoff le l = Some (Err e, l') \<and> el_transport l' = el_transport l \<and>
        sent (el_world l') = sent (el_world l) @ hello" by simp
  next
    assume "reply_outcome d (version_of l) = (Panic :: ('io client_error, unit) outcome)"
    then have "connect_attempt le l = (Panic, l2)" using w(1) c(1) h(1) by (simp add: try_connection_def)
    then show "\<exists>l'. connect_with_backoff le l = Some (Panic, l')" by (simp add: connect_with_backoff.simps)
  }
qed

end

text \<open>A connection on which every read brings whole packets that the loop handles without an error. When all handles are gone, a cycle over it ends with \<open>Ok\<close> or not at all,
  in whatever order \<open>select!\<close> finds its branches ready.\<close>

definition healthy :: "('f, 'r, 'c, 'w, 'io) loop_env \<Rightarrow> ('w, 'io) boxed_transport \<Rightarrow> nat \<Rightarrow> bool" where
  "healthy le t N \<longleftrightarrow> (\<forall>l. loop_inv N l \<longrightarrow>
     (\<forall>r l'. receive_branch le t 0 l = Some (r, l') \<longrightarrow> r = Ok 0))"

context byte_transport begin

lemma ping_reliable:
  fixes le :: "('f, 'r, 'c, 'w, 'io) loop_env"
  assumes "reliable t" "2 \<le> length (el_tx_buf l)"
  shows "fst (send_ping le t l) = Ok ()"
proof -
  obtain l1 where e: "encode_or_malformed PingReq l = (Ok 2 :: ('io client_error, nat) outcome, l1)" "2 \<le> length (el_tx_buf l1)"
    using assms(2) by (auto simp: encode_or_malformed_def loop_encode_def pingreq_encode_def)
  from loop_send_reliable [OF assms(1) e(2), of le] e(1) show ?thesis by (auto simp: send_ping_def)
qed

lemma healthy_select:
  fixes le :: "('f, 'r, 'c, 'w, 'io) loop_env"
  assumes "small N" "5 \<le> N" "healthy le t N" "\<forall>w. fst (le_recv le w) = None" "reliable t" "select_loop le t 0 l = Some x"
  shows "loop_inv N l \<Longrightarrow> \<forall>e. fst x \<noteq> Err e"
proof (rule select_loop.raw_induct [where P = "\<lambda>le' t' cursor l x. le' = le \<longrightarrow> t' = t \<longrightarrow>
    cursor = 0 \<longrightarrow> loop_inv N l \<longrightarrow> (\<forall>e. fst x \<noteq> Err e)", OF _ assms(6), THEN mp, THEN mp, THEN mp, THEN mp], goal_cases)
  case (1 f le' t' cursor l x)
  show ?case
  proof (intro impI)
    assume eq: "le' = le" "t' = t" "cursor = 0" and inv: "loop_inv N l"
    obtain br w where br: "le_select le (el_world l) = (br, w)" by fastforce
    let ?l = "l\<lparr>el_world := w\<rparr>"
    have inv': "loop_inv N ?l" using inv by simp
    show "\<forall>e. fst x \<noteq> Err e"
    proof (cases br)
      case Readable
      with 1(3) br eq obtain r l1 where rb: "receive_branch le t 0 ?l = Some (r, l1)"
        by (cases "receive_branch le t 0 ?l") auto
      have "r = Ok 0" using assms(3) inv' rb unfolding healthy_def by blast
      moreover have "loop_inv N l1" using receive_branch_inv [OF rb inv' _ assms(1)] by simp
      ultimately show ?thesis using 1(2,3) Readable br eq rb by auto
    next
      case Requested
      obtain w' where "le_recv le w = (None, w')" using assms(4) by (metis prod.collapse)
      then obtain r l1 where rb: "request_branch le t ?l = (r, l1)" "\<forall>e. r \<noteq> Err e" "r \<noteq> Ok True"
        by (cases "ignore_result (send_disconnect le t) (?l\<lparr>el_world := w'\<rparr>) :: ('io client_error, unit) outcome \<times> _")
          (auto simp: request_branch_def bind_def ignore_result_def split: prod.splits outcome.splits)
      with 1(3) Requested br eq show ?thesis by (cases r) auto
    next
      case Ticked
      obtain r l1 where rb: "ping_branch le t ?l = (r, l1)" by fastforce
      have "2 \<le> length (el_tx_buf ?l)" using inv' assms(2) by (simp add: loop_inv_def)
      with rb ping_reliable [OF assms(5), of ?l le] have "r = Ok ()" by (auto simp: ping_branch_def split: if_splits)
      moreover have "loop_inv N l1" using validD [OF valid_ping_branch [OF assms(1)] inv' rb] by simp
      ultimately show ?thesis using 1(2,3) Ticked br eq rb by auto
    qed
  qed
qed simp_all

lemma healthy_cycle:
  fixes le :: "('f, 'r, 'c, 'w, 'io) loop_env"
  assumes "small N" "5 \<le> N" "healthy le t N" "\<forall>w. fst (le_recv le w) = None" "reliable t"
    and "el_transport l = Some t" "loop_inv N l" "le_interval le (op_keep_alive (el_options l))" "drive_connection le l = Some (r, l')"
  shows "r = Ok () \<and> el_transport l' = Some t \<and> loop_inv N l' \<and> el_options l' = el_options l"
proof -
  let ?l = "l\<lparr>el_transport := None\<rparr>"
  obtain r1 l1 where x: "select_loop le t 0 ?l = Some (r1, l1)"
    and r: "(case r1 of Panic \<Rightarrow> (Panic, l1) | _ \<Rightarrow> (r1, l1\<lparr>el_transport := Some t\<rparr>)) = (r, l')"
    using assms(6,8,9) by (auto simp: drive_connection_def)
  have inv: "loop_inv N ?l" using assms(7) by simp
  from select_loop_inv [OF assms(1,2) x inv] healthy_select [OF assms(1-5) x inv]
  have 1: "loop_inv N l1" "r1 = Ok ()" by (cases r1; simp)+
  from configured_select_loop [OF x, of "el_options l"] have "el_options l1 = el_options l" by (simp add: configured_def)
  with r 1 show ?thesis by auto
qed

end

text \<open>A request to disconnect ends the cycle, and with it the task.\<close>

context byte_transport begin

lemma disconnect_cycle:
  fixes le :: "('f, 'r, 'c, 'w, 'io) loop_env"
  assumes "el_transport l = Some t" "loop_inv N l" "5 \<le> N" "le_interval le (op_keep_alive (el_options l))"
    and "le_select le (el_world l) = (Requested, w)" "le_recv le w = (Some (ReqDisconnect resp), w')"
  shows "\<exists>l'. drive_connection le l = Some (Err CE_ClientClosed, l')"
proof -
  let ?l = "l\<lparr>el_transport := None, el_world := w'\<rparr>"
  obtain r l1 where d: "send_disconnect le t ?l = (r :: ('io client_error, _) outcome, l1)" by fastforce
  have "valid True (loop_inv N) (send_disconnect le t) any" by (rule valid_send_disconnect) (rule assms(3))
  from validD [OF this _ d] assms(2) have "r \<noteq> Panic" by simp
  with d have "\<exists>l2. request_branch le t (l\<lparr>el_transport := None, el_world := w\<rparr>) = (Err CE_ClientClosed, l2)"
    using assms(6) by (cases r) (auto simp: request_branch_def bind_def on_world_def)
  then show ?thesis using assms(1,4,5) by (auto simp: drive_connection_def select_loop.simps)
qed

end

lemma run_until_disconnect:
  assumes "connect_with_backoff le l = Some (Ok (), l1)" "el_transport l = None"
    and "drive_connection le l1 = Some (Err CE_ClientClosed, l2)"
  shows "run_loop le l = stopped le l2"
  using assms by (simp add: run_loop.simps)

subsection \<open>The network\<close>

text \<open>What the documentation of the runtime says of the primitives that open a connection: \<open>connect_transport\<close>
  returns streams, and a read that is not timed out fits the buffer.\<close>

locale network =
  fixes le :: "('f, 'r, 'c, 'w, 'io) loop_env" and sent :: "'w \<Rightarrow> bytes"
  assumes connect_stream: "le_connect le target w = (r, w') \<Longrightarrow> r \<noteq> Panic \<and> (\<forall>t. r = Ok t \<longrightarrow> byte_transport t sent)"
    and timed_fits: "byte_transport t sent \<Longrightarrow> le_timed_read le t n w = (Some x, w') \<Longrightarrow> x \<noteq> Panic \<and> (\<forall>d. x = Ok d \<longrightarrow> length d \<le> n)"

text \<open>The replies to a CONNECT that the decoder does not panic on.\<close>

definition harmless :: "('f, 'r, 'c, 'w, 'io) loop_env \<Rightarrow> ('w, 'io) boxed_transport \<Rightarrow> mqtt_version \<Rightarrow> bool" where
  "harmless le t v \<longleftrightarrow> (\<forall>n w d w'. le_timed_read le t n w = (Some (Ok d), w') \<longrightarrow> decode d v \<noteq> Panic)"

definition harmless_replies :: "('f, 'r, 'c, 'w, 'io) loop_env \<Rightarrow> mqtt_version \<Rightarrow> bool" where
  "harmless_replies le v \<longleftrightarrow> (\<forall>target w t w'. le_connect le target w = (Ok t, w') \<longrightarrow> harmless le t v)"

text \<open>Every delay of the configured policy is a duration.\<close>

definition valid_delays :: "('f, 'r, 'c, 'w, 'io) loop_env \<Rightarrow> 'f client_options \<Rightarrow> bool" where
  "valid_delays le opts \<longleftrightarrow> (\<forall>n. compute_delay (le_f64 le) (op_reconnect opts) n \<noteq> (Panic :: ('io client_error, nat) outcome))"

text \<open>The state of the task between its steps.\<close>

definition alive :: "('w \<Rightarrow> bytes) \<Rightarrow> 'f client_options \<Rightarrow> ('f, 'r, 'c, 'w, 'io) event_loop \<Rightarrow> bool" where
  "alive sent opts l \<longleftrightarrow> loop_inv (op_max_packet_size opts) l \<and> el_options l = opts \<and>
     (\<forall>t. el_transport l = Some t \<longrightarrow> byte_transport t sent)"

lemma alive_updates [simp]:
  "alive sent opts (l\<lparr>el_world := w\<rparr>) = alive sent opts l"
  "alive sent opts (l\<lparr>el_last_tx := n\<rparr>) = alive sent opts l"
  "alive sent opts (l\<lparr>el_reconnect_attempt := n\<rparr>) = alive sent opts l"
  "alive sent opts l \<Longrightarrow> alive sent opts (l\<lparr>el_transport := None\<rparr>)"
  by (simp_all add: alive_def)

text \<open>Over one stream, from the handshake to the end of the recovery.\<close>

context byte_transport begin

lemma handshake_inv:
  assumes fits: "\<And>n w x w'. le_timed_read le t n w = (Some x, w') \<Longrightarrow> x \<noteq> Panic \<and> (\<forall>d. x = Ok d \<longrightarrow> length d \<le> n)"
    and "small N" "harmless le t (op_version (el_options l))"
    and "loop_inv N l" "perform_connect_handshake le t l = (r, l')"
  shows "loop_inv N l' \<and> el_options l' = el_options l \<and> el_transport l' = el_transport l \<and> r \<noteq> Panic"
proof -
  let ?v = "op_version (el_options l)"
  let ?read = "\<lambda>n l. case le_timed_read le t n (el_world l) of
      (None, w) \<Rightarrow> (Err CE_Timeout, l\<lparr>el_world := w\<rparr>)
    | (Some r, w) \<Rightarrow> (map_err client_error_from_io r, l\<lparr>el_world := w\<rparr>)"
  have harmless: "decode d ?v \<noteq> Panic" if "le_timed_read le t n w = (Some (Ok d), w')" for n w d w'
    using assms(3) that unfolding harmless_def by blast
  have read: "valid True (loop_inv N) (?read n) (\<lambda>d. length d \<le> N \<and> decode d ?v \<noteq> Panic)" if "n = N" for n
  proof (rule validI)
    fix l1 r1 l2 assume l1: "loop_inv N l1" "?read n l1 = (r1, l2)"
    obtain x w where x: "le_timed_read le t n (el_world l1) = (x, w)" by fastforce
    show "loop_inv N l2 \<and> (\<forall>d. r1 = Ok d \<longrightarrow> length d \<le> N \<and> decode d ?v \<noteq> Panic) \<and> (True \<longrightarrow> r1 \<noteq> Panic)"
    proof (cases x)
      case (Some y)
      with x fits [of n "el_world l1" y w] that l1 show ?thesis
        by (cases y) (auto dest: harmless)
    qed (use l1 x in auto)
  qed
  have len: "valid True (loop_inv N) (gets (\<lambda>l. length (el_rx_buf l))) (\<lambda>n. n = N)"
    by (rule valid_basic(3)) (simp add: loop_inv_def)
  have safe: "encode_safe N (Connect c)" for c using assms(2) by simp
  have "valid True (loop_inv N) (bind (encode_or_malformed (Connect (loop_connect_packet (el_options l)))) (\<lambda>len.
     bind (write_tx t len) (\<lambda>_.
     bind (io_call (bt_flush t)) (\<lambda>_.
     bind (gets (\<lambda>l. length (el_rx_buf l))) (\<lambda>n.
     bind (?read n) (\<lambda>d.
     bind (store_rx 0 d) (\<lambda>_.
     if d = [] then throw invalid_response
     else
       bind (gets (\<lambda>l. take (length d) (el_rx_buf l))) (\<lambda>received.
       bind (lift (map_err (\<lambda>_. invalid_response) (decode received ?v))) (\<lambda>packet.
       (case packet of
          Some (ConnAck connack) \<Rightarrow>
            if ca_reason_code connack = 0 then ret () else throw (CE_ConnectionRefused (ca_reason_code connack))
        | _ \<Rightarrow> throw invalid_response)))))))))) any" (is "valid _ _ ?body _")
    by (rule valid_encode_send [OF safe], rule valid_then [OF valid_write_tx], assumption,
        rule valid_then [OF valid_io_flush], rule valid_bind [OF len], rule valid_bind [OF read], assumption,
        rule valid_handshake_tail) simp_all
  moreover have "?body l = (r, l')" using assms(5) by (simp add: perform_connect_handshake_def)
  moreover have "same_policy (el_options l) (el_reconnect_attempt l) l'"
    using validD [OF valid_handshake_policy _ assms(5)] by (simp add: same_policy_def)
  moreover have "el_transport l' = el_transport l"
    using validD [OF valid_handshake [of "\<lambda>l'. el_transport l' = el_transport l"] _ assms(5)]
    by (simp add: net_closed_def net_only_sel)
  ultimately show ?thesis using assms(4) by (auto simp: same_policy_def dest: validD)
qed

text \<open>The recovery; nothing is in the offline queue.\<close>

lemma recovery_inv:
  assumes "small N" "loop_inv N l" "recover_session le t l = (r, l')"
  shows "loop_inv N l' \<and> el_options l' = el_options l \<and> r \<noteq> Panic"
proof -
  have resend: "valid True (loop_inv N) (resend_inflight t es) any" for es
  proof (induction es)
    case (Cons e es)
    then show ?case
      by (cases e) (simp only: resend_inflight.simps Let_def, intro pres_intros, simp_all add: assms(1))
  qed (simp add: valid_def)
  have resub: "valid True (loop_inv N) (resubscribe t subs) any" for subs
  proof (induction subs)
    case (Cons e subs)
    then show ?case
      by (cases e) (simp only: resubscribe.simps, rule valid_bind [OF valid_loop_next_packet_id],
        intro pres_intros, simp_all add: assms(1))
  qed (simp add: valid_def)
  have queue: "valid True (loop_inv N) (gets el_offline_queue) (\<lambda>q. q = [])"
    by (rule valid_basic(3)) (simp add: loop_inv_def)
  have flush: "valid True (loop_inv N) (flush_offline le t q) any" if "q = []" for q
    using that by (simp add: valid_def)
  have inv: "valid True (loop_inv N) (recover_session le t) any"
    unfolding recover_session_def
    by (intro valid_then [OF valid_basic(3)] valid_then [OF valid_if] valid_bind [OF queue flush] resend resub
        valid_then [OF resend] valid_then [OF resub] valid_ignored(2) valid_basic(2)) simp_all
  have "valid False (configured opts) (resend_inflight t es) any" for opts es
  proof (induction es)
    case (Cons e es)
    then show ?case
      by (cases e) (simp only: resend_inflight.simps Let_def, intro configured_rules, simp_all)
  qed (simp add: valid_def)
  moreover have "valid False (configured opts) (resubscribe t subs) any" for opts subs
  proof (induction subs)
    case (Cons e subs)
    then show ?case
      by (cases e) (simp only: resubscribe.simps, intro configured_rules, simp_all)
  qed (simp add: valid_def)
  moreover have "valid False (configured opts) (flush_offline le t q) any" for opts q
  proof (induction q)
    case (Cons e q)
    then show ?case
      by (simp only: flush_offline.simps) (intro configured_rules valid_modify; simp)
  qed (simp add: valid_def)
  ultimately have "valid False (configured (el_options l)) (recover_session le t) any"
    unfolding recover_session_def by (intro configured_rules)
  from validD [OF this _ assms(3)] have "configured (el_options l) l'" by (simp add: configured_def)
  with validD [OF inv assms(2,3)] show ?thesis by (simp add: configured_def)
qed

end

context network begin

lemma recovery_alive:
  assumes "small (op_max_packet_size opts)" "alive sent opts l" "perform_session_data_recovery le l = (r, l')"
  shows "alive sent opts l' \<and> r \<noteq> Panic"
proof (cases "el_transport l")
  case (Some t)
  obtain r1 l1 where rec: "recover_session le t (l\<lparr>el_transport := None\<rparr>) = (r1, l1)" by fastforce
  have t: "byte_transport t sent" "loop_inv (op_max_packet_size opts) (l\<lparr>el_transport := None\<rparr>)" "el_options l = opts"
    using assms(2) Some by (simp_all add: alive_def)
  from byte_transport.recovery_inv [OF t(1) assms(1) t(2) rec] no_error_def [of "recover_session le t"] recovery_no_error(1) [of le t] rec
  have 1: "loop_inv (op_max_packet_size opts) l1" "el_options l1 = opts" "r1 = Ok ()"
    using t(3) by (cases r1; simp)+
  with Some assms(3) rec t(1) show ?thesis
    by (auto simp: perform_session_data_recovery_def alive_def)
qed (use assms in \<open>auto simp: perform_session_data_recovery_def\<close>)

lemma try_connection_alive:
  assumes "small (op_max_packet_size opts)" "harmless_replies le (op_version opts)"
    and "alive sent opts l" "try_connection le l = (r, l')"
  shows "alive sent opts l' \<and> r \<noteq> Panic"
proof -
  obtain c w where con: "le_connect le (op_target (el_options l)) (el_world l) = (c, w)" by fastforce
  note stream = connect_stream [OF con]
  let ?l = "l\<lparr>el_world := w\<rparr>"
  have al: "alive sent opts ?l" using assms(3) by simp
  have up: "alive sent opts l2 \<and> r2 \<noteq> Panic" if "give_up e l1 = (r2, l2)" "alive sent opts l1" for e l1 r2 l2
    using give_up_cases [OF that(1)] that(2) by auto
  show ?thesis
  proof (cases c)
    case c: (Ok t)
    with stream have t: "byte_transport t sent" by simp
    have "harmless le t (op_version opts)" using assms(2) con c unfolding harmless_replies_def by blast
    then have harm: "harmless le t (op_version (el_options ?l))" using al by (simp add: alive_def)
    obtain h l1 where hs: "perform_connect_handshake le t ?l = (h, l1)" by fastforce
    from byte_transport.handshake_inv [OF t timed_fits [OF t] assms(1) harm _ hs] al
    have 1: "alive sent opts l1" "h \<noteq> Panic" by (simp_all add: alive_def)
    show ?thesis
    proof (cases h)
      case h: (Ok u)
      let ?l3 = "l1\<lparr>el_transport := Some t, el_reconnect_attempt := 0, el_world := le_status le StatusConnected (el_world l1)\<rparr>"
      let ?l4 = "?l3\<lparr>el_last_tx := le_now le (el_world ?l3)\<rparr>"
      obtain r5 l5 where rec: "perform_session_data_recovery le ?l4 = (r5, l5)" by fastforce
      have "alive sent opts ?l4" using 1(1) t by (simp add: alive_def)
      from recovery_alive [OF assms(1) this rec] have 5: "alive sent opts l5" "r5 \<noteq> Panic" by simp_all
      have "(r, l') = bind (perform_session_data_recovery le) (\<lambda>_. ret True) ?l4"
        using assms(4) con c h hs by (simp add: try_connection_def announce_def on_world_def touch_last_tx_def bind_def)
      with rec 5 show ?thesis by (cases r5) auto
    qed (use assms(4) con c hs 1 up in \<open>auto simp: try_connection_def\<close>)
  next
    case (Err e)
    with assms(4) con up [of e ?l r l'] al show ?thesis by (simp add: try_connection_def)
  qed (use stream in simp)
qed

lemma connect_attempt_alive:
  assumes "small (op_max_packet_size opts)" "harmless_replies le (op_version opts)" "valid_delays le opts"
    and "alive sent opts l" "connect_attempt le l = (r, l')"
  shows "alive sent opts l' \<and> r \<noteq> Panic"
proof (rule connect_attempt_run [of le l])
  show "compute_delay (le_f64 le) (op_reconnect (el_options l)) (Suc (el_reconnect_attempt l)) \<noteq>
      (Panic :: ('io client_error, nat) outcome)"
    using assms(3,4) by (simp add: valid_delays_def alive_def)
  fix w assume run: "connect_attempt le l = try_connection le (l\<lparr>el_reconnect_attempt := Suc (el_reconnect_attempt l), el_world := w\<rparr>)"
  show ?thesis
    by (rule try_connection_alive [OF assms(1,2) _ run [symmetric, unfolded assms(5)]]) (simp add: assms(4))
qed

lemma backoff_alive:
  assumes "small (op_max_packet_size opts)" "harmless_replies le (op_version opts)" "valid_delays le opts"
    and "connect_with_backoff le l = Some x"
  shows "alive sent opts l \<Longrightarrow> alive sent opts (snd x) \<and> fst x \<noteq> Panic"
proof (rule connect_with_backoff.raw_induct [where P = "\<lambda>le' l x. le' = le \<longrightarrow> alive sent opts l \<longrightarrow>
    alive sent opts (snd x) \<and> fst x \<noteq> Panic", OF _ assms(4), THEN mp, THEN mp], goal_cases)
  case (1 f le' l x)
  show ?case
  proof (intro impI)
    assume eq: "le' = le" and al: "alive sent opts l"
    obtain r l1 where a: "connect_attempt le l = (r, l1)" by fastforce
    from connect_attempt_alive [OF assms(1-3) al a] have "alive sent opts l1" "r \<noteq> Panic" by simp_all
    with 1 eq a show "alive sent opts (snd x) \<and> fst x \<noteq> Panic" by (cases r) (auto split: if_splits)
  qed
qed simp_all

lemma drive_alive:
  assumes "small (op_max_packet_size opts)" "5 \<le> op_max_packet_size opts" "le_interval le (op_keep_alive opts)"
    and "alive sent opts l" "drive_connection le l = Some (r, l')"
  shows "alive sent opts l' \<and> r \<noteq> Panic"
proof (cases "el_transport l")
  case None
  then show ?thesis using assms(3-5) by (auto simp: drive_connection_def alive_def)
next
  case (Some t)
  then have t: "byte_transport t sent" "loop_inv (op_max_packet_size opts) l" "el_options l = opts"
    using assms(4) by (simp_all add: alive_def)
  from drive_connection_safe [OF t(1) Some t(2) assms(1,2) _ assms(5)] t(3) assms(3)
  have 1: "r \<noteq> Panic" "loop_inv (op_max_packet_size opts) l'" "el_transport l' = Some t" by simp_all
  obtain r1 l1 where x: "select_loop le t 0 (l\<lparr>el_transport := None\<rparr>) = Some (r1, l1)"
    and r: "(case r1 of Panic \<Rightarrow> (Panic, l1) | _ \<Rightarrow> (r1, l1\<lparr>el_transport := Some t\<rparr>)) = (r, l')"
    using assms(3,5) t(3) Some by (auto simp: drive_connection_def)
  from configured_select_loop [OF x, of opts] t(3) have "el_options l1 = opts" by (simp add: configured_def)
  with r 1 t(1) show ?thesis by (cases r1) (auto simp: alive_def)
qed

text \<open>The whole life: the task does not panic, and when it ends it has announced that it stopped.\<close>

lemma run_alive:
  assumes "small (op_max_packet_size opts)" "5 \<le> op_max_packet_size opts" "harmless_replies le (op_version opts)"
    and "valid_delays le opts" "le_interval le (op_keep_alive opts)" "run_loop le l = Some x"
  shows "alive sent opts l \<Longrightarrow> alive sent opts (snd x) \<and> fst x = Ok () \<and> (\<exists>w. el_world (snd x) = le_status le StatusStopped w)"
proof (rule run_loop.raw_induct [where P = "\<lambda>le' l x. le' = le \<longrightarrow> alive sent opts l \<longrightarrow>
    alive sent opts (snd x) \<and> fst x = Ok () \<and> (\<exists>w. el_world (snd x) = le_status le StatusStopped w)", OF _ assms(6), THEN mp, THEN mp], goal_cases)
  case (1 f le' l x)
  have stop: "alive sent opts (snd y) \<and> fst y = Ok () \<and> (\<exists>w. el_world (snd y) = le_status le StatusStopped w)"
    if "stopped le l1 = Some y" "alive sent opts l1" for l1 y
    using that by (auto simp: stopped_def announce_def on_world_def)
  show ?case
  proof (intro impI)
    assume eq: "le' = le" and al: "alive sent opts l"
    let ?c = "if el_transport l = None then connect_with_backoff le l else Some (Ok (), l)"
    obtain r l1 where c: "?c = Some (r, l1)"
      using 1 eq by (cases ?c) auto
    note body = 1(3) [unfolded eq c]
    have up: "alive sent opts l1" "r \<noteq> Panic"
      using backoff_alive [OF assms(1,3,4), of l "(r, l1)"] c al by (auto split: if_splits)
    show "alive sent opts (snd x) \<and> fst x = Ok () \<and> (\<exists>w. el_world (snd x) = le_status le StatusStopped w)"
    proof (cases r)
      case (Err e)
      with body have "stopped le l1 = Some x" by simp
      with stop up(1) show ?thesis by blast
    next
      case (Ok u)
      with body obtain r2 l2 where d: "drive_connection le l1 = Some (r2, l2)"
        by (cases "drive_connection le l1") auto
      from drive_alive [OF assms(1,2,5) up(1) d] have l2: "alive sent opts l2" "r2 \<noteq> Panic" by simp_all
      let ?l3 = "l2\<lparr>el_transport := None, el_world := le_status le StatusDisconnected (el_world l2)\<rparr>"
      have l3: "alive sent opts ?l3" using l2(1) by (simp add: alive_def)
      consider (stopped_at) l4 where "stopped le l4 = Some x" "alive sent opts l4"
        | (next_cycle) l4 where "f le l4 = Some x" "alive sent opts l4"
      proof (cases r2)
        case (Ok u2)
        with body Ok d l2 next_cycle show thesis by (simp add: \<open>r = Ok u\<close>)
      next
        case (Err e)
        have "(if e = CE_ClientClosed then stopped le l2
            else if \<not> rc_enabled (op_reconnect (el_options ?l3)) then stopped le ?l3 else f le ?l3) = Some x"
          using body d Err \<open>r = Ok u\<close> by (cases e) (simp_all add: announce_def on_world_def Let_def)
        then show thesis
          using stopped_at [of l2] stopped_at [of ?l3] next_cycle [of ?l3] l2(1) l3 by (simp only: split: if_splits)
      qed (use l2 in simp)
      then show ?thesis
      proof cases
        case (next_cycle l4)
        with 1(2) [OF next_cycle(1)] show ?thesis by simp
      qed (rule stop)
    qed (use up in simp)
  qed
qed simp_all

end

end
