(* ===== verification/Life_Theorems.thy ===== *)
theory Life_Theorems
  imports Loop_Life
begin

text \<open>
  The task on the streams that \<open>connect_transport\<close> opens, by the locale \<open>socket_net\<close> of the libraries
  behind them, an in-memory broker, and the properties of reconnecting and of the task's whole life.
\<close>

subsection \<open>The streams of \<open>connect_transport\<close>\<close>

text \<open>What can be done with a stream: \<open>so_write_all\<close> repeats the \<open>poll_write\<close> of the stream until all is
  written; the errors of a QUIC stream are already those of \<open>io::Error\<close>.\<close>

record ('w, 's, 'q, 'io) socket_ops =
  so_read :: "'s \<Rightarrow> nat \<Rightarrow> 'w \<Rightarrow> ('io, bytes) outcome \<times> 'w"
  so_write_all :: "'s \<Rightarrow> bytes \<Rightarrow> 'w \<Rightarrow> ('io, unit) outcome \<times> 'w"
  so_flush :: "'s \<Rightarrow> 'w \<Rightarrow> ('io, unit) outcome \<times> 'w"
  so_datagram :: "'q \<Rightarrow> bytes \<Rightarrow> 'w \<Rightarrow> (str, unit) outcome \<times> 'w"

fun box_stream :: "('w, 's, 'q, 'io) socket_ops \<Rightarrow> ('s, 'q) connected_stream \<Rightarrow> ('w, 'io) boxed_transport" where
  "box_stream so (ByteStream s) = boxed_stream (so_read so s) (so_write_all so s) (so_flush so s)"
| "box_stream so (TlsByteStream s) = boxed_stream (so_read so s) (so_write_all so s) (so_flush so s)"
| "box_stream so (QuicStream q) =
     \<lparr>bt_read = so_read so (qt_recv_stream q), bt_write_all = so_write_all so (qt_send_stream q),
      bt_flush = Pair (Ok ()), bt_send_datagram = (\<lambda>d. quic_send_datagram (so_datagram so) d q)\<rparr>"

definition boxed_connect ::
  "('w, 's, 'a, 'q, 'io) net_ops \<Rightarrow> ('w, 's, 'q, 'io) socket_ops \<Rightarrow> transport_target \<Rightarrow> 'w \<Rightarrow>
   ('io client_error, ('w, 'io) boxed_transport) outcome \<times> 'w" where
  "boxed_connect net so target w = step_or id (connect_transport net target w) (\<lambda>s w'. (Ok (box_stream so s), w'))"

text \<open>Sequences of calls that do not panic.\<close>

definition no_panic :: "('e, 'a) outcome \<times> 'w \<Rightarrow> bool" where
  "no_panic rw \<longleftrightarrow> fst rw \<noteq> Panic"

lemma no_panic_results [simp]: "no_panic (Ok a, w)" "no_panic (Err e, w)" "no_panic (r, w) \<longleftrightarrow> r \<noteq> Panic"
  by (simp_all add: no_panic_def)

lemma no_panic_step_or: "no_panic rw \<Longrightarrow> (\<And>a w. no_panic (k a w)) \<Longrightarrow> no_panic (step_or conv rw k)"
  by (auto simp: step_or_def no_panic_def split: prod.splits outcome.splits)

text \<open>What the documentation of the libraries says of them: the streams keep the contract of a byte stream, opening
  one does not panic, and \<open>timeout\<close> yields what the read yields, or nothing.\<close>

locale socket_net =
  fixes net :: "('w, 's, 'a, 'q, 'io) net_ops" and so :: "('w, 's, 'q, 'io) socket_ops"
    and le :: "('f, 'r, 'c, 'w, 'io) loop_env" and sent :: "'w \<Rightarrow> bytes"
  assumes connects: "le_connect le = boxed_connect net so"
    and timed: "le_timed_read le t n w = (Some x, w') \<Longrightarrow> bt_read t n w = (x, w')"
    and streams: "stream_io (so_read so s) (so_write_all so s) (so_flush so s) sent"
    and datagrams: "so_datagram so q d w = (r, w') \<Longrightarrow> r \<noteq> Panic \<and> sent w' = sent w"
    and opens: "no_panic (tcp_connect net addr w)" "server_name net name \<noteq> Panic" "no_panic (tls_connect net name s w)"
      "no_panic (unix_connect net name w)" "no_panic (pipe_open net name w)"
    and opens_quic: "no_panic (quic_endpoint net w)" "no_panic (quic_crypto net w)" "no_panic (lookup_host net addr w)"
      "no_panic (quic_connect net a name w)" "no_panic (quic_await net w)" "no_panic (quic_open_bi net q w)"
begin

lemma connect_quic_no_panic: "no_panic (connect_quic net host port name w)"
  unfolding connect_quic_def
  by (intro no_panic_step_or opens_quic) (auto intro!: no_panic_step_or opens_quic split: list.split)

lemma connect_transport_no_panic: "no_panic (connect_transport net target w)"
  by (cases target)
    (auto simp: connect_transport_def opens connect_quic_no_panic intro!: no_panic_step_or split: option.split)

lemma boxed_stream_contract: "byte_transport (boxed_stream (so_read so s) (so_write_all so s) (so_flush so s)) sent"
  by (rule stream_io.boxed_contract [OF streams])

lemma box_stream_contract: "byte_transport (box_stream so c) sent"
proof (cases c)
  case (QuicStream q)
  show ?thesis unfolding QuicStream box_stream.simps
  proof (unfold_locales, goal_cases)
    case (4 d w r w')
    then show ?case using datagrams [of "qt_connection q" d w]
      by (cases "so_datagram so (qt_connection q) d w") (auto simp: quic_send_datagram_def)
  qed (use stream_io.wr_Ok [OF streams] stream_io.wr_grows [OF streams] stream_io.rd_fits [OF streams] in auto)
qed (simp_all add: boxed_stream_contract)

end

sublocale socket_net \<subseteq> network le sent
proof (unfold_locales, goal_cases)
  case (1 target w r w')
  then show ?case using connect_transport_no_panic [of target w] box_stream_contract
    by (auto simp: connects boxed_connect_def step_or_def split: prod.splits outcome.splits)
next
  case (2 t n w x w')
  show ?case using byte_transport.read_fits [OF 2(1) timed [OF 2(2)]] by simp
qed

text \<open>A broker in memory that answers whatever it is sent with \<open>b\<close>.\<close>

definition greeting_net :: "(memory_stream, unit, unit, unit, unit) net_ops" where
  "greeting_net =
     \<lparr>target_unix = True, target_windows = False, io_not_found = \<lambda>_. (), io_unsupported = \<lambda>_. (),
      tcp_connect = \<lambda>_. Pair (Ok ()), set_nodelay = \<lambda>_ _ w. w, server_name = \<lambda>_. Ok (), tls_connect = \<lambda>_ _. Pair (Ok ()),
      quic_endpoint = Pair (Ok ()), quic_crypto = Pair (Ok ()), lookup_host = \<lambda>_. Pair (Ok [()]), quic_connect = \<lambda>_ _. Pair (Ok ()),
      quic_await = Pair (Ok ()), quic_open_bi = \<lambda>_. Pair (Ok ((), ())), unix_connect = \<lambda>_. Pair (Ok ()), pipe_open = \<lambda>_. Pair (Ok ())\<rparr>"

definition greeting_sockets :: "bytes \<Rightarrow> (memory_stream, unit, unit, unit) socket_ops" where
  "greeting_sockets b =
     \<lparr>so_read = \<lambda>_ n. Pair (Ok (take n b)), so_write_all = \<lambda>_. memory_write, so_flush = \<lambda>_. Pair (Ok ()),
      so_datagram = \<lambda>_ _. Pair (Ok ())\<rparr>"

definition greeting_env :: "bytes \<Rightarrow> (memory_stream \<Rightarrow> (nat, unit) client_request option \<times> memory_stream) \<Rightarrow>
    (unit, nat, unit, memory_stream, unit) loop_env" where
  "greeting_env b reqs = (memory_env reqs)
     \<lparr>le_connect := boxed_connect greeting_net (greeting_sockets b),
      le_timed_read := \<lambda>t n w. case bt_read t n w of (r, w') \<Rightarrow> (Some r, w')\<rparr>"

interpretation greeting: socket_net greeting_net "greeting_sockets b" "greeting_env b reqs" ms_sent for b reqs
proof (unfold_locales, goal_cases)
  case (2 t n w x w')
  then show ?case by (auto simp: greeting_env_def split: prod.splits)
qed (auto simp: greeting_env_def greeting_sockets_def greeting_net_def memory_write_def)

definition greeting_transport :: "bytes \<Rightarrow> (memory_stream, unit) boxed_transport" where
  "greeting_transport b = box_stream (greeting_sockets b) (ByteStream ())"

lemma greeting_loop_wire: "loop_wire (greeting_transport b) ms_sent (greeting_env b (Pair req))"
  unfolding greeting_transport_def
  by (rule loop_wire.intro [OF greeting.box_stream_contract]) (unfold_locales; simp add: greeting_env_def memory_env_def)

lemma greeting_reliable: "reliable (greeting_transport b)"
  by (simp add: reliable_def greeting_transport_def greeting_sockets_def boxed_stream_def memory_write_def)

lemma greeting_connects: "le_connect (greeting_env b reqs) (Tcp h p) w = (Ok (greeting_transport b), w)"
  by (simp add: greeting_env_def boxed_connect_def connect_transport_def step_or_def greeting_net_def greeting_transport_def)

lemma greeting_replies: "le_timed_read (greeting_env b reqs) (greeting_transport b) n w = (Some (Ok (take n b)), w)"
  by (simp add: greeting_env_def greeting_transport_def greeting_sockets_def boxed_stream_def)

lemma greeting_sleep: "le_sleep (greeting_env b reqs) d w = w"
  by (simp add: greeting_env_def memory_env_def)

lemma greeting_delays: "valid_delays (greeting_env b reqs) opts"
  by (simp add: valid_delays_def compute_delay_def greeting_env_def memory_env_def Let_def)

subsection \<open>Reconnecting\<close>

text \<open>C9. If the server accepts everything, one read brings its whole CONNACK (whatever follows it there), the
  next delay is a duration, and the CONNECT and the recovery fit the buffer, a reconnection sends the CONNECT and
  lets the CONNACK decide. Accepted, the in-flight messages follow with the duplicate flag under their ids, then
  the subscriptions, as far as the policy asks, then the offline queue, which is empty afterwards, and the loop is
  connected; refused at the last attempt, nothing else is sent and the code is the error.\<close>

theorem reconnect_restores_session:
  fixes le :: "('f, 'r, 'c, 'w, 'io) loop_env"
  assumes "loop_wire t sent le" "reliable t" "small (length (el_tx_buf l))" "\<forall>p \<in> set (recovery_packets l). fits_tx l p"
    and "fits_tx l (Connect (loop_connect_packet (el_options l)))"
    and "compute_delay (le_f64 le) (op_reconnect (el_options l)) (Suc (el_reconnect_attempt l)) = (Ok delay :: ('io client_error, nat) outcome)"
    and "\<forall>d w. sent (le_sleep le d w) = sent w"
    and "\<forall>w. \<exists>w'. le_connect le (op_target (el_options l)) w = (Ok t, w') \<and> sent w' = sent w"
    and "\<forall>w. \<exists>w'. le_timed_read le t (length (el_rx_buf l)) w = (Some (Ok (wire (ConnAck c) (version_of l) @ rest)), w') \<and> sent w' = sent w"
    and "length (wire (ConnAck c) (version_of l) @ rest) \<le> length (el_rx_buf l)"
    and "encodable (ConnAck c) (version_of l)" "wf_packet (ConnAck c) (version_of l)"
  defines "hello \<equiv> wire (Connect (loop_connect_packet (el_options l))) (version_of l)"
  shows "(ca_reason_code c = 0 \<longrightarrow>
      (\<exists>l'. connect_with_backoff le l = Some (Ok (), l') \<and> el_transport l' = Some t \<and> el_offline_queue l' = [] \<and>
        sent (el_world l') = sent (el_world l) @ hello @ wires (version_of l) (recovery_packets l))) \<and>
    (ca_reason_code c \<noteq> 0 \<longrightarrow>
      (\<forall>m. rc_max_retries (op_reconnect (el_options l)) = Some m \<longrightarrow> m \<le> Suc (el_reconnect_attempt l) \<longrightarrow>
        (\<exists>l'. connect_with_backoff le l = Some (Err (CE_ConnectionRefused (ca_reason_code c)), l') \<and>
          el_transport l' = el_transport l \<and> sent (el_world l') = sent (el_world l) @ hello)))"
proof -
  note run = loop_wire.reconnect_run [OF assms(1-10), folded hello_def]
  have reply: "reply_outcome (wire (ConnAck c) (version_of l) @ rest) (version_of l) =
      (if ca_reason_code c = 0 then Ok () else Err (CE_ConnectionRefused (ca_reason_code c)) :: ('io client_error, unit) outcome)"
    by (rule reply_outcome_connack [OF assms(11,12)])
  show ?thesis
    by (intro conjI impI allI; rule run) (simp_all add: reply)
qed

definition lost_session :: "nat option \<Rightarrow> (unit, nat, unit, memory_stream, unit) event_loop" where
  "lost_session retries = sample_session\<lparr>el_transport := None, el_options := sample_options retries\<rparr>"

lemma lost_session_sel [simp]:
  "el_tx_buf (lost_session m) = replicate 64 0" "el_rx_buf (lost_session m) = replicate 64 0"
  "el_options (lost_session m) = sample_options m" "ms_sent (el_world (lost_session m)) = []"
  "el_reconnect_attempt (lost_session m) = 0" "el_transport (lost_session m) = None"
  by (simp_all add: lost_session_def sample_session_def sample_loop_def event_loop_new_def)

lemma lost_recovery:
  "recovery_packets (lost_session m) = [dup_packet (1, (sample_msg AtLeastOnce)\<lparr>tm_packet_id := Some 1\<rparr>),
      Subscribe \<lparr>sub_packet_id = 2, sub_topics = [([0x61], AtLeastOnce)], sub_properties = []\<rparr>]"
  by (simp add: recovery_packets_def inflight_packets_def restored_def lost_session_def sample_session_def data_recovery_policy_default_def)

lemma sample_connect: "loop_connect_packet (sample_options m) = connect_new [0x61] 30 True"
  by (simp add: loop_connect_packet_def connect_new_def keep_alive_secs_def sample_options_def
      opts_with_max_packet_size_def opts_with_reconnect_def client_options_new_def Let_def)

lemma sample_hello_content:
  "packet_content (Connect (connect_new [0x61] 30 True)) V3_1_1 = [0, 4, 0x4D, 0x51, 0x54, 0x54, 4, 2, 0, 30, 0, 1, 0x61]"
  by code_simp

lemma sample_hello_wire:
  "wire (Connect (connect_new [0x61] 30 True)) V3_1_1 = [0x10, 13, 0, 4, 0x4D, 0x51, 0x54, 0x54, 4, 2, 0, 30, 0, 1, 0x61]"
  by code_simp

lemma sample_hello_fits:
  "version_of l = V3_1_1 \<Longrightarrow> length (el_tx_buf l) = 64 \<Longrightarrow> fits_tx l (Connect (connect_new [0x61] 30 True))"
proof -
  have "\<forall>s \<in> set (prefixed_fields (Connect (connect_new [0x61] 30 True))). length s \<le> 65535"
    by (simp add: connect_new_def)
  then show "version_of l = V3_1_1 \<Longrightarrow> length (el_tx_buf l) = 64 \<Longrightarrow> ?thesis"
    by (simp add: fits_tx_def encodable_def sample_hello_content del: packet_content.simps)
qed

theorem reconnect_restores_session_witness:
  "(\<exists>l'. connect_with_backoff (greeting_env [0x20, 2, 0, 0, 0x40] (Pair None)) (lost_session None) = Some (Ok (), l') \<and>
      ms_sent (el_world l') = [0x10, 13, 0, 4, 0x4D, 0x51, 0x54, 0x54, 4, 2, 0, 30, 0, 1, 0x61,
        0x3A, 6, 0, 1, 0x61, 0, 1, 0x78, 0x82, 6, 0, 2, 0, 1, 0x61, 1]) \<and>
   (\<exists>l'. connect_with_backoff (greeting_env [0x20, 2, 0, 5] (Pair None)) (lost_session (Some 1)) =
        Some (Err (CE_ConnectionRefused 5), l') \<and>
      ms_sent (el_world l') = [0x10, 13, 0, 4, 0x4D, 0x51, 0x54, 0x54, 4, 2, 0, 30, 0, 1, 0x61])"
proof -
  let ?code = "\<lambda>k. \<lparr>ca_session_present = False, ca_reason_code = k, ca_properties = []\<rparr>"
  let ?ack = "\<lambda>k. ConnAck (?code k)"
  let ?hello = "[0x10, 13, 0, 4, 0x4D, 0x51, 0x54, 0x54, 4, 2, 0, 30, 0, 1, 0x61] :: bytes"
  have ack: "wire (?ack 0) V3_1_1 = [0x20, 2, 0, 0]" "wire (?ack 5) V3_1_1 = [0x20, 2, 0, 5]" by code_simp+
  have hello: "fits_tx (lost_session m) (Connect (loop_connect_packet (el_options (lost_session m))))" for m
    by (simp add: sample_connect sample_hello_fits)
  have fits: "\<forall>p \<in> set (recovery_packets (lost_session m)). fits_tx (lost_session m) p" for m
    unfolding lost_recovery by (simp add: sample_contents)
  have rec: "wires V3_1_1 (recovery_packets (lost_session m)) = [0x3A, 6, 0, 1, 0x61, 0, 1, 0x78, 0x82, 6, 0, 2, 0, 1, 0x61, 1]" for m
    unfolding lost_recovery by code_simp
  have delay: "compute_delay fo p (Suc 0) = Ok 0" for fo :: "unit f64_ops" and p
    by (simp add: compute_delay_def)
  have ok: "small (length (el_tx_buf (lost_session m)))" "encodable (?ack k) V3_1_1" "wf_packet (?ack k) V3_1_1" for m k
    by (simp_all add: small_def encodable_def props_content_def)
  have greeted: "(k = 0 \<longrightarrow>
      (\<exists>l'. connect_with_backoff le l = Some (Ok (), l') \<and> el_transport l' = Some (greeting_transport b) \<and> el_offline_queue l' = [] \<and>
        ms_sent (el_world l') = ?hello @ wires V3_1_1 (recovery_packets l))) \<and>
    (k \<noteq> 0 \<longrightarrow> (\<forall>m. retries = Some m \<longrightarrow> m \<le> 1 \<longrightarrow>
        (\<exists>l'. connect_with_backoff le l = Some (Err (CE_ConnectionRefused k), l') \<and>
          el_transport l' = None \<and> ms_sent (el_world l') = ?hello)))"
    if "l = lost_session retries" "b = wire (?ack k) V3_1_1 @ rest" "length b \<le> 64" "le = greeting_env b (Pair None)"
    for l retries b k rest and le :: "(unit, nat, unit, memory_stream, unit) loop_env"
  proof -
    have v: "version_of l = V3_1_1" using that(1) by simp
    show ?thesis
      using reconnect_restores_session [OF greeting_loop_wire [of b None] greeting_reliable ok(1) [of retries] fits hello,
          where delay = 0 and c = "?code k" and rest = rest]
        ok(2,3) that by (simp add: delay greeting_sleep greeting_connects greeting_replies sample_connect sample_hello_wire)
  qed
  have "\<exists>l'. connect_with_backoff (greeting_env [0x20, 2, 0, 0, 0x40] (Pair None)) (lost_session None) = Some (Ok (), l') \<and>
      ms_sent (el_world l') = ?hello @ [0x3A, 6, 0, 1, 0x61, 0, 1, 0x78, 0x82, 6, 0, 2, 0, 1, 0x61, 1]"
    using greeted [of "lost_session None" None _ 0 "[0x40]" "greeting_env [0x20, 2, 0, 0, 0x40] (Pair None)"] ack rec by auto
  moreover have "\<exists>l'. connect_with_backoff (greeting_env [0x20, 2, 0, 5] (Pair None)) (lost_session (Some 1)) =
      Some (Err (CE_ConnectionRefused 5), l') \<and> ms_sent (el_world l') = ?hello"
    using greeted [of "lost_session (Some 1)" "Some 1" _ 5 "[]" "greeting_env [0x20, 2, 0, 5] (Pair None)"] ack by auto
  ultimately show ?thesis by simp
qed

subsection \<open>The whole life of the task\<close>

text \<open>C21. Take a configuration with a keep-alive the timer accepts (\<open>time::interval\<close> panics for zero), delays
  of the reconnection policy that are durations, and buffers of at least five and less than 2 ^ 28 bytes. Over
  connections that keep the contract of a byte stream, and if no reply to a CONNECT makes the decoder panic, the
  task that \<open>Client::connect\<close> spawns, if it returns, returns \<open>Ok\<close>, after announcing that it stopped. Its
  tables and buffers are then in order, its options those of the client, and the offline queue empty.\<close>

theorem task_never_panics:
  assumes "network le sent" "harmless_replies le (op_version opts)" "valid_delays le opts" "le_interval le (op_keep_alive opts)"
    and "small (op_max_packet_size opts)" "5 \<le> op_max_packet_size opts" "client_connect_task le opts w = Some (r, l')"
  shows "r = Ok () \<and> loop_inv (op_max_packet_size opts) l' \<and> el_options l' = opts \<and> el_offline_queue l' = [] \<and>
    (\<exists>w'. el_world l' = le_status le StatusStopped w')"
proof -
  have "alive sent opts (client_new_split le opts w)"
    using loop_inv_new by (simp add: alive_def client_new_split_def event_loop_new_def)
  from network.run_alive [OF assms(1,5,6,2-4) assms(7) [unfolded client_connect_task_def] this]
  show ?thesis by (auto simp: alive_def loop_inv_def)
qed

definition fresh_loop :: "bytes \<Rightarrow> (nat, unit) client_request option \<Rightarrow> (unit, nat, unit, memory_stream, unit) event_loop" where
  "fresh_loop b req = client_new_split (greeting_env b (Pair req)) (sample_options None) \<lparr>ms_sent = [], ms_input = []\<rparr>"

lemma fresh_loop_sel [simp]:
  "el_options (fresh_loop b req) = sample_options None" "el_tx_buf (fresh_loop b req) = replicate 64 0"
  "el_rx_buf (fresh_loop b req) = replicate 64 0" "el_reconnect_attempt (fresh_loop b req) = 0"
  "el_transport (fresh_loop b req) = None" "recovery_packets (fresh_loop b req) = []"
  by (simp_all add: fresh_loop_def client_new_split_def event_loop_new_def recovery_packets_def inflight_packets_def restored_def)

lemma fresh_alive: "alive sent (sample_options None) (fresh_loop b req)"
  using loop_inv_new [of "sample_options None" "greeting_env b (Pair req)"]
  by (simp add: alive_def fresh_loop_def client_new_split_def event_loop_new_def)

lemma fresh_connects:
  assumes "length b \<le> 64"
  shows "reply_outcome b V3_1_1 = (Ok () :: (unit client_error, unit) outcome) \<Longrightarrow>
      \<exists>l'. connect_with_backoff (greeting_env b (Pair req)) (fresh_loop b req) = Some (Ok (), l') \<and>
        el_transport l' = Some (greeting_transport b)"
    and "reply_outcome b V3_1_1 = (Panic :: (unit client_error, unit) outcome) \<Longrightarrow>
      \<exists>l'. connect_with_backoff (greeting_env b (Pair req)) (fresh_loop b req) = Some (Panic, l')"
proof -
  note run = loop_wire.reconnect_run [OF greeting_loop_wire [of b req] greeting_reliable, of "fresh_loop b req" 0 b]
  have delay: "compute_delay fo p (Suc 0) = Ok 0" for fo :: "unit f64_ops" and p
    by (simp add: compute_delay_def)
  note facts = delay greeting_connects greeting_replies greeting_sleep sample_connect sample_hello_fits assms small_def
  show "reply_outcome b V3_1_1 = (Ok () :: (unit client_error, unit) outcome) \<Longrightarrow>
      \<exists>l'. connect_with_backoff (greeting_env b (Pair req)) (fresh_loop b req) = Some (Ok (), l') \<and>
        el_transport l' = Some (greeting_transport b)"
    using run(1) by (auto simp: facts)
  show "reply_outcome b V3_1_1 = (Panic :: (unit client_error, unit) outcome) \<Longrightarrow>
      \<exists>l'. connect_with_backoff (greeting_env b (Pair req)) (fresh_loop b req) = Some (Panic, l')"
    using run(3) by (simp add: facts)
qed

text \<open>The reply that makes the decoder panic takes the task with it.\<close>

lemma reply_panics_task:
  "\<exists>l'. client_connect_task (greeting_env [0x30, 2, 0, 1, 0x61] (Pair req)) (sample_options None)
     \<lparr>ms_sent = [], ms_input = []\<rparr> = Some (Panic, l')"
proof -
  have "reply_outcome [0x30, 2, 0, 1, 0x61] V3_1_1 = (Panic :: (unit client_error, unit) outcome)"
    using decode_overrun_example by (simp add: reply_outcome_def)
  with fresh_connects(2) [of "[0x30, 2, 0, 1, 0x61]" req] show ?thesis
    by (auto simp: client_connect_task_def fresh_loop_def [symmetric] run_loop.simps)
qed

lemma greeting_harmless:
  assumes "\<And>n. decode (take n b) v \<noteq> Panic"
  shows "harmless_replies (greeting_env b reqs) v"
proof -
  have read: "bt_read (box_stream (greeting_sockets b) s) n = Pair (Ok (take n b))" for s n
    by (cases s) (simp_all add: greeting_sockets_def boxed_stream_def)
  have "harmless (greeting_env b reqs) (box_stream (greeting_sockets b) s) v" for s
    using assms by (simp add: harmless_def greeting_env_def read)
  then show ?thesis
    by (auto simp: harmless_replies_def greeting.connects boxed_connect_def step_or_def split: prod.splits outcome.splits)
qed

theorem task_never_panics_witness:
  "\<exists>l'. client_connect_task (greeting_env [0x20, 2, 0, 0] (Pair (Some (ReqDisconnect 0)))) (sample_options None)
      \<lparr>ms_sent = [], ms_input = []\<rparr> = Some (Ok (), l') \<and> loop_inv 64 l' \<and> el_offline_queue l' = []"
proof -
  let ?b = "[0x20, 2, 0, 0] :: bytes" and ?req = "Some (ReqDisconnect 0) :: (nat, unit) client_request option"
  let ?le = "greeting_env ?b (Pair ?req)" and ?opts = "sample_options None"
  have size: "small (op_max_packet_size ?opts)" "5 \<le> op_max_packet_size ?opts" by (simp_all add: small_def)
  have interval: "le_interval ?le (op_keep_alive ?opts)" by (simp add: greeting_env_def memory_env_def)
  have "decode (take n ?b) V3_1_1 \<noteq> Panic" for n
    by (cases n) (simp_all add: decode_eq_Panic drop_bit_eq_div)
  then have replies: "harmless_replies ?le (op_version ?opts)" by (simp add: greeting_harmless)
  have "reply_outcome ?b V3_1_1 = (Ok () :: (unit client_error, unit) outcome)" by code_simp
  then obtain l1 where c: "connect_with_backoff ?le (fresh_loop ?b ?req) = Some (Ok (), l1)" "el_transport l1 = Some (greeting_transport ?b)"
    using fresh_connects(1) [of ?b ?req] by auto
  have l1: "alive ms_sent ?opts l1"
    using greeting.backoff_alive [OF size(1) replies greeting_delays c(1)] fresh_alive by simp
  have "\<exists>l2. drive_connection ?le l1 = Some (Err CE_ClientClosed, l2)"
    by (rule byte_transport.disconnect_cycle [where sent = ms_sent, OF _ c(2) _ size(2)])
      (use l1 c(2) interval in \<open>auto simp: alive_def greeting_env_def memory_env_def\<close>)
  then obtain l2 where "drive_connection ?le l1 = Some (Err CE_ClientClosed, l2)" by blast
  from run_until_disconnect [OF c(1) _ this]
  have "\<exists>r l'. client_connect_task ?le ?opts \<lparr>ms_sent = [], ms_input = []\<rparr> = Some (r, l')"
    by (simp add: client_connect_task_def fresh_loop_def [symmetric] stopped_def)
  then show ?thesis
    using task_never_panics [OF greeting.network_axioms replies greeting_delays interval size] by fastforce
qed

text \<open>Nothing keeps a keep-alive of zero out of the options; the connection is made, and then the timer panics.\<close>

lemma rejected_keep_alive_panics:
  fixes le :: "('f, 'r, 'c, 'w, 'io) loop_env"
  assumes "el_transport l = None" "connect_with_backoff le l = Some (Ok (), l1)"
    and "\<not> le_interval le (op_keep_alive (el_options l1))"
  shows "\<exists>l'. run_loop le l = Some (Panic, l')"
  using assms by (subst run_loop.simps) (auto simp: drive_connection_def Let_def split: option.split prod.split)

text \<open>C40. When all handles are gone, the task does not end as the documentation of \<open>run\<close> says: from a
  connected state with its tables in order and buffers of 5 to 2 ^ 28 bytes, and as long as the timer accepts
  the keep-alive, the connection takes what is written and each read brings whole packets that are handled
  without an error, \<open>run\<close> does not return, in whatever order \<open>select!\<close> finds its branches ready.
  A cycle that finds the request channel closed sends the DISCONNECT and returns \<open>Ok\<close>, and the next one
  starts on the same transport.\<close>

theorem run_never_stops:
  fixes le :: "('f, 'r, 'c, 'w, 'io) loop_env"
  assumes "byte_transport t sent" "el_transport l = Some t" "loop_inv N l" "small N" "5 \<le> N"
    and "le_interval le (op_keep_alive (el_options l))" "\<forall>w. fst (le_recv le w) = None" "reliable t" "healthy le t N"
  shows "run_loop le l = None"
proof (rule run_diverges [where P = "\<lambda>l'. el_transport l' = Some t \<and> loop_inv N l' \<and> el_options l' = el_options l"])
  fix l1 l2 :: "('f, 'r, 'c, 'w, 'io) event_loop" and r
  assume "el_transport l1 = Some t \<and> loop_inv N l1 \<and> el_options l1 = el_options l" "drive_connection le l1 = Some (r, l2)"
  with byte_transport.healthy_cycle [OF assms(1,4,5,9,7,8), of l1 r l2] assms(6)
  show "r = Ok () \<and> el_transport l2 = Some t \<and> loop_inv N l2 \<and> el_options l2 = el_options l" by simp
qed (use assms in simp_all)

text \<open>A broker that answers with PINGRESP, and an order of readiness that takes the branches in turn.\<close>

definition turns :: "memory_stream \<Rightarrow> select_branch \<times> memory_stream" where
  "turns w = (case ms_input w of
     [] \<Rightarrow> (Requested, w\<lparr>ms_input := [1, 0]\<rparr>)
   | b # bs \<Rightarrow> (if b = 1 then Readable else Ticked, w\<lparr>ms_input := bs\<rparr>))"

definition turns_env :: "(unit, nat, unit, memory_stream, unit) loop_env" where
  "turns_env = (greeting_env [0xD0, 0] (Pair None))\<lparr>le_select := turns\<rparr>"

lemma turns_healthy: "healthy turns_env (greeting_transport [0xD0, 0]) 64"
  unfolding healthy_def
proof (intro allI impI)
  fix l :: "(unit, nat, unit, memory_stream, unit) event_loop" and r l'
  assume l: "loop_inv 64 l" and rb: "receive_branch turns_env (greeting_transport [0xD0, 0]) 0 l = Some (r, l')"
  let ?v = "version_of l"
  have w: "wires ?v [PingResp] = [0xD0, 0]" by (cases ?v) code_simp+
  have "io_call (bt_read (greeting_transport [0xD0, 0]) 64) l = (Ok [0xD0, 0] :: (unit client_error, bytes) outcome, l)"
    by (simp add: greeting_transport_def greeting_sockets_def boxed_stream_def io_call_def)
  then have "process_received turns_env (greeting_transport [0xD0, 0]) 0 [0xD0, 0] l = Some (r, l')"
    using rb l by (simp add: receive_branch_def loop_inv_def)
  moreover have "\<exists>b. process_received turns_env (greeting_transport [0xD0, 0]) (length ([] :: bytes)) [0xD0, 0] l =
      Some (bind (run_actions turns_env (greeting_transport [0xD0, 0]) (concat (map (arrives ?v) [PingResp]))) (\<lambda>_. ret (length ([] :: bytes)))
        (l\<lparr>el_rx_buf := b\<rparr>)) \<and> take (length ([] :: bytes)) b = [] \<and> length b = length (el_rx_buf l)"
  proof (rule process_received_wires)
    show "length ([] @ [0xD0, 0 :: byte]) \<le> length (el_rx_buf l)" using l by (simp add: loop_inv_def)
    show "[] @ [0xD0, 0] = wires ?v [PingResp] @ []" by (simp only: w append_Nil append_Nil2)
    show "fst (frame_next \<lparr>fi_buffer = wires ?v [PingResp] @ [], fi_offset = length (wires ?v [PingResp])\<rparr>) = None"
      by (simp add: frame_next_def)
  qed (simp_all add: encodable_def)
  ultimately show "r = Ok 0" by auto
qed

theorem run_never_stops_witness:
  "run_loop turns_env ((sample_loop None)\<lparr>el_transport := Some (greeting_transport [0xD0, 0])\<rparr>) = None"
proof (rule run_never_stops [OF _ _ _ _ _ _ _ greeting_reliable turns_healthy])
  show "byte_transport (greeting_transport [0xD0, 0]) ms_sent"
    unfolding greeting_transport_def by (rule greeting.box_stream_contract)
  show "loop_inv 64 ((sample_loop None)\<lparr>el_transport := Some (greeting_transport [0xD0, 0])\<rparr>)"
    using loop_inv_new [of "sample_options None"] by (simp add: sample_loop_def)
qed (simp_all add: small_def turns_env_def greeting_env_def memory_env_def)

end
