(* ===== verification/Client_Sessions.thy ===== *)
theory Client_Sessions
  imports Client_Progress
begin

text \<open>
  Whole sessions of the embedded client. \<open>recording_peer\<close> is a transport that accepts everything
  and keeps a record of it (the bytes, or only their number), and whose peer answers the CONNECT with
  a CONNACK that accepts; \<open>silent_peer\<close> has nothing more to say afterwards. On such a transport
  every method succeeds, and what the transport has seen is known exactly.
\<close>

subsection \<open>The codec's part\<close>

definition connack_bytes :: bytes where
  "connack_bytes = [0x20, 0x02, 0x00, 0x00]"

lemma decode_connack:
  "decode connack_bytes v = Ok (Some (ConnAck \<lparr>ca_session_present = False, ca_reason_code = 0, ca_properties = []\<rparr>))"
  by (simp add: connack_bytes_def decode_def index_def connack_decode_def read_head_def read_variable_byte_integer_def
      read_vbi_loop.simps get_or_def read_optional_properties_def)

lemma bind_assoc: "bind (bind m f) g = bind m (\<lambda>a. bind (f a) g)"
  by (rule ext) (simp add: bind_def split: prod.splits outcome.splits)

text \<open>What sending a packet leaves as it was.\<close>

definition stays :: "'w client \<Rightarrow> 'w client \<Rightarrow> bool" where
  "stays c c' \<longleftrightarrow> io_only c c' \<and> length (cl_rx_buffer c') = length (cl_rx_buffer c)"

lemma stays_sel:
  assumes "stays c c'"
  shows "cl_options c' = cl_options c" "cl_state c' = cl_state c" "cl_next_packet_id c' = cl_next_packet_id c"
    "cl_inflight c' = cl_inflight c" "length (cl_tx_buffer c') = length (cl_tx_buffer c)"
    "length (cl_rx_buffer c') = length (cl_rx_buffer c)"
  using assms by (simp_all add: stays_def io_only_def)

lemma allocate_run:
  assumes "q = AtMostOnce \<or> length (iq_entries (cl_inflight c)) < N"
  shows "\<exists>q'. allocate_packet_id N q c = (Ok (allocated_id q (cl_next_packet_id c)),
      c\<lparr>cl_next_packet_id := id_after q (cl_next_packet_id c), cl_inflight := q'\<rparr>) \<and>
    length (iq_entries q') \<le> length (iq_entries (cl_inflight c)) + (if q = AtMostOnce then 0 else 1)"
proof (cases q)
  case AtMostOnce
  then show ?thesis by (intro exI [of _ "cl_inflight c"]) (simp add: allocate_packet_id_def allocated_id_def id_after_def)
qed (use assms in \<open>auto simp: allocate_packet_id_def allocated_id_def id_after_def next_id_def bind_def get_next_packet_id_def
    Let_def with_inflight_def track_outbound_def track_entry_def vec_push_def split: prod.splits\<close>)

lemma add_topics_Ok:
  "length (sub_topics s) + length topics \<le> 8 \<Longrightarrow> add_topics topics s = Ok (s\<lparr>sub_topics := sub_topics s @ topics\<rparr>)"
proof (induction topics arbitrary: s)
  case (Cons t topics)
  then show ?case by (cases t) (simp add: subscribe_add_topic_def vec_push_def vec_cap_def)
qed simp

subsection \<open>Batches that fit one buffer\<close>

text \<open>The room a message needs, with the four length bytes its encoder reserves.\<close>

definition message_size :: "mqtt_version \<Rightarrow> publish_message \<Rightarrow> nat" where
  "message_size v m = 7 + length (pm_topic m) + (if pm_qos m = AtMostOnce then 0 else 2) +
     (if v = V5 then 1 else 0) + length (pm_payload m)"

lemma encode_raw_fits:
  assumes "encodable p v" "packet_content p v \<noteq> []" "v = mo_version (cl_options c)"
    and "cursor + 5 + length (packet_content p v) \<le> length (cl_tx_buffer c)"
  shows "\<exists>buf. encode_raw p cursor c = (Ok (length (wire p v)), c\<lparr>cl_tx_buffer := buf\<rparr>) \<and>
    length buf = length (cl_tx_buffer c) \<and> cursor + length (wire p v) \<le> length buf \<and>
    take (cursor + length (wire p v)) buf = take cursor (cl_tx_buffer c) @ wire p v"
proof -
  have "5 + length (packet_content p v) \<le> length (drop cursor (cl_tx_buffer c))" using assms(4) by simp
  then obtain b where "encode_packet p (drop cursor (cl_tx_buffer c)) v = (Ok (length (wire p v)), b)"
    using encode_packet_Ok [OF assms(1)] by metis
  with assms(3,4) obtain c' where run: "encode_raw p cursor c = (Ok (length (wire p v)), c')"
    by (simp add: encode_raw_def Let_def del: encode_packet.simps)
  show ?thesis
  proof (rule encode_raw_wire [OF run])
    fix buf assume "c' = c\<lparr>cl_tx_buffer := buf\<rparr>" "length buf = length (cl_tx_buffer c)"
      "take (cursor + length (wire p v)) buf = take cursor (cl_tx_buffer c) @ wire p (mo_version (cl_options c))"
      "cursor + length (wire p v) \<le> length buf"
    with run assms(3) show ?thesis by (intro exI [of _ buf]) simp
  qed (use assms in simp_all)
qed

lemma batch_messages_fit:
  "small (length (cl_tx_buffer c)) \<Longrightarrow> v = mo_version (cl_options c) \<Longrightarrow> \<forall>m \<in> set ms. length (pm_topic m) \<le> 65535 \<Longrightarrow>
   cursor + sum_list (map (message_size v) ms) \<le> length (cl_tx_buffer c) \<Longrightarrow>
   length (iq_entries (cl_inflight c)) + tracked ms \<le> N \<Longrightarrow>
   \<exists>cur buf i q. batch_messages env N ms cursor k c = (Ok (cur, k + length ms),
       c\<lparr>cl_tx_buffer := buf, cl_next_packet_id := i, cl_inflight := q\<rparr>) \<and>
     length buf = length (cl_tx_buffer c) \<and> cur \<le> length buf \<and>
     take cur buf = take cursor (cl_tx_buffer c) @ batch_wire v (cl_next_packet_id c) ms"
proof (induction ms arbitrary: c cursor k)
  case Nil
  then show ?case
    by (intro exI [of _ cursor] exI [of _ "cl_tx_buffer c"] exI [of _ "cl_next_packet_id c"] exI [of _ "cl_inflight c"]) simp
next
  case (Cons m ms)
  let ?q = "pm_qos m" and ?i = "cl_next_packet_id c" and ?B = "length (cl_tx_buffer c)"
  let ?p = "publish_of m (allocated_id ?q ?i)"
  have "?q = AtMostOnce \<or> length (iq_entries (cl_inflight c)) < N"
    using Cons.prems(5) by (auto simp: tracked_def split: if_splits)
  from allocate_run [OF this] obtain q' where al: "allocate_packet_id N ?q c =
      (Ok (allocated_id ?q ?i) :: ('b mqtt_error, _) outcome, c\<lparr>cl_next_packet_id := id_after ?q ?i, cl_inflight := q'\<rparr>)"
    and q': "length (iq_entries q') \<le> length (iq_entries (cl_inflight c)) + (if ?q = AtMostOnce then 0 else 1)" by blast
  let ?c1 = "c\<lparr>cl_next_packet_id := id_after ?q ?i, cl_inflight := q'\<rparr>"
  have fits: "message_fits (message_size v m) v m" "small (message_size v m)"
    using Cons.prems(1,3,4) by (auto simp: message_fits_def message_size_def small_def)
  note p = publish_of_fits [OF fits, of ?i]
  have "packet_content ?p v \<noteq> []" by (simp add: publish_of_def)
  moreover have "cursor + 5 + length (packet_content ?p v) \<le> length (cl_tx_buffer ?c1)"
    using p Cons.prems(4) by (simp del: packet_content.simps)
  moreover have "v = mo_version (cl_options ?c1)" using Cons.prems(2) by simp
  ultimately obtain buf where e: "encode_raw ?p cursor ?c1 = (Ok (length (wire ?p v)), ?c1\<lparr>cl_tx_buffer := buf\<rparr>)"
    "length buf = ?B" "cursor + length (wire ?p v) \<le> length buf"
    "take (cursor + length (wire ?p v)) buf = take cursor (cl_tx_buffer c) @ wire ?p v"
    using encode_raw_fits [of ?p v ?c1 cursor] p by auto
  let ?c2 = "?c1\<lparr>cl_tx_buffer := buf\<rparr>" and ?cur = "cursor + length (wire ?p v)"
  have msg: "batch_message env N m cursor c = (Ok ?cur, ?c2)"
    using al e(1) by (simp add: batch_message_def batch_encode_def publish_of_def)
  have "length (wire ?p v) \<le> message_size v m"
    using p length_vbi_le_4 [of "length (packet_content ?p v)"] by (simp add: wire_def frame_def encodable_def publish_of_def)
  then have "?cur + sum_list (map (message_size v) ms) \<le> length (cl_tx_buffer ?c2)"
    using Cons.prems(4) e(2) by simp
  moreover have "length (iq_entries (cl_inflight ?c2)) + tracked ms \<le> N"
    using q' Cons.prems(5) by (auto simp: tracked_def split: if_splits)
  ultimately obtain cur b i q where "batch_messages env N ms ?cur (k + 1) ?c2 = (Ok (cur, k + 1 + length ms),
       ?c2\<lparr>cl_tx_buffer := b, cl_next_packet_id := i, cl_inflight := q\<rparr>)" "length b = length (cl_tx_buffer ?c2)"
     "cur \<le> length b" "take cur b = take ?cur (cl_tx_buffer ?c2) @ batch_wire v (cl_next_packet_id ?c2) ms"
    using Cons.IH [of ?c2 ?cur "k + 1"] Cons.prems(1-3) e(2) by auto
  with msg e show ?case
    by (intro exI [of _ cur] exI [of _ b] exI [of _ i] exI [of _ q]) (simp add: publish_of_def)
qed

subsection \<open>Receiving a burst\<close>

text \<open>QoS 0 messages need no answer: \<open>poll_batch\<close> hands them out, up to its limit, and sends nothing.\<close>

definition quiet :: "mqtt_version \<Rightarrow> publish \<Rightarrow> bool" where
  "quiet v p \<longleftrightarrow> pub_qos p = AtMostOnce \<and> encodable (Publish p) v \<and> wf_packet (Publish p) v \<and>
     wire_view (Publish p) v = Publish p"

definition burst :: "mqtt_version \<Rightarrow> publish list \<Rightarrow> bytes" where
  "burst v ps = concat (map (\<lambda>p. wire (Publish p) v) ps)"

lemma batch_frames_burst:
  assumes "v = mo_version (cl_options c)"
  shows "\<forall>p \<in> set ps. quiet v p \<Longrightarrow> drop (fi_offset it) (fi_buffer it) = burst v ps \<Longrightarrow> length evs \<le> m \<Longrightarrow>
    batch_frames env N m it evs c = (Ok (take m (evs @ map PublishEvent ps)), c)"
proof (induction ps arbitrary: it evs)
  case Nil
  then have "fst (frame_next it) = None" by (simp add: burst_def frame_next_def)
  with Nil(3) show ?case by (subst batch_frames.simps) (auto split: prod.splits)
next
  case (Cons p ps)
  let ?f = "wire (Publish p) v"
  have q: "pub_qos p = AtMostOnce" "encodable (Publish p) v" "wf_packet (Publish p) v" "wire_view (Publish p) v = Publish p"
    using Cons.prems(1) by (auto simp: quiet_def)
  have step: "frame_next it = (Some (Ok ?f), it\<lparr>fi_offset := fi_offset it + length ?f\<rparr>)"
    using frame_next_frame [of it "first_byte (Publish p)" "packet_content (Publish p) v" "burst v ps"] q(2) Cons.prems(2)
    by (simp add: burst_def wire_def encodable_def del: packet_content.simps first_byte.simps)
  have "decode ?f v = Ok (Some (Publish p))" using decode_wire_append [OF q(2,3), of "[]"] q(4) by simp
  then have frame: "batch_frame env N m ?f evs c = (Ok (push_or_keep m evs (PublishEvent p)), c)"
    using assms q(1) by (simp add: batch_frame_def bind_def acknowledge_publish_def)
  have "drop (fi_offset (it\<lparr>fi_offset := fi_offset it + length ?f\<rparr>)) (fi_buffer (it\<lparr>fi_offset := fi_offset it + length ?f\<rparr>)) =
      drop (length ?f) (burst v (p # ps))"
    unfolding Cons.prems(2) [symmetric] by (simp add: add.commute)
  also have "\<dots> = burst v ps" by (simp add: burst_def)
  finally have rest: "drop (fi_offset (it\<lparr>fi_offset := fi_offset it + length ?f\<rparr>))
      (fi_buffer (it\<lparr>fi_offset := fi_offset it + length ?f\<rparr>)) = burst v ps" .
  have len: "length (push_or_keep m evs (PublishEvent p)) \<le> m" using Cons.prems(3) by (simp add: push_or_keep_def vec_push_def)
  have keep: "take m (push_or_keep m evs (PublishEvent p) @ es) = take m (evs @ PublishEvent p # es)" for es
    using Cons.prems(3) by (simp add: push_or_keep_def vec_push_def take_Cons' Suc_diff_Suc)
  show ?case
    using Cons.IH [OF _ rest len] Cons.prems(1) step frame keep
    by (subst batch_frames.simps) simp
qed

lemma poll_batch_burst:
  assumes "cl_state c = ClientConnected" "v = mo_version (cl_options c)" "\<forall>p \<in> set ps. quiet v p" "ps \<noteq> []"
    and "tr_recv env (cl_rx_buffer c) (cl_transport c) = ((Ok (length (burst v ps)), buf), w)"
    and "take (length (burst v ps)) buf = burst v ps" "length buf = length (cl_rx_buffer c)"
  shows "\<exists>c'. poll_batch env N m c = (Ok (take m (map PublishEvent ps)), c') \<and> cl_transport c' = w \<and> stays c c'"
proof -
  define n where "n = length (burst v ps)"
  let ?c = "c\<lparr>cl_rx_buffer := buf, cl_transport := w, cl_rx_len := n, cl_readings := cl_readings c + 1,
    cl_last_rx_time := env_now env (cl_readings c)\<rparr>"
  have n: "n \<noteq> 0" using assms(4) by (cases ps) (simp_all add: n_def burst_def wire_def frame_def)
  have recv: "receive_rx env c = (Ok n, ?c)"
    using assms(5) [folded n_def] n by (simp add: receive_rx_def bind_def recv_rx_def touch_rx_def read_clock_def)
  have len: "n \<le> length buf" "take n buf = burst v ps"
    using assms(6) by (metis length_take min.cobounded1 n_def) (simp add: n_def assms(6))
  have "batch_frames env N m (frame_iter_new (burst v ps)) [] ?c = (Ok (take m ([] @ map PublishEvent ps)), ?c)"
    by (rule batch_frames_burst) (use assms(2,3) in \<open>simp_all add: frame_iter_new_def\<close>)
  then have "poll_batch env N m c = (Ok (take m (map PublishEvent ps)), ?c)"
    using assms(1) recv n len by (simp add: poll_batch_def require_connected_def subslice_def bind_def)
  moreover have "stays c ?c" using assms(7) by (simp add: stays_def io_only_def)
  ultimately show ?thesis by (intro exI [of _ ?c]) simp
qed

subsection \<open>The variable header of a stream\<close>

text \<open>It is laid out in a buffer of 256 bytes. A topic that does not fit is an error, but the packet
  id and the empty properties behind a topic that just fits are written without a check.\<close>

lemma stream_variable_header_fit:
  assumes "length (stream_header topic pid v) \<le> 256"
  shows "stream_variable_header topic pid v = Ok (stream_header topic pid v)"
proof -
  have fits: "length topic \<le> 65535" "length (stream_head topic pid) \<le> 256"
    using assms by (auto simp: stream_header_def split: option.splits)
  have "length (overwrite 0 (stream_head topic pid) (replicate 256 0)) = 256"
    using fits(2) by (intro trans [OF length_overwrite]) simp_all
  then have "\<exists>h. stream_variable_header topic pid v = Ok h"
    unfolding stream_variable_header_head [OF fits] Let_def
    using assms fits by (auto simp: stream_header_def subslice_def split: option.splits)
  then show ?thesis using stream_variable_header_Ok by blast
qed

lemma stream_variable_header_too_small:
  assumes "255 \<le> length topic" "length topic \<le> 65535"
  shows "stream_variable_header topic pid v = Err BufferTooSmall"
  using assms by (simp add: stream_variable_header_def write_utf8_string_def Let_def)

lemma stream_variable_header_panics:
  assumes "length topic \<le> 254" "256 < length (stream_header topic pid v)"
  shows "stream_variable_header topic pid v = Panic"
proof (cases "length (stream_head topic pid) \<le> 256")
  case True
  with assms show ?thesis
    by (subst stream_variable_header_head) (auto simp: stream_header_def Let_def split: if_splits)
next
  case False
  with assms(1) obtain p where "pid = Some p" "253 \<le> length topic" by (cases pid) auto
  with assms(1) show ?thesis by (simp add: stream_variable_header_def write_utf8_string_def Let_def)
qed

definition stream_header_outcome :: "str \<Rightarrow> u16 option \<Rightarrow> mqtt_version \<Rightarrow> (packet_error, bytes) outcome" where
  "stream_header_outcome topic pid v =
     (if length (stream_header topic pid v) \<le> 256 then Ok (stream_header topic pid v)
      else if length topic \<le> 254 then Panic else Err BufferTooSmall)"

lemma stream_variable_header_outcome:
  "length topic \<le> 65535 \<Longrightarrow> stream_variable_header topic pid v = stream_header_outcome topic pid v"
  using stream_variable_header_fit stream_variable_header_too_small stream_variable_header_panics
  by (auto simp: stream_header_outcome_def not_le)

subsection \<open>Recording transports\<close>

locale recording_peer =
  fixes env :: "('w, 't) env" and seen :: "'w \<Rightarrow> 'l" and noted :: "bytes \<Rightarrow> 'l \<Rightarrow> 'l"
    and greets greeted :: "'w \<Rightarrow> bool"
  assumes accepts: "\<exists>w'. tr_send env b w = (Ok (), w') \<and> seen w' = noted b (seen w) \<and>
      greets w' = greets w \<and> greeted w' = greeted w"
    and greeting: "greets w \<Longrightarrow> 4 \<le> length buf \<Longrightarrow>
      \<exists>w'. tr_recv env buf w = ((Ok 4, overwrite 0 connack_bytes buf), w') \<and> seen w' = seen w \<and> greeted w'"
begin

lemma up: "transport_up env"
  unfolding transport_up_def using accepts by (metis fst_conv)

lemma send_tx_seen:
  assumes "n \<le> length (cl_tx_buffer c)"
  shows "\<exists>w. send_tx env n c = (Ok (), c\<lparr>cl_transport := w\<rparr>) \<and>
    seen w = noted (take n (cl_tx_buffer c)) (seen (cl_transport c)) \<and>
    greets w = greets (cl_transport c) \<and> greeted w = greeted (cl_transport c)"
proof -
  obtain w where "tr_send env (take n (cl_tx_buffer c)) (cl_transport c) = (Ok (), w)"
    "seen w = noted (take n (cl_tx_buffer c)) (seen (cl_transport c))"
    "greets w = greets (cl_transport c)" "greeted w = greeted (cl_transport c)" using accepts by blast
  then show ?thesis using assms
    by (intro exI [of _ w]) (simp add: send_tx_def bind_def subslice_def send_bytes_def)
qed

text \<open>Encoding a packet, sending it and noting the time.\<close>

lemma send_step:
  assumes "encodable p v" "5 + length (packet_content p v) \<le> length (cl_tx_buffer c)" "v = mo_version (cl_options c)"
  shows "\<exists>c'. bind (encode_tx p 0) (\<lambda>len. bind (send_tx env len) (\<lambda>_. touch_tx env)) c = (Ok (), c') \<and>
    stays c c' \<and> cl_readings c' = cl_readings c + 1 \<and> cl_last_tx_time c' = env_now env (cl_readings c) \<and>
    seen (cl_transport c') = noted (wire p v) (seen (cl_transport c)) \<and>
    greets (cl_transport c') = greets (cl_transport c) \<and> greeted (cl_transport c') = greeted (cl_transport c)"
proof -
  from encode_tx_ready [OF assms] obtain buf where e: "length buf = length (cl_tx_buffer c)"
    "take (length (wire p v)) buf = wire p v"
    "encode_tx p 0 c = (Ok (length (wire p v)) :: ('t mqtt_error, _) outcome, c\<lparr>cl_tx_buffer := buf\<rparr>)" by blast
  from arg_cong [OF e(2), of length] have "length (wire p v) \<le> length buf" by simp
  with send_tx_seen [of "length (wire p v)" "c\<lparr>cl_tx_buffer := buf\<rparr>"] e(2) obtain w where
    "send_tx env (length (wire p v)) (c\<lparr>cl_tx_buffer := buf\<rparr>) = (Ok (), c\<lparr>cl_tx_buffer := buf, cl_transport := w\<rparr>)"
    "seen w = noted (wire p v) (seen (cl_transport c))" "greets w = greets (cl_transport c)"
    "greeted w = greeted (cl_transport c)" by auto
  with e(1,3) show ?thesis
    by (simp add: touch_tx_def bind_def read_clock_def stays_def io_only_def)
qed

subsection \<open>The methods\<close>

lemma connect_succeeds:
  fixes c :: "'w client"
  defines "p \<equiv> Connect (connect_packet (env_tick_hz env) (cl_options c))" and "v \<equiv> mo_version (cl_options c)"
  assumes "greets (cl_transport c)" "encodable p v" "5 + length (packet_content p v) \<le> length (cl_tx_buffer c)"
    and "4 \<le> length (cl_rx_buffer c)"
  shows "\<exists>c'. client_connect env c = (Ok (), c') \<and> cl_state c' = ClientConnected \<and> iq_entries (cl_inflight c') = [] \<and>
    cl_options c' = cl_options c \<and> cl_next_packet_id c' = cl_next_packet_id c \<and>
    length (cl_tx_buffer c') = length (cl_tx_buffer c) \<and> length (cl_rx_buffer c') = length (cl_rx_buffer c) \<and>
    cl_readings c' = cl_readings c + 2 \<and> cl_last_tx_time c' = env_now env (cl_readings c) \<and>
    seen (cl_transport c') = noted (wire p v) (seen (cl_transport c)) \<and> greeted (cl_transport c')"
proof -
  let ?c0 = "c\<lparr>cl_state := ClientConnecting\<rparr>"
  have "5 + length (packet_content p v) \<le> length (cl_tx_buffer ?c0)" "v = mo_version (cl_options ?c0)"
    using assms(5) by (simp_all add: v_def)
  from send_step [OF assms(4) this] obtain c1 where
    1: "bind (encode_tx p 0) (\<lambda>len. bind (send_tx env len) (\<lambda>_. touch_tx env)) ?c0 = (Ok (), c1)"
    and c1: "stays ?c0 c1" "cl_readings c1 = cl_readings c + 1" "cl_last_tx_time c1 = env_now env (cl_readings c)"
      "seen (cl_transport c1) = noted (wire p v) (seen (cl_transport c))" "greets (cl_transport c1)"
    using assms(3) by auto
  note s = stays_sel [OF c1(1)]
  from greeting [OF c1(5), of "cl_rx_buffer c1"] s(6) assms(6) obtain w where
    w: "tr_recv env (cl_rx_buffer c1) (cl_transport c1) = ((Ok 4, overwrite 0 connack_bytes (cl_rx_buffer c1)), w)"
      "seen w = seen (cl_transport c1)" "greeted w" by auto
  have buf: "length (overwrite 0 connack_bytes (cl_rx_buffer c1)) = length (cl_rx_buffer c)"
    "take 4 (overwrite 0 connack_bytes (cl_rx_buffer c1)) = connack_bytes"
    using s(6) assms(6) by (simp_all add: overwrite_def connack_bytes_def)
  have "client_connect env c = bind (bind (encode_tx p 0) (\<lambda>len. bind (send_tx env len) (\<lambda>_. touch_tx env)))
      (\<lambda>_. bind (recv_rx env) (\<lambda>read_len.
       if read_len = 0 then bind (set_state ClientDisconnected) (\<lambda>_. throw NotConnected)
       else bind (touch_rx env) (\<lambda>_. bind (decode_rx read_len) connect_reply))) ?c0"
    by (simp add: client_connect_def bind_assoc p_def set_state_def)
  then have run: "client_connect env c = (bind (recv_rx env) (\<lambda>read_len.
       if read_len = 0 then bind (set_state ClientDisconnected) (\<lambda>_. throw NotConnected)
       else bind (touch_rx env) (\<lambda>_. bind (decode_rx read_len) connect_reply))) c1"
    unfolding bind_apply(1) [of "bind (encode_tx p 0) (\<lambda>len. bind (send_tx env len) (\<lambda>_. touch_tx env))", OF 1] .
  show ?thesis unfolding run
    using w buf s c1 assms(6) decode_connack
    by (simp add: recv_rx_def bind_def touch_rx_def read_clock_def decode_rx_def subslice_def connect_reply_def
        set_state_def inflight_clear_def)
qed

lemma publish_succeeds:
  assumes "small (length (cl_tx_buffer c))" "cl_state c = ClientConnected"
    and "message_fits (length (cl_tx_buffer c)) (mo_version (cl_options c)) (publish_message_new topic payload q)"
    and "q = AtMostOnce \<or> length (iq_entries (cl_inflight c)) < N"
  shows "\<exists>c'. client_publish env N topic payload q c = (Ok (), c') \<and> cl_state c' = ClientConnected \<and>
    cl_options c' = cl_options c \<and> length (cl_tx_buffer c') = length (cl_tx_buffer c) \<and>
    cl_next_packet_id c' = id_after q (cl_next_packet_id c) \<and>
    seen (cl_transport c') = noted (wire (Publish (outgoing_publish topic payload q
      (allocated_id q (cl_next_packet_id c)) False)) (mo_version (cl_options c))) (seen (cl_transport c))"
proof -
  let ?p = "publish_of (publish_message_new topic payload q) (allocated_id q (cl_next_packet_id c))"
  from allocate_run [OF assms(4)] obtain q' where
    al: "allocate_packet_id N q c = (Ok (allocated_id q (cl_next_packet_id c)) :: ('t mqtt_error, _) outcome,
      c\<lparr>cl_next_packet_id := id_after q (cl_next_packet_id c), cl_inflight := q'\<rparr>)" by blast
  define c1 where "c1 = c\<lparr>cl_next_packet_id := id_after q (cl_next_packet_id c), cl_inflight := q'\<rparr>"
  have c1: "cl_transport c1 = cl_transport c" "cl_options c1 = cl_options c" "cl_state c1 = cl_state c"
      "cl_tx_buffer c1 = cl_tx_buffer c" "cl_next_packet_id c1 = id_after q (cl_next_packet_id c)"
    by (simp_all add: c1_def)
  from publish_of_fits [OF assms(3,1), of "cl_next_packet_id c"]
  have p: "encodable ?p (mo_version (cl_options c))"
    "5 + length (packet_content ?p (mo_version (cl_options c))) \<le> length (cl_tx_buffer c1)"
    using c1 by (simp_all add: publish_message_new_def del: packet_content.simps)
  have "mo_version (cl_options c) = mo_version (cl_options c1)" using c1 by simp
  from send_step [OF p this] obtain c2 where
    "bind (encode_tx ?p 0) (\<lambda>len. bind (send_tx env len) (\<lambda>_. touch_tx env)) c1 = (Ok (), c2)"
    "stays c1 c2" "seen (cl_transport c2) = noted (wire ?p (mo_version (cl_options c))) (seen (cl_transport c1))"
    by blast
  with al [folded c1_def] c1 assms(2) show ?thesis
    by (auto simp: client_publish_def require_connected_def publish_of_def publish_message_new_def dest: stays_sel)
qed

lemma subscribe_succeeds:
  fixes c :: "'w client" and topics :: "(str \<times> qos) list"
  defines "v \<equiv> mo_version (cl_options c)" and "p \<equiv> Subscribe ((subscribe_new (cl_next_packet_id c))\<lparr>sub_topics := topics\<rparr>)"
  assumes "cl_state c = ClientConnected" "length topics \<le> 8" "encodable p v"
    and "5 + length (packet_content p v) \<le> length (cl_tx_buffer c)"
  shows "\<exists>c'. client_subscribe env topics c = (Ok (cl_next_packet_id c), c') \<and> cl_state c' = ClientConnected \<and>
    cl_options c' = cl_options c \<and> cl_inflight c' = cl_inflight c \<and> length (cl_tx_buffer c') = length (cl_tx_buffer c) \<and>
    cl_next_packet_id c' = next_id (cl_next_packet_id c) \<and>
    seen (cl_transport c') = noted (wire p v) (seen (cl_transport c))"
proof -
  define c1 where "c1 = c\<lparr>cl_next_packet_id := next_id (cl_next_packet_id c)\<rparr>"
  have c1: "cl_transport c1 = cl_transport c" "cl_options c1 = cl_options c" "cl_state c1 = cl_state c"
      "cl_inflight c1 = cl_inflight c" "cl_tx_buffer c1 = cl_tx_buffer c" "cl_next_packet_id c1 = next_id (cl_next_packet_id c)"
    by (simp_all add: c1_def)
  have get: "get_next_packet_id c = (Ok (cl_next_packet_id c) :: ('t mqtt_error, _) outcome, c1)"
    by (simp add: c1_def get_next_packet_id_def next_id_def Let_def)
  have add: "add_topics topics (subscribe_new i) = Ok ((subscribe_new i)\<lparr>sub_topics := topics\<rparr>)" for i
    using add_topics_Ok [of "subscribe_new i" topics] assms(4) by (simp add: subscribe_new_def)
  have "5 + length (packet_content p v) \<le> length (cl_tx_buffer c1)" "v = mo_version (cl_options c1)"
    using assms(6) c1 v_def by simp_all
  from send_step [OF assms(5) this] obtain c2 where
    "bind (encode_tx p 0) (\<lambda>len. bind (send_tx env len) (\<lambda>_. touch_tx env)) c1 = (Ok (), c2)"
    "stays c1 c2" "seen (cl_transport c2) = noted (wire p v) (seen (cl_transport c1))" by blast
  then have "bind (encode_tx p 0) (\<lambda>len. bind (send_tx env len) (\<lambda>_. bind (touch_tx env) (\<lambda>_. ret (cl_next_packet_id c)))) c1 =
      (Ok (cl_next_packet_id c), c2)" by (simp flip: bind_assoc add: bind_Ok)
  with get add assms(3) c1 \<open>stays c1 c2\<close> \<open>seen (cl_transport c2) = _\<close> show ?thesis
    by (auto simp: client_subscribe_def require_connected_def p_def dest: stays_sel)
qed

lemma disconnect_succeeds:
  assumes "cl_state c = ClientConnected" "5 \<le> length (cl_tx_buffer c)"
  shows "\<exists>c'. client_disconnect env c = (Ok (), c') \<and> cl_state c' = ClientDisconnected \<and>
    seen (cl_transport c') = noted [0xE0, 0] (seen (cl_transport c))"
proof -
  let ?p = "Disconnect disconnect_new" and ?v = "mo_version (cl_options c)"
  have d: "packet_content ?p ?v = []" "wire ?p ?v = [0xE0, 0]"
    by (simp_all add: disconnect_new_def reason_content_def wire_def frame_def vbi.simps)
  have e: "encodable ?p ?v" using d(1) by (simp add: encodable_def)
  from encode_tx_ready [OF e, of c] d assms(2) obtain buf where b: "length buf = length (cl_tx_buffer c)"
    "take 2 buf = [0xE0, 0]" "encode_tx ?p 0 c = (Ok 2 :: ('t mqtt_error, _) outcome, c\<lparr>cl_tx_buffer := buf\<rparr>)"
    by (auto simp: numeral_2_eq_2)
  from send_tx_seen [of 2 "c\<lparr>cl_tx_buffer := buf\<rparr>"] b assms(2) obtain w where
    "send_tx env 2 (c\<lparr>cl_tx_buffer := buf\<rparr>) = (Ok (), c\<lparr>cl_tx_buffer := buf, cl_transport := w\<rparr>)"
    "seen w = noted [0xE0, 0] (seen (cl_transport c))" by auto
  with b assms(1) show ?thesis
    by (simp add: client_disconnect_def send_packet_def bind_assoc set_state_def)
qed

lemma batch_run:
  assumes "small (length (cl_tx_buffer c))" "cl_state c = ClientConnected" "ms \<noteq> []"
    and "\<forall>m \<in> set ms. length (pm_topic m) \<le> 65535"
    and "sum_list (map (message_size (mo_version (cl_options c))) ms) \<le> length (cl_tx_buffer c)"
    and "length (iq_entries (cl_inflight c)) + tracked ms \<le> N"
  shows "\<exists>c'. publish_batch env N ms c = (Ok (length ms), c') \<and> cl_state c' = ClientConnected \<and>
    cl_options c' = cl_options c \<and> length (cl_tx_buffer c') = length (cl_tx_buffer c) \<and>
    cl_rx_buffer c' = cl_rx_buffer c \<and> cl_readings c' = cl_readings c + 1 \<and>
    cl_last_tx_time c' = env_now env (cl_readings c) \<and>
    seen (cl_transport c') = noted (batch_wire (mo_version (cl_options c)) (cl_next_packet_id c) ms) (seen (cl_transport c)) \<and>
    greets (cl_transport c') = greets (cl_transport c) \<and> greeted (cl_transport c') = greeted (cl_transport c)"
proof -
  let ?v = "mo_version (cl_options c)" and ?i = "cl_next_packet_id c"
  from batch_messages_fit [OF assms(1) refl assms(4), where env = env and N = N and cursor = 0 and k = 0] assms(5,6) obtain cur buf i q where
    b: "batch_messages env N ms 0 0 c = (Ok (cur, length ms) :: ('t mqtt_error, _) outcome,
      c\<lparr>cl_tx_buffer := buf, cl_next_packet_id := i, cl_inflight := q\<rparr>)"
    "length buf = length (cl_tx_buffer c)" "cur \<le> length buf" "take cur buf = batch_wire ?v ?i ms" by auto
  let ?c1 = "c\<lparr>cl_tx_buffer := buf, cl_next_packet_id := i, cl_inflight := q\<rparr>"
  have "cur \<noteq> 0" using b(4) assms(3) by (cases ms; cases cur) (auto simp: wire_def frame_def)
  moreover from send_tx_seen [of cur ?c1] b(3) obtain w where
    "send_tx env cur ?c1 = (Ok (), ?c1\<lparr>cl_transport := w\<rparr>)" "seen w = noted (take cur buf) (seen (cl_transport c))"
    "greets w = greets (cl_transport c)" "greeted w = greeted (cl_transport c)" by auto
  ultimately show ?thesis using b assms(2)
    by (simp add: publish_batch_def require_connected_def bind_def touch_tx_def read_clock_def)
qed

subsection \<open>Streams\<close>

text \<open>The fixed header is sent before the variable header is laid out.\<close>

lemma begin_stream_run:
  assumes "cl_state c = ClientConnected" "q = AtMostOnce \<or> length (iq_entries (cl_inflight c)) < N"
  defines "pid \<equiv> allocated_id q (cl_next_packet_id c)" and "v \<equiv> mo_version (cl_options c)"
  assumes "stream_fixed_header q (2 + length topic + (if pid \<noteq> None then 2 else 0) + (if v = V5 then 1 else 0) + tot) = Ok h"
    and "length topic \<le> 65535"
  shows "\<exists>c'. begin_stream_publish env N topic tot q c =
      (case stream_header_outcome topic pid v of Ok _ \<Rightarrow> Ok (stream_writer_new (cl_transport c') tot)
       | Err e \<Rightarrow> Err (mqtt_error_from e) | Panic \<Rightarrow> Panic, c') \<and>
    seen (cl_transport c') = (case stream_header_outcome topic pid v of
       Ok var \<Rightarrow> noted var (noted h (seen (cl_transport c))) | _ \<Rightarrow> noted h (seen (cl_transport c)))"
proof -
  from allocate_run [OF assms(2)] obtain q' where
    al: "allocate_packet_id N q c = (Ok pid :: ('t mqtt_error, _) outcome,
      c\<lparr>cl_next_packet_id := id_after q (cl_next_packet_id c), cl_inflight := q'\<rparr>)" unfolding pid_def by blast
  obtain w1 where w1: "tr_send env h (cl_transport c) = (Ok (), w1)" "seen w1 = noted h (seen (cl_transport c))"
    using accepts by blast
  note var = stream_variable_header_outcome [OF assms(6), of pid v]
  show ?thesis
  proof (cases "stream_header_outcome topic pid v")
    case (Ok h2)
    obtain w2 where w2: "tr_send env h2 w1 = (Ok (), w2)" "seen w2 = noted h2 (seen w1)" using accepts by blast
    show ?thesis
      using assms(1,5) al w1 w2 Ok var unfolding begin_stream_publish_def v_def
      by (simp add: require_connected_def bind_def send_bytes_def touch_tx_def read_clock_def Let_def)
  qed (use assms(1,5) al w1 var in \<open>simp_all add: begin_stream_publish_def v_def require_connected_def bind_def
      send_bytes_def Let_def\<close>)
qed

lemma write_chunk_run:
  assumes "length b \<le> sw_bytes_remaining wr"
  shows "\<exists>wr'. write_chunk env b wr = (Ok (), wr') \<and> sw_bytes_remaining wr' = sw_bytes_remaining wr - length b \<and>
    seen (sw_transport wr') = noted b (seen (sw_transport wr))"
proof -
  obtain w where "tr_send env b (sw_transport wr) = (Ok (), w)" "seen w = noted b (seen (sw_transport wr))"
    using accepts by blast
  with assms show ?thesis by (simp add: write_chunk_def)
qed

end

text \<open>A peer that says nothing after its CONNACK: \<open>poll\<close> finds nothing, and pings when half of the
  keep-alive interval has passed since the last packet sent.\<close>

locale silent_peer = recording_peer env seen noted greets greeted
  for env :: "('w, 't) env" and seen :: "'w \<Rightarrow> 'l" and noted greets greeted +
  assumes silent: "greeted w \<Longrightarrow> \<exists>w'. tr_recv env buf w = ((Ok 0, buf), w') \<and> seen w' = seen w \<and> greeted w'"
begin

definition ping_due :: "'w client \<Rightarrow> bool" where
  "ping_due c \<longleftrightarrow> mo_keep_alive (cl_options c) div 2 \<le> env_now env (cl_readings c) - cl_last_tx_time c"

lemma poll_run:
  assumes "cl_state c = ClientConnected" "greeted (cl_transport c)" "cl_last_tx_time c \<le> env_now env (cl_readings c)"
    and "2 \<le> length (cl_tx_buffer c)"
  shows "\<exists>c'. client_poll env N c = (Ok None, c') \<and> cl_state c' = ClientConnected \<and>
    length (cl_tx_buffer c') = length (cl_tx_buffer c) \<and>
    seen (cl_transport c') = (if ping_due c then noted [0xC0, 0] (seen (cl_transport c)) else seen (cl_transport c))"
proof -
  let ?c = "c\<lparr>cl_readings := cl_readings c + 1\<rparr>"
  have "\<exists>c1. keep_alive_ping env c = (Ok (), c1) \<and> cl_state c1 = ClientConnected \<and> greeted (cl_transport c1) \<and>
      length (cl_tx_buffer c1) = length (cl_tx_buffer c) \<and>
      seen (cl_transport c1) = (if ping_due c then noted [0xC0, 0] (seen (cl_transport c)) else seen (cl_transport c))"
  proof (cases "ping_due c")
    case True
    obtain b0 b1 tl where tx: "cl_tx_buffer c = b0 # b1 # tl" using assms(4) by (cases "cl_tx_buffer c"; cases "List.tl (cl_tx_buffer c)") auto
    have enc: "encode_tx PingReq 0 ?c = (Ok 2 :: ('t mqtt_error, _) outcome, ?c\<lparr>cl_tx_buffer := 0xC0 # 0 # tl\<rparr>)"
      by (simp add: encode_tx_def encode_raw_def Let_def tx pingreq_encode_def)
    from send_tx_seen [of 2 "?c\<lparr>cl_tx_buffer := 0xC0 # 0 # tl\<rparr>"] obtain w where
      snd: "send_tx env 2 (?c\<lparr>cl_tx_buffer := 0xC0 # 0 # tl\<rparr>) = (Ok (), ?c\<lparr>cl_tx_buffer := 0xC0 # 0 # tl, cl_transport := w\<rparr>)"
      and w: "seen w = noted [0xC0, 0] (seen (cl_transport c))" "greeted w" using assms(2) by auto
    from snd have "send_packet env PingReq ?c = (Ok (), ?c\<lparr>cl_tx_buffer := 0xC0 # 0 # tl, cl_transport := w\<rparr>)"
      unfolding send_packet_def bind_apply(1) [of "encode_tx PingReq 0", OF enc] by simp
    then show ?thesis using True assms(1,3) tx w
      by (simp add: keep_alive_ping_def bind_def read_clock_def ping_due_def)
  next
    case False
    with assms show ?thesis by (simp add: keep_alive_ping_def bind_def read_clock_def ping_due_def)
  qed
  then obtain c1 where c1: "keep_alive_ping env c = (Ok () :: ('t mqtt_error, _) outcome, c1)" "cl_state c1 = ClientConnected"
    "greeted (cl_transport c1)" "length (cl_tx_buffer c1) = length (cl_tx_buffer c)"
    "seen (cl_transport c1) = (if ping_due c then noted [0xC0, 0] (seen (cl_transport c)) else seen (cl_transport c))" by blast
  from silent [OF c1(3), of "cl_rx_buffer c1"] obtain w where
    "tr_recv env (cl_rx_buffer c1) (cl_transport c1) = ((Ok 0, cl_rx_buffer c1), w)" "seen w = seen (cl_transport c1)" by blast
  with c1 assms(1) show ?thesis
    by (simp add: client_poll_def require_connected_def receive_rx_def recv_rx_def bind_def)
qed

end

end
