(* ===== verification/Session_Theorems.thy ===== *)
theory Session_Theorems
  imports Client_Sessions Client_Theorems
begin

text \<open>
  What \<open>begin_stream_publish\<close> of the embedded client does on each of its branches, and the limits of its two
  headers.
\<close>

lemma stream_fixed_header_fits:
  assumes "length (vbi n) \<le> 15"
  shows "stream_fixed_header q n = Ok ((0x30 OR push_bit 1 (qos_to_u8 q)) # vbi n)"
proof -
  let ?h = "0x30 OR push_bit 1 (qos_to_u8 q) :: byte"
  have hb: "(replicate 16 0)[0 := ?h] = ?h # replicate 15 0" by (simp add: numeral_eq_Suc)
  have "write_variable_byte_integer_len (replicate 15 0) n = (Ok (length (vbi n)), overwrite 0 (vbi n) (replicate 15 0))"
    by (rule write_vbi_len) (use assms in simp)
  with assms show ?thesis unfolding stream_fixed_header_def Let_def hb by (simp add: subslice_def overwrite_def)
qed

text \<open>A remaining length that a machine word holds takes at most ten bytes.\<close>

lemma length_vbi_bound: "n < 128 ^ k \<Longrightarrow> 0 < k \<Longrightarrow> length (vbi n) \<le> k"
proof (induction k arbitrary: n)
  case (Suc k)
  show ?case
  proof (cases "n < 128")
    case False
    with Suc.prems(1) have "0 < k" by (cases k) simp_all
    moreover have "n div 128 < 128 ^ k" using Suc.prems(1) by (simp add: less_mult_imp_div_less)
    ultimately show ?thesis using Suc.IH [of "n div 128"] False by (simp add: vbi.simps [of n])
  qed (simp add: vbi.simps [of n])
qed simp

lemma allocate_full:
  assumes "q \<noteq> AtMostOnce" "N \<le> length (iq_entries (cl_inflight c))"
    and "cl_next_packet_id c \<notin> ie_packet_id ` set (iq_entries (cl_inflight c))"
  shows "\<exists>c'. allocate_packet_id N q c = (Err InflightQueueFull, c') \<and> cl_transport c' = cl_transport c"
  using assms by (cases q) (auto simp: allocate_packet_id_def bind_def get_next_packet_id_def Let_def with_inflight_def
    track_outbound_def track_entry_def vec_push_def list_ex_iff image_iff)

lemma allocate_tracked:
  assumes "q = AtMostOnce \<or> length (iq_entries (cl_inflight c)) < N \<or>
    cl_next_packet_id c \<in> ie_packet_id ` set (iq_entries (cl_inflight c))"
  shows "\<exists>q'. allocate_packet_id N q c = (Ok (allocated_id q (cl_next_packet_id c)),
    c\<lparr>cl_next_packet_id := id_after q (cl_next_packet_id c), cl_inflight := q'\<rparr>)"
proof (cases q)
  case AtMostOnce
  then show ?thesis by (intro exI [of _ "cl_inflight c"]) (simp add: allocate_packet_id_def allocated_id_def id_after_def)
qed (use assms in \<open>auto simp: allocate_packet_id_def allocated_id_def id_after_def next_id_def bind_def get_next_packet_id_def
    Let_def with_inflight_def track_outbound_def track_entry_def vec_push_def list_ex_iff image_iff split: prod.splits\<close>)

lemma stream_variable_header_result:
  "stream_variable_header topic pid v =
    (if length (stream_header topic pid v) \<le> 256 then Ok (stream_header topic pid v)
     else if length topic \<le> 254 then Panic
     else if length topic \<le> 65535 then Err BufferTooSmall else Err PayloadTooLarge)"
proof (cases "length topic \<le> 65535")
  case True
  then show ?thesis by (simp add: stream_variable_header_outcome stream_header_outcome_def)
next
  case False
  then show ?thesis by (simp add: stream_variable_header_def write_utf8_string_def stream_header_def)
qed

text \<open>C35. What \<open>begin_stream_publish\<close> does on every branch, for any transport, as long as the remaining length
  fits a 64-bit \<open>usize\<close>. A client that is not connected, or whose table is full, sends nothing. Otherwise the fixed
  header with the length of the whole packet is sent first, and the variable header, laid out in a buffer of 256
  bytes, second. When it fits, the writer handed out expects exactly the payload; when it does not, the call
  panics (topics of up to 254 bytes) or fails (longer ones), and the fixed header stays alone on the stream. A send
  that fails ends the call with the transport's error.\<close>

theorem begin_stream_outcome:
  fixes env :: "('w, 't) env" and c :: "'w client" and topic q
  defines "v \<equiv> mo_version (cl_options c)" and "entries \<equiv> iq_entries (cl_inflight c)" and "w \<equiv> cl_transport c"
  defines "header \<equiv> stream_header topic (allocated_id q (cl_next_packet_id c)) v"
  assumes total: "length header + tot < 2 ^ 64"
  shows "\<exists>r c'. begin_stream_publish env N topic tot q c = (r, c') \<and> (r, cl_transport c') =
    (if cl_state c \<noteq> ClientConnected then (Err NotConnected, w)
     else if q \<noteq> AtMostOnce \<and> N \<le> length entries \<and> cl_next_packet_id c \<notin> ie_packet_id ` set entries
     then (Err InflightQueueFull, w)
     else case tr_send env ((0x30 OR push_bit 1 (qos_to_u8 q)) # vbi (length header + tot)) w of
       (Ok _, w1) \<Rightarrow>
         if length header \<le> 256 then
           (case tr_send env header w1 of
              (Ok _, w2) \<Rightarrow> (Ok (stream_writer_new w2 tot), w2)
            | (Err e, w2) \<Rightarrow> (Err (Transport e), w2)
            | (Panic, w2) \<Rightarrow> (Panic, w2))
         else if length topic \<le> 254 then (Panic, w1)
         else if length topic \<le> 65535 then (Err ME_BufferTooSmall, w1)
         else (Err (mqtt_error_from PayloadTooLarge), w1)
     | (Err e, w1) \<Rightarrow> (Err (Transport e), w1)
     | (Panic, w1) \<Rightarrow> (Panic, w1))"
proof (cases "cl_state c = ClientConnected")
  case True
  let ?pid = "allocated_id q (cl_next_packet_id c)"
  have len: "2 + length topic + (if ?pid \<noteq> None then 2 else 0) + (if v = V5 then 1 else 0) = length header"
    by (cases ?pid) (simp_all add: header_def stream_header_def)
  have "length header + tot < 128 ^ 15" using total by simp
  then have "length (vbi (length header + tot)) \<le> 15" by (rule length_vbi_bound) simp
  from stream_fixed_header_fits [OF this, of q]
  have h: "stream_fixed_header q (2 + length topic + (if ?pid \<noteq> None then 2 else 0) + (if v = V5 then 1 else 0) + tot) =
      Ok ((0x30 OR push_bit 1 (qos_to_u8 q)) # vbi (length header + tot))" unfolding len .
  show ?thesis
  proof (cases "q \<noteq> AtMostOnce \<and> N \<le> length entries \<and> cl_next_packet_id c \<notin> ie_packet_id ` set entries")
    case full: True
    then obtain c' where "allocate_packet_id N q c = (Err InflightQueueFull :: ('t mqtt_error, _) outcome, c')" "cl_transport c' = w"
      using allocate_full [of q N c] unfolding entries_def w_def by metis
    with True full show ?thesis by (simp add: begin_stream_publish_def require_connected_def bind_def)
  next
    case room: False
    then obtain q' where al: "allocate_packet_id N q c = (Ok ?pid :: ('t mqtt_error, _) outcome,
        c\<lparr>cl_next_packet_id := id_after q (cl_next_packet_id c), cl_inflight := q'\<rparr>)"
      using allocate_tracked [of q c N] unfolding entries_def by (metis not_le)
    note run = begin_stream_publish_def require_connected_def bind_def send_bytes_def touch_tx_def read_clock_def Let_def
    show ?thesis
      using True room al h stream_variable_header_result [of topic ?pid v]
      unfolding v_def w_def header_def by (auto simp: run split: outcome.split prod.split)
  qed
qed (simp add: begin_stream_publish_def require_connected_def bind_def w_def)

text \<open>A topic of 255 bytes in an otherwise empty PUBLISH: the call fails, but a fixed header announcing 257 bytes
  has been sent.\<close>

theorem begin_stream_outcome_witness:
  "\<exists>c'. begin_stream_publish sample_env 4 (replicate 255 116) 0 AtMostOnce (sample_client [] ClientConnected) =
      (Err ME_BufferTooSmall, c') \<and> mt_outgoing (cl_transport c') = [0x30, 0x81, 2]"
proof -
  have h: "length (stream_header (replicate 255 116) (allocated_id AtMostOnce 1) V3_1_1) = 257"
    by (simp add: stream_header_def allocated_id_def)
  have "vbi 257 = [0x81, 2]" by (simp add: vbi.simps)
  with begin_stream_outcome [of "replicate 255 116" AtMostOnce "sample_client [] ClientConnected" 0 sample_env 4] h
  show ?thesis by (auto simp: sample_env_def mock_env_def mock_send_def sample_transport_def)
qed

text \<open>Nothing refuses a total that makes the remaining length exceed four bytes; the length then written cannot be
  read back, here the one of a payload of 256 MiB under the topic \<open>t\<close>.\<close>

lemma oversize_stream:
  "stream_fixed_header AtMostOnce (3 + 268435456) = Ok [0x30, 0x83, 0x80, 0x80, 0x80, 0x01]"
  "decode ([0x30, 0x83, 0x80, 0x80, 0x80, 0x01] @ rest) V3_1_1 = Err MalformedPacket"
proof -
  have "vbi (3 + 268435456) = [0x83, 0x80, 0x80, 0x80, 0x01]" by (simp add: vbi.simps)
  with stream_fixed_header_fits [of "3 + 268435456" AtMostOnce]
  show "stream_fixed_header AtMostOnce (3 + 268435456) = Ok [0x30, 0x83, 0x80, 0x80, 0x80, 0x01]" by simp
  show "decode ([0x30, 0x83, 0x80, 0x80, 0x80, 0x01] @ rest) V3_1_1 = Err MalformedPacket"
    by (simp add: decode_def index_def publish_decode_def read_head_def read_variable_byte_integer_def read_vbi_loop.simps get_or_def)
qed

end
