(* ===== verification/Interop.thy ===== *)
theory Interop
  imports Loop_Theorems Client_Theorems Client_Sessions
begin

text \<open>
  The two clients of the repository against each other: what the embedded client publishes is read by the
  event loop of the tokio client, and what that loop publishes is polled by the embedded client.
\<close>

lemma outgoing_publish_as:
  "Publish (outgoing_publish topic payload q (allocated_id q i) False) = publish_as (request_message topic q False payload) i"
  by (simp add: outgoing_publish_def publish_as_def publish_packet_def publish_new_def request_message_def)

context transport_contract begin

lemma publish_Ok_fits:
  assumes "client_publish env N topic payload q c = (Ok u, c')" "small (length (cl_tx_buffer c))"
  defines "p \<equiv> Publish (outgoing_publish topic payload q (allocated_id q (cl_next_packet_id c)) False)"
  shows "encodable p (mo_version (cl_options c)) \<and> length (wire p (mo_version (cl_options c))) \<le> length (cl_tx_buffer c)"
proof -
  from assms(1) obtain c1 pid len c2 where
    1: "allocate_packet_id N q c = (Ok pid :: ('t mqtt_error, _) outcome, c1)"
    and 2: "encode_tx (Publish (outgoing_publish topic payload q pid False)) 0 c1 = (Ok len :: ('t mqtt_error, _) outcome, c2)"
    by (auto simp: client_publish_def bind_Ok require_connected_Ok)
  note al = allocate_Ok [OF 1]
  from 2 have e: "encode_raw p 0 c1 = (Ok len, c2)" using al by (auto simp: encode_tx_def p_def split: prod.splits)
  then have enc: "encodable p (mo_version (cl_options c1))"
    using encode_raw_publish [of "outgoing_publish topic payload q pid False" 0 c1] al assms(2) by (simp add: p_def)
  show ?thesis
    by (rule encode_raw_wire [OF e enc]) (use al enc in \<open>auto simp: p_def\<close>)
qed

end



text \<open>C16. The tokio client's event loop sends a batch of QoS 0 messages that each fit its buffer over a stream that
  accepts everything. If the embedded client, connected with the same protocol version, gets those bytes in one read, which takes them whole,
  \<open>poll_batch\<close> returns the first \<open>m\<close> of the messages as its events, in order, where \<open>m\<close> is its limit on the
  events; the messages beyond the limit are lost. An event has the topic, the payload and the flags of its
  message, but not its user properties, which the tokio client does not send.\<close>

theorem tokio_batch_reaches_embedded:
  assumes loop: "loop_wire t sent le" "reliable t" "small (length (el_tx_buf l))"
      "\<forall>p \<in> set (offline_packets (el_next_packet_id l) msgs). fits_tx l p"
    and msgs: "\<forall>msg \<in> set msgs. tm_qos msg = AtMostOnce \<and> valid_utf8 (tm_topic msg)" "msgs \<noteq> []"
  defines "bs \<equiv> wires (version_of l) (offline_packets (el_next_packet_id l) msgs)"
  assumes client: "cl_state c = ClientConnected" "version_of l = mo_version (cl_options c)"
      "tr_recv env (cl_rx_buffer c) (cl_transport c) = ((Ok (length bs), overwrite 0 bs (cl_rx_buffer c)), w)"
      "length bs \<le> length (cl_rx_buffer c)"
  shows "\<exists>l' c'. send_publish_batch_direct le t msgs l = (Ok (length msgs), l') \<and>
    sent (el_world l') = sent (el_world l) @ bs \<and>
    poll_batch env N m c = (Ok (take m (map (\<lambda>msg. PublishEvent (publish_packet msg None)) msgs)), c') \<and>
    cl_transport c' = w"
proof -
  let ?v = "version_of l" and ?ps = "map (\<lambda>msg. publish_packet msg None) msgs"
  from loop_wire.batch_request_reliable [OF loop] obtain l' where
    1: "send_publish_batch_direct le t msgs l = (Ok (length msgs), l')" "sent (el_world l') = sent (el_world l) @ bs"
    unfolding bs_def by blast
  have ps: "offline_packets i msgs = map Publish ?ps" for i
    using msgs(1) by (induction msgs arbitrary: i) (simp_all add: publish_as_def allocated_id_def)
  have b: "bs = burst ?v ?ps" by (simp add: bs_def ps burst_def wires_def comp_def)
  have "quiet ?v (publish_packet msg None)" if "msg \<in> set msgs" for msg
  proof -
    have "fits_tx l (Publish (publish_packet msg None))" using loop(4) that by (auto simp: ps)
    moreover have "wf_packet (Publish (publish_packet msg None)) ?v"
      using wf_publish_as [of msg 0 ?v] msgs(1) that by (simp add: publish_as_def allocated_id_def)
    ultimately show ?thesis using msgs(1) that
      by (simp add: quiet_def fits_tx_def publish_packet_def publish_new_def props_view_def)
  qed
  then have q: "\<forall>p \<in> set ?ps. quiet ?v p" by simp
  have "\<exists>c'. poll_batch env N m c = (Ok (take m (map PublishEvent ?ps)), c') \<and> cl_transport c' = w \<and> stays c c'"
    by (rule poll_batch_burst [OF client(1) client(2) q _ client(3) [unfolded b]])
      (use msgs(2) client(4) in \<open>simp_all add: overwrite_def b\<close>)
  with 1 show ?thesis by (auto simp: comp_def)
qed

theorem tokio_batch_reaches_embedded_witness:
  "\<exists>c'. poll_batch sample_env 4 8 (sample_client [0x30, 4, 0, 1, 0x61, 0x78, 0x30, 4, 0, 1, 0x61, 0x78] ClientConnected) =
     (Ok (replicate 2 (PublishEvent (publish_new [0x61] [0x78] AtMostOnce))), c')"
proof -
  let ?msgs = "replicate 2 (sample_msg AtMostOnce)" and ?bs = "[0x30, 4, 0, 1, 0x61, 0x78, 0x30, 4, 0, 1, 0x61, 0x78] :: bytes"
  let ?c = "sample_client [0x30, 4, 0, 1, 0x61, 0x78, 0x30, 4, 0, 1, 0x61, 0x78] ClientConnected"
  have bs: "wires V3_1_1 (offline_packets 1 ?msgs) = ?bs" by code_simp
  have msgs: "\<forall>msg \<in> set ?msgs. tm_qos msg = AtMostOnce \<and> valid_utf8 (tm_topic msg)" "?msgs \<noteq> []"
    by (simp_all add: numeral_2_eq_2) code_simp
  have fits: "small (length (el_tx_buf (sample_loop None)))"
    "\<forall>p \<in> set (offline_packets (el_next_packet_id (sample_loop None)) ?msgs). fits_tx (sample_loop None) p"
    by (simp_all add: small_def numeral_2_eq_2 sample_fits)
  have event: "publish_packet (sample_msg AtMostOnce) None = publish_new [0x61] [0x78] AtMostOnce"
    by (simp add: publish_packet_def sample_msg_def tokio_message_new_def publish_new_def)
  have c: "cl_state ?c = ClientConnected" "version_of (sample_loop None) = mo_version (cl_options ?c)" by simp_all
  have "\<exists>w. tr_recv sample_env (cl_rx_buffer ?c) (cl_transport ?c) =
      ((Ok (length ?bs), overwrite 0 ?bs (cl_rx_buffer ?c)), w)"
    by (simp add: sample_env_def mock_env_def mock_recv_def sample_transport_def)
  then obtain w where recv: "tr_recv sample_env (cl_rx_buffer ?c) (cl_transport ?c) =
      ((Ok (length ?bs), overwrite 0 ?bs (cl_rx_buffer ?c)), w)" by blast
  have b: "wires (version_of (sample_loop None)) (offline_packets (el_next_packet_id (sample_loop None)) ?msgs) = ?bs"
    by (simp add: bs)
  from tokio_batch_reaches_embedded [OF memory_loop_wire memory_reliable fits msgs c, unfolded b, OF recv, of 4 8]
  show ?thesis by (auto simp: event)
qed

end
