(* ===== verification/Stream_Delivery.thy ===== *)
theory Stream_Delivery
  imports Loop_Theorems Stream_Theorems
begin

text \<open>
  A data stream from end to end: the chunks of a producer go through the request channel, the event loop of
  the publisher, the codec, the reads of another event loop, its router and a subscription channel, to the
  consumer that puts them back in order.
\<close>

subsection \<open>The publisher\<close>

text \<open>The event loop on the requests of the channel, one after the other.\<close>

fun serve ::
  "('f, 'r, 'c, 'w, 'io) loop_env \<Rightarrow> ('w, 'io) boxed_transport \<Rightarrow> ('r, 'c) client_request list \<Rightarrow>
   ('f, 'r, 'c, 'w, 'io, unit) loop_action" where
  "serve le t [] = ret ()"
| "serve le t (req # reqs) = bind (handle_client_request le t req) (\<lambda>_. serve le t reqs)"

context loop_wire begin

lemma serve_publishes:
  "reliable t \<Longrightarrow> small (length (el_tx_buf l)) \<Longrightarrow>
   \<forall>p \<in> set (offline_packets (el_next_packet_id l) msgs). fits_tx l p \<Longrightarrow>
   \<exists>l'. serve le t (map (\<lambda>m. ReqPublish m None) msgs) l = (Ok (), l') \<and>
     sent (el_world l') = sent (el_world l) @ wires (version_of l) (offline_packets (el_next_packet_id l) msgs)"
proof (induction msgs arbitrary: l)
  case (Cons msg msgs)
  have "fits_tx l (publish_as msg (el_next_packet_id l))" using Cons.prems(3) by simp
  from send_publish_direct_reliable [OF Cons.prems(1) this Cons.prems(2), of None] obtain l1 where
    1: "send_publish_direct le t msg None l = (Ok () :: ('io client_error, _) outcome, l1)"
    "net_only (after_tracking msg None l) l1"
    "sent (el_world l1) = sent (el_world l) @ wire (publish_as msg (el_next_packet_id l)) (version_of l)" by blast
  have sel: "el_options l1 = el_options l" "length (el_tx_buf l1) = length (el_tx_buf l)"
    "el_next_packet_id l1 = id_after (tm_qos msg) (el_next_packet_id l)"
    using net_only_sel [OF 1(2)] by (simp_all add: after_tracking_def)
  have "\<forall>p \<in> set (offline_packets (el_next_packet_id l1) msgs). fits_tx l1 p"
    using Cons.prems(3) sel by (simp add: fits_tx_def)
  from Cons.IH [OF Cons.prems(1) _ this] Cons.prems(2) sel obtain l2 where
    "serve le t (map (\<lambda>m. ReqPublish m None) msgs) l1 = (Ok () :: ('io client_error, _) outcome, l2)"
    "sent (el_world l2) = sent (el_world l1) @ wires (version_of l1) (offline_packets (el_next_packet_id l1) msgs)" by auto
  with 1(1,3) sel show ?case by (auto simp: bind_def)
qed simp

end

text \<open>What a receiving loop makes of messages sent from packet id \<open>i\<close> on.\<close>

fun relay_all :: "u16 \<Rightarrow> tokio_message list \<Rightarrow> tokio_message list" where
  "relay_all i [] = []"
| "relay_all i (msg # msgs) = relayed msg i # relay_all (id_after (tm_qos msg) i) msgs"

lemma relay_all_sel [simp]:
  "length (relay_all i msgs) = length msgs" "map tm_topic (relay_all i msgs) = map tm_topic msgs"
  "map tm_payload (relay_all i msgs) = map tm_payload msgs"
  by (induction i msgs rule: relay_all.induct) (simp_all add: relayed_def)

lemma chunk_of_relayed [simp]: "chunk_of (relayed msg i) = chunk_of msg"
  by (simp add: chunk_of_def relayed_def)

lemma relay_all_chunks [simp]: "map chunk_of (relay_all i msgs) = map chunk_of msgs"
  by (induction i msgs rule: relay_all.induct) simp_all

lemma arrives_offline: "concat (map (arrives v) (offline_packets i msgs)) = map InPublish (relay_all i msgs)"
  by (induction i msgs rule: relay_all.induct) (simp_all add: arrives_relayed)

lemma wf_offline: "\<forall>m \<in> set msgs. valid_utf8 (tm_topic m) \<Longrightarrow> \<forall>p \<in> set (offline_packets i msgs). wf_packet p v"
  by (induction i msgs rule: relay_all.induct) (simp_all add: wf_publish_as)

lemma relay_all_topics: "\<forall>m \<in> set msgs. P (tm_topic m) \<Longrightarrow> \<forall>m \<in> set (relay_all i msgs). P (tm_topic m)"
  by (induction i msgs rule: relay_all.induct) (simp_all add: relayed_def)

lemma replies_ack: "p \<in> set (replies_to a) \<Longrightarrow> \<exists>k. p = PubAck (ack_new k)"
proof (cases a)
  case (InPublish m)
  assume p: "p \<in> set (replies_to a)"
  show ?thesis
  proof (cases "tm_packet_id m")
    case None
    with p show ?thesis by (cases "tm_qos m = AtLeastOnce") (simp_all add: InPublish)
  next
    case (Some k)
    with p have "p = PubAck (ack_new k)" by (cases "tm_qos m = AtLeastOnce") (simp_all add: InPublish)
    then show ?thesis by blast
  qed
qed simp_all
lemma replies_fit:
  assumes "7 \<le> length (el_tx_buf l)" "p \<in> set (replies_to a)"
  shows "fits_tx l p"
proof -
  have "fits_tx l (PubAck (ack_new k))" for k
    using assms(1) by (simp add: fits_tx_def encodable_def ack_new_def reason_content_def to_be16_def)
  with replies_ack [OF assms(2)] show ?thesis by blast
qed

subsection \<open>The subscriber's channel\<close>

text \<open>A channel with the filter \<open>f\<close> and no other, and once only.\<close>

definition subscribed_once :: "'c \<Rightarrow> str \<Rightarrow> 'c topic_router \<Rightarrow> bool" where
  "subscribed_once c f r \<longleftrightarrow> (\<forall>g. count_list (subs_at g (tr_root r)) c = (if g = levels_of f then 1 else 0))"

lemma count_list_concat: "count_list (concat xss) c = sum_list (map (\<lambda>xs. count_list xs c) xss)"
  by (induction xss) simp_all

lemma subscribed_once_offers:
  assumes "subscribed_once c f r" "distinct fs" "levels_of f \<in> set fs"
  shows "count_list (concat (map (\<lambda>g. subs_at g (tr_root r)) fs)) c = 1"
proof -
  have "sum_list (map (\<lambda>g. if g = x then 1 else 0) fs) = (if x \<in> set fs then 1 else (0 :: nat))" for x
    using assms(2) by (induction fs) auto
  with assms(1,3) show ?thesis by (simp add: count_list_concat comp_def subscribed_once_def)
qed

text \<open>A new channel is subscribed once after \<open>insert\<close>.\<close>

lemma subscribed_once_insert:
  assumes "validate_topic_filter f = (Ok () :: ('io client_error, unit) outcome)" "\<And>g. c \<notin> set (subs_at g (tr_root r))"
  shows "subscribed_once c f (snd (router_insert f c r :: ('io client_error, unit) outcome \<times> _))"
  using assms valid_filter_good [OF valid_filter_iff [THEN iffD1, OF assms(1)]]
  by (simp add: router_insert_def subscribed_once_def subs_at_insert)

locale mailbox = channels ops
  for ops :: "('w, 'c) channel_ops" +
  fixes c :: 'c and inbox :: "'w \<Rightarrow> tokio_message list" and room :: "'w \<Rightarrow> nat"
  assumes offered_own: "\<not> ch_is_closed ops w c \<Longrightarrow> 0 < room w \<Longrightarrow>
      inbox (ch_try_send ops c msg w) = inbox w @ [msg] \<and> room (ch_try_send ops c msg w) = room w - 1"
    and offered_other: "d \<noteq> c \<Longrightarrow> inbox (ch_try_send ops d msg w) = inbox w \<and> room (ch_try_send ops d msg w) = room w"
begin

lemma deliver_inbox:
  "\<not> ch_is_closed ops w c \<Longrightarrow> count_list ss c \<le> room w \<Longrightarrow>
   inbox (fold (deliver ops msg) ss w) = inbox w @ replicate (count_list ss c) msg \<and>
   room (fold (deliver ops msg) ss w) = room w - count_list ss c"
proof (induction ss arbitrary: w)
  case (Cons s ss)
  show ?case
  proof (cases "s = c")
    case True
    with Cons show ?thesis
      by (simp add: deliver_def [of _ _ c] offered_own closed_stable)
  next
    case False
    with Cons show ?thesis by (simp add: deliver_def [of _ _ s] offered_other closed_stable)
  qed
qed simp

lemma dispatch_inbox:
  assumes "subscribed_once c f r" "topic_matches (levels_of f) (levels_of (tm_topic msg))"
    and "validate_publish_topic (tm_topic msg) = (Ok () :: ('e client_error, unit) outcome)"
    and "\<not> ch_is_closed ops w c" "0 < room w" "router_dispatch ops msg r w = (r', w')"
  shows "inbox w' = inbox w @ [msg] \<and> room w' = room w - 1 \<and> subscribed_once c f r' \<and> \<not> ch_is_closed ops w' c"
proof -
  let ?ts = "levels_of (tm_topic msg)"
  have clean: "\<forall>t \<in> set ?ts. clean_level t" using publish_topic_clean [OF assms(3)] by blast
  obtain n where m: "match_and_dispatch ops msg ?ts (tr_root r) w = (n, w')" and r': "r' = r\<lparr>tr_root := n\<rparr>"
    using assms(6) by (auto simp: router_dispatch_def split: prod.splits)
  have "levels_of f \<in> set (filters_for ?ts)" using filters_for_matches [OF clean] assms(2) by blast
  note once = subscribed_once_offers [OF assms(1) filters_for_distinct [OF clean] this]
  have "w' = fold (deliver ops msg) (concat (map (\<lambda>g. subs_at g (tr_root r)) (filters_for ?ts))) w"
    using dispatch_world [OF clean, of ops msg "tr_root r" w] unfolding m by simp
  then have "inbox w' = inbox w @ [msg]" "room w' = room w - 1" using deliver_inbox [OF assms(4), of _ msg] once assms(5)
    by simp_all
  moreover note res = dispatch_result [OF clean m]
  have "count_list (filter (\<lambda>s. \<not> ch_is_closed ops w s) xs) c = count_list xs c" for xs
    using assms(4) by (induction xs) auto
  with res assms(1) have "subscribed_once c f r'" by (simp add: subscribed_once_def r')
  ultimately show ?thesis using res assms(4) by simp
qed

end

text \<open>The loop of the subscriber: its transport and the channel do not interfere.\<close>

locale listening_loop = loop_wire t sent le + mailbox "le_channels le" c inbox room
  for t :: "('w, 'io) boxed_transport" and sent :: "'w \<Rightarrow> bytes" and le :: "('f, 'r, 'c, 'w, 'io) loop_env"
    and c :: 'c and inbox :: "'w \<Rightarrow> tokio_message list" and room :: "'w \<Rightarrow> nat" +
  assumes write_keeps: "bt_write_all t b w = (x, w') \<Longrightarrow>
      inbox w' = inbox w \<and> room w' = room w \<and> ch_is_closed (le_channels le) w' c = ch_is_closed (le_channels le) w c"
    and flush_keeps: "bt_flush t w = (x, w') \<Longrightarrow>
      inbox w' = inbox w \<and> room w' = room w \<and> ch_is_closed (le_channels le) w' c = ch_is_closed (le_channels le) w c"
begin

definition same_box :: "('f, 'r, 'c, 'w, 'io) event_loop \<Rightarrow> ('f, 'r, 'c, 'w, 'io) event_loop \<Rightarrow> bool" where
  "same_box l l' \<longleftrightarrow> inbox (el_world l') = inbox (el_world l) \<and> room (el_world l') = room (el_world l) \<and> el_router l' = el_router l \<and>
     ch_is_closed (le_channels le) (el_world l') c = ch_is_closed (le_channels le) (el_world l) c"

lemma loop_send_box: "loop_send le t n l = (r, l') \<Longrightarrow> same_box l l'"
  by (auto simp: same_box_def loop_send_def write_tx_def io_call_def touch_last_tx_def bind_def subslice_def
      split: prod.splits outcome.splits if_splits dest!: write_keeps flush_keeps)

lemma same_box_tx [simp]:
  "same_box l l" "same_box l (l\<lparr>el_tx_buf := b\<rparr>)" "same_box (l\<lparr>el_tx_buf := b\<rparr>) l' = same_box l l'"
  by (simp_all add: same_box_def)

lemma answer_box:
  assumes "(case (tm_qos msg, tm_packet_id msg) of
      (AtLeastOnce, Some pid) \<Rightarrow> if_encoded (PubAck (ack_new pid)) (\<lambda>len. loop_send le t len) | _ \<Rightarrow> ret ()) l = (r, l')"
  shows "same_box l l'"
  using assms
  by (auto simp: if_encoded_def loop_encode_def Let_def
      split: qos.splits option.splits prod.splits outcome.splits if_splits dest!: loop_send_box)

text \<open>Messages that arrive are in the subscription's channel, in their order, as long as it has room.\<close>

lemma run_publish_box:
  assumes "run_action le t (InPublish msg) l = (Ok u, l')" "subscribed_once c f (el_router l)"
    and "topic_matches (levels_of f) (levels_of (tm_topic msg))"
    and "validate_publish_topic (tm_topic msg) = (Ok () :: ('e client_error, unit) outcome)"
    and "\<not> ch_is_closed (le_channels le) (el_world l) c" "0 < room (el_world l)"
  shows "inbox (el_world l') = inbox (el_world l) @ [msg] \<and> room (el_world l') = room (el_world l) - 1 \<and> subscribed_once c f (el_router l') \<and>
    \<not> ch_is_closed (le_channels le) (el_world l') c"
proof -
  from assms(1) obtain r1 l1 where
    1: "(case (tm_qos msg, tm_packet_id msg) of
      (AtLeastOnce, Some pid) \<Rightarrow> if_encoded (PubAck (ack_new pid)) (\<lambda>len. loop_send le t len) | _ \<Rightarrow> ret ()) l = (r1, l1)"
    and 2: "dispatch_message le msg l1 = (Ok u :: ('io client_error, _) outcome, l')"
    by (auto simp: bind_Ok)
  from answer_box [OF 1] have b: "inbox (el_world l1) = inbox (el_world l)" "room (el_world l1) = room (el_world l)" "el_router l1 = el_router l"
    "ch_is_closed (le_channels le) (el_world l1) c = ch_is_closed (le_channels le) (el_world l) c"
    by (simp_all add: same_box_def)
  from 2 obtain r' w' where d: "router_dispatch (le_channels le) msg (el_router l1) (el_world l1) = (r', w')"
    "l' = l1\<lparr>el_router := r', el_world := w'\<rparr>" by (auto simp: dispatch_message_def split: prod.splits)
  show ?thesis using dispatch_inbox [OF _ assms(3,4) _ _ d(1)] assms(2,5,6) b d(2) by simp
qed

lemma run_publishes_box:
  "run_actions le t (map InPublish msgs) l = (Ok u, l') \<Longrightarrow> subscribed_once c f (el_router l) \<Longrightarrow>
   \<forall>m \<in> set msgs. topic_matches (levels_of f) (levels_of (tm_topic m)) \<and>
     validate_publish_topic (tm_topic m) = (Ok () :: ('e client_error, unit) outcome) \<Longrightarrow>
   \<not> ch_is_closed (le_channels le) (el_world l) c \<Longrightarrow> length msgs \<le> room (el_world l) \<Longrightarrow>
   inbox (el_world l') = inbox (el_world l) @ msgs"
proof (induction msgs arbitrary: l)
  case (Cons msg msgs)
  from Cons.prems(1) obtain u1 l1 where
    1: "run_action le t (InPublish msg) l = (Ok u1 :: ('io client_error, _) outcome, l1)" and
    2: "run_actions le t (map InPublish msgs) l1 = (Ok u, l')" by (auto simp: bind_Ok simp del: run_action.simps)
  from run_publish_box [OF 1 Cons.prems(2), where 'e = 'e] Cons.prems(3-5)
  have "inbox (el_world l1) = inbox (el_world l) @ [msg]" "room (el_world l1) = room (el_world l) - 1" "subscribed_once c f (el_router l1)"
    "\<not> ch_is_closed (le_channels le) (el_world l1) c" by auto
  with Cons.IH [OF 2] Cons.prems(3,5) show ?case by simp
qed simp

text \<open>A stream of publishes, in reads that do not end inside a long remaining length.\<close>

lemma listen:
  assumes "reliable t" "subscribed_once c f (el_router l)" "\<not> ch_is_closed (le_channels le) (el_world l) c"
    and "\<forall>m \<in> set msgs. valid_utf8 (tm_topic m) \<and> topic_matches (levels_of f) (levels_of (tm_topic m)) \<and>
      validate_publish_topic (tm_topic m) = (Ok () :: ('e client_error, unit) outcome)"
    and "length msgs \<le> room (el_world l)" "7 \<le> length (el_tx_buf l)"
    and "\<forall>p \<in> set (offline_packets i msgs). encodable p (version_of l)"
    and "concat chunks = wires (version_of l) (offline_packets i msgs)" "[] \<notin> set chunks"
    and "reads_fit (version_of l) (offline_packets i msgs) 0 chunks (length (el_rx_buf l))"
    and "clean_reads (version_of l) (offline_packets i msgs) 0 chunks"
  shows "\<exists>l'. receive_all le t 0 chunks l = Some (Ok 0, l') \<and>
    inbox (el_world l') = inbox (el_world l) @ relay_all i msgs"
proof -
  let ?v = "version_of l" and ?ps = "offline_packets i msgs" and ?as = "map InPublish (relay_all i msgs)"
  have "\<forall>p \<in> set (concat (map replies_to ?as)). fits_tx l p" "InDisconnect \<notin> set ?as"
    using replies_fit [OF assms(6)] by (auto simp del: replies_to.simps)
  with run_actions_reliable [OF assms(1), of ?as l] obtain l1 where
    run: "run_actions le t ?as l = (Ok () :: ('io client_error, _) outcome, l1)" by blast
  have "\<forall>m \<in> set (relay_all i msgs). topic_matches (levels_of f) (levels_of (tm_topic m)) \<and>
      validate_publish_topic (tm_topic m) = (Ok () :: ('e client_error, unit) outcome)"
    by (rule relay_all_topics) (use assms(4) in blast)
  from run_publishes_box [OF run assms(2) this assms(3)] assms(5)
  have box: "inbox (el_world l1) = inbox (el_world l) @ relay_all i msgs" by simp
  have ok: "\<forall>p \<in> set ?ps. encodable p ?v \<and> wf_packet p ?v"
    using assms(4,7) wf_offline [of msgs i ?v] by blast
  have "run_actions le t (concat (map (arrives ?v) ?ps)) l = (Ok () :: ('io client_error, _) outcome, l1)"
    using run by (simp only: arrives_offline)
  from receive_all_cuts [of "[]", OF _ _ _ ok assms(9) _ refl this] assms(8,10,11) obtain b where
    "receive_all le t 0 chunks l = Some (Ok 0, l1\<lparr>el_rx_buf := b\<rparr>)" by (auto simp: begins_def)
  with box show ?thesis by simp
qed

end

subsection \<open>A subscriber in memory\<close>

text \<open>The stream of \<open>memory_transport\<close> beside the bounded channels of \<open>bounded_ops\<close>.\<close>

type_synonym box_world = "memory_stream \<times> (nat \<Rightarrow> bounded_channel)"

definition on_stream :: "(memory_stream \<Rightarrow> 'a \<times> memory_stream) \<Rightarrow> box_world \<Rightarrow> 'a \<times> box_world" where
  "on_stream f w = (case f (fst w) of (r, m) \<Rightarrow> (r, (m, snd w)))"

definition box_ops :: "(box_world, nat) channel_ops" where
  "box_ops = \<lparr>ch_is_closed = \<lambda>w. ch_is_closed bounded_ops (snd w),
     ch_try_send = \<lambda>c msg w. (fst w, ch_try_send bounded_ops c msg (snd w))\<rparr>"

definition box_transport :: "(box_world, unit) boxed_transport" where
  "box_transport = boxed_stream (\<lambda>n. on_stream (memory_read n)) (\<lambda>b. on_stream (memory_write b)) (on_stream (Pair (Ok ())))"

definition box_env :: "(unit, nat, nat, box_world, unit) loop_env" where
  "box_env =
     \<lparr>le_reply_unit = \<lambda>_ _ w. w, le_reply_id = \<lambda>_ _ w. w, le_reply_count = \<lambda>_ _ w. w, le_status = \<lambda>_ w. w,
      le_channels = box_ops, le_now = \<lambda>_. 0, le_sleep = \<lambda>_ w. w, le_recv = Pair None, le_timed_read = \<lambda>t n w. (None, w),
      le_select = Pair Requested, le_interval = \<lambda>n. 0 < n, le_connect = \<lambda>_ w. (Err CE_Timeout, w), le_unexpected_eof = (),
      le_f64 = le_f64 (memory_env (Pair None))\<rparr>"

interpretation box_stream: stream_io "\<lambda>n. on_stream (memory_read n)" "\<lambda>b. on_stream (memory_write b)"
  "on_stream (Pair (Ok ()))" "\<lambda>w. ms_sent (fst w)"
  by unfold_locales (auto simp: on_stream_def memory_read_def memory_write_def)

interpretation box: listening_loop box_transport "\<lambda>w. ms_sent (fst w)" box_env c "\<lambda>w. bc_queue (snd w c)"
  "\<lambda>w. bc_capacity (snd w c) - length (bc_queue (snd w c))" for c
proof -
  have t: "byte_transport box_transport (\<lambda>w. ms_sent (fst w))" unfolding box_transport_def by unfold_locales
  have lw: "loop_wire box_transport (\<lambda>w. ms_sent (fst w)) box_env"
    by (intro loop_wire.intro loop_wire_axioms.intro t) (simp_all add: box_env_def box_ops_def)
  show "listening_loop box_transport (\<lambda>w. ms_sent (fst w)) box_env c (\<lambda>w. bc_queue (snd w c))
      (\<lambda>w. bc_capacity (snd w c) - length (bc_queue (snd w c)))"
    by (intro listening_loop.intro mailbox.intro channels.intro mailbox_axioms.intro listening_loop_axioms.intro lw)
      (auto simp: box_env_def box_ops_def box_transport_def boxed_stream_def on_stream_def bounded_ops_def memory_write_def)
qed

text \<open>A subscriber of \<open>t\<close> whose channel 0 has eight places.\<close>

definition box_subscriber :: "(unit, nat, nat, box_world, unit) event_loop" where
  "box_subscriber = (event_loop_new box_env (sample_options None) (\<lparr>ms_sent = [], ms_input = []\<rparr>,
      \<lambda>_. \<lparr>bc_capacity = 8, bc_queue = [], bc_closed = False\<rparr>))
     \<lparr>el_router := snd (router_insert [0x74] 0 router_new :: (unit client_error, unit) outcome \<times> _)\<rparr>"

lemma box_subscriber_sel [simp]:
  "el_options box_subscriber = sample_options None" "el_rx_buf box_subscriber = replicate 64 0"
  "el_tx_buf box_subscriber = replicate 64 0" "fst (el_world box_subscriber) = \<lparr>ms_sent = [], ms_input = []\<rparr>"
  "snd (el_world box_subscriber) = (\<lambda>_. \<lparr>bc_capacity = 8, bc_queue = [], bc_closed = False\<rparr>)"
  by (simp_all add: box_subscriber_def event_loop_new_def)

lemma box_reliable: "reliable box_transport"
  by (simp add: reliable_def box_transport_def boxed_stream_def on_stream_def memory_write_def)

lemma box_subscribed: "subscribed_once 0 [0x74] (el_router box_subscriber)"
  unfolding box_subscriber_def
  using subscribed_once_insert [of "[0x74]" 0 router_new]
  by (simp add: router_new_def validate_topic_filter_def levels_of_def event_loop_new_def)

text \<open>The packets of messages of a byte each.\<close>

lemma offline_packetsD: "p \<in> set (offline_packets i msgs) \<Longrightarrow> \<exists>m \<in> set msgs. \<exists>j. p = publish_as m j"
  by (induction i msgs rule: offline_packets.induct) auto

lemma byte_chunk_packet:
  assumes "tm_topic m = [0x74]" "length (tm_payload m) = 17"
  shows "length (packet_content (publish_as m j) V3_1_1) \<le> 22" "encodable (publish_as m j) V3_1_1"
    "packet_content (publish_as m j) V3_1_1 \<noteq> []"
  using assms by (simp_all add: publish_as_def publish_packet_def publish_new_def encodable_def packet_id_content_def
      props_content_def prefixed_def split: option.split)

subsection \<open>Property\<close>

text \<open>C5. If the concurrent sends of a producer succeed, the publisher's event loop, on a stream that accepts
  everything and with buffers that hold each packet, puts their packets on the wire in the order of the
  request channel. Suppose a broker passes each message on once, under whatever ids, in an order in which at
  no time more than \<open>max_window\<close> of them wait for a smaller number, to a subscriber of a matching filter
  whose open, empty channel has room for all, under a valid topic; and the reads of the subscriber find room in its buffer and do not end
  inside a remaining length of several bytes. Then the consumer yields the chunks numbered \<open>1, 2, \<dots>\<close> with
  exactly the payloads sent.\<close>

theorem data_stream_end_to_end:
  fixes le :: "('f, 'r, 'c, 'w, 'io) loop_env"
  assumes send: "send_reachable topic q cap payloads (p, calls, out)" "size payloads < 2 ^ 64 - 1"
      "\<forall>t \<in># calls. \<exists>chunk. t = SendDone chunk"
    and publisher: "loop_wire t sent le" "reliable t" "small (length (el_tx_buf l))"
      "\<forall>p \<in> set (offline_packets (el_next_packet_id l) out). fits_tx l p"
    and broker: "mset msgs = mset out" "\<forall>p \<in> set (offline_packets i msgs). encodable p (version_of l2)"
      "concat chunks = wires (version_of l2) (offline_packets i msgs)" "[] \<notin> set chunks"
      "reads_fit (version_of l2) (offline_packets i msgs) 0 chunks (length (el_rx_buf l2))"
      "clean_reads (version_of l2) (offline_packets i msgs) 0 chunks"
    and subscriber: "listening_loop t2 sent2 le2 c inbox room" "reliable t2" "subscribed_once c f (el_router l2)"
      "\<not> ch_is_closed (le_channels le2) (el_world l2) c" "inbox (el_world l2) = []" "size payloads \<le> room (el_world l2)"
      "7 \<le> length (el_tx_buf l2)"
    and topic: "valid_utf8 topic" "topic_matches (levels_of f) (levels_of topic)"
      "validate_publish_topic topic = (Ok () :: ('e client_error, unit) outcome)"
    and window: "within_window max_window (map seq_number msgs)"
  shows "\<exists>l' l2'. serve le t (map (\<lambda>m. ReqPublish m None) out) l = (Ok (), l') \<and>
    sent (el_world l') = sent (el_world l) @ wires (version_of l) (offline_packets (el_next_packet_id l) out) \<and>
    receive_all le2 t2 0 chunks l2 = Some (Ok 0, l2') \<and>
    (let got = recv_all (consumer_new (topic_subscription_new f (inbox (el_world l2'))) max_window) in
     map (\<lambda>x. unat (sc_seq_id x)) got = [1..<size payloads + 1] \<and> mset (map sc_payload got) = payloads)"
proof -
  from loop_wire.serve_publishes [OF publisher] obtain l' where
    1: "serve le t (map (\<lambda>m. ReqPublish m None) out) l = (Ok (), l')"
    "sent (el_world l') = sent (el_world l) @ wires (version_of l) (offline_packets (el_next_packet_id l) out)" by blast
  have "set msgs = set out" "length msgs = size payloads"
    using mset_eq_setD [OF broker(1)] mset_eq_length [OF broker(1)] sent_messages(1) [OF send] by simp_all
  then have msgs: "\<forall>m \<in> set msgs. valid_utf8 (tm_topic m) \<and> topic_matches (levels_of f) (levels_of (tm_topic m)) \<and>
      validate_publish_topic (tm_topic m) = (Ok () :: ('e client_error, unit) outcome)" "length msgs \<le> room (el_world l2)"
    using sent_messages(2) [OF send] topic subscriber(6) by auto
  from listening_loop.listen [OF subscriber(1-4) msgs subscriber(7) broker(2-6)] obtain l2' where
    2: "receive_all le2 t2 0 chunks l2 = Some (Ok 0, l2')" "inbox (el_world l2') = relay_all i msgs"
    using subscriber(5) by auto
  have chunks: "map chunk_of (inbox (el_world l2')) = map chunk_of msgs" unfolding 2(2) by (rule relay_all_chunks)
  then have "mset (map chunk_of (inbox (el_world l2'))) = mset (map chunk_of out)" using broker(1) by simp
  moreover have "map seq_number ms = map (\<lambda>c. unat (sc_seq_id c)) (map chunk_of ms)" for ms by simp
  with chunks window have "within_window max_window (map seq_number (inbox (el_world l2')))" by metis
  ultimately show ?thesis
    using sent_chunks_arrive_in_order [OF send, of "inbox (el_world l2')" max_window f] 1 2(1) unfolding Let_def by blast
qed

text \<open>Two concurrent sends, in an order of the accesses that puts the second chunk first on the wire; the
  broker passes the messages on in reverse.\<close>

theorem data_stream_end_to_end_witness:
  "\<exists>p calls out l' l2'. send_reachable [0x74] AtLeastOnce 8 {#[1], [2]#} (p, calls, out) \<and>
    serve (memory_env (Pair None)) memory_transport (map (\<lambda>m. ReqPublish m None) out) (sample_loop None) = (Ok (), l') \<and>
    receive_all box_env box_transport 0 (map (\<lambda>p. wire p V3_1_1) (offline_packets 5 (rev out))) box_subscriber = Some (Ok 0, l2') \<and>
    map (\<lambda>x. unat (sc_seq_id x)) (recv_all (consumer_new (topic_subscription_new [0x74] (bc_queue (snd (el_world l2') 0))) 1)) = [1, 2]"
proof -
  obtain p c1 c2 out where r: "send_reachable [0x74] AtLeastOnce 8 {#[1], [2]#} (p, {#SendDone c1, SendDone c2#}, out)"
    using interleaved_run by blast
  have fin: "size {#[1], [2 :: byte]#} < 2 ^ 64 - 1" "\<forall>t \<in># {#SendDone c1, SendDone c2#}. \<exists>chunk. t = SendDone chunk"
    by simp_all
  have m: "tm_topic m = [0x74]" "length (tm_payload m) = 17" if "m \<in> set out" for m
    using sent_messages(2) [OF r fin that] by auto
  let ?ps = "offline_packets 5 (rev out)" and ?ds = "map (\<lambda>p. wire p V3_1_1) (offline_packets 5 (rev out))"
  have small: "length (packet_content q V3_1_1) \<le> 22 \<and> encodable q V3_1_1 \<and> packet_content q V3_1_1 \<noteq> []"
    if "q \<in> set (offline_packets i msgs)" "set msgs = set out" for q i msgs
    using offline_packetsD [OF that(1)] that(2) byte_chunk_packet m by blast
  have fits: "\<forall>q \<in> set (offline_packets (el_next_packet_id (sample_loop None)) out). fits_tx (sample_loop None) q"
    using small [of _ _ out] by (fastforce simp: fits_tx_def)
  have len: "length (wire q V3_1_1) \<le> 24" if "q \<in> set ?ps" for q
    using small [OF that] by (auto simp: wire_def frame_def vbi.simps)
  have room: "reads_fit (version_of box_subscriber) ?ps 0 ?ds (length (el_rx_buf box_subscriber))"
    using reads_fit_packets [of ?ps V3_1_1 64] len by fastforce
  have clean: "clean_reads (version_of box_subscriber) ?ps 0 ?ds"
    using small [of _ 5 "rev out"] by (intro short_clean_reads) (fastforce simp: wires_def)+
  have enc: "\<forall>q \<in> set ?ps. encodable q (version_of box_subscriber)" "concat ?ds = wires (version_of box_subscriber) ?ps"
    "[] \<notin> set ?ds" using small [of _ 5 "rev out"] by (auto simp: wires_def wire_def frame_def)
  have topic: "valid_utf8 [0x74]" "topic_matches (levels_of [0x74]) (levels_of [0x74])"
    "validate_publish_topic [0x74] = (Ok () :: (unit client_error, unit) outcome)" by code_simp+
  have sub: "\<not> ch_is_closed (le_channels box_env) (el_world box_subscriber) 0" "bc_queue (snd (el_world box_subscriber) 0) = []"
    "size {#[1], [2 :: byte]#} \<le> bc_capacity (snd (el_world box_subscriber) 0) - length (bc_queue (snd (el_world box_subscriber) 0))"
    "7 \<le> length (el_tx_buf box_subscriber)"
    by (simp_all add: box_env_def box_ops_def bounded_ops_def)
  have window: "within_window 1 (map seq_number (rev out))"
    by (rule short_within_window [of _ 3])
      (use sent_chunks(1) [OF r fin] in \<open>simp_all add: comp_def image_mset.compositionality numeral_3_eq_3\<close>)
  have "small (length (el_tx_buf (sample_loop None)))" by (simp add: small_def)
  from data_stream_end_to_end [OF r fin memory_loop_wire memory_reliable this fits _ enc(1-3) room clean
      box.listening_loop_axioms box_reliable box_subscribed sub(1-4) topic window] obtain l' l2' where
    1: "serve (memory_env (Pair None)) memory_transport (map (\<lambda>m. ReqPublish m None) out) (sample_loop None) =
      (Ok () :: (unit client_error, _) outcome, l')" and
    2: "receive_all box_env box_transport 0 ?ds box_subscriber = Some (Ok 0, l2')" and
    3: "map (\<lambda>x. unat (sc_seq_id x)) (recv_all (consumer_new (topic_subscription_new [0x74] (bc_queue (snd (el_world l2') 0))) 1)) =
      [1..<size {#[1], [2 :: byte]#} + 1]"
    unfolding Let_def by auto
  from 3 have "map (\<lambda>x. unat (sc_seq_id x)) (recv_all (consumer_new (topic_subscription_new [0x74]
      (bc_queue (snd (el_world l2') 0))) 1)) = [1, 2]"
    by (rule trans) (simp add: upt_rec)
  with r 1 2 show ?thesis by (intro exI conjI)
qed

end
