(* ===== verification/Loop_Subscriptions.thy ===== *)
theory Loop_Subscriptions
  imports Loop_Config Loop_Theorems
begin

text \<open>
  What the event loop knows of its subscriptions while requests are handled and packets arrive: the table
  of active subscriptions follows the requests alone, and the router loses only subscribers whose
  channels are closed.
\<close>

subsection \<open>What a dispatch takes away\<close>

text \<open>Some subscribers are left out, but none that stays open.\<close>

definition thinned :: "('c \<Rightarrow> bool) \<Rightarrow> 'c list \<Rightarrow> 'c list \<Rightarrow> bool" where
  "thinned stays ss ss' \<longleftrightarrow> filter stays ss' = filter stays ss \<and> set ss' \<subseteq> set ss"

lemma thinned_refl [simp]: "thinned stays ss ss"
  by (simp add: thinned_def)

lemma thinned_trans: "thinned stays a b \<Longrightarrow> thinned stays b c \<Longrightarrow> thinned stays a c"
  by (auto simp: thinned_def)

lemma thinned_retain:
  "retain_send ops msg ss w = (ss', w') \<Longrightarrow> \<forall>w c. stays c \<longrightarrow> \<not> ch_is_closed ops w c \<Longrightarrow> thinned stays ss ss'"
proof (induction ss arbitrary: w ss' w')
  case (Cons s ss)
  show ?case
  proof (cases "ch_is_closed ops w s")
    case True
    then have "\<not> stays s" using Cons.prems(2) by blast
    with True Cons show ?thesis by (fastforce simp: thinned_def)
  next
    case False
    obtain kept w1 where r: "retain_send ops msg ss (ch_try_send ops s msg w) = (kept, w1)" by fastforce
    with Cons.prems False have "ss' = s # kept" by simp
    with Cons.IH [OF r Cons.prems(2)] show ?thesis by (auto simp: thinned_def)
  qed
qed (simp add: thinned_def)

lemma thinned_dispatch:
  "match_and_dispatch ops msg ts n w = (n', w') \<Longrightarrow> \<forall>w c. stays c \<longrightarrow> \<not> ch_is_closed ops w c \<Longrightarrow>
   thinned stays (subs_at f n) (subs_at f n')"
proof (induction ops msg ts n w arbitrary: n' w' f rule: match_and_dispatch.induct)
  case (1 ops msg cs p hs es w)
  obtain hs' w1 where h: "retain_send ops msg hs w = (hs', w1)" by fastforce
  obtain es' w2 where e: "retain_send ops msg es w1 = (es', w2)" by fastforce
  have "n' = TrieNode cs p hs' es'" using 1(1) h e by simp
  with thinned_retain [OF h 1(2)] thinned_retain [OF e 1(2)] show ?case by (cases f) simp_all
next
  case (2 ops msg level rest cs p hs es w)
  obtain hs' w1 where h: "retain_send ops msg hs w = (hs', w1)" by fastforce
  let ?c = "case map_of cs level of Some child \<Rightarrow> (case match_and_dispatch ops msg rest child w1 of
      (child', w2) \<Rightarrow> (AList.update level child' cs, w2)) | None \<Rightarrow> (cs, w1)"
  obtain cs' w2 where c: "?c = (cs', w2)" by fastforce
  let ?p = "case p of Some pl \<Rightarrow> (case match_and_dispatch ops msg rest pl w2 of (pl', w3) \<Rightarrow> (Some pl', w3))
      | None \<Rightarrow> (None, w2)"
  obtain p' w3 where p: "?p = (p', w3)" by fastforce
  have n': "n' = TrieNode cs' p' hs' es" using 2(3) h c p by simp
  have cs: "thinned stays (case map_of cs l of Some k \<Rightarrow> subs_at g k | None \<Rightarrow> [])
      (case map_of cs' l of Some k \<Rightarrow> subs_at g k | None \<Rightarrow> [])" for l g
  proof (cases "map_of cs level")
    case (Some k)
    obtain k' v where k: "match_and_dispatch ops msg rest k w1 = (k', v)" by fastforce
    with c Some have "cs' = AList.update level k' cs" by simp
    with 2(1) [OF h [symmetric] Some k 2(4), of g] Some show ?thesis by (auto simp: update_conv' split: option.split)
  qed (use c in simp)
  have pl: "thinned stays (case p of Some k \<Rightarrow> subs_at g k | None \<Rightarrow> []) (case p' of Some k \<Rightarrow> subs_at g k | None \<Rightarrow> [])" for g
  proof (cases p)
    case (Some k)
    obtain k' v where k: "match_and_dispatch ops msg rest k w2 = (k', v)" by fastforce
    with p Some have "p' = Some k'" by simp
    with 2(2) [OF h [symmetric] c [symmetric] Some k 2(4), of g] Some show ?thesis by simp
  qed (use p in simp)
  show ?case using cs pl thinned_retain [OF h 2(4)] by (cases f) (simp_all add: n')
qed

lemma thinned_step:
  "(\<And>f. thinned stays (m f) (m' f)) \<Longrightarrow> thinned stays (subs_step op m f) (subs_step op m' f)"
  by (cases op) (auto simp: thinned_def)

lemma thinned_steps:
  "(\<And>f. thinned stays (m f) (m' f)) \<Longrightarrow> thinned stays (fold subs_step ops m f) (fold subs_step ops m' f)"
  by (induction ops arbitrary: m m') (auto intro: thinned_step)

subsection \<open>Requests and arriving packets\<close>

definition keeps_open ::
  "('f, 'r, 'c, 'w, 'io) loop_env \<Rightarrow> ('c \<Rightarrow> bool) \<Rightarrow> bool" where
  "keeps_open le stays \<longleftrightarrow> (\<forall>w c. stays c \<longrightarrow> \<not> ch_is_closed (le_channels le) w c)"

definition follows ::
  "('c \<Rightarrow> bool) \<Rightarrow> (str \<rightharpoonup> qos) \<Rightarrow> (str \<Rightarrow> 'c list) \<Rightarrow> ('f, 'r, 'c, 'w, 'io) event_loop \<Rightarrow> bool" where
  "follows stays m subs l \<longleftrightarrow> map_of (el_active_subscriptions l) = m \<and>
     (\<forall>f. thinned stays (subs f) (subscribers (el_router l) f))"

lemma follows_updates [simp]:
  "follows stays m subs (l\<lparr>el_inflight_publishes := a\<rparr>) = follows stays m subs l"
  "follows stays m subs (l\<lparr>el_inflight_subscribes := b\<rparr>) = follows stays m subs l"
  "follows stays m subs (l\<lparr>el_inflight_unsubscribes := b\<rparr>) = follows stays m subs l"
  "follows stays m subs (l\<lparr>el_world := w\<rparr>) = follows stays m subs l"
  by (simp_all add: follows_def)

lemma net_closed_follows [simp]: "net_closed (follows stays m subs)"
  by (simp add: net_closed_def follows_def net_only_sel)

lemma follows_request:
  assumes "follows stays m subs l"
  shows "follows stays (track_request req m) (fold subs_step (routed_by req) subs) (snd (handle_client_request le t req l))"
proof -
  have "subscribed (track_request req m) (fold subs_step (routed_by req) (subscribers (el_router l)))
      (snd (handle_client_request le t req l))"
    using assms by (intro subscribed_request) (simp add: subscribed_def follows_def)
  then show ?thesis using assms thinned_steps [of stays subs "subscribers (el_router l)"]
    by (simp add: subscribed_def follows_def)
qed

lemma follows_take_entry:
  "(\<And>l. follows stays m subs (upd (AList.delete k) l) = follows stays m subs l) \<Longrightarrow>
    valid False (follows stays m subs) (take_entry k table upd) any"
  by (simp add: valid_def take_entry_def)

lemma follows_dispatch:
  assumes "keeps_open le stays"
  shows "valid False (follows stays m subs) (dispatch_message le msg) any"
proof (rule validI)
  fix l r l' assume l: "follows stays m subs l" "dispatch_message le msg l = (r, l')"
  obtain n w where d: "match_and_dispatch (le_channels le) msg (levels_of (tm_topic msg)) (tr_root (el_router l)) (el_world l) = (n, w)"
    by fastforce
  then have l': "l' = l\<lparr>el_router := (el_router l)\<lparr>tr_root := n\<rparr>, el_world := w\<rparr>" "r = Ok ()"
    using l(2) by (auto simp: dispatch_message_def router_dispatch_def)
  have "thinned stays (subscribers (el_router l) f) (subscribers (el_router l') f)" for f
    using thinned_dispatch [OF d, of stays "levels_of f"] assms by (simp add: keeps_open_def subscribers_def l'(1))
  then have "thinned stays (subs f) (subscribers (el_router l') f)" for f
    using thinned_trans l(1) unfolding follows_def by blast
  with l(1) l' show "follows stays m subs l' \<and> (\<forall>a. r = Ok a \<longrightarrow> any a) \<and> (False \<longrightarrow> r \<noteq> Panic)"
    by (simp add: follows_def)
qed

lemma follows_action:
  assumes "keeps_open le stays"
  shows "valid False (follows stays m subs) (run_action le t a) any"
proof (cases a)
  case (InPublish msg)
  then show ?thesis
    by (auto intro!: net_rules net_closed_follows follows_dispatch [OF assms] valid_basic(1) split: qos.split option.split)
next
  case (InPubAck k)
  then show ?thesis by (auto intro!: net_rules valid_basic(1) follows_take_entry simp: follows_def split: option.split)
next
  case (InSubAck k)
  then show ?thesis by (auto intro!: net_rules valid_basic(1) follows_take_entry simp: follows_def split: option.split)
next
  case (InUnsubAck k)
  then show ?thesis by (auto intro!: net_rules valid_basic(1) follows_take_entry simp: follows_def split: option.split)
qed (simp_all add: valid_def)

text \<open>What happens to a connected loop: a request is handled, or a packet has arrived.\<close>

datatype ('r, 'c) loop_event = Handled "('r, 'c) client_request" | Arrived incoming_action

fun loop_event_step ::
  "('f, 'r, 'c, 'w, 'io) loop_env \<Rightarrow> ('w, 'io) boxed_transport \<Rightarrow> ('r, 'c) loop_event \<Rightarrow>
   ('f, 'r, 'c, 'w, 'io) event_loop \<Rightarrow> ('f, 'r, 'c, 'w, 'io) event_loop" where
  "loop_event_step le t (Handled req) l = snd (handle_client_request le t req l)"
| "loop_event_step le t (Arrived a) l = snd (run_action le t a l)"

fun handled :: "('r, 'c) loop_event \<Rightarrow> ('r, 'c) client_request list" where
  "handled (Handled req) = [req]"
| "handled (Arrived a) = []"

lemma follows_events:
  "keeps_open le stays \<Longrightarrow> follows stays m subs l \<Longrightarrow>
   follows stays (fold track_request (concat (map handled evs)) m)
     (fold subs_step (concat (map routed_by (concat (map handled evs)))) subs) (fold (loop_event_step le t) evs l)"
proof (induction evs arbitrary: m subs l)
  case (Cons ev evs)
  show ?case
  proof (cases ev)
    case (Handled req)
    from Cons.IH [OF Cons.prems(1) follows_request [OF Cons.prems(2), of req le t]] Handled show ?thesis by simp
  next
    case (Arrived a)
    obtain r l1 where "run_action le t a l = (r, l1)" by fastforce
    with validD [OF follows_action [OF Cons.prems(1)] Cons.prems(2) this] Cons.IH [OF Cons.prems(1), of m subs l1] Arrived
    show ?thesis by simp
  qed
qed simp

subsection \<open>Property\<close>

text \<open>C22. While requests are handled and packets arrive, in any order and whether or not the writes
  succeed, the table of active subscriptions, which is what a reconnection restores, stays the map that the
  requests describe. The router has for each filter only subscribers the requests asked for, and of those
  whose channels stay open all of them, in order: packets that arrive can only cost a subscriber whose
  channel is closed its place.\<close>

theorem subscriptions_follow_requests:
  fixes le :: "('f, 'r, 'c, 'w, 'io) loop_env" and t l evs
  assumes "keeps_open le stays"
  defines "reqs \<equiv> concat (map handled evs)" and "l' \<equiv> fold (loop_event_step le t) evs l"
  shows "map_of (el_active_subscriptions l') = fold track_request reqs (map_of (el_active_subscriptions l)) \<and>
    (let asked = fold subs_step (concat (map routed_by reqs)) (subscribers (el_router l)) in
     \<forall>f. set (subscribers (el_router l') f) \<subseteq> set (asked f) \<and>
       filter stays (subscribers (el_router l') f) = filter stays (asked f))"
proof -
  have "follows stays (map_of (el_active_subscriptions l)) (subscribers (el_router l)) l" by (simp add: follows_def)
  from follows_events [OF assms(1) this, of evs t] show ?thesis
    unfolding reqs_def l'_def by (simp add: follows_def thinned_def)
qed

theorem subscriptions_follow_requests_witness:
  "let l' = fold (loop_event_step (memory_env (Pair None)) memory_transport)
       [Handled (ReqSubscribe [0x61] AtLeastOnce 0 (Some ())), Arrived (InPublish (sample_msg AtMostOnce))] (sample_loop None) in
   map_of (el_active_subscriptions l') = [[0x61] \<mapsto> AtLeastOnce] \<and> subscribers (el_router l') [0x61] = [()]"
proof -
  have k: "keeps_open (memory_env (Pair None)) (\<lambda>_. True)" by (simp add: keeps_open_def memory_env_def)
  have v: "valid_filter [0x61]" by code_simp
  have n: "subscribers (el_router (sample_loop None)) [0x61] = []" "el_active_subscriptions (sample_loop None) = []"
    by (simp_all add: sample_loop_def event_loop_new_def router_new_def subscribers_def)
  from subscriptions_follow_requests [OF k, where t = memory_transport and l = "sample_loop None" and
      evs = "[Handled (ReqSubscribe [0x61] AtLeastOnce 0 (Some ())), Arrived (InPublish (sample_msg AtMostOnce))]"] v n
  show ?thesis by (simp add: Let_def del: loop_event_step.simps)
qed

end
