(* ===== verification/Core_Traits.thy ===== *)
theory Core_Traits
  imports Emb_Transport
begin

text \<open>
  \<open>mqtt-core/src/traits.rs\<close>: the one provided method of its interfaces, \<open>send_vectored\<close> of
  \<open>VectoredTransport\<close>, and the text of the unit error. The other methods are declared only.
\<close>

fun core_send_vectored ::
  "(bytes \<Rightarrow> 'w \<Rightarrow> ('t, unit) outcome \<times> 'w) \<Rightarrow> bytes list \<Rightarrow> 'w \<Rightarrow> ('t, unit) outcome \<times> 'w" where
  "core_send_vectored snd_op [] w = (Ok (), w)"
| "core_send_vectored snd_op (buf # bufs) w =
     (case snd_op buf w of
        (Ok _, w') \<Rightarrow> core_send_vectored snd_op bufs w'
      | (Err e, w') \<Rightarrow> (Err e, w')
      | (Panic, w') \<Rightarrow> (Panic, w'))"

definition display_unit_transport_error :: string where
  "display_unit_transport_error = ''Unit transport error''"

text \<open>Unlike the method of the embedded crate it also sends empty buffers; where sending nothing does nothing, as on a
  byte stream, the two agree.\<close>

lemma core_send_vectored_default:
  assumes "\<And>w. snd_op [] w = (Ok (), w)"
  shows "core_send_vectored snd_op bufs w = send_vectored_default snd_op bufs w"
  by (induction bufs arbitrary: w) (simp_all add: assms split: prod.split outcome.split)

text \<open>Where it does something the two differ: a transport of datagrams sends an empty one.\<close>

lemma core_send_vectored_empty:
  "snd (core_send_vectored (\<lambda>b w. (Ok () :: (unit, unit) outcome, w @ [b])) [[1], [], [2]] []) = [[1], [], [2]]"
  "snd (send_vectored_default (\<lambda>b w. (Ok () :: (unit, unit) outcome, w @ [b])) [[1], [], [2 :: byte]] []) = [[1], [2]]"
  by simp_all

end
