(* ===== verification/Embedded_Examples.thy ===== *)
theory Embedded_Examples
  imports Client_Sessions
begin

text \<open>
  The programs under \<open>crates/mqtt-async-embedded/examples\<close> that run the embedded client on a transport in
  memory: their transports, and \<open>main\<close> as the calls it makes of the client with the values it hands over.
  Each is shown to run to its end, with what its transport has seen then. What is printed is left out;
  \<open>MAX_INFLIGHT\<close> is its default of 8. The clock is as in \<open>Emb_Transport\<close>.
\<close>

subsection \<open>Common parts\<close>

text \<open>\<open>expect\<close> turns an error into a panic.\<close>

definition expect :: "('e, 's, 'a) action \<Rightarrow> ('e, 's, 'a) action" where
  "expect m s = (case m s of (Err _, s') \<Rightarrow> (Panic, s') | x \<Rightarrow> x)"

lemma expect_Ok [simp]: "m s = (Ok a, s') \<Longrightarrow> expect m s = (Ok a, s')"
  by (simp add: expect_def)

text \<open>\<open>let _ = ...\<close> drops a result, error or not; a panic is none.\<close>

definition let_underscore :: "('e, 's, 'a) action \<Rightarrow> ('e, 's, unit) action" where
  "let_underscore m s = (case m s of (Panic, s') \<Rightarrow> (Panic, s') | (_, s') \<Rightarrow> (Ok (), s'))"

lemma let_underscore_Ok [simp]: "m s = (Ok a, s') \<Longrightarrow> let_underscore m s = (Ok (), s')"
  by (simp add: let_underscore_def)

text \<open>\<open>write_all\<close>, the provided method of \<open>embedded_io_async::Write\<close>: \<open>write\<close> until nothing is left; a
  \<open>write\<close> of no bytes panics, and so does the slice behind one of too many.\<close>

function write_all_provided ::
  "(bytes \<Rightarrow> 's \<Rightarrow> ('e, nat) outcome \<times> 's) \<Rightarrow> bytes \<Rightarrow> 's \<Rightarrow> ('e, unit) outcome \<times> 's" where
  "write_all_provided wr buf s =
     (if buf = [] then (Ok (), s)
      else case wr buf s of
        (Ok n, s') \<Rightarrow> (if n = 0 \<or> length buf < n then (Panic, s') else write_all_provided wr (drop n buf) s')
      | (Err e, s') \<Rightarrow> (Err e, s')
      | (Panic, s') \<Rightarrow> (Panic, s'))"
  by pat_completeness auto
termination
  by (relation "measure (\<lambda>(_, buf, _). length buf)") auto

declare write_all_provided.simps [simp del]

lemma write_all_at_once:
  assumes "\<And>buf s. buf \<noteq> [] \<Longrightarrow> wr buf s = (Ok (length buf), f buf s)" "\<And>s. f [] s = s"
  shows "write_all_provided wr buf s = (Ok (), f buf s)"
  using assms by (cases "buf = []") (simp_all add: write_all_provided.simps [of wr])

text \<open>A stream of two byte queues, as \<open>MockStream\<close> and \<open>MockEspWifiSocket\<close> have: one is read
  from its front, the other written to its end.\<close>

record queue_stream =
  qs_rx_buf :: bytes
  qs_tx_buf :: bytes

definition queue_stream_new :: queue_stream where
  "queue_stream_new = \<lparr>qs_rx_buf = [0x20, 0x02, 0x00, 0x00], qs_tx_buf = []\<rparr>"

definition queue_read :: "bytes \<Rightarrow> queue_stream \<Rightarrow> ((unit, nat) outcome \<times> bytes) \<times> queue_stream" where
  "queue_read buf s =
     (let to_read = min (length buf) (length (qs_rx_buf s)) in
      ((Ok to_read, overwrite 0 (take to_read (qs_rx_buf s)) buf), s\<lparr>qs_rx_buf := drop to_read (qs_rx_buf s)\<rparr>))"

definition queue_write :: "bytes \<Rightarrow> queue_stream \<Rightarrow> (unit, nat) outcome \<times> queue_stream" where
  "queue_write buf s = (Ok (length buf), s\<lparr>qs_tx_buf := qs_tx_buf s @ buf\<rparr>)"

definition queue_env :: "(nat \<Rightarrow> nat) \<Rightarrow> nat \<Rightarrow> (queue_stream embedded_io_transport, unit embedded_io_error) env" where
  "queue_env now hz = embedded_io_env (write_all_provided queue_write) queue_read now hz"

lemma queue_write_all: "write_all_provided queue_write buf s = (Ok (), s\<lparr>qs_tx_buf := qs_tx_buf s @ buf\<rparr>)"
  by (rule write_all_at_once) (simp_all add: queue_write_def)

interpretation queue: silent_peer "queue_env now hz" "\<lambda>w. qs_tx_buf (eit_stream w)" "\<lambda>b l. l @ b"
  "\<lambda>w. qs_rx_buf (eit_stream w) = connack_bytes" "\<lambda>w. qs_rx_buf (eit_stream w) = []" for now hz
  by unfold_locales (auto simp: queue_env_def embedded_io_env_def embedded_io_send_def embedded_io_recv_def queue_write_all
      queue_read_def connack_bytes_def overwrite_def)

lemma queue_env_sel [simp]: "env_now (queue_env now hz) = now" "env_tick_hz (queue_env now hz) = hz"
  by (simp_all add: queue_env_def embedded_io_env_def)

lemma client_new_sel [simp]:
  "cl_transport (client_new env B w mo) = w" "cl_options (client_new env B w mo) = mo"
  "cl_state (client_new env B w mo) = ClientDisconnected" "cl_next_packet_id (client_new env B w mo) = 1"
  "cl_tx_buffer (client_new env B w mo) = replicate B 0" "cl_rx_buffer (client_new env B w mo) = replicate B 0"
  "cl_readings (client_new env B w mo) = 2" "iq_entries (cl_inflight (client_new env B w mo)) = []"
  by (simp_all add: client_new_def inflight_new_def)

lemma with_options_sel [simp]:
  "mo_version (with_version v mo) = v" "mo_version (with_keep_alive k mo) = mo_version mo"
  "mo_version (with_clean_session b mo) = mo_version mo" "mo_version (with_will w mo) = mo_version mo"
  "mo_version (with_stream_mode m mo) = mo_version mo" "mo_version (mqtt_options_new hz i h p) = V3_1_1"
  "mo_keep_alive (with_version v mo) = mo_keep_alive mo" "mo_keep_alive (with_keep_alive k mo) = k"
  "mo_keep_alive (with_clean_session b mo) = mo_keep_alive mo" "mo_keep_alive (with_will w mo) = mo_keep_alive mo"
  "mo_keep_alive (with_stream_mode m mo) = mo_keep_alive mo"
  by (simp_all add: with_version_def with_keep_alive_def with_clean_session_def with_will_def with_stream_mode_def
      mqtt_options_new_def)

lemmas options_defs = with_version_def with_keep_alive_def with_clean_session_def with_will_def with_stream_mode_def
  mqtt_options_new_def

lemma length_text_of [simp]: "length (text_of s) = length s"
  by (simp add: text_of_def)

text \<open>The size of packets without will, credentials and properties.\<close>

lemma length_wire: "length (wire p v) = 1 + length (vbi (length (packet_content p v))) + length (packet_content p v)"
  by (simp add: wire_def frame_def)

lemma plain_connect:
  assumes "mo_will mo = None" "mo_username mo = None" "mo_password mo = None" "mo_properties mo = []"
  shows "length (packet_content (Connect (connect_packet hz mo)) v) = 12 + length (mo_client_id mo) + (if v = V5 then 1 else 0)"
    and "length (mo_client_id mo) \<le> 65535 \<Longrightarrow> encodable (Connect (connect_packet hz mo)) v"
  using assms by (simp_all add: encodable_def connect_packet_def connect_new_def mqtt_name_def optional_string_content_def
      will_content_def props_content_def properties_bytes_def props_bytes_def vbi.simps)

lemma plain_publish:
  "length (packet_content (Publish (outgoing_publish topic payload q pid r)) v) =
    2 + length topic + (if q = AtMostOnce then 0 else 2) + (if v = V5 then 1 else 0) + length payload"
  by (simp add: outgoing_publish_def publish_new_def packet_id_content_def props_content_def properties_bytes_def
      props_bytes_def vbi.simps)

subsection \<open>\<open>esp32c3_uart_mqtt.rs\<close>\<close>

record esp32_uart_stream =
  us_tx_count :: nat

definition c3_read :: "bytes \<Rightarrow> esp32_uart_stream \<Rightarrow> ((unit, nat) outcome \<times> bytes) \<times> esp32_uart_stream" where
  "c3_read buf s =
     (if buf \<noteq> [] then
        (if length buf < 4 then ((Panic, overwrite 0 (take (length buf) [0x20, 0x02, 0x00, 0x00]) buf), s)
         else ((Ok 4, overwrite 0 [0x20, 0x02, 0x00, 0x00] buf), s))
      else ((Ok 0, buf), s))"

definition c3_write :: "bytes \<Rightarrow> esp32_uart_stream \<Rightarrow> (unit, nat) outcome \<times> esp32_uart_stream" where
  "c3_write buf s = (Ok (length buf), s\<lparr>us_tx_count := us_tx_count s + length buf\<rparr>)"

definition c3_env :: "(nat \<Rightarrow> nat) \<Rightarrow> nat \<Rightarrow> (esp32_uart_stream embedded_io_transport, unit embedded_io_error) env" where
  "c3_env now hz = embedded_io_env (write_all_provided c3_write) c3_read now hz"

definition c3_options :: "nat \<Rightarrow> mqtt_options" where
  "c3_options hz = with_clean_session True (with_keep_alive (60 * hz) (with_version V5
     (mqtt_options_new hz (text_of ''esp32c3-solar-sensor'') (text_of ''192.168.4.1'') 1883)))"

definition c3_main :: "(nat \<Rightarrow> nat) \<Rightarrow> nat \<Rightarrow>
    (unit embedded_io_error mqtt_error, unit) outcome \<times> esp32_uart_stream embedded_io_transport client" where
  "c3_main now hz =
     (let env = c3_env now hz;
          client = client_new env 1024 \<lparr>eit_stream = \<lparr>us_tx_count = 0\<rparr>\<rparr> (c3_options hz) in
      bind (expect (client_connect env)) (\<lambda>_.
        expect (client_publish env 8 (text_of ''sensors/solar/status'')
          (text_of ''{\"solar_voltage_mv\": 3840, \"panel_temp_c\": 42.1}'') AtLeastOnce)) client)"

lemma c3_write_all: "write_all_provided c3_write buf s = (Ok (), s\<lparr>us_tx_count := us_tx_count s + length buf\<rparr>)"
  by (rule write_all_at_once) (simp_all add: c3_write_def)

interpretation c3: recording_peer "c3_env now hz" "\<lambda>w. us_tx_count (eit_stream w)" "\<lambda>b n. n + length b"
  "\<lambda>w. True" "\<lambda>w. True" for now hz
proof (unfold_locales, goal_cases)
  case (2 w buf)
  then show ?case
    by (cases "buf = []") (auto simp: c3_env_def embedded_io_env_def embedded_io_recv_def c3_read_def connack_bytes_def)
qed (simp add: c3_env_def embedded_io_env_def embedded_io_send_def c3_write_all)

lemma c3_run: "\<exists>c. c3_main now hz = (Ok (), c) \<and> us_tx_count (eit_stream (cl_transport c)) = 110"
proof -
  let ?env = "c3_env now hz" and ?c = "client_new (c3_env now hz) 1024 \<lparr>eit_stream = \<lparr>us_tx_count = 0\<rparr>\<rparr> (c3_options hz)"
  let ?p = "Connect (connect_packet hz (c3_options hz))"
  have hz: "env_tick_hz ?env = hz" by (simp add: c3_env_def embedded_io_env_def)
  have v: "mo_version (c3_options hz) = V5" by (simp add: c3_options_def)
  have p: "length (packet_content ?p V5) = 33" "encodable ?p V5"
    using plain_connect [of "c3_options hz" hz V5] by (simp_all add: c3_options_def options_defs del: packet_content.simps)
  from c3.connect_succeeds [where c = ?c and now = now and hz = hz] p v hz obtain c1 where
    c1: "client_connect ?env ?c = (Ok (), c1)" "cl_state c1 = ClientConnected" "iq_entries (cl_inflight c1) = []"
    "cl_options c1 = c3_options hz" "length (cl_tx_buffer c1) = 1024" "cl_next_packet_id c1 = 1"
    "us_tx_count (eit_stream (cl_transport c1)) = 35"
    by (auto simp: length_wire vbi.simps simp del: packet_content.simps)
  have "length (wire (Publish (outgoing_publish (text_of ''sensors/solar/status'')
      (text_of ''{\"solar_voltage_mv\": 3840, \"panel_temp_c\": 42.1}'') AtLeastOnce (Some 1) False)) V5) = 75"
    by (simp add: length_wire plain_publish vbi.simps del: packet_content.simps)
  then show ?thesis
    using c3.publish_succeeds [where c = c1 and now = now and hz = hz and N = 8 and topic = "text_of ''sensors/solar/status''"
        and payload = "text_of ''{\"solar_voltage_mv\": 3840, \"panel_temp_c\": 42.1}''" and q = AtLeastOnce] c1 v
    by (auto simp: c3_main_def Let_def small_def message_fits_def publish_message_new_def allocated_id_def)
qed

subsection \<open>\<open>esp32_wifi_embassy.rs\<close>\<close>

definition wifi_options :: "nat \<Rightarrow> mqtt_options" where
  "wifi_options hz = with_will (will_new (text_of ''devices/esp32/status'') (text_of ''offline'') AtLeastOnce True)
     (with_clean_session True (with_keep_alive (30 * hz) (with_version V5
       (mqtt_options_new hz (text_of ''esp32s3-telemetry-node'') (text_of ''broker.hivemq.com'') 1883))))"

definition wifi_batch :: "publish_message list" where
  "wifi_batch =
     [publish_message_new (text_of ''esp32/sensors/temperature'') (text_of ''26.4'') AtMostOnce,
      publish_message_new (text_of ''esp32/sensors/humidity'') (text_of ''48.2'') AtMostOnce,
      publish_message_new (text_of ''esp32/sensors/wifi_rssi_dbm'') (text_of ''-58'') AtMostOnce]"

text \<open>A message that \<open>poll\<close> returns is only printed, an error ignored.\<close>

definition wifi_main :: "(nat \<Rightarrow> nat) \<Rightarrow> nat \<Rightarrow>
    (unit embedded_io_error mqtt_error, nat) outcome \<times> queue_stream embedded_io_transport client" where
  "wifi_main now hz =
     (let env = queue_env now hz;
          client = client_new env 2048 \<lparr>eit_stream = queue_stream_new\<rparr> (wifi_options hz) in
      bind (expect (client_connect env)) (\<lambda>_.
      bind (expect (publish_batch env 8 wifi_batch)) (\<lambda>sent.
      bind (ignore_result (client_poll env 8)) (\<lambda>_.
      bind (expect (client_disconnect env)) (\<lambda>_. ret sent)))) client)"

lemma wifi_connect:
  "length (packet_content (Connect (connect_packet hz (wifi_options hz))) V5) = 67"
  "encodable (Connect (connect_packet hz (wifi_options hz))) V5"
  by (simp_all add: encodable_def connect_packet_def connect_new_def wifi_options_def options_defs mqtt_name_def will_new_def
      optional_string_content_def will_content_def props_content_def properties_bytes_def props_bytes_def vbi.simps)

lemma queue_stream_new_sel: "qs_rx_buf queue_stream_new = connack_bytes" "qs_tx_buf queue_stream_new = []"
  by (simp_all add: queue_stream_new_def connack_bytes_def)

text \<open>The example sends its three readings; a PINGREQ follows when the clock has advanced by 15 seconds
  since.\<close>

lemma wifi_run:
  assumes "now 4 \<le> now 5"
  shows "\<exists>c. wifi_main now hz = (Ok 3, c) \<and> qs_tx_buf (eit_stream (cl_transport c)) =
    wire (Connect (connect_packet hz (wifi_options hz))) V5 @ batch_wire V5 1 wifi_batch @
    (if 30 * hz div 2 \<le> now 5 - now 4 then [0xC0, 0] else []) @ [0xE0, 0]"
proof -
  let ?env = "queue_env now hz" and ?c = "client_new (queue_env now hz) 2048 \<lparr>eit_stream = queue_stream_new\<rparr> (wifi_options hz)"
  let ?connect = "wire (Connect (connect_packet hz (wifi_options hz))) V5"
  have v: "mo_version (wifi_options hz) = V5" "mo_keep_alive (wifi_options hz) = 30 * hz" by (simp_all add: wifi_options_def)
  from queue.connect_succeeds [where c = ?c and now = now and hz = hz] wifi_connect [of hz] v(1) obtain c1 where
    c1: "client_connect ?env ?c = (Ok (), c1)" "cl_state c1 = ClientConnected" "iq_entries (cl_inflight c1) = []"
      "cl_options c1 = wifi_options hz" "length (cl_tx_buffer c1) = 2048" "cl_next_packet_id c1 = 1"
      "cl_readings c1 = 4" "qs_rx_buf (eit_stream (cl_transport c1)) = []" "qs_tx_buf (eit_stream (cl_transport c1)) = ?connect"
    by (auto simp: queue_stream_new_sel simp del: packet_content.simps)
  from queue.batch_run [where c = c1 and now = now and hz = hz and ms = wifi_batch and N = 8] c1 v obtain c2 where
    c2: "publish_batch ?env 8 wifi_batch c1 = (Ok 3, c2)" "cl_state c2 = ClientConnected" "cl_options c2 = wifi_options hz"
      "length (cl_tx_buffer c2) = 2048" "cl_readings c2 = 5" "cl_last_tx_time c2 = now 4" "qs_rx_buf (eit_stream (cl_transport c2)) = []"
      "qs_tx_buf (eit_stream (cl_transport c2)) = ?connect @ batch_wire V5 1 wifi_batch"
    by (auto simp: wifi_batch_def publish_message_new_def message_size_def tracked_def small_def simp del: batch_wire.simps)
  from queue.poll_run [where c = c2 and now = now and hz = hz and N = 8] c2 v assms obtain c3 where
    c3: "client_poll ?env 8 c2 = (Ok None, c3)" "cl_state c3 = ClientConnected" "length (cl_tx_buffer c3) = 2048"
      "qs_tx_buf (eit_stream (cl_transport c3)) = ?connect @ batch_wire V5 1 wifi_batch @
        (if 30 * hz div 2 \<le> now 5 - now 4 then [0xC0, 0] else [])"
    by (auto simp: queue.ping_due_def)
  from queue.disconnect_succeeds [where c = c3 and now = now and hz = hz] c3 obtain c4 where
    c4: "client_disconnect ?env c3 = (Ok (), c4)" "qs_tx_buf (eit_stream (cl_transport c4)) = ?connect @
      batch_wire V5 1 wifi_batch @ (if 30 * hz div 2 \<le> now 5 - now 4 then [0xC0, 0] else []) @ [0xE0, 0]" by auto
  from c1(1) c2(1) c3(1) c4 show ?thesis by (simp add: wifi_main_def Let_def ignore_result_def)
qed

subsection \<open>\<open>realtime_stream.rs\<close>\<close>

text \<open>While the writer lives it has the client's transport.\<close>

definition with_writer ::
  "('e, 'w stream_writer, 'a) action \<Rightarrow> 'w stream_writer \<Rightarrow> ('e, 'w client, 'a) action" where
  "with_writer m wr c = (case m wr of (r, wr') \<Rightarrow> (r, end_stream wr' c))"

definition finish_writer :: "('w, 't, unit) writer_action" where
  "finish_writer wr = (stream_finish wr, wr)"

text \<open>\<open>for i in 1..=chunks_count\<close>\<close>

fun repeat_chunk :: "('w, 't) env \<Rightarrow> bytes \<Rightarrow> nat \<Rightarrow> ('w, 't, unit) writer_action" where
  "repeat_chunk env chunk 0 = ret ()"
| "repeat_chunk env chunk (Suc n) = bind (expect (write_chunk env chunk)) (\<lambda>_. repeat_chunk env chunk n)"

definition realtime_options :: "nat \<Rightarrow> mqtt_options" where
  "realtime_options hz = with_stream_mode RealTimeStreaming (with_keep_alive (30 * hz) (with_version V5
     (mqtt_options_new hz (text_of ''edge-streaming-node'') (text_of ''broker.hivemq.com'') 1883)))"

definition realtime_main :: "(nat \<Rightarrow> nat) \<Rightarrow> nat \<Rightarrow>
    (unit embedded_io_error mqtt_error, unit) outcome \<times> queue_stream embedded_io_transport client" where
  "realtime_main now hz =
     (let env = queue_env now hz;
          client = client_new env 512 \<lparr>eit_stream = queue_stream_new\<rparr> (realtime_options hz);
          total_audio_len = 4096;
          chunk_sample = replicate 256 0x5A;
          chunks_count = total_audio_len div length chunk_sample in
      bind (expect (client_connect env)) (\<lambda>_.
      bind (expect (begin_stream_publish env 8 (text_of ''edge/microphone/stream'') total_audio_len AtMostOnce)) (\<lambda>stream_writer.
        with_writer (bind (repeat_chunk env chunk_sample chunks_count) (\<lambda>_. expect finish_writer)) stream_writer)) client)"

context recording_peer begin

lemma repeat_chunk_run:
  "n * length chunk \<le> sw_bytes_remaining wr \<Longrightarrow>
   \<exists>wr'. repeat_chunk env chunk n wr = (Ok (), wr') \<and> stream_writes env (replicate n (Chunk chunk)) wr = (Ok (), wr') \<and>
     sw_bytes_remaining wr' = sw_bytes_remaining wr - n * length chunk"
proof (induction n arbitrary: wr)
  case (Suc n)
  have "length chunk \<le> sw_bytes_remaining wr" using Suc.prems by simp
  from write_chunk_run [OF this] obtain wr1 where
    1: "write_chunk env chunk wr = (Ok (), wr1)" "sw_bytes_remaining wr1 = sw_bytes_remaining wr - length chunk" by blast
  with Suc.IH [of wr1] Suc.prems show ?case by (auto simp: bind_def)
qed simp

end

interpretation queue_io: io_stream "write_all_provided queue_write" queue_read qs_tx_buf now hz for now hz
  by unfold_locales (auto simp: queue_write_all queue_read_def Let_def)

lemma queue_contract: "transport_contract (queue_env now hz) (\<lambda>w. qs_tx_buf (eit_stream w))"
  unfolding queue_env_def by (rule queue_io.embedded.transport_contract_axioms)

lemma with_writer_Ok [simp]: "m wr = (r, wr') \<Longrightarrow> with_writer m wr c = (r, end_stream wr' c)"
  by (simp add: with_writer_def)

lemma finish_writer_run: "sw_bytes_remaining wr = 0 \<Longrightarrow> finish_writer wr = (Ok (), wr)"
  by (simp add: finish_writer_def stream_finish_def)

lemma concat_replicate_replicate: "concat (replicate n (replicate k x)) = replicate (n * k) x"
  by (induction n) (simp_all add: replicate_add)

text \<open>Four kilobytes in sixteen chunks through a client with buffers of 512 bytes: the stream holds one
  PUBLISH packet with the whole recording.\<close>

lemma realtime_run:
  "\<exists>c. realtime_main now hz = (Ok (), c) \<and> qs_tx_buf (eit_stream (cl_transport c)) =
    wire (Connect (connect_packet hz (realtime_options hz))) V5 @
    wire (Publish (outgoing_publish (text_of ''edge/microphone/stream'') (replicate 4096 0x5A) AtMostOnce None False)) V5"
proof -
  let ?env = "queue_env now hz" and ?topic = "text_of ''edge/microphone/stream''" and ?chunk = "replicate 256 0x5A :: bytes"
  let ?c = "client_new (queue_env now hz) 512 \<lparr>eit_stream = queue_stream_new\<rparr> (realtime_options hz)"
  let ?connect = "Connect (connect_packet hz (realtime_options hz))"
  have v: "mo_version (realtime_options hz) = V5" by (simp add: realtime_options_def)
  have p: "length (packet_content ?connect V5) = 32" "encodable ?connect V5"
    using plain_connect [of "realtime_options hz" hz V5] by (simp_all add: realtime_options_def options_defs del: packet_content.simps)
  from queue.connect_succeeds [where c = ?c and now = now and hz = hz] p v obtain c1 where
    c1: "client_connect ?env ?c = (Ok (), c1)" "cl_state c1 = ClientConnected" "cl_options c1 = realtime_options hz"
      "qs_tx_buf (eit_stream (cl_transport c1)) = wire ?connect V5"
    by (auto simp: queue_stream_new_sel simp del: packet_content.simps)
  have "stream_fixed_header AtMostOnce 4121 = Ok [0x30, 0x99, 0x20]" by code_simp
  moreover have "stream_header_outcome ?topic None V5 = Ok (prefixed ?topic @ [0])"
    by (simp add: stream_header_outcome_def stream_header_def to_be16_def)
  ultimately obtain c2 where
    c2: "begin_stream_publish ?env 8 ?topic 4096 AtMostOnce c1 = (Ok (stream_writer_new (cl_transport c2) 4096), c2)"
    using queue.begin_stream_run [where c = c1 and now = now and hz = hz and q = AtMostOnce and topic = ?topic and tot = 4096 and N = 8] c1 v
    by (auto simp: allocated_id_def)
  from queue.repeat_chunk_run [of 16 ?chunk "stream_writer_new (cl_transport c2) 4096" now hz] obtain wr where
    wr: "repeat_chunk ?env ?chunk 16 (stream_writer_new (cl_transport c2) 4096) = (Ok (), wr)"
      "stream_writes ?env (replicate 16 (Chunk ?chunk)) (stream_writer_new (cl_transport c2) 4096) = (Ok (), wr)"
      "sw_bytes_remaining wr = 0" by (auto simp: stream_writer_new_def)
  have "stream_finish wr = (Ok () :: (unit embedded_io_error mqtt_error, unit) outcome)" using wr(3) by (simp add: stream_finish_def)
  from transport_contract.stream_publish_wire [OF queue_contract c2 wr(2) this] c1 v
  have "qs_tx_buf (eit_stream (sw_transport wr)) = wire ?connect V5 @
      wire (Publish (outgoing_publish ?topic (replicate 4096 0x5A) AtMostOnce None False)) V5"
    by (simp add: allocated_id_def concat_replicate_replicate)
  moreover have "realtime_main now hz = (Ok (), end_stream wr c2)"
    using c1(1) c2 wr(1) by (simp add: realtime_main_def Let_def finish_writer_run [OF wr(3)])
  ultimately show ?thesis by (simp add: end_stream_def)
qed

subsection \<open>\<open>stm32h7_embassy_mqtt.rs\<close>\<close>

datatype stm32_transport_error = TxFailed

record stm32_dma_loopback =
  tx_bytes :: nat

definition stm32_send :: "bytes \<Rightarrow> stm32_dma_loopback \<Rightarrow> (stm32_transport_error, unit) outcome \<times> stm32_dma_loopback" where
  "stm32_send buf w = (Ok (), w\<lparr>tx_bytes := tx_bytes w + length buf\<rparr>)"

definition stm32_recv ::
  "bytes \<Rightarrow> stm32_dma_loopback \<Rightarrow> ((stm32_transport_error, nat) outcome \<times> bytes) \<times> stm32_dma_loopback" where
  "stm32_recv buf w =
     (if buf \<noteq> [] then
        (if length buf < 4 then ((Panic, overwrite 0 (take (length buf) [0x20, 0x02, 0x00, 0x00]) buf), w)
         else ((Ok 4, overwrite 0 [0x20, 0x02, 0x00, 0x00] buf), w))
      else ((Ok 0, buf), w))"

fun stm32_send_vectored ::
  "bytes list \<Rightarrow> stm32_dma_loopback \<Rightarrow> (stm32_transport_error, unit) outcome \<times> stm32_dma_loopback" where
  "stm32_send_vectored [] w = (Ok (), w)"
| "stm32_send_vectored (b # bufs) w = stm32_send_vectored bufs (w\<lparr>tx_bytes := tx_bytes w + length b\<rparr>)"

definition stm32_env :: "(nat \<Rightarrow> nat) \<Rightarrow> nat \<Rightarrow> (stm32_dma_loopback, stm32_transport_error) env" where
  "stm32_env now hz = \<lparr>tr_send = stm32_send, tr_recv = stm32_recv, tr_send_vectored = stm32_send_vectored,
     env_now = now, env_tick_hz = hz\<rparr>"

definition stm32_options :: "nat \<Rightarrow> mqtt_options" where
  "stm32_options hz = with_clean_session True (with_keep_alive (30 * hz) (with_version V5
     (mqtt_options_new hz (text_of ''stm32h7-edge-node'') (text_of ''192.168.1.100'') 1883)))"

definition stm32_main :: "(nat \<Rightarrow> nat) \<Rightarrow> nat \<Rightarrow>
    (stm32_transport_error mqtt_error, unit) outcome \<times> stm32_dma_loopback client" where
  "stm32_main now hz =
     (let env = stm32_env now hz;
          client = client_new env 2048 \<lparr>tx_bytes = 0\<rparr> (stm32_options hz);
          adc_dma_buffer = replicate 512 0xAA in
      bind (expect (client_connect env)) (\<lambda>_.
      bind (expect (begin_stream_publish env 8 (text_of ''telemetry/stm32/adc'') (length adc_dma_buffer) AtLeastOnce)) (\<lambda>writer.
        with_writer (bind (expect (write_dma_slice env adc_dma_buffer)) (\<lambda>_. expect finish_writer)) writer)) client)"

interpretation stm32: recording_peer "stm32_env now hz" tx_bytes "\<lambda>b n. n + length b" "\<lambda>w. True" "\<lambda>w. True" for now hz
proof (unfold_locales, goal_cases)
  case (2 w buf)
  then show ?case by (cases "buf = []") (auto simp: stm32_env_def stm32_recv_def connack_bytes_def)
qed (simp add: stm32_env_def stm32_send_def)

lemma stm32_run: "\<exists>c. stm32_main now hz = (Ok (), c) \<and> tx_bytes (cl_transport c) = 571"
proof -
  let ?env = "stm32_env now hz" and ?topic = "text_of ''telemetry/stm32/adc''" and ?adc = "replicate 512 0xAA :: bytes"
  let ?c = "client_new (stm32_env now hz) 2048 \<lparr>tx_bytes = 0\<rparr> (stm32_options hz)"
  let ?connect = "Connect (connect_packet hz (stm32_options hz))"
  have v: "mo_version (stm32_options hz) = V5" "env_tick_hz ?env = hz" by (simp_all add: stm32_options_def stm32_env_def)
  have p: "length (packet_content ?connect V5) = 30" "encodable ?connect V5"
    using plain_connect [of "stm32_options hz" hz V5] by (simp_all add: stm32_options_def options_defs del: packet_content.simps)
  from stm32.connect_succeeds [where c = ?c and now = now and hz = hz] p v obtain c1 where
    c1: "client_connect ?env ?c = (Ok (), c1)" "cl_state c1 = ClientConnected" "cl_options c1 = stm32_options hz"
      "iq_entries (cl_inflight c1) = []" "cl_next_packet_id c1 = 1" "tx_bytes (cl_transport c1) = 32"
    by (auto simp: length_wire vbi.simps simp del: packet_content.simps)
  have "stream_fixed_header AtLeastOnce 536 = Ok [0x32, 0x98, 0x04]" by code_simp
  moreover have "stream_header_outcome ?topic (Some 1) V5 = Ok (prefixed ?topic @ [0, 1, 0])"
    by (simp add: stream_header_outcome_def stream_header_def to_be16_def)
  ultimately obtain c2 where
    c2: "begin_stream_publish ?env 8 ?topic 512 AtLeastOnce c1 = (Ok (stream_writer_new (cl_transport c2) 512), c2)"
      "tx_bytes (cl_transport c2) = 59"
    using stm32.begin_stream_run [where c = c1 and now = now and hz = hz and q = AtLeastOnce and topic = ?topic and tot = 512 and N = 8] c1 v
    by (auto simp: allocated_id_def)
  from stm32.write_chunk_run [of ?adc "stream_writer_new (cl_transport c2) 512" now hz] obtain wr where
    wr: "write_dma_slice ?env ?adc (stream_writer_new (cl_transport c2) 512) = (Ok (), wr)" "sw_bytes_remaining wr = 0"
      "tx_bytes (sw_transport wr) = 571" using c2(2) by (auto simp: stream_writer_new_def write_dma_slice_def)
  have "stm32_main now hz = (Ok (), end_stream wr c2)"
    using c1(1) c2(1) wr(1) by (simp add: stm32_main_def Let_def finish_writer_run [OF wr(2)])
  with wr(3) show ?thesis by (simp add: end_stream_def)
qed

end
