(* ===== verification/Broker_Examples.thy ===== *)
theory Broker_Examples
  imports Embedded_Examples
begin

text \<open>
  The examples of the embedded client that also play the broker, \<open>multipacket_burst.rs\<close> and
  \<open>quic_client.rs\<close>. A transport and its clone share their queues, so what the broker's side does is done to the client's transport.
\<close>

subsection \<open>\<open>multipacket_burst.rs\<close>\<close>

record broker_transport =
  bk_incoming :: bytes
  bk_outgoing :: bytes

definition broker_new :: broker_transport where
  "broker_new = \<lparr>bk_incoming = [0x20, 0x02, 0x00, 0x00], bk_outgoing = []\<rparr>"

definition broker_send :: "bytes \<Rightarrow> broker_transport \<Rightarrow> (unit, unit) outcome \<times> broker_transport" where
  "broker_send buf w = (Ok (), w\<lparr>bk_outgoing := bk_outgoing w @ buf\<rparr>)"

definition broker_recv :: "bytes \<Rightarrow> broker_transport \<Rightarrow> ((unit, nat) outcome \<times> bytes) \<times> broker_transport" where
  "broker_recv buf w =
     (let to_read = min (length buf) (length (bk_incoming w)) in
      ((Ok to_read, overwrite 0 (take to_read (bk_incoming w)) buf), w\<lparr>bk_incoming := drop to_read (bk_incoming w)\<rparr>))"

definition broker_env :: "(nat \<Rightarrow> nat) \<Rightarrow> nat \<Rightarrow> (broker_transport, unit) env" where
  "broker_env now hz =
     \<lparr>tr_send = broker_send, tr_recv = broker_recv, tr_send_vectored = send_vectored_default broker_send,
      env_now = now, env_tick_hz = hz\<rparr>"

text \<open>\<open>cursor += p.encode(&mut buf[cursor..], MqttVersion::V3).unwrap()\<close>\<close>

definition encode_at :: "publish \<Rightarrow> nat \<times> bytes \<Rightarrow> (packet_error, nat \<times> bytes) outcome" where
  "encode_at p cb =
     (case cb of (cursor, buf) \<Rightarrow>
        if length buf < cursor then Panic
        else case encode_packet (Publish p) (drop cursor buf) V3 of
          (Ok n, sub) \<Rightarrow> Ok (cursor + n, take cursor buf @ sub)
        | _ \<Rightarrow> Panic)"

definition burst_publishes :: "publish list" where
  "burst_publishes =
     [publish_new (text_of ''telemetry/accel/x'') (text_of ''1.024'') AtMostOnce,
      publish_new (text_of ''telemetry/accel/y'') (text_of ''-0.012'') AtMostOnce,
      publish_new (text_of ''telemetry/accel/z'') (text_of ''9.810'') AtMostOnce]"

fun encode_all :: "publish list \<Rightarrow> nat \<times> bytes \<Rightarrow> (packet_error, nat \<times> bytes) outcome" where
  "encode_all [] cb = Ok cb"
| "encode_all (p # ps) cb = and_then (encode_at p cb) (encode_all ps)"

definition queue_publish_burst :: "broker_transport \<Rightarrow> (packet_error, broker_transport) outcome" where
  "queue_publish_burst w =
     and_then (encode_all burst_publishes (0, replicate 512 0)) (\<lambda>(cursor, buf).
     and_then (subslice buf 0 cursor) (\<lambda>b. Ok (w\<lparr>bk_incoming := bk_incoming w @ b\<rparr>)))"

definition burst_options :: "nat \<Rightarrow> mqtt_options" where
  "burst_options hz = mqtt_options_new hz (text_of ''fast-burst-device'') (text_of ''localhost'') 1883"

definition burst_batch :: "publish_message list" where
  "burst_batch =
     [publish_message_new (text_of ''telemetry/accel/x'') (text_of ''1.024'') AtMostOnce,
      publish_message_new (text_of ''telemetry/accel/y'') (text_of ''-0.012'') AtMostOnce,
      publish_message_new (text_of ''telemetry/accel/z'') (text_of ''9.810'') AtMostOnce,
      publish_message_new (text_of ''telemetry/gyro/pitch'') (text_of ''0.45'') AtMostOnce,
      publish_message_new (text_of ''telemetry/gyro/roll'') (text_of ''-1.20'') AtMostOnce]"

text \<open>The broker's side acts while the client is idle.\<close>

definition peer_acts :: "('w \<Rightarrow> (packet_error, 'w) outcome) \<Rightarrow> ('w, 't, unit) client_action" where
  "peer_acts f c = (case f (cl_transport c) of Ok w \<Rightarrow> (Ok (), c\<lparr>cl_transport := w\<rparr>) | _ \<Rightarrow> (Panic, c))"

definition burst_main :: "(nat \<Rightarrow> nat) \<Rightarrow> nat \<Rightarrow>
    (unit mqtt_error, nat \<times> mqtt_event list) outcome \<times> broker_transport client" where
  "burst_main now hz =
     (let env = broker_env now hz;
          client = client_new env 4096 broker_new (burst_options hz) in
      bind (expect (client_connect env)) (\<lambda>_.
      bind (expect (publish_batch env 8 burst_batch)) (\<lambda>sent_count.
      bind (peer_acts queue_publish_burst) (\<lambda>_.
      bind (expect (poll_batch env 8 8)) (\<lambda>events.
      bind (expect (client_disconnect env)) (\<lambda>_. ret (sent_count, events)))))) client)"

interpretation broker: recording_peer "broker_env now hz" bk_outgoing "\<lambda>b l. l @ b"
  "\<lambda>w. bk_incoming w = connack_bytes" "\<lambda>w. bk_incoming w = []" for now hz
  by unfold_locales (auto simp: broker_env_def broker_send_def broker_recv_def connack_bytes_def)

lemma burst_publishes_quiet:
  "\<forall>p \<in> set burst_publishes. quiet V3_1_1 p"
  by (simp add: burst_publishes_def quiet_def publish_new_def encodable_def packet_id_content_def props_content_def
      props_view_def) code_simp

lemma encode_at_fits:
  assumes "encodable (Publish p) V3" "cursor + 5 + length (packet_content (Publish p) V3) \<le> length buf"
  shows "\<exists>buf'. encode_at p (cursor, buf) = Ok (cursor + length (wire (Publish p) V3), buf') \<and>
    length buf' = length buf \<and> take (cursor + length (wire (Publish p) V3)) buf' = take cursor buf @ wire (Publish p) V3"
proof -
  have "5 + length (packet_content (Publish p) V3) \<le> length (drop cursor buf)" using assms(2) by simp
  then obtain sub where "encode_packet (Publish p) (drop cursor buf) V3 = (Ok (length (wire (Publish p) V3)), sub)"
    "length sub = length (drop cursor buf)" "take (length (wire (Publish p) V3)) sub = wire (Publish p) V3"
    using encode_packet_Ok [OF assms(1)] by metis
  with assms(2) show ?thesis
    by (intro exI [of _ "take cursor buf @ sub"]) (simp add: encode_at_def del: encode_packet.simps)
qed

lemma encode_all_fits:
  "\<forall>p \<in> set ps. encodable (Publish p) V3 \<Longrightarrow>
   cursor + sum_list (map (\<lambda>p. 5 + length (packet_content (Publish p) V3)) ps) \<le> length buf \<Longrightarrow>
   \<exists>buf'. encode_all ps (cursor, buf) = Ok (cursor + length (burst V3 ps), buf') \<and> length buf' = length buf \<and>
     take (cursor + length (burst V3 ps)) buf' = take cursor buf @ burst V3 ps"
proof (induction ps arbitrary: cursor buf)
  case (Cons p ps)
  let ?n = "length (wire (Publish p) V3)"
  have "cursor + 5 + length (packet_content (Publish p) V3) \<le> length buf" using Cons.prems(2) by (simp del: packet_content.simps)
  from encode_at_fits [OF _ this] Cons.prems(1) obtain b where b: "encode_at p (cursor, buf) = Ok (cursor + ?n, b)"
    "length b = length buf" "take (cursor + ?n) b = take cursor buf @ wire (Publish p) V3" by auto
  have "?n \<le> 5 + length (packet_content (Publish p) V3)"
    using length_vbi_le_4 [of "length (packet_content (Publish p) V3)"] Cons.prems(1)
    by (simp add: length_wire encodable_def del: packet_content.simps)
  then have "cursor + ?n + sum_list (map (\<lambda>p. 5 + length (packet_content (Publish p) V3)) ps) \<le> length b"
    using Cons.prems(2) b(2) by (simp del: packet_content.simps)
  from Cons.IH [OF _ this] Cons.prems(1) obtain b' where
    "encode_all ps (cursor + ?n, b) = Ok (cursor + ?n + length (burst V3 ps), b')" "length b' = length b"
    "take (cursor + ?n + length (burst V3 ps)) b' = take (cursor + ?n) b @ burst V3 ps" by auto
  with b show ?case by (simp add: burst_def add.assoc)
qed (simp add: burst_def)

lemma burst_queued: "queue_publish_burst w = Ok (w\<lparr>bk_incoming := bk_incoming w @ burst V3_1_1 burst_publishes\<rparr>)"
proof -
  have "\<forall>p \<in> set burst_publishes. encodable (Publish p) V3"
    and room: "0 + sum_list (map (\<lambda>p. 5 + length (packet_content (Publish p) V3)) burst_publishes) \<le> length (replicate 512 (0 :: byte))"
    by (simp_all add: burst_publishes_def publish_new_def encodable_def packet_id_content_def props_content_def)
  from encode_all_fits [OF this] obtain buf where
    b: "encode_all burst_publishes (0, replicate 512 0) = Ok (length (burst V3 burst_publishes), buf)" "length buf = 512"
      "take (length (burst V3 burst_publishes)) buf = burst V3 burst_publishes" by auto
  have "length (burst V3 burst_publishes) \<le> 512" using b(2,3) by (metis length_take min.cobounded1)
  moreover have "burst V3 burst_publishes = burst V3_1_1 burst_publishes"
    by (simp add: burst_def burst_publishes_def publish_new_def wire_def props_content_def)
  ultimately show ?thesis using b by (simp add: queue_publish_burst_def subslice_def)
qed

text \<open>The example \<open>multipacket_burst\<close> runs to its end on its transport, whatever the clock says: the CONNECT,
  the five readings as five packets of one batch and the DISCONNECT have been sent, and \<open>poll_batch\<close> has
  handed out the three messages of the broker's burst, of a single read.\<close>

lemma burst_run:
  "\<exists>c. burst_main now hz = (Ok (5, map PublishEvent burst_publishes), c) \<and> bk_outgoing (cl_transport c) =
    wire (Connect (connect_packet hz (burst_options hz))) V3_1_1 @ batch_wire V3_1_1 1 burst_batch @ [0xE0, 0]"
proof -
  let ?env = "broker_env now hz" and ?c = "client_new (broker_env now hz) 4096 broker_new (burst_options hz)"
  let ?connect = "Connect (connect_packet hz (burst_options hz))"
  have v: "mo_version (burst_options hz) = V3_1_1" "env_tick_hz ?env = hz" by (simp_all add: burst_options_def broker_env_def)
  have t: "bk_incoming broker_new = connack_bytes" "bk_outgoing broker_new = []" by (simp_all add: broker_new_def connack_bytes_def)
  have p: "length (packet_content ?connect V3_1_1) = 29" "encodable ?connect V3_1_1"
    using plain_connect [of "burst_options hz" hz V3_1_1] by (simp_all add: burst_options_def options_defs del: packet_content.simps)
  from broker.connect_succeeds [where c = ?c and now = now and hz = hz] p v t obtain c1 where
    c1: "client_connect ?env ?c = (Ok (), c1)" "cl_state c1 = ClientConnected" "iq_entries (cl_inflight c1) = []"
      "cl_options c1 = burst_options hz" "length (cl_tx_buffer c1) = 4096" "length (cl_rx_buffer c1) = 4096"
      "cl_next_packet_id c1 = 1" "bk_incoming (cl_transport c1) = []" "bk_outgoing (cl_transport c1) = wire ?connect V3_1_1"
    by (auto simp del: packet_content.simps)
  from broker.batch_run [where c = c1 and now = now and hz = hz and ms = burst_batch and N = 8] c1 v obtain c2 where
    c2: "publish_batch ?env 8 burst_batch c1 = (Ok 5, c2)" "cl_state c2 = ClientConnected" "cl_options c2 = burst_options hz"
      "length (cl_tx_buffer c2) = 4096" "length (cl_rx_buffer c2) = 4096" "bk_incoming (cl_transport c2) = []"
      "bk_outgoing (cl_transport c2) = wire ?connect V3_1_1 @ batch_wire V3_1_1 1 burst_batch"
    by (auto simp: burst_batch_def publish_message_new_def message_size_def tracked_def small_def simp del: batch_wire.simps)
  let ?b = "burst V3_1_1 burst_publishes"
  let ?c3 = "c2\<lparr>cl_transport := (cl_transport c2)\<lparr>bk_incoming := ?b\<rparr>\<rparr>"
  have c3: "peer_acts queue_publish_burst c2 = (Ok () :: (unit mqtt_error, _) outcome, ?c3)"
    using c2(6) by (simp add: peer_acts_def burst_queued)
  have len: "length ?b = 79"
    by (simp add: burst_def burst_publishes_def publish_new_def length_wire packet_id_content_def props_content_def vbi.simps)
  have recv: "tr_recv ?env (cl_rx_buffer ?c3) (cl_transport ?c3) =
      ((Ok (length ?b), overwrite 0 ?b (cl_rx_buffer c2)), (cl_transport c2)\<lparr>bk_incoming := []\<rparr>)"
    using c2(5) len by (simp add: broker_env_def broker_recv_def)
  have "\<exists>c4. poll_batch ?env 8 8 ?c3 = (Ok (take 8 (map PublishEvent burst_publishes)), c4) \<and>
      cl_transport c4 = (cl_transport c2)\<lparr>bk_incoming := []\<rparr> \<and> stays ?c3 c4"
    by (rule poll_batch_burst [OF _ _ burst_publishes_quiet _ recv])
      (use c2 v len in \<open>simp_all add: burst_publishes_def overwrite_def\<close>)
  then obtain c4 where c4: "poll_batch ?env 8 8 ?c3 = (Ok (map PublishEvent burst_publishes), c4)"
    "cl_transport c4 = (cl_transport c2)\<lparr>bk_incoming := []\<rparr>" "stays ?c3 c4" by (auto simp: burst_publishes_def)
  note s = stays_sel [OF c4(3)]
  from broker.disconnect_succeeds [where c = c4 and now = now and hz = hz] s c2 c4(2) obtain c5 where
    "client_disconnect ?env c4 = (Ok (), c5)"
    "bk_outgoing (cl_transport c5) = wire ?connect V3_1_1 @ batch_wire V3_1_1 1 burst_batch @ [0xE0, 0]" by auto
  with c1(1) c2(1) c3 c4(1) show ?thesis by (simp add: burst_main_def Let_def)
qed

subsection \<open>\<open>quic_client.rs\<close>\<close>

record quic_mock =
  qm_datagram_in :: "bytes list"
  qm_datagram_out :: "bytes list"

definition quic_mock_new :: quic_mock where
  "quic_mock_new = \<lparr>qm_datagram_in = [], qm_datagram_out = []\<rparr>"

definition queue_incoming_datagram :: "bytes \<Rightarrow> quic_mock \<Rightarrow> quic_mock" where
  "queue_incoming_datagram d w = w\<lparr>qm_datagram_in := qm_datagram_in w @ [d]\<rparr>"

definition quic_mock_send :: "bytes \<Rightarrow> quic_mock \<Rightarrow> (unit, unit) outcome \<times> quic_mock" where
  "quic_mock_send d w = (Ok (), w\<lparr>qm_datagram_out := qm_datagram_out w @ [d]\<rparr>)"

definition quic_mock_recv :: "bytes \<Rightarrow> quic_mock \<Rightarrow> ((unit, nat) outcome \<times> bytes) \<times> quic_mock" where
  "quic_mock_recv buf w =
     (case qm_datagram_in w of
        packet # rest \<Rightarrow>
          (let n = min (length buf) (length packet) in
           ((Ok n, overwrite 0 (take n packet) buf), w\<lparr>qm_datagram_in := rest\<rparr>))
      | [] \<Rightarrow> ((Ok 0, buf), w))"

definition quic_mock_env :: "(quic_mock, unit) quic_env" where
  "quic_mock_env = \<lparr>qt_send_datagram = quic_mock_send, qt_recv_datagram = quic_mock_recv\<rparr>"

definition quic_sample_pub :: publish where
  "quic_sample_pub = publish_new (text_of ''sensor/gps/coordinates'')
     (text_of ''{\"lat\": 37.7749, \"lon\": -122.4194}'') AtMostOnce"

text \<open>What the broker's side puts into the queue: the sample encoded for MQTT 5.\<close>

definition quic_peer_sends :: "quic_mock \<Rightarrow> (packet_error, quic_mock) outcome" where
  "quic_peer_sends w =
     (case encode_packet (Publish quic_sample_pub) (replicate 256 0) V5 of
        (Ok n, buf) \<Rightarrow> and_then (subslice buf 0 n) (\<lambda>d. Ok (queue_incoming_datagram d w))
      | _ \<Rightarrow> Panic)"

definition quic_options :: "nat \<Rightarrow> mqtt_options" where
  "quic_options hz = mqtt_options_new hz (text_of ''quic-edge-node-01'') (text_of ''mqtt.quic-broker.local'') 14567"

definition quic_main :: "nat \<Rightarrow> (unit mqtt_error, mqtt_event option) outcome \<times> quic_mock quic_client" where
  "quic_main hz =
     (let quic_client = quic_client_new 2048 quic_mock_new (quic_options hz) in
      bind (expect (publish_datagram quic_mock_env (text_of ''sensor/imu/quaternion'') (text_of ''[0.707, 0.0, 0.707, 0.0]''))) (\<lambda>_.
      bind (\<lambda>c. case quic_peer_sends (qc_transport c) of Ok w \<Rightarrow> (Ok (), c\<lparr>qc_transport := w\<rparr>) | _ \<Rightarrow> (Panic, c)) (\<lambda>_.
        recv_datagram quic_mock_env)) quic_client)"

text \<open>The peer encodes for MQTT 5, but the client decodes for the version of its options, MQTT 3.1.1: the
  length of the empty properties becomes the first byte of the payload.\<close>

lemma quic_run:
  "\<exists>c. quic_main hz = (Ok (Some (PublishEvent (quic_sample_pub\<lparr>pub_payload := 0 # pub_payload quic_sample_pub\<rparr>))), c) \<and>
    qm_datagram_out (qc_transport c) = [prefixed (text_of ''sensor/imu/quaternion'') @ text_of ''[0.707, 0.0, 0.707, 0.0]'']"
proof -
  let ?p = "quic_sample_pub\<lparr>pub_payload := 0 # pub_payload quic_sample_pub\<rparr>" and ?d = "wire (Publish quic_sample_pub) V5"
  let ?out = "prefixed (text_of ''sensor/imu/quaternion'') @ text_of ''[0.707, 0.0, 0.707, 0.0]''"
  have d: "?d = wire (Publish ?p) V3_1_1"
    by (simp add: wire_def publish_flags_def quic_sample_pub_def publish_new_def props_content_def packet_id_content_def properties_bytes_def
        props_bytes_def vbi.simps)
  have len: "length ?d = 61"
    by (simp add: length_wire quic_sample_pub_def publish_new_def props_content_def packet_id_content_def properties_bytes_def
        props_bytes_def vbi.simps)
  have enc: "encodable (Publish quic_sample_pub) V5" "5 + length (packet_content (Publish quic_sample_pub) V5) \<le> 256"
    "encodable (Publish ?p) V3_1_1"
    by (simp_all add: encodable_def quic_sample_pub_def publish_new_def props_content_def packet_id_content_def
        properties_bytes_def props_bytes_def vbi.simps)
  have wf: "wf_packet (Publish ?p) V3_1_1" by (simp add: quic_sample_pub_def publish_new_def) code_simp
  have "wire_view (Publish ?p) V3_1_1 = Publish ?p" by (simp add: quic_sample_pub_def publish_new_def props_view_def)
  with decode_wire_append [OF enc(3) wf, of "[]"] have dec: "decode ?d V3_1_1 = Ok (Some (Publish ?p))" by (simp add: d)
  obtain buf where "encode_packet (Publish quic_sample_pub) (replicate 256 0) V5 = (Ok (length ?d), buf)"
    "length buf = 256" "take (length ?d) buf = ?d"
    using encode_packet_Ok [OF enc(1), of "replicate 256 0"] enc(2) by (metis length_replicate)
  then have peer: "quic_peer_sends w = Ok (queue_incoming_datagram ?d w)" for w
    using len by (simp add: quic_peer_sends_def subslice_def del: encode_packet.simps)
  have out: "datagram_bytes (text_of ''sensor/imu/quaternion'') (text_of ''[0.707, 0.0, 0.707, 0.0]'') =
      (Ok ?out :: (unit mqtt_error, _) outcome)" by (simp add: datagram_bytes_Ok)
  have "take 61 (overwrite 0 ?d (replicate 2048 0)) = ?d" using len by (simp add: overwrite_def)
  with out peer len dec show ?thesis
    by (simp add: quic_main_def quic_client_new_def publish_datagram_def recv_datagram_def quic_mock_env_def quic_mock_send_def
        quic_mock_recv_def quic_mock_new_def queue_incoming_datagram_def bind_def expect_def subslice_def quic_options_def
        mqtt_options_new_def Let_def)
qed

end
