(* ===== verification/Adapter_Examples.thy ===== *)
theory Adapter_Examples
  imports Embedded_Examples
begin

text \<open>
  The examples that show how an I/O stream of the host or a serial line becomes a transport of the embedded
  client: \<open>desktop_mock.rs\<close>, whose socket of tokio is a parameter, and \<open>esp8266_uart.rs\<close> (and the options of
  \<open>smoltcp_ethernet.rs\<close>). Both satisfy the
  contract of transports of \<open>Emb_Transport\<close>, so the properties of the client hold on them.
\<close>

subsection \<open>\<open>desktop_mock.rs\<close>\<close>

datatype 'e desktop_error = DesktopError 'e

record 's tokio_transport =
  dt_stream :: 's

definition desktop_send ::
  "(bytes \<Rightarrow> 's \<Rightarrow> ('e, unit) outcome \<times> 's) \<Rightarrow> bytes \<Rightarrow> 's tokio_transport \<Rightarrow>
   ('e desktop_error, unit) outcome \<times> 's tokio_transport" where
  "desktop_send write_all buf t =
     (case write_all buf (dt_stream t) of (r, s) \<Rightarrow> (map_err DesktopError r, t\<lparr>dt_stream := s\<rparr>))"

definition desktop_recv ::
  "(bytes \<Rightarrow> 's \<Rightarrow> (('e, nat) outcome \<times> bytes) \<times> 's) \<Rightarrow> bytes \<Rightarrow> 's tokio_transport \<Rightarrow>
   (('e desktop_error, nat) outcome \<times> bytes) \<times> 's tokio_transport" where
  "desktop_recv read buf t =
     (case read buf (dt_stream t) of ((r, buf'), s) \<Rightarrow> ((map_err DesktopError r, buf'), t\<lparr>dt_stream := s\<rparr>))"

definition desktop_env ::
  "(bytes \<Rightarrow> 's \<Rightarrow> ('e, unit) outcome \<times> 's) \<Rightarrow> (bytes \<Rightarrow> 's \<Rightarrow> (('e, nat) outcome \<times> bytes) \<times> 's) \<Rightarrow>
   (nat \<Rightarrow> nat) \<Rightarrow> nat \<Rightarrow> ('s tokio_transport, 'e desktop_error) env" where
  "desktop_env write_all read now hz =
     \<lparr>tr_send = desktop_send write_all, tr_recv = desktop_recv read,
      tr_send_vectored = send_vectored_default (desktop_send write_all), env_now = now, env_tick_hz = hz\<rparr>"

definition desktop_session :: "('w, 't) env \<Rightarrow> ('w, 't, unit) client_action" where
  "desktop_session env c =
     (case client_connect env c of
        (Err _, c') \<Rightarrow> (Ok (), c')
      | (Panic, c') \<Rightarrow> (Panic, c')
      | (Ok _, c') \<Rightarrow>
          bind (let_underscore (client_subscribe env [(text_of ''sensors/+'', AtLeastOnce)])) (\<lambda>_.
          bind (let_underscore (client_publish env 8 (text_of ''sensors/temp'') (text_of ''{\"temperature\": 24.5}'') AtLeastOnce)) (\<lambda>_.
            let_underscore (client_disconnect env))) c')"

text \<open>\<open>TcpStream::connect\<close> yields a socket or nothing.\<close>

definition desktop_main ::
  "(bytes \<Rightarrow> 's \<Rightarrow> ('e, unit) outcome \<times> 's) \<Rightarrow> (bytes \<Rightarrow> 's \<Rightarrow> (('e, nat) outcome \<times> bytes) \<times> 's) \<Rightarrow>
   (nat \<Rightarrow> nat) \<Rightarrow> nat \<Rightarrow> 's option \<Rightarrow>
   (('e desktop_error mqtt_error, unit) outcome \<times> 's tokio_transport client) option" where
  "desktop_main write_all read now hz socket =
     map_option (\<lambda>stream.
       (let env = desktop_env write_all read now hz;
            mo = mqtt_options_new hz (text_of ''desktop-client-01'') (text_of ''127.0.0.1'') 1883 in
        desktop_session env (client_new env 2048 \<lparr>dt_stream = stream\<rparr> mo))) socket"

lemma desktop_send_ok:
  assumes "io_stream write_all read written"
  shows "desktop_send write_all b w = (r, w') \<Longrightarrow> r \<noteq> Panic \<and>
     (\<exists>tl. written (dt_stream w') = written (dt_stream w) @ tl) \<and>
     (r = Ok () \<longrightarrow> written (dt_stream w') = written (dt_stream w) @ b)"
  using assms by (fastforce simp: desktop_send_def io_stream_def split: prod.splits)

sublocale io_stream \<subseteq> desktop: transport_contract "desktop_env write_all read now hz" "\<lambda>w. written (dt_stream w)"
proof -
  note ok = desktop_send_ok [OF io_stream_axioms]
  have vec: "send_vectored_default (desktop_send write_all) bs w = (r, w') \<Longrightarrow> r \<noteq> Panic \<and>
     (\<exists>tl. written (dt_stream w') = written (dt_stream w) @ tl) \<and>
     (r = Ok () \<longrightarrow> written (dt_stream w') = written (dt_stream w) @ concat bs)" for bs w r w'
    by (rule vectored_default [where sent = "\<lambda>w. written (dt_stream w)"]) (use ok in \<open>auto dest!: ok\<close>)
  show "transport_contract (desktop_env write_all read now hz) (\<lambda>w. written (dt_stream w))"
  proof (unfold_locales, goal_cases)
    case (5 buf w r buf' w')
    then show ?case using read_len [of buf "dt_stream w"]
      by (fastforce simp: desktop_env_def desktop_recv_def split: prod.splits)
  qed (auto simp: desktop_env_def dest!: ok vec)
qed

text \<open>On a socket that answers, the session connects, subscribes, publishes and disconnects: 31, 16, 39 and
  2 bytes.\<close>

interpretation desktop: recording_peer "desktop_env (write_all_provided queue_write) queue_read now hz"
  "\<lambda>w. qs_tx_buf (dt_stream w)" "\<lambda>b l. l @ b" "\<lambda>w. qs_rx_buf (dt_stream w) = connack_bytes"
  "\<lambda>w. qs_rx_buf (dt_stream w) = []" for now hz
  by unfold_locales (auto simp: desktop_env_def desktop_send_def desktop_recv_def queue_write_all queue_read_def
      connack_bytes_def overwrite_def)

lemma desktop_run:
  "\<exists>c. desktop_main (write_all_provided queue_write) queue_read now hz (Some queue_stream_new) = Some (Ok (), c) \<and>
    cl_state c = ClientDisconnected \<and> length (qs_tx_buf (dt_stream (cl_transport c))) = 88"
proof -
  let ?env = "desktop_env (write_all_provided queue_write) queue_read now hz"
  let ?mo = "mqtt_options_new hz (text_of ''desktop-client-01'') (text_of ''127.0.0.1'') 1883"
  let ?c = "client_new ?env 2048 \<lparr>dt_stream = queue_stream_new\<rparr> ?mo"
  let ?connect = "Connect (connect_packet hz ?mo)"
  let ?sub = "Subscribe ((subscribe_new 1)\<lparr>sub_topics := [(text_of ''sensors/+'', AtLeastOnce)]\<rparr>)"
  have hz: "env_tick_hz ?env = hz" by (simp add: desktop_env_def)
  have t: "qs_rx_buf queue_stream_new = connack_bytes" "qs_tx_buf queue_stream_new = []"
    by (simp_all add: queue_stream_new_def connack_bytes_def)
  have p: "length (packet_content ?connect V3_1_1) = 29" "encodable ?connect V3_1_1"
    using plain_connect [of ?mo hz V3_1_1] by (simp_all add: options_defs del: packet_content.simps)
  from desktop.connect_succeeds [where c = ?c and now = now and hz = hz] p hz t obtain c1 where
    c1: "client_connect ?env ?c = (Ok (), c1)" "cl_state c1 = ClientConnected" "iq_entries (cl_inflight c1) = []"
      "cl_options c1 = ?mo" "length (cl_tx_buffer c1) = 2048" "cl_next_packet_id c1 = 1"
      "length (qs_tx_buf (dt_stream (cl_transport c1))) = 31"
    by (auto simp: length_wire vbi.simps simp del: packet_content.simps)
  have s: "length (packet_content ?sub V3_1_1) = 14" "encodable ?sub V3_1_1"
    by (simp_all add: encodable_def subscribe_new_def props_content_def topics_content_def)
  from desktop.subscribe_succeeds [where c = c1 and now = now and hz = hz and topics = "[(text_of ''sensors/+'', AtLeastOnce)]"]
    c1 s obtain c2 where
    c2: "client_subscribe ?env [(text_of ''sensors/+'', AtLeastOnce)] c1 = (Ok 1, c2)" "cl_state c2 = ClientConnected"
      "iq_entries (cl_inflight c2) = []" "cl_options c2 = ?mo" "length (cl_tx_buffer c2) = 2048" "cl_next_packet_id c2 = next_id 1"
      "length (qs_tx_buf (dt_stream (cl_transport c2))) = 47"
    by (auto simp: length_wire vbi.simps simp del: packet_content.simps)
  have m: "length (wire (Publish (outgoing_publish (text_of ''sensors/temp'') (text_of ''{\"temperature\": 24.5}'') AtLeastOnce
      (Some (next_id 1)) False)) V3_1_1) = 39"
    by (simp add: length_wire plain_publish vbi.simps del: packet_content.simps)
  from desktop.publish_succeeds [where c = c2 and now = now and hz = hz and N = 8 and topic = "text_of ''sensors/temp''"
      and payload = "text_of ''{\"temperature\": 24.5}''" and q = AtLeastOnce] c2 m obtain c3 where
    c3: "client_publish ?env 8 (text_of ''sensors/temp'') (text_of ''{\"temperature\": 24.5}'') AtLeastOnce c2 = (Ok (), c3)"
      "cl_state c3 = ClientConnected" "length (cl_tx_buffer c3) = 2048"
      "length (qs_tx_buf (dt_stream (cl_transport c3))) = 86"
    by (auto simp: small_def message_fits_def publish_message_new_def allocated_id_def)
  from desktop.disconnect_succeeds [where c = c3 and now = now and hz = hz] c3 obtain c4 where
    "client_disconnect ?env c3 = (Ok (), c4)" "cl_state c4 = ClientDisconnected"
    "length (qs_tx_buf (dt_stream (cl_transport c4))) = 88" by auto
  with c1(1) c2(1) c3(1) show ?thesis
    by (simp add: desktop_main_def desktop_session_def bind_def let_underscore_def Let_def)
qed

subsection \<open>\<open>esp8266_uart.rs\<close>\<close>

record ('r, 'x) uart_mqtt_transport =
  umt_reader :: 'r
  umt_writer :: 'x

datatype uart_error = TxError | RxError

definition uart_mqtt_transport_new :: "'r \<Rightarrow> 'x \<Rightarrow> ('r, 'x) uart_mqtt_transport" where
  "uart_mqtt_transport_new reader writer = \<lparr>umt_reader = reader, umt_writer = writer\<rparr>"

definition uart_mqtt_send ::
  "(bytes \<Rightarrow> 'x \<Rightarrow> ('we, unit) outcome \<times> 'x) \<Rightarrow> bytes \<Rightarrow> ('r, 'x) uart_mqtt_transport \<Rightarrow>
   (uart_error, unit) outcome \<times> ('r, 'x) uart_mqtt_transport" where
  "uart_mqtt_send write_all buf t =
     (case write_all buf (umt_writer t) of (r, s) \<Rightarrow> (map_err (\<lambda>_. TxError) r, t\<lparr>umt_writer := s\<rparr>))"

definition uart_mqtt_recv ::
  "(bytes \<Rightarrow> 'r \<Rightarrow> (('re, nat) outcome \<times> bytes) \<times> 'r) \<Rightarrow> bytes \<Rightarrow> ('r, 'x) uart_mqtt_transport \<Rightarrow>
   ((uart_error, nat) outcome \<times> bytes) \<times> ('r, 'x) uart_mqtt_transport" where
  "uart_mqtt_recv read buf t =
     (case read buf (umt_reader t) of ((r, buf'), s) \<Rightarrow> ((map_err (\<lambda>_. RxError) r, buf'), t\<lparr>umt_reader := s\<rparr>))"

definition uart_mqtt_env ::
  "(bytes \<Rightarrow> 'x \<Rightarrow> ('we, unit) outcome \<times> 'x) \<Rightarrow> (bytes \<Rightarrow> 'r \<Rightarrow> (('re, nat) outcome \<times> bytes) \<times> 'r) \<Rightarrow>
   (nat \<Rightarrow> nat) \<Rightarrow> nat \<Rightarrow> (('r, 'x) uart_mqtt_transport, uart_error) env" where
  "uart_mqtt_env write_all read now hz =
     \<lparr>tr_send = uart_mqtt_send write_all, tr_recv = uart_mqtt_recv read,
      tr_send_vectored = send_vectored_default (uart_mqtt_send write_all), env_now = now, env_tick_hz = hz\<rparr>"

text \<open>\<open>MockUartIo\<close> reads nothing and takes every byte.\<close>

definition mock_uart_read :: "bytes \<Rightarrow> unit \<Rightarrow> ((unit, nat) outcome \<times> bytes) \<times> unit" where
  "mock_uart_read buf s = ((Ok 0, buf), s)"

definition mock_uart_write :: "bytes \<Rightarrow> unit \<Rightarrow> (unit, nat) outcome \<times> unit" where
  "mock_uart_write buf s = (Ok (length buf), s)"

definition esp8266_env :: "(nat \<Rightarrow> nat) \<Rightarrow> nat \<Rightarrow> ((unit, unit) uart_mqtt_transport, uart_error) env" where
  "esp8266_env now hz = uart_mqtt_env (write_all_provided mock_uart_write) mock_uart_read now hz"

definition esp8266_main :: "(nat \<Rightarrow> nat) \<Rightarrow> nat \<Rightarrow> (unit, unit) uart_mqtt_transport client" where
  "esp8266_main now hz =
     client_new (esp8266_env now hz) 1024 (uart_mqtt_transport_new () ())
       (with_clean_session True (with_keep_alive (45 * hz)
         (mqtt_options_new hz (text_of ''embedded-node-uart'') (text_of ''192.168.4.1'') 1883)))"

lemma uart_mqtt_send_ok:
  assumes "io_split write_all read written"
  shows "uart_mqtt_send write_all b w = (r, w') \<Longrightarrow> r \<noteq> Panic \<and>
     (\<exists>tl. written (umt_writer w') = written (umt_writer w) @ tl) \<and>
     (r = Ok () \<longrightarrow> written (umt_writer w') = written (umt_writer w) @ b)"
  using assms by (fastforce simp: uart_mqtt_send_def io_split_def split: prod.splits)

sublocale io_split \<subseteq> uart: transport_contract "uart_mqtt_env write_all read now hz" "\<lambda>w. written (umt_writer w)"
proof -
  note ok = uart_mqtt_send_ok [OF io_split_axioms]
  have vec: "send_vectored_default (uart_mqtt_send write_all) bs w = (r, w') \<Longrightarrow> r \<noteq> Panic \<and>
     (\<exists>tl. written (umt_writer w') = written (umt_writer w) @ tl) \<and>
     (r = Ok () \<longrightarrow> written (umt_writer w') = written (umt_writer w) @ concat bs)" for bs w r w'
    by (rule vectored_default [where sent = "\<lambda>w. written (umt_writer w)"]) (use ok in \<open>auto dest!: ok\<close>)
  show "transport_contract (uart_mqtt_env write_all read now hz) (\<lambda>w. written (umt_writer w))"
  proof (unfold_locales, goal_cases)
    case (5 buf w r buf' w')
    then show ?case using read_len [of buf "umt_reader w"]
      by (fastforce simp: uart_mqtt_env_def uart_mqtt_recv_def split: prod.splits)
  qed (auto simp: uart_mqtt_env_def dest!: ok vec)
qed

text \<open>The client of \<open>main\<close> is ready and not connected: the example ends before \<open>connect\<close>.\<close>

lemma esp8266_client:
  "\<not> is_connected (esp8266_main now hz) \<and> length (cl_tx_buffer (esp8266_main now hz)) = 1024 \<and>
   write_all_provided mock_uart_write b () = (Ok (), ())"
  by (simp add: esp8266_main_def is_connected_def write_all_at_once [where f = "\<lambda>_ s. s"] mock_uart_write_def)

subsection \<open>\<open>smoltcp_ethernet.rs\<close>\<close>

text \<open>With the feature \<open>transport-smoltcp\<close> the example builds its options; the rest is a description.\<close>

definition smoltcp_options :: "nat \<Rightarrow> mqtt_options" where
  "smoltcp_options hz = with_clean_session True (with_keep_alive (30 * hz) (with_version V5
     (mqtt_options_new hz (text_of ''embedded-stm32-eth'') (text_of ''192.168.1.50'') 1883)))"

end
