(* ===== verification/Tokio_Examples.thy ===== *)
theory Tokio_Examples
  imports Embedded_Examples Bridges Router_Facts
begin

text \<open>
  The programs under \<open>crates/mqtt-async-embedded/examples\<close> that run the tokio client: the options they
  choose and the calls they make of the handle, as actions on the state of its channels. A spawned task that
  publishes is an action of its own; one that only prints is left out, and so are the pauses. The web server
  of \<open>server_camera_web_bridge.rs\<close> is modelled down to the bytes it writes to a browser.
\<close>

subsection \<open>Channels in memory\<close>

text \<open>Every request is accepted and noted, and answered at once.\<close>

record request_queue =
  rq_requests :: "(nat, nat) client_request list"
  rq_next :: nat
  rq_count :: nat

definition request_queue_new :: request_queue where
  "request_queue_new = \<lparr>rq_requests = [], rq_next = 0, rq_count = 0\<rparr>"

definition batch_size :: "('r, 'c) client_request \<Rightarrow> nat \<Rightarrow> nat" where
  "batch_size req n = (case req of ReqPublishBatch messages _ \<Rightarrow> length messages | _ \<Rightarrow> n)"

definition queue_channels :: "(request_queue, nat, nat, nat, 'io) async_channels" where
  "queue_channels =
     \<lparr>ac_send = \<lambda>req w. (True, w\<lparr>rq_requests := rq_requests w @ [req], rq_count := batch_size req (rq_count w)\<rparr>),
      ac_oneshot = \<lambda>w. (rq_next w, w\<lparr>rq_next := rq_next w + 1\<rparr>),
      ac_channel = \<lambda>n w. ((rq_next w, rq_next w), w\<lparr>rq_next := rq_next w + 1\<rparr>),
      ac_await_unit = \<lambda>r w. (Some (Ok ()), w), ac_await_id = \<lambda>r w. (Some (Ok 1), w),
      ac_await_count = \<lambda>r w. (Some (Ok (rq_count w)), w)\<rparr>"

abbreviation noting :: "request_queue \<Rightarrow> (nat, nat) client_request \<Rightarrow> request_queue" where
  "noting w req \<equiv> w\<lparr>rq_requests := rq_requests w @ [req]\<rparr>"

lemma queue_calls [simp]:
  "async_publish queue_channels topic q retain payload w =
     (Ok (), noting w (ReqPublish (request_message topic q retain payload) None))"
  "async_publish_with_ack queue_channels topic q retain payload w =
     (Ok (), (noting w (ReqPublish (request_message topic q retain payload) (Some (rq_next w))))\<lparr>rq_next := rq_next w + 1\<rparr>)"
  "async_publish_batch queue_channels msgs w =
     (Ok (length msgs), (noting w (ReqPublishBatch msgs (Some (rq_next w))))\<lparr>rq_next := rq_next w + 1, rq_count := length msgs\<rparr>)"
  "async_subscribe_stream queue_channels topic q w =
     (Ok (topic_subscription_new topic (rq_next w)),
      (noting w (ReqSubscribe topic q (rq_next w + 1) (Some (rq_next w))))\<lparr>rq_next := rq_next w + 2\<rparr>)"
  "async_disconnect queue_channels w =
     (Ok (), (noting w (ReqDisconnect (rq_next w)))\<lparr>rq_next := rq_next w + 1\<rparr>)"
  by (simp_all add: async_publish_def async_publish_with_ack_def async_publish_batch_def async_subscribe_stream_def
      async_disconnect_def request_def or_closed_def or_cancelled_def queue_channels_def batch_size_def)

subsection \<open>\<open>tokio_basic_pubsub.rs\<close>\<close>

definition basic_options :: "'f f64_ops \<Rightarrow> 'f client_options" where
  "basic_options fo = opts_with_keep_alive (30 * 1000000000)
     (client_options_new fo (text_of ''tokio-demo-client-01'') (text_of ''127.0.0.1'') 1883)"

definition basic_batch :: "tokio_message list" where
  "basic_batch =
     [tokio_message_new (text_of ''home/bedroom/temperature'') (text_of ''19.5 C''),
      tokio_message_new (text_of ''home/garage/temperature'') (text_of ''15.2 C''),
      tokio_message_new (text_of ''home/basement/temperature'') (text_of ''17.0 C'')]"

definition basic_main :: "('w, 'r, 'c, 'rx, 'io) async_channels \<Rightarrow> ('io client_error, 'w, nat) action" where
  "basic_main client =
     bind (async_subscribe_stream client (text_of ''home/+/temperature'') AtLeastOnce) (\<lambda>temp_stream.
     bind (async_publish client (text_of ''home/kitchen/temperature'') AtMostOnce False (text_of ''23.4 C'')) (\<lambda>_.
     bind (async_publish_with_ack client (text_of ''home/livingroom/temperature'') AtLeastOnce False (text_of ''21.8 C'')) (\<lambda>_.
     bind (async_publish_batch client basic_batch) (\<lambda>count.
     bind (async_disconnect client) (\<lambda>_. ret count)))))"

lemma basic_run:
  "\<exists>w. basic_main queue_channels request_queue_new = (Ok 3, w) \<and> rq_requests w =
    [ReqSubscribe (text_of ''home/+/temperature'') AtLeastOnce 1 (Some 0),
     ReqPublish (request_message (text_of ''home/kitchen/temperature'') AtMostOnce False (text_of ''23.4 C'')) None,
     ReqPublish (request_message (text_of ''home/livingroom/temperature'') AtLeastOnce False (text_of ''21.8 C'')) (Some 2),
     ReqPublishBatch basic_batch (Some 3), ReqDisconnect 4]"
  by (simp add: basic_main_def bind_def request_queue_new_def basic_batch_def)

text \<open>The messages the example publishes are for its own subscription.\<close>

lemma basic_topics_match:
  "\<forall>topic \<in> {text_of ''home/kitchen/temperature'', text_of ''home/livingroom/temperature''} \<union> tm_topic ` set basic_batch.
     topic_matches (levels_of (text_of ''home/+/temperature'')) (levels_of topic)"
  by (simp add: basic_batch_def tokio_message_new_def levels_of_def text_of_def)

subsection \<open>\<open>tokio_reconnect_resilience.rs\<close>\<close>

text \<open>\<open>one_eight\<close> is the \<open>f64\<close> \<open>1.8\<close>.\<close>

definition resilience_options :: "'f f64_ops \<Rightarrow> 'f \<Rightarrow> 'f client_options" where
  "resilience_options fo one_eight =
     opts_with_recovery \<lparr>rp_resend_unacked_inflight = True, rp_auto_resubscribe = True, rp_max_inflight = 128\<rparr>
     (opts_with_offline_queue \<lparr>oq_capacity = 1000, oq_drop_strategy = DropOldest\<rparr>
     (opts_with_reconnect \<lparr>rc_enabled = True, rc_initial_delay = 200 * 1000000, rc_max_delay = 10 * 1000000000,
        rc_multiplier = one_eight, rc_max_retries = None\<rparr>
     (opts_with_keep_alive (15 * 1000000000)
       (client_options_new fo (text_of ''resilient-edge-node'') (text_of ''127.0.0.1'') 1883))))"

fun heartbeats :: "('w, 'r, 'c, 'rx, 'io) async_channels \<Rightarrow> nat list \<Rightarrow> ('io client_error, 'w, unit) action" where
  "heartbeats client [] = ret ()"
| "heartbeats client (i # is) =
     bind (let_underscore (async_publish client (text_of ''fleet/truck-42/status'') AtLeastOnce False
             (text_of (''Vehicle telemetry heartbeat #'' @ decimal i))))
       (\<lambda>_. heartbeats client is)"

definition resilience_main :: "('w, 'r, 'c, 'rx, 'io) async_channels \<Rightarrow> ('io client_error, 'w, unit) action" where
  "resilience_main client =
     bind (async_subscribe_stream client (text_of ''fleet/+/status'') AtLeastOnce) (\<lambda>fleet_stream.
     bind (heartbeats client [1..<6]) (\<lambda>_. async_disconnect client))"

lemma heartbeats_run:
  "heartbeats queue_channels is w = (Ok (), w\<lparr>rq_requests := rq_requests w @
     map (\<lambda>i. ReqPublish (request_message (text_of ''fleet/truck-42/status'') AtLeastOnce False
       (text_of (''Vehicle telemetry heartbeat #'' @ decimal i))) None) is\<rparr>)"
  by (induction "is" arbitrary: w) (simp_all add: bind_def let_underscore_def)

lemma resilience_run:
  "\<exists>w. resilience_main queue_channels request_queue_new = (Ok (), w) \<and> length (rq_requests w) = 7"
  by (simp add: resilience_main_def bind_def request_queue_new_def heartbeats_run)

subsection \<open>\<open>redox_daemon.rs\<close> and the dashboards\<close>

definition redox_options :: "'f f64_ops \<Rightarrow> 'f client_options" where
  "redox_options fo = opts_with_offline_queue \<lparr>oq_capacity = 1024, oq_drop_strategy = DropOldest\<rparr>
     (opts_with_keep_alive (30 * 1000000000) (client_options_new fo (text_of ''redox-edge-daemon'') (text_of ''127.0.0.1'') 1883))"

definition redox_main :: "('w, 'r, 'c, 'rx, 'io) async_channels \<Rightarrow> ('io client_error, 'w, unit) action" where
  "redox_main client = async_publish client (text_of ''gateway/redox/heartbeat'') AtLeastOnce False
     (text_of ''{\"os\":\"redox\",\"kernel\":\"microkernel\",\"uptime_sec\":1204}'')"

definition slint_dashboard_options :: "'f f64_ops \<Rightarrow> 'f client_options" where
  "slint_dashboard_options fo = opts_with_keep_alive (30 * 1000000000)
     (client_options_new fo (text_of ''slint-hmi-dashboard'') (text_of ''127.0.0.1'') 1883)"

definition slint_dashboard_main ::
  "('w, 'r, 'c, 'rx, 'io) async_channels \<Rightarrow>
   ('io client_error, 'w, (str \<times> 'rx topic_subscription) \<times> (str \<times> 'rx topic_subscription)) action" where
  "slint_dashboard_main mqtt =
     bind (slint_bind mqtt (text_of ''factory/boiler/temperature'') AtLeastOnce) (\<lambda>telemetry_binding.
     bind (slint_bind mqtt (text_of ''factory/inspection/camera'') AtMostOnce) (\<lambda>camera_binding.
       ret (telemetry_binding, camera_binding)))"

definition slint_dashboard_publisher :: "('w, 'r, 'c, 'rx, 'io) async_channels \<Rightarrow> ('io client_error, 'w, unit) action" where
  "slint_dashboard_publisher pub_client =
     bind (let_underscore (async_publish pub_client (text_of ''factory/boiler/temperature'') AtLeastOnce False (text_of ''82.4 C'')))
       (\<lambda>_. let_underscore (async_publish pub_client (text_of ''factory/inspection/camera'') AtMostOnce False [0xFF, 0xD8, 0xFF, 0xD9]))"

definition slint_app_options :: "'f f64_ops \<Rightarrow> 'f client_options" where
  "slint_app_options fo = opts_with_keep_alive (30 * 1000000000)
     (client_options_new fo (text_of ''slint-gui-app'') (text_of ''127.0.0.1'') 1883)"

definition slint_app_main ::
  "('w, 'r, 'c, 'rx, 'io) async_channels \<Rightarrow>
   ('io client_error, 'w, (str \<times> 'rx topic_subscription) \<times> (str \<times> 'rx topic_subscription)) action" where
  "slint_app_main mqtt =
     bind (slint_bind mqtt (text_of ''sensors/livingroom/temperature'') AtLeastOnce) (\<lambda>telemetry_binding.
     bind (slint_bind mqtt (text_of ''security/camera/01/mjpeg'') AtMostOnce) (\<lambda>camera_binding.
       ret (telemetry_binding, camera_binding)))"

definition dummy_jpeg :: bytes where
  "dummy_jpeg = [0xFF, 0xD8, 0xFF, 0xE0, 0x00, 0x10] @ text_of ''JFIF'' @
     [0x00, 0x01, 0x01, 0x00, 0x00, 0x01, 0x00, 0x01, 0x00, 0x00, 0xFF, 0xD9]"

text \<open>The degree sign is two bytes of UTF-8.\<close>

fun slint_app_publisher :: "('w, 'r, 'c, 'rx, 'io) async_channels \<Rightarrow> nat list \<Rightarrow> ('io client_error, 'w, unit) action" where
  "slint_app_publisher publisher [] = ret ()"
| "slint_app_publisher publisher (i # is) =
     bind (let_underscore (async_publish publisher (text_of ''sensors/livingroom/temperature'') AtLeastOnce False
             (text_of (''2'' @ decimal i @ ''.5 '') @ [0xC2, 0xB0] @ text_of ''C''))) (\<lambda>_.
     bind (let_underscore (async_publish publisher (text_of ''security/camera/01/mjpeg'') AtMostOnce False dummy_jpeg)) (\<lambda>_.
       slint_app_publisher publisher is))"

definition slint_app_task :: "('w, 'r, 'c, 'rx, 'io) async_channels \<Rightarrow> ('io client_error, 'w, unit) action" where
  "slint_app_task publisher = slint_app_publisher publisher [1..<4]"

text \<open>What the user interface is told when the broker echoes the publisher's messages to the bindings.\<close>

lemma slint_dashboard_shows:
  "string_binding (\<lambda>topic val w. w @ [(topic, val)])
     [request_message (text_of ''factory/boiler/temperature'') AtLeastOnce False (text_of ''82.4 C'')] [] =
   [(text_of ''factory/boiler/temperature'', text_of ''82.4 C'')]"
  by code_simp

subsection \<open>\<open>server_camera_web_bridge.rs\<close>: the hubs and the camera\<close>

definition camera_options :: "'f f64_ops \<Rightarrow> 'f client_options" where
  "camera_options fo = opts_with_keep_alive (30 * 1000000000)
     (client_options_new fo (text_of ''web-server-backend'') (text_of ''127.0.0.1'') 1883)"

definition camera_hubs ::
  "('w, 'r, 'c, 'rx, 'io) async_channels \<Rightarrow> (nat \<Rightarrow> 'w \<Rightarrow> 'b \<times> 'w) \<Rightarrow>
   ('io client_error, 'w, ('b broadcast_hub \<times> 'rx topic_subscription) \<times> ('b broadcast_hub \<times> 'rx topic_subscription)) action" where
  "camera_hubs mqtt_client broadcast_channel =
     bind (broadcast_hub_new mqtt_client broadcast_channel (text_of ''security/camera/front_door/mjpeg'') AtMostOnce 64)
       (\<lambda>camera_video_hub.
     bind (broadcast_hub_new mqtt_client broadcast_channel (text_of ''security/camera/front_door/events'') AtMostOnce 64)
       (\<lambda>camera_telemetry_hub. ret (camera_video_hub, camera_telemetry_hub)))"

definition motion_event :: "nat \<Rightarrow> bytes" where
  "motion_event frame_count =
     text_of (''{\"event\":\"motion_detected\",\"confidence\":0.98,\"frame\":'' @ decimal frame_count @ ''}'')"

text \<open>One round of the camera's loop with the counter already advanced.\<close>

definition camera_frame :: "('w, 'r, 'c, 'rx, 'io) async_channels \<Rightarrow> nat \<Rightarrow> ('io client_error, 'w, unit) action" where
  "camera_frame camera_edge_client frame_count =
     bind (let_underscore (async_publish camera_edge_client (text_of ''security/camera/front_door/mjpeg'') AtMostOnce False dummy_jpeg))
       (\<lambda>_. if frame_count mod 30 = 0 then
          let_underscore (async_publish camera_edge_client (text_of ''security/camera/front_door/events'') AtLeastOnce False
            (motion_event frame_count))
        else ret ())"

fun camera_rounds :: "('w, 'r, 'c, 'rx, 'io) async_channels \<Rightarrow> nat \<Rightarrow> nat \<Rightarrow> ('io client_error, 'w, unit) action" where
  "camera_rounds client frame_count 0 = ret ()"
| "camera_rounds client frame_count (Suc n) =
     bind (camera_frame client (frame_count + 1)) (\<lambda>_. camera_rounds client (frame_count + 1) n)"

text \<open>Of \<open>n\<close> rounds every thirtieth frame comes with an event.\<close>

lemma camera_rounds_run:
  "\<exists>w'. camera_rounds queue_channels k n w = (Ok () :: ('io client_error, unit) outcome, w') \<and>
     length (rq_requests w') + k div 30 = length (rq_requests w) + n + (k + n) div 30"
proof (induction n arbitrary: k w)
  case (Suc n)
  obtain w1 where f: "camera_frame queue_channels (k + 1) w = (Ok () :: ('io client_error, unit) outcome, w1)"
    "length (rq_requests w1) = length (rq_requests w) + 1 + (if (k + 1) mod 30 = 0 then 1 else 0)"
    by (cases "(k + 1) mod 30 = 0") (simp_all add: camera_frame_def bind_def let_underscore_def)
  from Suc [of "k + 1" w1] obtain w2 where "camera_rounds queue_channels (k + 1) n w1 = (Ok () :: ('io client_error, unit) outcome, w2)"
    "length (rq_requests w2) + (k + 1) div 30 = length (rq_requests w1) + n + (k + 1 + n) div 30" by blast
  moreover have "(k + 1) div 30 = k div 30 + (if (k + 1) mod 30 = 0 then 1 else 0)"
    using div_Suc [of k 30] by simp
  ultimately show ?case using f by (simp add: bind_def)
qed simp

subsection \<open>\<open>server_camera_web_bridge.rs\<close>: the web server\<close>

text \<open>\<open>str::contains\<close>. The pattern is ASCII, which \<open>from_utf8_lossy\<close> leaves as it is, so the bytes of the request
  are searched themselves.\<close>

definition contains :: "bytes \<Rightarrow> bytes \<Rightarrow> bool" where
  "contains pat s \<longleftrightarrow> list_ex (\<lambda>i. take (length pat) (drop i s) = pat) [0..<length s + 1]"

abbreviation http_ok :: bytes where
  "http_ok \<equiv> text_of ''HTTP/1.1 200 OK'' @ crlf @ text_of ''Content-Type: ''"

definition mjpeg_response_header :: bytes where
  "mjpeg_response_header = http_ok @ mjpeg_content_type @ crlf @ text_of ''Connection: close'' @ crlf @ crlf"

definition sse_response_header :: bytes where
  "sse_response_header = http_ok @ sse_content_type @ crlf @ text_of ''Cache-Control: no-cache'' @ crlf @ crlf"

text \<open>\<open>while let Some(Ok(chunk)) = stream.next().await\<close>, over what the stream yields; a failed write ends it.\<close>

fun stream_chunks ::
  "(bytes \<Rightarrow> 'w \<Rightarrow> bool \<times> 'w) \<Rightarrow> ('io client_error, bytes) outcome list \<Rightarrow> 'w \<Rightarrow> 'w" where
  "stream_chunks write_all (Ok chunk # items) w =
     (case write_all chunk w of (ok, w1) \<Rightarrow> if ok then stream_chunks write_all items w1 else w1)"
| "stream_chunks write_all _ w = w"

abbreviation newline :: bytes where
  "newline \<equiv> [0x0A]"

definition camera_page :: bytes where
  "camera_page =
     text_of ''<!DOCTYPE html>'' @ newline @
     text_of ''<html>'' @ newline @
     text_of ''<head><title>MQTT Security Camera Live Stream</title></head>'' @ newline @
     text_of ''<body style=\"font-family:sans-serif; text-align:center; background:#111; color:#fff;\">'' @ newline @
     text_of ''  <h2>Live MJPEG Security Stream over MQTT</h2>'' @ newline @
     text_of ''  <img src=\"/api/camera/mjpeg\" style=\"border:2px solid #555; max-width:640px;\" alt=\"Camera Stream\"/>'' @ newline @
     text_of ''  <h3>Real-Time Event Feed (SSE)</h3>'' @ newline @
     text_of ''  <div id=\"events\" style=\"font-family:monospace; color:#0f0;\">Connecting...</div>'' @ newline @
     text_of ''  <script>'' @ newline @
     text_of ''    const evtSource = new EventSource(\"/api/camera/events\");'' @ newline @
     text_of ''    evtSource.onmessage = function(e) {'' @ newline @
     text_of ''      document.getElementById(\"events\").innerText = e.data;'' @ newline @
     text_of ''    };'' @ newline @
     text_of ''  </script>'' @ newline @
     text_of ''</body>'' @ newline @
     text_of ''</html>''"

definition html_response :: "bytes \<Rightarrow> bytes" where
  "html_response html = http_ok @ text_of ''text/html'' @ crlf @ text_of ''Content-Length: '' @
     text_of (decimal (length html)) @ crlf @ text_of ''Connection: close'' @ crlf @ crlf @ html"

text \<open>The handler of a connection: \<open>received\<close> is what \<open>try_read\<close> put into the buffer of 1024 bytes, \<open>None\<close>
  its error; the streams of the two bridges yield \<open>video\<close> and \<open>events\<close>.\<close>

definition serve_browser ::
  "(bytes \<Rightarrow> 'w \<Rightarrow> bool \<times> 'w) \<Rightarrow> ('io client_error, bytes) outcome list \<Rightarrow> ('io client_error, bytes) outcome list \<Rightarrow>
   bytes option \<Rightarrow> 'w \<Rightarrow> 'w" where
  "serve_browser write_all video events received w =
     (let req = (case received of Some d \<Rightarrow> take 1024 d | None \<Rightarrow> []) in
      if contains (text_of ''/api/camera/mjpeg'') req then
        stream_chunks write_all video (snd (write_all mjpeg_response_header w))
      else if contains (text_of ''/api/camera/events'') req then
        stream_chunks write_all events (snd (write_all sse_response_header w))
      else snd (write_all (html_response camera_page) w))"

text \<open>A socket that takes everything.\<close>

definition socket_write :: "bytes \<Rightarrow> bytes \<Rightarrow> bool \<times> bytes" where
  "socket_write b w = (True, w @ b)"

lemma stream_chunks_all: "stream_chunks socket_write (map Ok chunks) w = w @ concat chunks"
  by (induction chunks arbitrary: w) (simp_all add: socket_write_def)

text \<open>A browser that asks for the video gets a header and behind it exactly the camera's frames.\<close>

definition mjpeg_request :: bytes where
  "mjpeg_request = text_of ''GET /api/camera/mjpeg HTTP/1.1'' @ crlf @ crlf"

lemma video_frames_arrive:
  "Option.bind (strip_prefix mjpeg_response_header
     (serve_browser socket_write (map Ok (map (mjpeg_part (text_of ''frame'')) jpegs)) events (Some mjpeg_request) []))
     (parse_items (mjpeg_first (text_of ''frame''))) = Some jpegs"
proof -
  have "contains (text_of ''/api/camera/mjpeg'') (take 1024 mjpeg_request)"
    unfolding mjpeg_request_def by code_simp
  then have "serve_browser socket_write (map Ok (map (mjpeg_part (text_of ''frame'')) jpegs)) events (Some mjpeg_request) [] =
      mjpeg_response_header @ concat (map (mjpeg_part (text_of ''frame'')) jpegs)"
    by (simp add: serve_browser_def stream_chunks_all del: map_map) (simp add: socket_write_def)
  moreover have "parse_items (mjpeg_first (text_of ''frame'')) (concat (map (mjpeg_part (text_of ''frame'')) jpegs)) = Some jpegs"
    by (rule parse_items_concat) (simp_all add: mjpeg_first_part, simp add: mjpeg_part_def text_of_def)
  ultimately show ?thesis by (simp add: strip_prefix_append)
qed

text \<open>\<open>try_read\<close> does not wait: when the request has not arrived yet every path gets the page.\<close>

lemma early_read_serves_page:
  "serve_browser socket_write video events None [] = html_response camera_page"
  "serve_browser socket_write video events (Some []) [] = html_response camera_page"
  by (simp_all add: serve_browser_def contains_def socket_write_def text_of_def)

text \<open>The announced length of the page is its length.\<close>

lemma html_response_length:
  "\<exists>pre digits. html_response html = pre @ text_of ''Content-Length: '' @ digits @ crlf @ text_of ''Connection: close'' @ crlf @ crlf @ html \<and>
     decimal_value 0 digits = Some (length html)"
  unfolding html_response_def by (intro exI [of _ "http_ok @ text_of ''text/html'' @ crlf"] exI [of _ "text_of (decimal (length html))"])
    (simp add: decimal_value_decimal)

end
