(* ===== verification/Spec2Isabelle.thy ===== *)
theory Spec2Isabelle
  imports Codec_Theorems Decode_Types Table_Theorems Client_Theorems Error_Texts Router_Theorems Stream_Theorems Options_Theorems Bridges Loop_Theorems Life_Theorems
    Session_Theorems Interop Stream_Delivery Loop_Subscriptions Core_Traits Fuzz_Target Broker_Examples Adapter_Examples Tokio_Examples
begin

text \<open>
  A verification development for the MQTT client workspace \<open>mqtt-async-embedded\<close> (Rust).

  The program. The workspace is a family of crates. \<open>mqtt-packet\<close> encodes and decodes MQTT packets
  without allocation. \<open>mqtt-core\<close> has the connection state machine, a bounded inflight queue and the
  reason codes, \<open>mqtt-storage\<close> an in-memory store. Two clients are built on the codec:
  \<open>mqtt-embedded\<close>, whose methods run on fixed buffers and a transport given by the user, and
  \<open>mqtt-tokio\<close>, where cloneable handles send requests over a channel to one event loop that owns the
  connection, a topic router that hands messages to subscribers, and data streams that number, journal
  and reorder payloads. \<open>mqtt-bridges\<close> forwards subscriptions to web clients and user interfaces.

  How the code is modelled. A fallible function returns an \<open>outcome\<close>: \<open>Ok\<close>, \<open>Err\<close> or \<open>Panic\<close>;
  indexing, slicing and the other operations of the standard library that panic do so in the model.
  Structures are records, enumerations datatypes, machine integers words where they can wrap and
  natural numbers where the code checks or cannot reach the bound (buffer offsets). \<open>&mut self\<close>
  methods are actions on a state (\<open>Actions\<close>): they return the outcome and the state reached, also
  after an error. What is not code of the repository is an argument: transports, sockets, TLS and QUIC,
  the channels of \<open>tokio\<close>, clocks, timers, the arithmetic of \<open>f64\<close> and the order in which \<open>select!\<close>
  finds its branches ready. Their documented behaviour, where a property needs it, is a locale, and every
  locale is interpreted.

  The theories, by crate:

  \<^item> \<open>mqtt-packet\<close>: \<open>Packet_Types\<close> (\<open>packet_types.rs\<close>, \<open>error.rs\<close>), \<open>Writer\<close> (the cursor into the
    buffer), \<open>Utf8\<close>, \<open>Varint\<close> (\<open>varint.rs\<close>), \<open>Properties\<close> (\<open>properties.rs\<close>), \<open>Encoders\<close> and
    \<open>Decoders\<close> (\<open>codec.rs\<close>). \<open>Encode_Facts\<close> shows that every encoder writes the wire format \<open>wire\<close> or
    reports \<open>BufferTooSmall\<close>, \<open>Roundtrip\<close> that the decoders read it back, \<open>Frames\<close> the absence of panics
    and the frame iterator, \<open>Decode_Types\<close> that what is decoded is well-formed; \<open>Codec_Theorems\<close> states
    the properties. \<open>Fuzz_Target\<close> has the fuzz target and says for which bytes it crashes.
  \<^item> \<open>mqtt-core\<close> and \<open>mqtt-storage\<close>: \<open>Core_Traits\<close> (\<open>traits.rs\<close>), \<open>Core_State\<close> (\<open>state.rs\<close>), \<open>Core_Error\<close> (\<open>error.rs\<close>),
    \<open>Core_Inflight\<close> (\<open>inflight.rs\<close>), \<open>Mem_Store\<close> (\<open>mem.rs\<close>). The tables refine bounded maps under the
    locales of \<open>Keyed_Table\<close>, which prove the histories of operations once; \<open>Table_Theorems\<close> states the
    properties, also of the inflight table of \<open>mqtt-embedded\<close>.
  \<^item> \<open>mqtt-embedded\<close>: \<open>Emb_Error\<close>, \<open>Emb_Inflight\<close>, \<open>Emb_Transport\<close>, \<open>Stream_Writer\<close>, \<open>Emb_Client\<close> and
    \<open>Emb_Quic\<close>, one per file of the crate and the QUIC client. \<open>Client_Facts\<close> proves the invariant and panic
    freedom from the locale \<open>transport_contract\<close>, \<open>Client_Send\<close>, \<open>Client_Stream\<close> and \<open>Client_Receive\<close> what
    each method puts on the stream, \<open>Client_Progress\<close> when sending succeeds, \<open>Client_Sessions\<close> what
    whole sessions do against a peer that takes everything; \<open>Client_Theorems\<close> and \<open>Session_Theorems\<close> state the
    properties, with the \<open>MockTransport\<close> of the repository's tests as the instance of the witnesses.
  \<^item> \<open>mqtt-tokio\<close>: \<open>Tokio_Types\<close>, \<open>Tokio_Options\<close>, \<open>Tokio_Transport\<close> (with \<open>fallback.rs\<close>),
    \<open>Async_Client\<close> (\<open>client.rs\<close>), \<open>Router\<close>, \<open>Sensor_Data\<close> and \<open>Data_Stream\<close> (\<open>stream.rs\<close>),
    \<open>Event_Loop\<close> (\<open>eventloop.rs\<close>). \<open>Router_Facts\<close> reads the trie as a map from filters to subscribers;
    \<open>Stream_Facts\<close> reads the reorder buffer as a sorted map. For the event loop, \<open>Loop_Facts\<close> proves the
    invariant and panic freedom of a connection cycle, \<open>Loop_Wire\<close> what single sends write, \<open>Loop_Sends\<close>
    whole batches and recoveries, \<open>Loop_Receive\<close> the reassembly of packets, \<open>Loop_Delivery\<close> the way of a message from one
    loop to the subscribers of another, \<open>Loop_Runs\<close> the requests, the
    back-off and the outer loop, \<open>Loop_Config\<close> that nothing changes the options, \<open>Loop_Life\<close> whole reconnections and
    the invariant of the task from one cycle to the next, under the locale \<open>network\<close> that \<open>Life_Theorems\<close> obtains from
    the contracts of the sockets \<open>connect_transport\<close> opens. \<open>Loop_Subscriptions\<close> follows the subscriptions
    through requests and arriving packets, of which only those with closed channels lose their place. The
    properties are in \<open>Router_Theorems\<close>, \<open>Stream_Theorems\<close>, \<open>Options_Theorems\<close>, \<open>Loop_Theorems\<close>,
    \<open>Loop_Subscriptions\<close> and \<open>Life_Theorems\<close>. \<open>Router_Theorems\<close> also records where the router
    differs from the MQTT specification (topics that start with a dollar sign) and which nodes a dispatch leaves.
  \<^item> \<open>mqtt-bridges\<close>: \<open>Bridges\<close>. Texts of all error types: \<open>Error_Texts\<close>.
  \<^item> The crates together: \<open>Interop\<close> sends messages from the embedded client to the tokio client and back;
    \<open>Stream_Delivery\<close> follows the payloads of a data stream from concurrent senders through both event
    loops to the consumer.
  \<^item> \<open>mqtt-async-embedded/examples\<close>: \<open>Embedded_Examples\<close> (\<open>esp32c3_uart_mqtt.rs\<close>,
    \<open>esp32_wifi_embassy.rs\<close>, \<open>realtime_stream.rs\<close>, \<open>stm32h7_embassy_mqtt.rs\<close>), \<open>Broker_Examples\<close>
    (\<open>multipacket_burst.rs\<close>, \<open>quic_client.rs\<close>), \<open>Adapter_Examples\<close> (\<open>desktop_mock.rs\<close>, \<open>esp8266_uart.rs\<close>,
    \<open>smoltcp_ethernet.rs\<close>) and \<open>Tokio_Examples\<close> (the programs on the tokio client). A main program is an
    action; its lemma runs it on its own simulated transport, or on a queue of requests, and says
    what was sent. The custom transports are interpretations of \<open>transport_contract\<close> or \<open>recording_peer\<close>.
\<close>

text \<open>
  How the parts interact. The tokio client sends a \<open>client_request\<close> and awaits a oneshot channel
  (\<open>Async_Client\<close>); the loop handles it (\<open>handle_client_request\<close>), which encodes packets with the codec
  into \<open>el_tx_buf\<close> and writes them to the boxed transport. Bytes read are appended to \<open>el_rx_buf\<close>; the frame
  iterator cuts them into packets, which become \<open>incoming_action\<close>s (\<open>process_received\<close>), and those answer
  the pending requests or go to the router (\<open>run_action\<close>). \<open>subscribe_stream\<close> and the data streams read the
  channels the router sends to. The embedded client has no task: each method encodes, sends and, when
  polled, receives one buffer and answers what is in it.

  Bounds. \<open>heapless\<close> vectors hold \<open>vec_cap = 8\<close> elements, packet contents are below \<open>2^28\<close> bytes (\<open>small\<close>,
  \<open>encodable\<close>): the encoders reserve four length bytes. \<open>BUF_SIZE\<close> and \<open>MAX_INFLIGHT\<close> are arguments.
  A \<open>usize\<close> is a natural number without a bound: lengths of data in memory cannot reach it, and the one sum with a
  number the caller chooses, the length of a streamed payload, is bounded in the property about it.
  No fuel is used: recursions over buffers carry a measure; the loops that may not end
  (\<open>flatten_next\<close>, \<open>parse_frames\<close>, \<open>connect_with_backoff\<close>, \<open>select_loop\<close>, \<open>run_loop\<close>) are partial
  functions in the option type, \<open>None\<close> is not returning, and the properties say of each whether it returns.
  Concurrent sends of one producer are a step relation (\<open>producer_step\<close>) over the multiset of calls under
  way, with one step for each access to shared state.

  Not modelled. Sockets, TLS and QUIC themselves, of which only what the adapters make of their results is
  (\<open>Emb_Transport\<close>, \<open>Emb_Quic\<close>, \<open>Tokio_Transport\<close>); the declarations in the traits of \<open>mqtt-core\<close> and \<open>mqtt-crypto\<close>, which have no code;
  re-exports; logging; the accessors \<open>topic\<close> and \<open>receiver_count\<close> of the bridges; scheduling, cancellation
  and memory ordering of the runtime beyond the interleavings of \<open>producer_step\<close>; the passing of time, which
  only appears as readings of the clock. The benchmarks and tests are programs
  that use the crates; the files of \<open>src/examples\<close> are copies of the modelled examples outside every package.
\<close>

end
